(* ===== verification/Prelude.thy ===== *)
theory Prelude
  imports Main "HOL-Library.Word" "HOL-Library.Char_ord" "HOL-Library.List_Lexorder"
    "HOL-Library.Sublist"
begin

text \<open>
  Shared vocabulary of the development: the machine types of the Rust sources, the few
  functions of the Rust standard library the components call (slices, strings, saturating
  and checked arithmetic, \<^verbatim>\<open>Result\<close>), the generic facts about them, and the interface of an
  incremental byte machine (a state that is fed a stream in arbitrary chunks).

  Conventions.  A Rust \<^verbatim>\<open>String\<close> is its UTF-8 byte sequence, an Isabelle \<open>string\<close>
  (an Isabelle \<open>char\<close> is one byte), so \<open>length\<close> is \<^verbatim>\<open>str::len\<close> and \<open><\<close> is Rust's
  byte-wise order.  A byte buffer \<^verbatim>\<open>Vec<u8>\<close> or array \<^verbatim>\<open>[u8; N]\<close> is a \<open>byte list\<close>.
  \<^verbatim>\<open>Result<T, E>\<close> is \<open>E + T\<close> with the error on the left.
\<close>

named_theorems res_simps \<open>rewriting of results and of early returns\<close>
named_theorems filter_defs \<open>definitions of the byte machines\<close>

type_synonym byte = "8 word"
type_synonym u8 = "8 word"
type_synonym u16 = "16 word"
type_synonym u32 = "32 word"
type_synonym u64 = "64 word"
type_synonym bytes = "byte list"

text \<open>The bytes of a string literal, Rust's \<^verbatim>\<open>b"..."\<close> and \<^verbatim>\<open>str::as_bytes\<close>.\<close>

definition ascii :: "string \<Rightarrow> bytes" where
  "ascii s = map (\<lambda>c. of_nat (of_char c)) s"


section \<open>Results and the question mark operator\<close>

fun res_bind :: "'e + 'a \<Rightarrow> ('a \<Rightarrow> 'e + 'b) \<Rightarrow> 'e + 'b" where
  "res_bind (Inl e) f = Inl e"
| "res_bind (Inr x) f = f x"

fun map_err :: "('e \<Rightarrow> 'f) \<Rightarrow> 'e + 'a \<Rightarrow> 'f + 'a" where
  "map_err g (Inl e) = Inl (g e)"
| "map_err g (Inr x) = Inr x"

definition ok_or :: "'e \<Rightarrow> 'a option \<Rightarrow> 'e + 'a" where
  "ok_or e opt = (case opt of None \<Rightarrow> Inl e | Some x \<Rightarrow> Inr x)"

definition is_ok :: "'e + 'a \<Rightarrow> bool" where
  "is_ok r = (case r of Inl _ \<Rightarrow> False | Inr _ \<Rightarrow> True)"

lemma res_bind_Inr_iff [res_simps]:
  "res_bind m f = Inr y \<longleftrightarrow> (\<exists>x. m = Inr x \<and> f x = Inr y)"
  by (cases m) auto

lemma res_bind_Inl_iff [res_simps]:
  "res_bind m f = Inl e \<longleftrightarrow> m = Inl e \<or> (\<exists>x. m = Inr x \<and> f x = Inl e)"
  by (cases m) auto

lemma map_err_Inr_iff [res_simps]: "map_err g m = Inr y \<longleftrightarrow> m = Inr y"
  by (cases m) auto

lemma map_err_Inl_iff [res_simps]: "map_err g m = Inl e \<longleftrightarrow> (\<exists>e'. m = Inl e' \<and> e = g e')"
  by (cases m) auto

lemma ok_or_Inr_iff [res_simps]: "ok_or e opt = Inr x \<longleftrightarrow> opt = Some x"
  by (cases opt) (auto simp: ok_or_def)

lemma ok_or_Inl_iff [res_simps]: "ok_or e opt = Inl e' \<longleftrightarrow> opt = None \<and> e' = e"
  by (cases opt) (auto simp: ok_or_def)

lemma is_ok_iff [res_simps]: "is_ok r \<longleftrightarrow> (\<exists>x. r = Inr x)"
  by (cases r) (auto simp: is_ok_def)

lemma is_ok_simps [simp]: "is_ok (Inr x)" "\<not> is_ok (Inl e)"
  by (simp_all add: is_ok_def)

text \<open>A unit result is its success, so checks compose as conjunctions.\<close>

lemma res_bind_unit_iff [res_simps]:
  "res_bind m f = Inr () \<longleftrightarrow> m = Inr () \<and> f () = Inr ()" for m :: "'e + unit"
  by (cases m) auto

fun for_each :: "('a \<Rightarrow> 'e + unit) \<Rightarrow> 'a list \<Rightarrow> 'e + unit" where
  "for_each f [] = Inr ()"
| "for_each f (x # xs) = res_bind (f x) (\<lambda>_. for_each f xs)"

lemma for_each_ok_iff [res_simps]: "for_each f xs = Inr () \<longleftrightarrow> (\<forall>x\<in>set xs. f x = Inr ())"
  by (induction xs) (auto simp: res_bind_unit_iff)

lemma for_each_err: "for_each f xs = Inl e \<Longrightarrow> \<exists>x\<in>set xs. f x = Inl e"
  by (induction xs) (auto simp: res_simps)

definition is_some :: "'a option \<Rightarrow> bool" where
  "is_some x = (case x of None \<Rightarrow> False | Some _ \<Rightarrow> True)"

lemma is_some_simps [simp]: "is_some (Some x)" "\<not> is_some None"
  by (simp_all add: is_some_def)

lemma is_some_iff: "is_some x \<longleftrightarrow> (\<exists>y. x = Some y)"
  by (cases x) auto

definition if_some :: "'a option \<Rightarrow> ('a \<Rightarrow> 'e + unit) \<Rightarrow> 'e + unit" where
  "if_some x f = (case x of None \<Rightarrow> Inr () | Some y \<Rightarrow> f y)"

lemma if_some_simps [simp]: "if_some None f = Inr ()" "if_some (Some y) f = f y"
  by (simp_all add: if_some_def)

lemma if_some_ok_iff [res_simps]: "if_some x f = Inr () \<longleftrightarrow> (\<forall>y. x = Some y \<longrightarrow> f y = Inr ())"
  by (cases x) auto

fun collect_results :: "('a \<Rightarrow> 'e + 'b) \<Rightarrow> 'a list \<Rightarrow> 'e + 'b list" where
  "collect_results f [] = Inr []"
| "collect_results f (x # xs) =
     res_bind (f x) (\<lambda>y. res_bind (collect_results f xs) (\<lambda>ys. Inr (y # ys)))"

lemma collect_results_ok_iff [res_simps]:
  "collect_results f xs = Inr ys \<longleftrightarrow> list_all2 (\<lambda>x y. f x = Inr y) xs ys"
  by (induction xs arbitrary: ys) (auto simp: res_simps list_all2_Cons1)

text \<open>The errors a fallible computation can return all satisfy \<open>P\<close>.\<close>

definition errs_in :: "('e \<Rightarrow> bool) \<Rightarrow> 'e + 'a \<Rightarrow> bool" where
  "errs_in P r \<longleftrightarrow> (\<forall>e. r = Inl e \<longrightarrow> P e)"

lemma errs_inD: "errs_in P r \<Longrightarrow> r = Inl e \<Longrightarrow> P e"
  by (simp add: errs_in_def)

lemma errs_in_simps [simp]: "errs_in P (Inr x)" "errs_in P (Inl e) \<longleftrightarrow> P e"
  by (simp_all add: errs_in_def)

lemma errs_in_bind [intro]:
  "errs_in P m \<Longrightarrow> (\<And>x. errs_in P (f x)) \<Longrightarrow> errs_in P (res_bind m f)"
  by (auto simp: errs_in_def res_simps)

lemma errs_in_if_some [intro]: "(\<And>y. errs_in P (f y)) \<Longrightarrow> errs_in P (if_some x f)"
  by (cases x) auto

lemma errs_in_for_each [intro]: "(\<And>x. errs_in P (f x)) \<Longrightarrow> errs_in P (for_each f xs)"
  by (auto simp: errs_in_def dest!: for_each_err)


section \<open>Order, prefixes and suffixes\<close>

datatype ordering = Less | Equal | Greater

definition cmp :: "'a::linorder \<Rightarrow> 'a \<Rightarrow> ordering" where
  "cmp a b = (if a < b then Less else if a = b then Equal else Greater)"

fun ordering_then :: "ordering \<Rightarrow> ordering \<Rightarrow> ordering" where
  "ordering_then Equal o2 = o2"
| "ordering_then o1 o2 = o1"

lemma cmp_simps [simp]:
  "cmp a b = Less \<longleftrightarrow> a < b" "cmp a b = Equal \<longleftrightarrow> a = b" "cmp a b = Greater \<longleftrightarrow> b < a"
  by (auto simp: cmp_def)

lemma ordering_then_Less [simp]:
  "ordering_then p q = Less \<longleftrightarrow> p = Less \<or> (p = Equal \<and> q = Less)"
  by (cases p) auto

lemma ordering_then_Equal [simp]: "ordering_then p q = Equal \<longleftrightarrow> p = Equal \<and> q = Equal"
  by (cases p) auto

text \<open>Adjacent pairs, Rust's \<^verbatim>\<open>slice::windows(2)\<close>.\<close>

fun windows2 :: "'a list \<Rightarrow> ('a \<times> 'a) list" where
  "windows2 (a # b # xs) = (a, b) # windows2 (b # xs)"
| "windows2 xs = []"

lemma windows2_sorted:
  assumes "transp R"
  shows "(\<forall>(a, b)\<in>set (windows2 xs). R a b) \<longleftrightarrow> sorted_wrt R xs"
proof (induction xs rule: windows2.induct)
  case (1 a b xs)
  have "(\<forall>x\<in>set (b # xs). R a x)" if "R a b" and "sorted_wrt R (b # xs)"
    using that assms by (auto dest: transpD)
  with 1 show ?case by auto
qed simp_all

definition starts_with :: "'a list \<Rightarrow> 'a list \<Rightarrow> bool" where
  "starts_with xs p = (take (length p) xs = p)"

definition ends_with :: "'a list \<Rightarrow> 'a list \<Rightarrow> bool" where
  "ends_with xs s = starts_with (rev xs) (rev s)"

definition strip_prefix :: "'a list \<Rightarrow> 'a list \<Rightarrow> 'a list option" where
  "strip_prefix p xs = (if starts_with xs p then Some (drop (length p) xs) else None)"

definition strip_suffix :: "'a list \<Rightarrow> 'a list \<Rightarrow> 'a list option" where
  "strip_suffix s xs = (if ends_with xs s then Some (take (length xs - length s) xs) else None)"

lemma starts_with_iff: "starts_with xs p \<longleftrightarrow> (\<exists>ys. xs = p @ ys)"
  unfolding starts_with_def by (metis append_eq_conv_conj append_take_drop_id)

lemma ends_with_iff: "ends_with xs s \<longleftrightarrow> (\<exists>ys. xs = ys @ s)"
  unfolding ends_with_def starts_with_iff
  by (metis rev_append rev_rev_ident)

lemma strip_prefix_Some_iff: "strip_prefix p xs = Some ys \<longleftrightarrow> xs = p @ ys"
  by (auto simp: strip_prefix_def starts_with_iff)

lemma strip_suffix_Some_iff: "strip_suffix s xs = Some ys \<longleftrightarrow> xs = ys @ s"
  by (auto simp: strip_suffix_def ends_with_iff)

lemma strip_prefix_None_iff: "strip_prefix p xs = None \<longleftrightarrow> \<not> starts_with xs p"
  by (auto simp: strip_prefix_def)

lemma strip_suffix_None_iff: "strip_suffix s xs = None \<longleftrightarrow> \<not> ends_with xs s"
  by (auto simp: strip_suffix_def)

lemma starts_with_trans: "starts_with xs p \<Longrightarrow> starts_with p q \<Longrightarrow> starts_with xs q"
  by (auto simp: starts_with_iff)

lemma starts_with_refl [simp]: "starts_with xs xs"
  by (simp add: starts_with_def)

text \<open>Rust's \<^verbatim>\<open>str::split(char)\<close>.\<close>

fun split_on :: "'a \<Rightarrow> 'a list \<Rightarrow> 'a list list" where
  "split_on c [] = [[]]"
| "split_on c (x # xs) =
     (if x = c then [] # split_on c xs
      else (case split_on c xs of [] \<Rightarrow> [[x]] | y # ys \<Rightarrow> (x # y) # ys))"

lemma split_on_nonempty [simp]: "split_on c xs \<noteq> []"
  by (induction xs) (auto split: list.splits)

text \<open>Rust's \<^verbatim>\<open>slice::join\<close>.\<close>

fun join :: "'a list \<Rightarrow> 'a list list \<Rightarrow> 'a list" where
  "join sep [] = []"
| "join sep [p] = p"
| "join sep (p # q # ps) = p @ sep @ join sep (q # ps)"

text \<open>
  Rust's \<^verbatim>\<open>str::trim\<close> on the UTF-8 bytes: the encodings of the characters with the Unicode
  property \<^verbatim>\<open>White_Space\<close> are stripped from both ends.
\<close>

definition white_space :: "string list" where
  "white_space =
     [[CHR 0x09], [CHR 0x0A], [CHR 0x0B], [CHR 0x0C], [CHR 0x0D], [CHR 0x20],
      [CHR 0xC2, CHR 0x85], [CHR 0xC2, CHR 0xA0], [CHR 0xE1, CHR 0x9A, CHR 0x80],
      [CHR 0xE2, CHR 0x80, CHR 0x80], [CHR 0xE2, CHR 0x80, CHR 0x81], [CHR 0xE2, CHR 0x80, CHR 0x82],
      [CHR 0xE2, CHR 0x80, CHR 0x83], [CHR 0xE2, CHR 0x80, CHR 0x84], [CHR 0xE2, CHR 0x80, CHR 0x85],
      [CHR 0xE2, CHR 0x80, CHR 0x86], [CHR 0xE2, CHR 0x80, CHR 0x87], [CHR 0xE2, CHR 0x80, CHR 0x88],
      [CHR 0xE2, CHR 0x80, CHR 0x89], [CHR 0xE2, CHR 0x80, CHR 0x8A], [CHR 0xE2, CHR 0x80, CHR 0xA8],
      [CHR 0xE2, CHR 0x80, CHR 0xA9], [CHR 0xE2, CHR 0x80, CHR 0xAF], [CHR 0xE2, CHR 0x81, CHR 0x9F],
      [CHR 0xE3, CHR 0x80, CHR 0x80]]"

function trim_leading :: "'a list list \<Rightarrow> 'a list \<Rightarrow> 'a list" where
  "trim_leading ws xs =
     (case find (\<lambda>w. w \<noteq> [] \<and> starts_with xs w) ws of
        Some w \<Rightarrow> trim_leading ws (drop (length w) xs)
      | None \<Rightarrow> xs)"
  by pat_completeness auto

termination
proof (relation "measure (\<lambda>(ws, xs). length xs)")
  fix ws and xs w :: "'a list"
  assume "find (\<lambda>w. w \<noteq> [] \<and> starts_with xs w) ws = Some w"
  then have "w \<noteq> []" and "starts_with xs w" by (auto simp: find_Some_iff)
  then show "((ws, drop (length w) xs), (ws, xs)) \<in> measure (\<lambda>(ws, xs). length xs)"
    by (auto simp: starts_with_iff)
qed simp

declare trim_leading.simps [simp del]

definition trim :: "string \<Rightarrow> string" where
  "trim s = rev (trim_leading (map rev white_space) (rev (trim_leading white_space s)))"

lemma trim_leading_id: "\<forall>w\<in>set ws. \<not> starts_with xs w \<Longrightarrow> trim_leading ws xs = xs"
  by (subst trim_leading.simps) (auto split: option.split simp: find_Some_iff)

text \<open>A string whose first and last byte cannot begin or end a white-space character.\<close>

lemma starts_with_hd: "starts_with xs (w # ws) \<Longrightarrow> xs \<noteq> [] \<and> hd xs = w"
  by (auto simp: starts_with_iff)

lemma trim_braces: "trim (CHR ''{'' # s @ ''}'') = CHR ''{'' # s @ ''}''"
proof -
  have "\<forall>w\<in>set white_space. \<not> starts_with (CHR ''{'' # t) w" for t
    by (auto simp: white_space_def dest!: starts_with_hd)
  moreover have "\<forall>w\<in>set (map rev white_space). \<not> starts_with (CHR ''}'' # t) w" for t
    by (auto simp: white_space_def dest!: starts_with_hd)
  ultimately show ?thesis by (simp add: trim_def trim_leading_id)
qed

text \<open>Rust's \<^verbatim>\<open>str::lines\<close>: split at newlines, a final empty piece dropped, a carriage return before
  the newline stripped.\<close>

definition chomp_cr :: "string \<Rightarrow> string" where
  "chomp_cr l = (case strip_suffix [CHR 0x0D] l of Some l' \<Rightarrow> l' | None \<Rightarrow> l)"

definition lines :: "string \<Rightarrow> string list" where
  "lines s =
     (let ps = split_on (CHR 0x0A) s in
      map chomp_cr (butlast ps) @ (if last ps = [] then [] else [last ps]))"

lemma split_on_append: "c \<notin> set xs \<Longrightarrow> split_on c (xs @ c # ys) = xs # split_on c ys"
  by (induction xs) auto

lemma lines_Nil [simp]: "lines [] = []"
  by (simp add: lines_def)

lemma lines_line: "CHR 0x0A \<notin> set l \<Longrightarrow> lines (l @ CHR 0x0A # rest) = chomp_cr l # lines rest"
  by (simp add: lines_def Let_def split_on_append)

text \<open>Rust's \<^verbatim>\<open>str::from_utf8\<close> accepts exactly the well-formed byte sequences of the Unicode standard.\<close>

definition utf8_cont :: "byte \<Rightarrow> bool" where
  "utf8_cont b \<longleftrightarrow> 0x80 \<le> b \<and> b \<le> 0xBF"

fun valid_utf8 :: "bytes \<Rightarrow> bool" where
  "valid_utf8 [] = True"
| "valid_utf8 (a # bs) =
     (if a < 0x80 then valid_utf8 bs
      else case bs of
        [] \<Rightarrow> False
      | b # cs \<Rightarrow>
          if 0xC2 \<le> a \<and> a \<le> 0xDF then utf8_cont b \<and> valid_utf8 cs
          else case cs of
            [] \<Rightarrow> False
          | c # ds \<Rightarrow>
              if a = 0xE0 then 0xA0 \<le> b \<and> b \<le> 0xBF \<and> utf8_cont c \<and> valid_utf8 ds
              else if a = 0xED then 0x80 \<le> b \<and> b \<le> 0x9F \<and> utf8_cont c \<and> valid_utf8 ds
              else if 0xE1 \<le> a \<and> a \<le> 0xEF then utf8_cont b \<and> utf8_cont c \<and> valid_utf8 ds
              else case ds of
                [] \<Rightarrow> False
              | d # es \<Rightarrow>
                  (if a = 0xF0 then 0x90 \<le> b \<and> b \<le> 0xBF
                   else if a = 0xF4 then 0x80 \<le> b \<and> b \<le> 0x8F
                   else 0xF1 \<le> a \<and> a \<le> 0xF3 \<and> utf8_cont b) \<and>
                  utf8_cont c \<and> utf8_cont d \<and> valid_utf8 es)"

lemma valid_utf8_ascii: "\<forall>b\<in>set bs. b < 0x80 \<Longrightarrow> valid_utf8 bs"
  by (induction bs) simp_all

text \<open>Decimal printing of unsigned integers, as \<^verbatim>\<open>format!\<close> does it.\<close>

fun decimal :: "nat \<Rightarrow> string" where
  "decimal n =
     (if n < 10 then [char_of (48 + n)] else decimal (n div 10) @ [char_of (48 + n mod 10)])"

declare decimal.simps [simp del]


section \<open>Saturating and checked machine arithmetic\<close>

definition saturating_add :: "'a::len word \<Rightarrow> 'a word \<Rightarrow> 'a word" where
  "saturating_add a b = (if 2 ^ LENGTH('a) \<le> unat a + unat b then - 1 else a + b)"

definition saturating_sub :: "'a::len word \<Rightarrow> 'a word \<Rightarrow> 'a word" where
  "saturating_sub a b = (if a < b then 0 else a - b)"

definition checked_add :: "'a::len word \<Rightarrow> 'a word \<Rightarrow> 'a word option" where
  "checked_add a b = (if 2 ^ LENGTH('a) \<le> unat a + unat b then None else Some (a + b))"

definition checked_sub :: "'a::len word \<Rightarrow> 'a word \<Rightarrow> 'a word option" where
  "checked_sub a b = (if a < b then None else Some (a - b))"

definition saturating_mul :: "'a::len word \<Rightarrow> 'a word \<Rightarrow> 'a word" where
  "saturating_mul a b = (if 2 ^ LENGTH('a) \<le> unat a * unat b then - 1 else a * b)"

text \<open>
  Executable forms that compare words instead of natural numbers.
\<close>

lemma unat_max: "unat (- 1 :: 'a::len word) = 2 ^ LENGTH('a) - 1"
  by (simp add: unsigned_minus_1_eq_mask mask_eq_exp_minus_1)

lemma unat_le_max: "unat (a :: 'a::len word) \<le> 2 ^ LENGTH('a) - 1"
  using unsigned_less [of a] by (simp add: Suc_le_eq le_diff_conv2)

lemma saturating_add_code [code]:
  "saturating_add a b = (if - 1 - a < b then - 1 else a + b)" for a :: "'a::len word"
proof -
  have "unat (- 1 - a) = 2 ^ LENGTH('a) - 1 - unat a"
    using unat_le_max [of a] by (simp add: unat_max unat_sub_if')
  moreover have "N \<le> unat a + unat b \<longleftrightarrow> N - 1 - unat a < unat b" if "0 < N" "unat a \<le> N - 1" for N
    using that by linarith
  ultimately have "2 ^ LENGTH('a) \<le> unat a + unat b \<longleftrightarrow> - 1 - a < b"
    using unat_le_max [of a] by (simp add: word_less_nat_alt)
  then show ?thesis by (simp add: saturating_add_def)
qed

lemma saturating_mul_code [code]:
  "saturating_mul a b = (if b \<noteq> 0 \<and> - 1 div b < a then - 1 else a * b)" for a :: "'a::len word"
proof (cases "b = 0")
  case False
  then have pos: "0 < unat b" by (simp add: unat_gt_0)
  have "unat (- 1 div b) = (2 ^ LENGTH('a) - 1) div unat b" by (simp add: unat_div unat_max)
  moreover have "(2 ^ LENGTH('a) - 1) div unat b < unat a \<longleftrightarrow> 2 ^ LENGTH('a) - 1 < unat a * unat b"
    by (rule div_less_iff_less_mult [OF pos])
  moreover have "2 ^ LENGTH('a) - 1 < n \<longleftrightarrow> 2 ^ LENGTH('a) \<le> n" for n :: nat
    using zero_less_power [of "2 :: nat" "LENGTH('a)"] by linarith
  ultimately show ?thesis using False by (simp add: saturating_mul_def word_less_nat_alt)
qed (simp add: saturating_mul_def)

lemma unat_saturating_add:
  "unat (saturating_add a b) = min (2 ^ LENGTH('a) - 1) (unat a + unat b)" for a :: "'a::len word"
  by (auto simp: saturating_add_def unat_word_ariths unsigned_minus_1_eq_mask mask_eq_exp_minus_1
      not_le)

lemma unat_saturating_mul:
  "unat (saturating_mul a b) = min (2 ^ LENGTH('a) - 1) (unat a * unat b)" for a :: "'a::len word"
proof (cases "2 ^ LENGTH('a) \<le> unat a * unat b")
  case False
  then have "unat (a * b) = unat a * unat b" by (simp add: unat_word_ariths)
  with False show ?thesis by (simp add: saturating_mul_def)
qed (simp add: saturating_mul_def unat_max)

lemma le_saturating_add: "a \<le> saturating_add a b" for a :: "'a::len word"
proof -
  have "unat a < 2 ^ LENGTH('a)" by (rule unsigned_less)
  then have "unat a \<le> 2 ^ LENGTH('a) - 1" by linarith
  then show ?thesis by (simp add: word_le_nat_alt unat_saturating_add)
qed

lemma unat_saturating_sub: "unat (saturating_sub a b) = unat a - unat b"
  by (auto simp: saturating_sub_def unat_sub_if' word_less_nat_alt not_less)

lemma unat_checked_add: "checked_add a b = Some c \<Longrightarrow> unat c = unat a + unat b"
  for a :: "'a::len word"
  by (auto simp: checked_add_def unat_word_ariths split: if_splits)

lemma unat_checked_sub: "checked_sub a b = Some c \<Longrightarrow> unat c + unat b = unat a"
  by (auto simp: checked_sub_def unat_sub_if' word_less_nat_alt split: if_splits)


section \<open>Incremental byte machines\<close>

text \<open>
  The terminal filters and decoders of the sources keep a small state between calls and are
  fed whatever chunk a read returned.  The interface: a step per byte that may emit bytes, a
  \<open>feed\<close> that runs the steps over a chunk, and an invariant every step keeps.  What a client
  relies on is that the chunking of the input cannot be observed.
\<close>

fun feed_all :: "('s \<Rightarrow> 'b list \<Rightarrow> 's \<times> 'b list) \<Rightarrow> 's \<Rightarrow> 'b list list \<Rightarrow> 's \<times> 'b list" where
  "feed_all feed s [] = (s, [])"
| "feed_all feed s (c # cs) =
     (let (s1, o1) = feed s c; (s2, o2) = feed_all feed s1 cs in (s2, o1 @ o2))"

locale byte_machine =
  fixes step :: "'s \<Rightarrow> byte \<Rightarrow> 's \<times> bytes"
    and feed :: "'s \<Rightarrow> bytes \<Rightarrow> 's \<times> bytes"
    and inv :: "'s \<Rightarrow> bool"
  assumes feed_Nil: "feed s [] = (s, [])"
    and feed_Cons: "feed s (b # bs) =
      (let (s1, o1) = step s b; (s2, o2) = feed s1 bs in (s2, o1 @ o2))"
    and step_inv: "inv s \<Longrightarrow> inv (fst (step s b))"
begin

lemma feed_append:
  "feed s (xs @ ys) = (let (s1, o1) = feed s xs; (s2, o2) = feed s1 ys in (s2, o1 @ o2))"
proof (induction xs arbitrary: s)
  case Nil
  then show ?case by (simp add: feed_Nil split: prod.splits)
next
  case (Cons b xs)
  then show ?case by (simp add: feed_Cons split: prod.splits)
qed

lemma feed_append_fst: "fst (feed s (xs @ ys)) = fst (feed (fst (feed s xs)) ys)"
  by (simp add: feed_append split: prod.splits)

lemma feed_append_snd:
  "snd (feed s (xs @ ys)) = snd (feed s xs) @ snd (feed (fst (feed s xs)) ys)"
  by (simp add: feed_append split: prod.splits)

lemma feed_inv: "inv s \<Longrightarrow> inv (fst (feed s bs))"
proof (induction bs arbitrary: s)
  case Nil
  then show ?case by (simp add: feed_Nil)
next
  case (Cons b bs)
  from Cons.prems have "inv (fst (step s b))" by (rule step_inv)
  then have "inv (fst (feed (fst (step s b)) bs))" by (rule Cons.IH)
  then show ?case by (auto simp: feed_Cons split: prod.splits)
qed

lemma feed_chunks: "feed_all feed s cs = feed s (concat cs)"
  by (induction cs arbitrary: s) (auto simp: feed_Nil feed_append split: prod.splits)

end

text \<open>
  The second list is the first with some segments, all satisfying the predicate, left out.
\<close>

inductive redacts :: "('a list \<Rightarrow> bool) \<Rightarrow> 'a list \<Rightarrow> 'a list \<Rightarrow> bool" for P where
  Nil: "redacts P [] []"
| keep: "redacts P xs ys \<Longrightarrow> redacts P (b # xs) (b # ys)"
| drop: "P q \<Longrightarrow> redacts P xs ys \<Longrightarrow> redacts P (q @ xs) ys"

lemma redacts_append: "redacts P xs ys \<Longrightarrow> redacts P us vs \<Longrightarrow> redacts P (xs @ us) (ys @ vs)"
  by (induction rule: redacts.induct) (auto intro: redacts.intros)

lemma redacts_refl [intro]: "redacts P xs xs"
  by (induction xs) (auto intro: redacts.intros)

lemma redacts_segment: "P q \<Longrightarrow> redacts P q []"
  using redacts.drop [OF _ redacts.Nil] by fastforce

text \<open>
  A byte machine that holds back part of its input and drops only segments of one kind.
\<close>

locale redacting_machine = byte_machine step feed inv
  for step :: "'s \<Rightarrow> byte \<Rightarrow> 's \<times> bytes" and feed :: "'s \<Rightarrow> bytes \<Rightarrow> 's \<times> bytes" and inv :: "'s \<Rightarrow> bool" +
  fixes held :: "'s \<Rightarrow> bytes" and dropped :: "bytes \<Rightarrow> bool"
  assumes step_redacts: "inv s \<Longrightarrow> \<exists>seen. held s @ [b] = seen @ held (fst (step s b)) \<and>
    redacts dropped seen (snd (step s b))"
begin

lemma feed_redacts:
  "inv s \<Longrightarrow> \<exists>seen. held s @ bs = seen @ held (fst (feed s bs)) \<and> redacts dropped seen (snd (feed s bs))"
proof (induction bs arbitrary: s)
  case Nil
  then show ?case by (auto simp: feed_Nil intro: redacts.Nil)
next
  case (Cons b bs)
  let ?s1 = "fst (step s b)"
  from step_redacts [OF Cons.prems] obtain u where
      u: "held s @ [b] = u @ held ?s1" "redacts dropped u (snd (step s b))" by blast
  from Cons.IH [OF step_inv [OF Cons.prems]] obtain v where
      v: "held ?s1 @ bs = v @ held (fst (feed ?s1 bs))" "redacts dropped v (snd (feed ?s1 bs))" by blast
  have "held s @ b # bs = (u @ v) @ held (fst (feed ?s1 bs))"
    using u(1) v(1) by (metis append.assoc append_Cons append_Nil)
  then show ?case using redacts_append [OF u(2) v(2)]
    by (auto simp: feed_Cons case_prod_beta Let_def intro!: exI [of _ "u @ v"])
qed

end

end
