(* ===== verification/Ticket_Schema.thy ===== *)
theory Ticket_Schema
  imports Prelude
begin

text \<open>
  The ticket data model (\<^verbatim>\<open>portl-core/src/ticket/schema.rs\<close>) and the crate's error type
  (\<^verbatim>\<open>error.rs\<close>): one record per struct, one datatype per enum, with the fields in the
  declared order, and the path rules of unix-socket forwarding.  Field names carry a
  two-letter prefix because record fields are global constants.  The type
  \<^verbatim>\<open>iroh_base::EndpointAddr\<close> is third-party: the sources read its endpoint id and carry the
  rest unchanged.
\<close>

type_synonym key32 = bytes
type_synonym ticket_hash = bytes
type_synonym signature = bytes

section \<open>Errors\<close>

datatype PortlError =
    Postcard
  | Base32 string
  | Canonical string
  | Signature string
  | Ticket string
  | Chain string
  | Clock string
  | Age string
  | Io string

section \<open>Capabilities\<close>

record PortRule =
  pr_host_glob :: string
  pr_port_min :: u16
  pr_port_max :: u16

datatype EnvPolicy =
    Deny
  | Merge "string list option"
  | Replace "(string \<times> string) list"

record ShellCaps =
  sh_user_allowlist :: "string list option"
  sh_pty_allowed :: bool
  sh_exec_allowed :: bool
  sh_command_allowlist :: "string list option"
  sh_env_policy :: EnvPolicy

record FsCaps =
  fs_roots :: "string list"
  fs_readonly :: bool
  fs_max_size :: "u64 option"

record VpnCaps =
  vp_my_ula :: bytes
  vp_peer_ula :: bytes
  vp_mtu :: u16

record MetaCaps =
  mt_ping :: bool
  mt_info :: bool

record UnixPathRule =
  up_path :: string

record UnixCaps =
  ux_connect :: "UnixPathRule list"
  ux_listen :: "UnixPathRule list"

record Capabilities =
  cp_presence :: u8
  cp_shell :: "ShellCaps option"
  cp_tcp :: "PortRule list option"
  cp_udp :: "PortRule list option"
  cp_fs :: "FsCaps option"
  cp_vpn :: "VpnCaps option"
  cp_meta :: "MetaCaps option"
  cp_unix :: "UnixCaps option"

definition TCP_LISTEN_CAP_BIT :: u8 where
  "TCP_LISTEN_CAP_BIT = 128"

section \<open>Tickets\<close>

record Delegation =
  dl_parent_ticket_id :: ticket_hash
  dl_depth_remaining :: u8

record PortlBody =
  bd_caps :: Capabilities
  bd_target :: key32
  bd_alpns_extra :: "string list"
  bd_not_before :: u64
  bd_not_after :: u64
  bd_issuer :: "key32 option"
  bd_parent :: "Delegation option"
  bd_nonce :: bytes
  bd_bearer :: "bytes option"
  bd_to :: "key32 option"

record EndpointAddr =
  ea_id :: key32
  ea_transport :: "bytes list"

record PortlTicket =
  tk_v :: u8
  tk_addr :: EndpointAddr
  tk_body :: PortlBody
  tk_sig :: signature


section \<open>Unix path rules\<close>

text \<open>
  \<^verbatim>\<open>std::path::Path::components\<close> on Unix: empty segments are skipped, a \<^verbatim>\<open>.\<close> segment
  is kept only at the start of a relative path, \<^verbatim>\<open>..\<close> is kept.
\<close>

datatype component = RootDir | CurDir | ParentDir | Normal string

fun segment_components :: "string list \<Rightarrow> component list" where
  "segment_components [] = []"
| "segment_components (seg # segs) =
     (if seg = '''' \<or> seg = ''.'' then segment_components segs
      else if seg = ''..'' then ParentDir # segment_components segs
      else Normal seg # segment_components segs)"

definition path_components :: "string \<Rightarrow> component list" where
  "path_components p =
     (if starts_with p ''/'' then RootDir # segment_components (split_on (CHR ''/'') p)
      else if hd (split_on (CHR ''/'') p) = ''.'' then
        CurDir # segment_components (tl (split_on (CHR ''/'') p))
      else segment_components (split_on (CHR ''/'') p))"

definition unix_socket_path_is_safe :: "string \<Rightarrow> bool" where
  "unix_socket_path_is_safe path =
     (if path = '''' \<or> CHR 0x00 \<in> set path \<or> \<not> starts_with path ''/'' then False
      else list_all (\<lambda>c. case c of RootDir \<Rightarrow> True | Normal _ \<Rightarrow> True | _ \<Rightarrow> False)
             (path_components path))"

definition is_narrow_unix_glob :: "string \<Rightarrow> bool" where
  "is_narrow_unix_glob pfx =
     (starts_with pfx ''/'' \<and> length pfx \<ge> 6 \<and> pfx \<noteq> ''/tmp/'' \<and> pfx \<noteq> ''/var/'')"

definition validate_unix_path_rule :: "string \<Rightarrow> bool \<Rightarrow> string + unit" where
  "validate_unix_path_rule spec allow_broad_wildcard =
     (if spec = '''' then Inl ''unix path rule must not be empty''
      else if spec = ''*'' then
        (if allow_broad_wildcard then Inr ()
         else Inl ''broad unix wildcard is only available through the dev/all shortcut'')
      else (case strip_suffix ''*'' spec of
          Some pfx \<Rightarrow>
            if unix_socket_path_is_safe pfx \<and> is_narrow_unix_glob pfx then Inr ()
            else Inl ''unix path glob must have a narrow absolute prefix''
        | None \<Rightarrow>
            if unix_socket_path_is_safe spec then Inr ()
            else Inl ''unix path rule must be absolute and must not contain . or .. components''))"

definition is_valid_rule :: "UnixPathRule \<Rightarrow> bool \<Rightarrow> bool" where
  "is_valid_rule r allow_broad_wildcard =
     is_ok (validate_unix_path_rule (up_path r) allow_broad_wildcard)"

definition matches_path :: "UnixPathRule \<Rightarrow> string \<Rightarrow> bool" where
  "matches_path r path =
     (if \<not> unix_socket_path_is_safe path then False
      else if up_path r = ''*'' then True
      else (case strip_suffix ''*'' (up_path r) of
          Some pfx \<Rightarrow> is_narrow_unix_glob pfx \<and> starts_with path pfx
        | None \<Rightarrow> up_path r = path))"

definition covers :: "UnixPathRule \<Rightarrow> UnixPathRule \<Rightarrow> bool" where
  "covers r child =
     (if \<not> is_valid_rule r True \<or> \<not> is_valid_rule child True then False
      else if up_path r = ''*'' \<or> up_path r = up_path child then True
      else (case strip_suffix ''*'' (up_path r) of
          None \<Rightarrow> False
        | Some parent_prefix \<Rightarrow>
            (case strip_suffix ''*'' (up_path child) of
                Some child_prefix \<Rightarrow>
                  is_narrow_unix_glob parent_prefix \<and> starts_with child_prefix parent_prefix
              | None \<Rightarrow> matches_path r (up_path child))))"


subsection \<open>What a path rule admits\<close>

lemma safe_path_absolute: "unix_socket_path_is_safe p \<Longrightarrow> \<exists>q. p = CHR ''/'' # q"
  by (auto simp: unix_socket_path_is_safe_def starts_with_iff split: if_splits)

lemma segment_components_ParentDir:
  "ParentDir \<in> set (segment_components segs) \<longleftrightarrow> ''..'' \<in> set segs"
  by (induction segs) auto

lemma segment_components_kinds:
  "c \<in> set (segment_components segs) \<Longrightarrow> c = ParentDir \<or> (\<exists>s. c = Normal s)"
  by (induction segs) (auto split: if_splits)

lemma safe_path_iff:
  "unix_socket_path_is_safe p \<longleftrightarrow>
     starts_with p ''/'' \<and> CHR 0x00 \<notin> set p \<and> ''..'' \<notin> set (split_on (CHR ''/'') p)"
proof (cases "starts_with p ''/''")
  case True
  then have ne: "p \<noteq> ''''" by (auto simp: starts_with_iff)
  have "list_all (\<lambda>c. case c of RootDir \<Rightarrow> True | Normal _ \<Rightarrow> True | _ \<Rightarrow> False)
          (segment_components segs) \<longleftrightarrow> ParentDir \<notin> set (segment_components segs)" for segs
    using segment_components_kinds [of _ segs]
    by (force simp: list_all_iff split: component.splits)
  with True ne show ?thesis
    by (simp add: unix_socket_path_is_safe_def path_components_def segment_components_ParentDir)
next
  case False
  then show ?thesis by (simp add: unix_socket_path_is_safe_def)
qed

lemma rule_eqI: "up_path r = up_path c \<Longrightarrow> r = c" for r :: UnixPathRule
  by (cases r, cases c) simp

lemma matches_path_safe: "matches_path r p \<Longrightarrow> unix_socket_path_is_safe p"
  by (auto simp: matches_path_def split: if_splits)

lemma covers_valid: "covers r c \<Longrightarrow> is_valid_rule r True \<and> is_valid_rule c True"
  by (auto simp: covers_def split: if_splits)

lemma covers_cases:
  assumes "covers r c"
  obtains (wild) "up_path r = ''*''"
  | (same) "up_path r = up_path c"
  | (glob_glob) p q where "up_path r = p @ ''*''" "up_path c = q @ ''*''"
      "is_narrow_unix_glob p" "starts_with q p"
  | (glob_path) p where "up_path r = p @ ''*''" "\<not> ends_with (up_path c) ''*''"
      "matches_path r (up_path c)"
  using assms
  by (auto simp: covers_def strip_suffix_Some_iff strip_suffix_None_iff
      split: if_splits option.splits)

lemma matches_path_cases:
  assumes "matches_path r p"
  obtains (wild) "up_path r = ''*''" "unix_socket_path_is_safe p"
  | (glob) q where "up_path r = q @ ''*''" "is_narrow_unix_glob q" "starts_with p q"
      "unix_socket_path_is_safe p"
  | (same) "up_path r = p" "\<not> ends_with p ''*''" "unix_socket_path_is_safe p"
  using assms
  by (auto simp: matches_path_def strip_suffix_Some_iff strip_suffix_None_iff
      split: if_splits option.splits)

lemma matches_path_globI:
  "up_path r = q @ ''*'' \<Longrightarrow> is_narrow_unix_glob q \<Longrightarrow> starts_with p q \<Longrightarrow>
   unix_socket_path_is_safe p \<Longrightarrow> matches_path r p"
  by (auto simp: matches_path_def strip_suffix_def ends_with_iff)

text \<open>Covering is sound for matching: a covered rule admits no path its parent refuses.\<close>

lemma covers_sound:
  assumes "covers r c" and "matches_path c p"
  shows "matches_path r p"
  using assms(1)
proof (cases rule: covers_cases)
  case wild
  then show ?thesis using matches_path_safe [OF assms(2)] by (simp add: matches_path_def)
next
  case same
  then show ?thesis using assms(2) by (auto dest: rule_eqI)
next
  case (glob_glob q q')
  from assms(2) glob_glob show ?thesis
    by (cases rule: matches_path_cases)
       (auto intro!: matches_path_globI [of r q] intro: starts_with_trans
             simp: is_narrow_unix_glob_def ends_with_iff starts_with_iff)
next
  case (glob_path q)
  from assms(2) have "up_path c = p"
    using glob_path(2) by (cases rule: matches_path_cases) (auto simp: ends_with_iff)
  with glob_path(3) show ?thesis by simp
qed

lemma covers_trans:
  assumes "covers a b" and "covers b c"
  shows "covers a c"
  using assms(1)
proof (cases rule: covers_cases)
  case wild
  then show ?thesis using covers_valid [OF assms(1)] covers_valid [OF assms(2)]
    by (simp add: covers_def)
next
  case same
  then show ?thesis using assms(2) by (auto dest: rule_eqI)
next
  case (glob_glob p q)
  note ab = this
  from assms(2) show ?thesis
  proof (cases rule: covers_cases)
    case same
    then show ?thesis using assms(1) by (auto dest: rule_eqI)
  next
    case (glob_path q')
    then have "matches_path a (up_path c)" using covers_sound [OF assms(1)] by blast
    then show ?thesis using ab glob_path covers_valid [OF assms(1)] covers_valid [OF assms(2)]
      by (auto simp: covers_def strip_suffix_def ends_with_iff)
  qed (use ab covers_valid [OF assms(1)] covers_valid [OF assms(2)] in
        \<open>auto simp: covers_def strip_suffix_def ends_with_iff is_narrow_unix_glob_def
               starts_with_iff\<close>)
next
  case (glob_path p)
  from assms(2) have "b = c"
    by (cases rule: covers_cases) (use glob_path(2) in \<open>auto simp: ends_with_iff intro: rule_eqI\<close>)
  then show ?thesis using assms(1) by simp
qed

lemma covers_refl: "is_valid_rule r True \<Longrightarrow> covers r r"
  by (simp add: covers_def)

end
