(* ===== verification/Ticket_Canonical.thy ===== *)
theory Ticket_Canonical
  imports Ticket_Schema
begin

text \<open>
  Canonical form of a ticket (\<^verbatim>\<open>portl-core/src/ticket/canonical.rs\<close>).  The check runs on
  every mint, encode, decode and verification.  The definitions below keep the order of the
  checks and the message of every failure; \<open>canonical_body\<close> states what the form is, and
  the characterisations at the end say that the check accepts exactly the canonical bodies.
\<close>

unbundle bit_operations_syntax

definition MAX_TTL_SECONDS :: u64 where
  "MAX_TTL_SECONDS = 365 * 86400"

definition check_presence_bitmap :: "Capabilities \<Rightarrow> PortlError + unit" where
  "check_presence_bitmap caps =
     (let expected =
        of_bool (is_some (cp_shell caps))
        OR push_bit 1 (of_bool (is_some (cp_tcp caps)))
        OR push_bit 2 (of_bool (is_some (cp_udp caps)))
        OR push_bit 3 (of_bool (is_some (cp_fs caps)))
        OR push_bit 4 (of_bool (is_some (cp_vpn caps)))
        OR push_bit 5 (of_bool (is_some (cp_meta caps)))
        OR push_bit 6 (of_bool (is_some (cp_unix caps)))
        OR (cp_presence caps AND TCP_LISTEN_CAP_BIT)
      in if cp_presence caps \<noteq> expected then
           Inl (Canonical ''presence bitmap does not match Some-set'')
         else if cp_presence caps AND TCP_LISTEN_CAP_BIT \<noteq> 0 \<and> \<not> is_some (cp_tcp caps) then
           Inl (Canonical ''tcp listen flag requires tcp caps'')
         else Inr ())"

definition portrule_ord :: "PortRule \<Rightarrow> PortRule \<Rightarrow> ordering" where
  "portrule_ord a b =
     ordering_then (ordering_then (cmp (pr_host_glob a) (pr_host_glob b))
                                  (cmp (pr_port_min a) (pr_port_min b)))
                   (cmp (pr_port_max a) (pr_port_max b))"

definition check_sorted_unique_port_rules :: "PortRule list \<Rightarrow> PortlError + unit" where
  "check_sorted_unique_port_rules rules =
     for_each (\<lambda>(a, b). case portrule_ord a b of
         Less \<Rightarrow> Inr ()
       | Equal \<Rightarrow> Inl (Canonical ''duplicate port rule'')
       | Greater \<Rightarrow> Inl (Canonical ''port rules not sorted'')) (windows2 rules)"

definition check_sorted_unique_unix_path_rules ::
  "UnixPathRule list \<Rightarrow> string \<Rightarrow> PortlError + unit" where
  "check_sorted_unique_unix_path_rules rules tag =
     res_bind (for_each (\<lambda>rule.
         if \<not> is_ok (validate_unix_path_rule (up_path rule) True) then
           Inl (Canonical (if tag = ''unix.connect'' then ''invalid unix.connect path rule''
                           else if tag = ''unix.listen'' then ''invalid unix.listen path rule''
                           else ''invalid unix path rule''))
         else Inr ()) rules)
       (\<lambda>_. for_each (\<lambda>(a, b). case cmp (up_path a) (up_path b) of
           Less \<Rightarrow> Inr ()
         | Equal \<Rightarrow>
             Inl (Canonical (if tag = ''unix.connect'' then ''duplicate unix.connect path rule''
                             else if tag = ''unix.listen'' then ''duplicate unix.listen path rule''
                             else ''duplicate unix path rule''))
         | Greater \<Rightarrow>
             Inl (Canonical (if tag = ''unix.connect'' then ''unix.connect path rules not sorted''
                             else if tag = ''unix.listen'' then ''unix.listen path rules not sorted''
                             else ''unix path rules not sorted''))) (windows2 rules))"

definition check_sorted_unique_strings :: "string list \<Rightarrow> string \<Rightarrow> PortlError + unit" where
  "check_sorted_unique_strings vs tag =
     for_each (\<lambda>(a, b). case cmp a b of
         Less \<Rightarrow> Inr ()
       | Equal \<Rightarrow>
           Inl (Canonical
             (if tag = ''fs.roots'' then ''duplicate fs.roots entry''
              else if tag = ''shell.user_allowlist'' then ''duplicate shell.user_allowlist entry''
              else if tag = ''shell.command_allowlist'' then
                ''duplicate shell.command_allowlist entry''
              else if tag = ''env.allow'' then ''duplicate env.allow entry''
              else ''duplicate string entry''))
       | Greater \<Rightarrow>
           Inl (Canonical
             (if tag = ''fs.roots'' then ''fs.roots not sorted''
              else if tag = ''shell.user_allowlist'' then ''shell.user_allowlist not sorted''
              else if tag = ''shell.command_allowlist'' then
                ''shell.command_allowlist not sorted''
              else if tag = ''env.allow'' then ''env.allow not sorted''
              else ''string vec not sorted''))) (windows2 vs)"

definition check_shell_caps_sorted :: "ShellCaps \<Rightarrow> PortlError + unit" where
  "check_shell_caps_sorted s =
     res_bind (if_some (sh_user_allowlist s)
                 (\<lambda>v. check_sorted_unique_strings v ''shell.user_allowlist''))
     (\<lambda>_. res_bind (if_some (sh_command_allowlist s)
                 (\<lambda>v. check_sorted_unique_strings v ''shell.command_allowlist''))
     (\<lambda>_. case sh_env_policy s of
         Deny \<Rightarrow> Inr ()
       | Merge None \<Rightarrow> Inr ()
       | Merge (Some v) \<Rightarrow> check_sorted_unique_strings v ''env.allow''
       | Replace base \<Rightarrow>
           for_each (\<lambda>(a, b). case cmp (fst a) (fst b) of
               Less \<Rightarrow> Inr ()
             | Equal \<Rightarrow> Inl (Canonical ''duplicate env.replace key'')
             | Greater \<Rightarrow> Inl (Canonical ''env.replace not sorted by key''))
             (windows2 base)))"

definition canonical_check :: "PortlBody \<Rightarrow> PortlError + unit" where
  "canonical_check body =
     res_bind (check_presence_bitmap (bd_caps body))
     (\<lambda>_. res_bind (if_some (cp_tcp (bd_caps body)) check_sorted_unique_port_rules)
     (\<lambda>_. res_bind (if_some (cp_udp (bd_caps body)) check_sorted_unique_port_rules)
     (\<lambda>_. res_bind (if_some (cp_fs (bd_caps body))
                 (\<lambda>fs. check_sorted_unique_strings (fs_roots fs) ''fs.roots''))
     (\<lambda>_. res_bind (if_some (cp_shell (bd_caps body)) check_shell_caps_sorted)
     (\<lambda>_. res_bind (if_some (cp_unix (bd_caps body)) (\<lambda>unix.
            res_bind (check_sorted_unique_unix_path_rules (ux_connect unix) ''unix.connect'')
              (\<lambda>_. check_sorted_unique_unix_path_rules (ux_listen unix) ''unix.listen'')))
     (\<lambda>_. if bd_alpns_extra body \<noteq> [] then
            Inl (Canonical ''alpns_extra must be empty in v0.1'')
          else if bd_not_after body \<le> bd_not_before body then
            Inl (Canonical ''not_after must be > not_before'')
          else if saturating_sub (bd_not_after body) (bd_not_before body) > MAX_TTL_SECONDS then
            Inl (Canonical ''ttl exceeds 365 days'')
          else if bd_nonce body = replicate 8 0 then
            Inl (Canonical ''nonce must be non-zero'')
          else if bd_bearer body = Some [] then
            Inl (Canonical ''bearer must be Some(non-empty) or None'')
          else Inr ()))))))"

definition canonical_check_ticket :: "PortlTicket \<Rightarrow> PortlError + unit" where
  "canonical_check_ticket ticket =
     res_bind (canonical_check (tk_body ticket))
     (\<lambda>_. if bd_target (tk_body ticket) \<noteq> ea_id (tk_addr ticket) then
            Inl (Canonical ''body.target does not match addr.endpoint_id'')
          else if bd_issuer (tk_body ticket) = Some (ea_id (tk_addr ticket)) then
            Inl (Canonical ''issuer equals addr.endpoint_id; MUST use None (rule 1)'')
          else Inr ())"

definition resolved_issuer :: "PortlTicket \<Rightarrow> key32" where
  "resolved_issuer ticket =
     (case bd_issuer (tk_body ticket) of None \<Rightarrow> ea_id (tk_addr ticket) | Some k \<Rightarrow> k)"


section \<open>The canonical form\<close>

text \<open>The order on port rules, and the form itself as a predicate.\<close>

definition portrule_less :: "PortRule \<Rightarrow> PortRule \<Rightarrow> bool" where
  "portrule_less a b \<longleftrightarrow> portrule_ord a b = Less"

definition presence_agrees :: "Capabilities \<Rightarrow> bool" where
  "presence_agrees c \<longleftrightarrow>
     (bit (cp_presence c) 0 \<longleftrightarrow> is_some (cp_shell c)) \<and>
     (bit (cp_presence c) 1 \<longleftrightarrow> is_some (cp_tcp c)) \<and>
     (bit (cp_presence c) 2 \<longleftrightarrow> is_some (cp_udp c)) \<and>
     (bit (cp_presence c) 3 \<longleftrightarrow> is_some (cp_fs c)) \<and>
     (bit (cp_presence c) 4 \<longleftrightarrow> is_some (cp_vpn c)) \<and>
     (bit (cp_presence c) 5 \<longleftrightarrow> is_some (cp_meta c)) \<and>
     (bit (cp_presence c) 6 \<longleftrightarrow> is_some (cp_unix c)) \<and>
     (bit (cp_presence c) 7 \<longrightarrow> is_some (cp_tcp c))"

definition canonical_env :: "EnvPolicy \<Rightarrow> bool" where
  "canonical_env e \<longleftrightarrow> (case e of
       Deny \<Rightarrow> True
     | Merge None \<Rightarrow> True
     | Merge (Some v) \<Rightarrow> sorted_wrt (<) v
     | Replace base \<Rightarrow> sorted_wrt (<) (map fst base))"

definition canonical_unix_rules :: "UnixPathRule list \<Rightarrow> bool" where
  "canonical_unix_rules rules \<longleftrightarrow>
     (\<forall>r\<in>set rules. is_valid_rule r True) \<and> sorted_wrt (<) (map up_path rules)"

definition canonical_caps :: "Capabilities \<Rightarrow> bool" where
  "canonical_caps c \<longleftrightarrow> presence_agrees c \<and>
     (\<forall>rules. cp_tcp c = Some rules \<longrightarrow> sorted_wrt portrule_less rules) \<and>
     (\<forall>rules. cp_udp c = Some rules \<longrightarrow> sorted_wrt portrule_less rules) \<and>
     (\<forall>fs. cp_fs c = Some fs \<longrightarrow> sorted_wrt (<) (fs_roots fs)) \<and>
     (\<forall>s. cp_shell c = Some s \<longrightarrow>
        (\<forall>v. sh_user_allowlist s = Some v \<longrightarrow> sorted_wrt (<) v) \<and>
        (\<forall>v. sh_command_allowlist s = Some v \<longrightarrow> sorted_wrt (<) v) \<and>
        canonical_env (sh_env_policy s)) \<and>
     (\<forall>u. cp_unix c = Some u \<longrightarrow>
        canonical_unix_rules (ux_connect u) \<and> canonical_unix_rules (ux_listen u))"

definition canonical_body :: "PortlBody \<Rightarrow> bool" where
  "canonical_body b \<longleftrightarrow> canonical_caps (bd_caps b) \<and> bd_alpns_extra b = [] \<and>
     bd_not_before b < bd_not_after b \<and>
     unat (bd_not_after b) - unat (bd_not_before b) \<le> 365 * 86400 \<and>
     bd_nonce b \<noteq> replicate 8 0 \<and> bd_bearer b \<noteq> Some []"

definition canonical_ticket :: "PortlTicket \<Rightarrow> bool" where
  "canonical_ticket t \<longleftrightarrow> canonical_body (tk_body t) \<and>
     bd_target (tk_body t) = ea_id (tk_addr t) \<and>
     bd_issuer (tk_body t) \<noteq> Some (ea_id (tk_addr t))"


section \<open>Characterisation of the checks\<close>

lemma portrule_less_iff:
  "portrule_less a b \<longleftrightarrow>
     pr_host_glob a < pr_host_glob b \<or>
     (pr_host_glob a = pr_host_glob b \<and>
       (pr_port_min a < pr_port_min b \<or>
        (pr_port_min a = pr_port_min b \<and> pr_port_max a < pr_port_max b)))"
  by (auto simp: portrule_less_def portrule_ord_def)

lemma transp_portrule_less: "transp portrule_less"
  by (rule transpI) (auto simp: portrule_less_iff)

lemma ordering_case_ok:
  "e1 \<noteq> Inr () \<Longrightarrow> e2 \<noteq> Inr () \<Longrightarrow>
   (case x of Less \<Rightarrow> Inr () | Equal \<Rightarrow> e1 | Greater \<Rightarrow> e2) = Inr () \<longleftrightarrow> x = Less"
  by (cases x) auto

lemma windows2_check_ok:
  assumes "transp R" and "\<And>a b. f (a, b) = Inr () \<longleftrightarrow> R a b"
  shows "for_each f (windows2 xs) = Inr () \<longleftrightarrow> sorted_wrt R xs"
  unfolding for_each_ok_iff windows2_sorted [OF assms(1), symmetric]
  using assms(2) by auto

lemma check_sorted_unique_port_rules_ok [res_simps]:
  "check_sorted_unique_port_rules rules = Inr () \<longleftrightarrow> sorted_wrt portrule_less rules"
  unfolding check_sorted_unique_port_rules_def
  by (rule windows2_check_ok [OF transp_portrule_less])
     (simp add: portrule_less_def split: ordering.split)

lemma check_sorted_unique_strings_ok [res_simps]:
  "check_sorted_unique_strings vs tag = Inr () \<longleftrightarrow> sorted_wrt (<) vs"
  unfolding check_sorted_unique_strings_def
  by (rule windows2_check_ok) (auto simp: ordering_case_ok)

lemma check_sorted_unique_unix_path_rules_ok [res_simps]:
  "check_sorted_unique_unix_path_rules rules tag = Inr () \<longleftrightarrow> canonical_unix_rules rules"
proof -
  have R: "transp (\<lambda>a b. up_path a < up_path b)" by (rule transpI) auto
  show ?thesis
    unfolding check_sorted_unique_unix_path_rules_def canonical_unix_rules_def res_bind_unit_iff
    by (subst windows2_check_ok [OF R])
       (auto simp: ordering_case_ok for_each_ok_iff is_valid_rule_def sorted_wrt_map
         split: if_splits)
qed

lemma check_shell_caps_sorted_ok [res_simps]:
  "check_shell_caps_sorted s = Inr () \<longleftrightarrow>
     (\<forall>v. sh_user_allowlist s = Some v \<longrightarrow> sorted_wrt (<) v) \<and>
     (\<forall>v. sh_command_allowlist s = Some v \<longrightarrow> sorted_wrt (<) v) \<and>
     canonical_env (sh_env_policy s)"
proof -
  have R: "transp (\<lambda>(a :: string \<times> string) b. fst a < fst b)" by (rule transpI) auto
  have W: "for_each (\<lambda>(a, b). case cmp (fst a) (fst b) of
               Less \<Rightarrow> Inr ()
             | Equal \<Rightarrow> Inl (Canonical ''duplicate env.replace key'')
             | Greater \<Rightarrow> Inl (Canonical ''env.replace not sorted by key'')) (windows2 base) = Inr ()
      \<longleftrightarrow> sorted_wrt (<) (map fst base)" for base :: "(string \<times> string) list"
    by (subst windows2_check_ok [OF R]) (auto simp: ordering_case_ok sorted_wrt_map)
  show ?thesis
    unfolding check_shell_caps_sorted_def res_bind_unit_iff if_some_ok_iff
      check_sorted_unique_strings_ok canonical_env_def
    by (cases "sh_env_policy s")
       (simp_all add: W check_sorted_unique_strings_ok split: option.split)
qed

lemma of_bool_bit_0: "bit (of_bool P :: 'a::len word) n \<longleftrightarrow> P \<and> n = 0"
  by (cases P) (auto simp: bit_1_iff)

lemma bit_listen_cap: "bit TCP_LISTEN_CAP_BIT n \<longleftrightarrow> n = 7"
proof -
  have eq: "TCP_LISTEN_CAP_BIT = push_bit 7 1" by (simp add: TCP_LISTEN_CAP_BIT_def)
  show ?thesis by (simp only: eq bit_push_bit_iff bit_1_iff) auto
qed

lemma word8_eq_iff_bits:
  "a = b \<longleftrightarrow> (\<forall>n\<in>{0, 1, 2, 3, 4, 5, 6, 7}. bit a n = bit b n)" for a b :: u8
proof -
  have "a = b \<longleftrightarrow> (\<forall>n<8. bit a n = bit b n)"
    by (auto intro!: bit_word_eqI)
  moreover have "n < 8 \<longleftrightarrow> n \<in> {0, 1, 2, 3, 4, 5, 6, 7}" for n :: nat by auto
  ultimately show ?thesis by blast
qed

lemma listen_bit_set: "p AND TCP_LISTEN_CAP_BIT = 0 \<longleftrightarrow> \<not> bit p 7"
  by (simp add: word8_eq_iff_bits bit_and_iff bit_listen_cap)

lemma check_presence_bitmap_ok [res_simps]:
  "check_presence_bitmap c = Inr () \<longleftrightarrow> presence_agrees c"
  unfolding check_presence_bitmap_def presence_agrees_def Let_def
  by (auto simp: word8_eq_iff_bits listen_bit_set bit_or_iff bit_and_iff bit_push_bit_iff
      of_bool_bit_0 bit_listen_cap)

lemma canonical_check_ok [res_simps]: "canonical_check b = Inr () \<longleftrightarrow> canonical_body b"
  unfolding canonical_check_def canonical_body_def canonical_caps_def
  by (auto simp: res_simps word_less_nat_alt word_le_nat_alt unat_saturating_sub
      MAX_TTL_SECONDS_def split: if_splits)

lemma canonical_check_ticket_ok [res_simps]:
  "canonical_check_ticket t = Inr () \<longleftrightarrow> canonical_ticket t"
  unfolding canonical_check_ticket_def canonical_ticket_def
  by (auto simp: res_simps split: if_splits)

text \<open>Every failure of the check is reported as a canonical-form violation.\<close>

lemma canonical_check_ticket_errors:
  "errs_in (\<lambda>e. \<exists>msg. e = Canonical msg) (canonical_check_ticket t)"
proof -
  have "errs_in (\<lambda>e. \<exists>msg. e = Canonical msg) (check_shell_caps_sorted s)" for s
    unfolding check_shell_caps_sorted_def check_sorted_unique_strings_def
    by (intro errs_in_bind errs_in_if_some)
       (auto intro!: errs_in_for_each split: EnvPolicy.split option.split ordering.split)
  then show ?thesis
    unfolding canonical_check_ticket_def canonical_check_def check_presence_bitmap_def
      check_sorted_unique_port_rules_def check_sorted_unique_strings_def
      check_sorted_unique_unix_path_rules_def Let_def
    by (intro errs_in_bind errs_in_if_some errs_in_for_each) (auto split: ordering.split)
qed


text \<open>
  Canonical form.  The canonical-form check of a ticket succeeds exactly on the tickets in
  canonical form: presence bits that agree with the present capabilities, sorted
  duplicate-free rule and name lists, valid path rules, a window of at most 365 days, a
  non-zero nonce, no empty bearer, a target equal to the address, and the issuer elided when
  it is the address.  Every refusal is reported as a canonical-form error.
\<close>

lemma canonical_check_exact:
  "(canonical_check_ticket t = Inr () \<longleftrightarrow> canonical_ticket t) \<and>
   errs_in (\<lambda>e. \<exists>msg. e = Canonical msg) (canonical_check_ticket t)"
  by (simp add: canonical_check_ticket_ok canonical_check_ticket_errors)

end
