(* ===== verification/Caps_Narrowing.thy ===== *)
theory Caps_Narrowing
  imports Ticket_Canonical
begin

text \<open>
  Capability narrowing (\<^verbatim>\<open>portl-core/src/caps.rs\<close>): the comparison a delegated ticket has to
  pass against its parent.  The comparison is shown to be a preorder on canonical
  capabilities.  The interface \<open>attenuation\<close> states what the rest of the system relies on:
  a narrower set admits no request the wider one refuses, and so along a whole chain.
\<close>

unbundle bit_operations_syntax

section \<open>The comparison\<close>

definition option_narrows :: "('a \<Rightarrow> 'a \<Rightarrow> bool) \<Rightarrow> 'a option \<Rightarrow> 'a option \<Rightarrow> bool" where
  "option_narrows cmp_fn parent child = (case (parent, child) of
       (_, None) \<Rightarrow> True
     | (Some p, Some c) \<Rightarrow> cmp_fn p c
     | (None, Some _) \<Rightarrow> False)"

definition bool_narrows :: "bool \<Rightarrow> bool \<Rightarrow> bool" where
  "bool_narrows parent child = (\<not> child \<or> parent)"

definition allowlist_narrows :: "string list option \<Rightarrow> string list option \<Rightarrow> bool" where
  "allowlist_narrows parent child = (case (parent, child) of
       (_, None) \<Rightarrow> Option.is_none parent
     | (None, Some _) \<Rightarrow> True
     | (Some p, Some c) \<Rightarrow> list_all (\<lambda>entry. entry \<in> set p) c)"

fun env_policy_narrows :: "EnvPolicy \<Rightarrow> EnvPolicy \<Rightarrow> bool" where
  "env_policy_narrows _ Deny = True"
| "env_policy_narrows (Merge None) (Merge _) = True"
| "env_policy_narrows Deny child = (child = Deny)"
| "env_policy_narrows (Merge (Some parent)) (Merge (Some child)) =
     list_all (\<lambda>entry. entry \<in> set parent) child"
| "env_policy_narrows (Replace parent) (Replace child) = (parent = child)"
| "env_policy_narrows _ _ = False"

definition shell_narrows :: "ShellCaps \<Rightarrow> ShellCaps \<Rightarrow> bool" where
  "shell_narrows parent child =
     (allowlist_narrows (sh_user_allowlist parent) (sh_user_allowlist child) \<and>
      allowlist_narrows (sh_command_allowlist parent) (sh_command_allowlist child) \<and>
      bool_narrows (sh_pty_allowed parent) (sh_pty_allowed child) \<and>
      bool_narrows (sh_exec_allowed parent) (sh_exec_allowed child) \<and>
      env_policy_narrows (sh_env_policy parent) (sh_env_policy child))"

definition host_glob_covers :: "string \<Rightarrow> string \<Rightarrow> bool" where
  "host_glob_covers parent child = (parent = ''*'' \<or> parent = child)"

definition port_rule_covers :: "PortRule \<Rightarrow> PortRule \<Rightarrow> bool" where
  "port_rule_covers parent child =
     (host_glob_covers (pr_host_glob parent) (pr_host_glob child) \<and>
      pr_port_min parent \<le> pr_port_min child \<and> pr_port_max parent \<ge> pr_port_max child)"

definition port_rules_narrow :: "PortRule list \<Rightarrow> PortRule list \<Rightarrow> bool" where
  "port_rules_narrow parent child =
     list_all (\<lambda>child_rule. list_ex (\<lambda>parent_rule. port_rule_covers parent_rule child_rule) parent)
       child"

definition path_root_covers :: "string \<Rightarrow> string \<Rightarrow> bool" where
  "path_root_covers parent child =
     (child = parent \<or> parent = ''/'' \<or>
      (case strip_prefix parent child of None \<Rightarrow> False | Some rest \<Rightarrow> starts_with rest ''/''))"

definition fs_narrows :: "FsCaps \<Rightarrow> FsCaps \<Rightarrow> bool" where
  "fs_narrows parent child =
     (list_all (\<lambda>child_root. list_ex (\<lambda>parent_root. path_root_covers parent_root child_root)
        (fs_roots parent)) (fs_roots child) \<and>
      (\<not> fs_readonly parent \<or> fs_readonly child) \<and>
      (case (fs_max_size parent, fs_max_size child) of
         (_, None) \<Rightarrow> Option.is_none (fs_max_size parent)
       | (None, Some _) \<Rightarrow> True
       | (Some p, Some c) \<Rightarrow> c \<le> p))"

definition vpn_narrows :: "VpnCaps \<Rightarrow> VpnCaps \<Rightarrow> bool" where
  "vpn_narrows parent child =
     (vp_my_ula parent = vp_my_ula child \<and> vp_peer_ula parent = vp_peer_ula child \<and>
      vp_mtu child \<le> vp_mtu parent)"

definition meta_narrows :: "MetaCaps \<Rightarrow> MetaCaps \<Rightarrow> bool" where
  "meta_narrows parent child =
     (bool_narrows (mt_ping parent) (mt_ping child) \<and>
      bool_narrows (mt_info parent) (mt_info child))"

definition unix_rules_narrow :: "UnixPathRule list \<Rightarrow> UnixPathRule list \<Rightarrow> bool" where
  "unix_rules_narrow parent child =
     list_all (\<lambda>child_rule. list_ex (\<lambda>parent_rule. covers parent_rule child_rule) parent) child"

definition unix_narrows :: "UnixCaps \<Rightarrow> UnixCaps \<Rightarrow> bool" where
  "unix_narrows parent child =
     (unix_rules_narrow (ux_connect parent) (ux_connect child) \<and>
      unix_rules_narrow (ux_listen parent) (ux_listen child))"

definition is_narrowing :: "Capabilities \<Rightarrow> Capabilities \<Rightarrow> bool" where
  "is_narrowing parent child =
     (if cp_presence child AND NOT (cp_presence parent) \<noteq> 0 then False
      else option_narrows shell_narrows (cp_shell parent) (cp_shell child) \<and>
           option_narrows port_rules_narrow (cp_tcp parent) (cp_tcp child) \<and>
           option_narrows port_rules_narrow (cp_udp parent) (cp_udp child) \<and>
           option_narrows fs_narrows (cp_fs parent) (cp_fs child) \<and>
           option_narrows vpn_narrows (cp_vpn parent) (cp_vpn child) \<and>
           option_narrows meta_narrows (cp_meta parent) (cp_meta child) \<and>
           option_narrows unix_narrows (cp_unix parent) (cp_unix child))"


section \<open>Reading a successful comparison\<close>

lemma option_narrows_iff:
  "option_narrows R p c \<longleftrightarrow> (\<forall>y. c = Some y \<longrightarrow> (\<exists>x. p = Some x \<and> R x y))"
  by (cases p; cases c) (auto simp: option_narrows_def)

lemma allowlist_narrows_iff:
  "allowlist_narrows p c \<longleftrightarrow> (\<forall>xs. p = Some xs \<longrightarrow> (\<exists>ys. c = Some ys \<and> set ys \<subseteq> set xs))"
  by (cases p; cases c) (auto simp: allowlist_narrows_def list_all_iff)

lemma port_rules_narrow_iff:
  "port_rules_narrow ps cs \<longleftrightarrow> (\<forall>c\<in>set cs. \<exists>p\<in>set ps. port_rule_covers p c)"
  by (simp add: port_rules_narrow_def list_all_iff list_ex_iff)

lemma unix_rules_narrow_iff:
  "unix_rules_narrow ps cs \<longleftrightarrow> (\<forall>c\<in>set cs. \<exists>p\<in>set ps. covers p c)"
  by (simp add: unix_rules_narrow_def list_all_iff list_ex_iff)

lemma path_root_covers_iff:
  "path_root_covers p c \<longleftrightarrow> c = p \<or> p = ''/'' \<or> (\<exists>s. c = p @ CHR ''/'' # s)"
  by (auto simp: path_root_covers_def strip_prefix_def starts_with_iff split: if_splits)

lemma word_and_not_eq_0_iff: "a AND NOT b = 0 \<longleftrightarrow> (\<forall>n. bit a n \<longrightarrow> bit b n)"
  for a b :: "'a::len word"
proof -
  have "a AND NOT b = 0 \<longleftrightarrow> (\<forall>n. \<not> bit (a AND NOT b) n)"
    by (auto intro: bit_eqI)
  also have "\<dots> \<longleftrightarrow> (\<forall>n. bit a n \<longrightarrow> bit b n)"
    using bit_imp_le_length [of a] by (auto simp: bit_and_iff bit_not_iff)
  finally show ?thesis .
qed

lemma is_narrowing_iff:
  "is_narrowing p c \<longleftrightarrow>
     (\<forall>n. bit (cp_presence c) n \<longrightarrow> bit (cp_presence p) n) \<and>
     option_narrows shell_narrows (cp_shell p) (cp_shell c) \<and>
     option_narrows port_rules_narrow (cp_tcp p) (cp_tcp c) \<and>
     option_narrows port_rules_narrow (cp_udp p) (cp_udp c) \<and>
     option_narrows fs_narrows (cp_fs p) (cp_fs c) \<and>
     option_narrows vpn_narrows (cp_vpn p) (cp_vpn c) \<and>
     option_narrows meta_narrows (cp_meta p) (cp_meta c) \<and>
     option_narrows unix_narrows (cp_unix p) (cp_unix c)"
  by (simp add: is_narrowing_def word_and_not_eq_0_iff)


section \<open>Narrowing is a preorder\<close>

lemma option_narrows_trans:
  assumes "\<And>x y z. a = Some x \<Longrightarrow> R x y \<Longrightarrow> R y z \<Longrightarrow> R x z"
    and "option_narrows R a b" and "option_narrows R b c"
  shows "option_narrows R a c"
  using assms unfolding option_narrows_iff by metis

lemma option_narrows_trans_all:
  assumes "\<And>x y z. R x y \<Longrightarrow> R y z \<Longrightarrow> R x z"
    and "option_narrows R a b" and "option_narrows R b c"
  shows "option_narrows R a c"
  using assms by (rule option_narrows_trans)

lemma allowlist_narrows_trans:
  "allowlist_narrows a b \<Longrightarrow> allowlist_narrows b c \<Longrightarrow> allowlist_narrows a c"
  by (cases a; cases b; cases c) (auto simp: allowlist_narrows_iff)

lemma env_policy_narrows_trans:
  "env_policy_narrows a b \<Longrightarrow> env_policy_narrows b c \<Longrightarrow> env_policy_narrows a c"
  by (cases "(a, b)" rule: env_policy_narrows.cases; cases "(b, c)" rule: env_policy_narrows.cases)
     (auto simp: list_all_iff)

lemma shell_narrows_trans: "shell_narrows a b \<Longrightarrow> shell_narrows b c \<Longrightarrow> shell_narrows a c"
  unfolding shell_narrows_def bool_narrows_def
  using allowlist_narrows_trans env_policy_narrows_trans by blast

lemma port_rule_covers_trans:
  "port_rule_covers a b \<Longrightarrow> port_rule_covers b c \<Longrightarrow> port_rule_covers a c"
  by (auto simp: port_rule_covers_def host_glob_covers_def)

lemma port_rules_narrow_trans:
  "port_rules_narrow a b \<Longrightarrow> port_rules_narrow b c \<Longrightarrow> port_rules_narrow a c"
  unfolding port_rules_narrow_iff by (meson port_rule_covers_trans)

lemma path_root_covers_trans:
  "a \<noteq> '''' \<Longrightarrow> path_root_covers a b \<Longrightarrow> path_root_covers b c \<Longrightarrow> path_root_covers a c"
  by (auto simp: path_root_covers_iff append_eq_Cons_conv)

lemma fs_narrows_iff:
  "fs_narrows p c \<longleftrightarrow>
     (\<forall>r\<in>set (fs_roots c). \<exists>q\<in>set (fs_roots p). path_root_covers q r) \<and>
     (fs_readonly p \<longrightarrow> fs_readonly c) \<and>
     (\<forall>m. fs_max_size p = Some m \<longrightarrow> (\<exists>n. fs_max_size c = Some n \<and> n \<le> m))"
  by (auto simp: fs_narrows_def list_all_iff list_ex_iff Option.is_none_def split: option.splits)

lemma fs_narrows_trans:
  assumes "'''' \<notin> set (fs_roots a)" and "fs_narrows a b" and "fs_narrows b c"
  shows "fs_narrows a c"
proof -
  have "\<exists>q\<in>set (fs_roots a). path_root_covers q r" if r: "r \<in> set (fs_roots c)" for r
  proof -
    from assms(3) r obtain s where s: "s \<in> set (fs_roots b)" "path_root_covers s r"
      by (auto simp: fs_narrows_iff)
    with assms(2) obtain q where q: "q \<in> set (fs_roots a)" "path_root_covers q s"
      by (auto simp: fs_narrows_iff)
    with assms(1) have "q \<noteq> ''''" by auto
    with q s show ?thesis by (blast intro: path_root_covers_trans)
  qed
  moreover have "\<exists>n. fs_max_size c = Some n \<and> n \<le> m" if "fs_max_size a = Some m" for m
    using that assms(2,3) unfolding fs_narrows_iff by force
  ultimately show ?thesis using assms(2,3) by (auto simp: fs_narrows_iff)
qed

lemma vpn_narrows_trans: "vpn_narrows a b \<Longrightarrow> vpn_narrows b c \<Longrightarrow> vpn_narrows a c"
  by (auto simp: vpn_narrows_def)

lemma meta_narrows_trans: "meta_narrows a b \<Longrightarrow> meta_narrows b c \<Longrightarrow> meta_narrows a c"
  by (auto simp: meta_narrows_def bool_narrows_def)

lemma unix_narrows_trans: "unix_narrows a b \<Longrightarrow> unix_narrows b c \<Longrightarrow> unix_narrows a c"
  unfolding unix_narrows_def unix_rules_narrow_iff by (meson covers_trans)

text \<open>
  Transitivity needs that no parent root of the (not yet served) filesystem capability is the
  empty string: the empty root covers \<^verbatim>\<open>/\<close>, and \<^verbatim>\<open>/\<close> covers everything.
\<close>

definition no_empty_root :: "Capabilities \<Rightarrow> bool" where
  "no_empty_root c \<longleftrightarrow> (\<forall>fs. cp_fs c = Some fs \<longrightarrow> '''' \<notin> set (fs_roots fs))"

lemma is_narrowingD:
  assumes "is_narrowing p c"
  shows "bit (cp_presence c) n \<Longrightarrow> bit (cp_presence p) n"
    and "option_narrows shell_narrows (cp_shell p) (cp_shell c)"
    and "option_narrows port_rules_narrow (cp_tcp p) (cp_tcp c)"
    and "option_narrows port_rules_narrow (cp_udp p) (cp_udp c)"
    and "option_narrows fs_narrows (cp_fs p) (cp_fs c)"
    and "option_narrows vpn_narrows (cp_vpn p) (cp_vpn c)"
    and "option_narrows meta_narrows (cp_meta p) (cp_meta c)"
    and "option_narrows unix_narrows (cp_unix p) (cp_unix c)"
  using assms unfolding is_narrowing_iff by simp_all

lemma is_narrowing_transitive:
  assumes a: "no_empty_root a" and ab: "is_narrowing a b" and bc: "is_narrowing b c"
  shows "is_narrowing a c"
  unfolding is_narrowing_iff
proof (intro conjI allI impI)
  show "bit (cp_presence a) n" if "bit (cp_presence c) n" for n
    using that by (rule is_narrowingD(1) [OF ab, OF is_narrowingD(1) [OF bc]])
  show "option_narrows fs_narrows (cp_fs a) (cp_fs c)"
  proof (rule option_narrows_trans [OF _ is_narrowingD(5) [OF ab] is_narrowingD(5) [OF bc]])
    fix x y z assume "cp_fs a = Some x" and "fs_narrows x y" and "fs_narrows y z"
    with a show "fs_narrows x z" unfolding no_empty_root_def by (blast intro: fs_narrows_trans)
  qed
  show "option_narrows shell_narrows (cp_shell a) (cp_shell c)"
    using shell_narrows_trans is_narrowingD(2) [OF ab] is_narrowingD(2) [OF bc]
    by (rule option_narrows_trans_all)
  show "option_narrows port_rules_narrow (cp_tcp a) (cp_tcp c)"
    using port_rules_narrow_trans is_narrowingD(3) [OF ab] is_narrowingD(3) [OF bc]
    by (rule option_narrows_trans_all)
  show "option_narrows port_rules_narrow (cp_udp a) (cp_udp c)"
    using port_rules_narrow_trans is_narrowingD(4) [OF ab] is_narrowingD(4) [OF bc]
    by (rule option_narrows_trans_all)
  show "option_narrows vpn_narrows (cp_vpn a) (cp_vpn c)"
    using vpn_narrows_trans is_narrowingD(6) [OF ab] is_narrowingD(6) [OF bc]
    by (rule option_narrows_trans_all)
  show "option_narrows meta_narrows (cp_meta a) (cp_meta c)"
    using meta_narrows_trans is_narrowingD(7) [OF ab] is_narrowingD(7) [OF bc]
    by (rule option_narrows_trans_all)
  show "option_narrows unix_narrows (cp_unix a) (cp_unix c)"
    using unix_narrows_trans is_narrowingD(8) [OF ab] is_narrowingD(8) [OF bc]
    by (rule option_narrows_trans_all)
qed

lemma covers_refl_list: "canonical_unix_rules rs \<Longrightarrow> unix_rules_narrow rs rs"
  by (auto simp: unix_rules_narrow_iff canonical_unix_rules_def intro: covers_refl)

lemma env_policy_narrows_refl: "env_policy_narrows e e"
  by (cases "(e, e)" rule: env_policy_narrows.cases) (auto simp: list_all_iff)

lemma option_narrows_refl: "(\<And>x. a = Some x \<Longrightarrow> R x x) \<Longrightarrow> option_narrows R a a"
  by (simp add: option_narrows_iff)

lemma is_narrowing_reflexive:
  assumes "canonical_caps c"
  shows "is_narrowing c c"
  unfolding is_narrowing_iff
proof (intro conjI option_narrows_refl)
  fix s show "shell_narrows s s"
    by (auto simp: shell_narrows_def allowlist_narrows_iff bool_narrows_def env_policy_narrows_refl)
next
  fix rs show "port_rules_narrow rs rs" and "port_rules_narrow rs rs"
    by (auto simp: port_rules_narrow_iff port_rule_covers_def host_glob_covers_def)
next
  fix f show "fs_narrows f f"
    by (auto simp: fs_narrows_def list_all_iff list_ex_iff path_root_covers_iff
        split: option.split)
next
  fix u assume "cp_unix c = Some u"
  with assms show "unix_narrows u u"
    by (auto simp: canonical_caps_def unix_narrows_def intro: covers_refl_list)
qed (simp_all add: vpn_narrows_def meta_narrows_def bool_narrows_def)


section \<open>The interface of a sound comparison\<close>

locale attenuation =
  fixes narrows :: "'c \<Rightarrow> 'c \<Rightarrow> bool"
    and permits :: "'c \<Rightarrow> 'r \<Rightarrow> bool"
  assumes narrows_sound: "narrows p c \<Longrightarrow> permits c r \<Longrightarrow> permits p r"
begin

lemma chain_sound:
  "successively narrows cs \<Longrightarrow> permits (last cs) r \<Longrightarrow> \<forall>p\<in>set cs. permits p r"
proof (induction cs rule: induct_list012)
  case (3 a b cs)
  from 3(3,4) have "permits (last (b # cs)) r" and "successively narrows (b # cs)" by simp_all
  then have b: "\<forall>p\<in>set (b # cs). permits p r" by (rule 3(2) [rotated])
  moreover have "permits a r" using narrows_sound [of a b r] b 3(3) by simp
  ultimately show ?case by simp
qed simp_all

end

end
