(* ===== verification/Wire.thy ===== *)
theory Wire
  imports Ticket_Schema
begin

text \<open>
  The messages of the protocols spoken after a connection is up (\<^verbatim>\<open>portl-core/src/wire.rs\<close>,
  \<^verbatim>\<open>wire/{shell,tcp,udp,unix}.rs\<close>, \<^verbatim>\<open>portl-proto/src/{error,meta_v1}.rs\<close>) and the
  authenticated session the agent's stream handlers receive
  (\<^verbatim>\<open>portl-agent/src/session.rs\<close>).  Variants whose Rust names coincide between two enums are
  prefixed with the protocol's name.
\<close>

section \<open>Protocol identifiers\<close>

definition ALPN_TICKET_V1 :: string where "ALPN_TICKET_V1 = ''portl/ticket/v1''"
definition ALPN_META_V1 :: string where "ALPN_META_V1 = ''portl/meta/v1''"
definition ALPN_SHELL_V1 :: string where "ALPN_SHELL_V1 = ''portl/shell/v1''"
definition ALPN_TCP_V1 :: string where "ALPN_TCP_V1 = ''portl/tcp/v1''"
definition ALPN_TCP_V2 :: string where "ALPN_TCP_V2 = ''portl/tcp/v2''"
definition ALPN_UDP_V1 :: string where "ALPN_UDP_V1 = ''portl/udp/v1''"
definition ALPN_UNIX_V1 :: string where "ALPN_UNIX_V1 = ''portl/unix/v1''"

lemmas alpn_defs = ALPN_TICKET_V1_def ALPN_META_V1_def ALPN_SHELL_V1_def ALPN_TCP_V1_def
  ALPN_TCP_V2_def ALPN_UDP_V1_def ALPN_UNIX_V1_def

section \<open>Ticket handshake\<close>

record StreamPreamble =
  sp_peer_token :: bytes
  sp_alpn :: string

record TicketOffer =
  of_ticket :: bytes
  of_chain :: "bytes list"
  of_proof :: "bytes option"
  of_client_nonce :: bytes

datatype AckReason =
    BadSignature
  | BadChain
  | CapsExceedParent
  | NotYetValid
  | Expired
  | Revoked
  | ProofMissing
  | ProofInvalid
  | RateLimited
  | InternalError "string option"

record TicketAck =
  ak_ok :: bool
  ak_reason :: "AckReason option"
  ak_peer_token :: "bytes option"
  ak_effective_caps :: "Capabilities option"
  ak_server_time :: u64

record Session =
  ss_peer_token :: bytes
  ss_caps :: Capabilities
  ss_ticket_id :: ticket_hash
  ss_ticket_chain_ids :: "ticket_hash list"
  ss_caller_endpoint_id :: key32
  ss_ticket_issuer_id :: key32
  ss_ticket_holder_id :: "key32 option"
  ss_bearer :: "bytes option"

section \<open>Shell\<close>

datatype ShellMode = Shell | Exec

datatype EnvValue = Set string | Unset

record PtyCfg =
  pt_term :: string
  pt_cols :: u16
  pt_rows :: u16

record ShellReq =
  rq_preamble :: StreamPreamble
  rq_mode :: ShellMode
  rq_argv :: "string list option"
  rq_env_patch :: "(string \<times> EnvValue) list"
  rq_cwd :: "string option"
  rq_pty :: "PtyCfg option"
  rq_user :: "string option"

datatype ShellReason =
    CapDenied
  | BadUser string
  | SpawnFailed string
  | InvalidPty
  | NotFound
  | ShellInternalError string

section \<open>Forwarding\<close>

record TcpReq =
  tr_preamble :: StreamPreamble
  tr_host :: string
  tr_port :: u16

datatype TcpOp =
    TcpConnect string u16
  | TcpListen string u16
  | TcpAccepted string u16 string u16

record TcpReqV2 =
  t2_preamble :: StreamPreamble
  t2_op :: TcpOp

record UdpBind =
  ub_local_port_range :: "u16 \<times> u16"
  ub_target_host :: string
  ub_target_port_range :: "u16 \<times> u16"

record UdpCtlReq =
  uc_preamble :: StreamPreamble
  uc_session_id :: bytes
  uc_binds :: "UdpBind list"

record UdpDatagram =
  ud_session_id :: bytes
  ud_target_port :: u16
  ud_src_tag :: u32
  ud_payload :: bytes

definition MAX_UDP_DATAGRAM_BYTES :: nat where
  "MAX_UDP_DATAGRAM_BYTES = 1200"

definition UDP_ERROR_PREFIX :: string where
  "UDP_ERROR_PREFIX = ''portl udp error: ''"

definition udp_error_payload :: "string \<Rightarrow> bytes" where
  "udp_error_payload message = ascii (UDP_ERROR_PREFIX @ message)"

datatype UnixOp =
    UnixConnect string
  | UnixListen string bool bool

record UnixReq =
  un_preamble :: StreamPreamble
  un_op :: UnixOp

section \<open>Meta\<close>

datatype ErrorKind =
    KProtoError
  | KCapDenied
  | KNotFound
  | KRateLimited
  | KResourceExhausted
  | KOverloaded
  | KVersionMismatch
  | KInternalError
  | KTimeout
  | KCancelled

record ProtoErr =
  er_kind :: ErrorKind
  er_message :: string
  er_retry_after_ms :: "u32 option"

datatype MetaReq =
    Ping u64
  | Info
  | PublishRevocations "bytes list"

datatype MetaResp =
    Pong u64
  | InfoResp (ir_agent_version: string) (ir_supported_alpns: "string list") (ir_uptime_s: u64)
      (ir_hostname: string) (ir_os: string) (ir_tags: "(string \<times> string) list")
  | PublishedRevocations u32 "(bytes \<times> string) list"
  | MetaError ProtoErr

end
