(* ===== verification/Caps_Enforce.thy ===== *)
theory Caps_Enforce
  imports Wire Caps_Narrowing
begin

text \<open>
  The agent's use of an accepted ticket's capabilities (\<^verbatim>\<open>portl-agent/src/caps_enforce.rs\<close>):
  one decision per request kind.  The interpretations at the end show, kind by kind, that
  the comparison used when a chain is verified (\<open>is_narrowing\<close>) is sound for the decision
  taken when a request arrives; for TCP listen requests it is not, and the section says where
  the two sides disagree and under which condition they agree.
\<close>

unbundle bit_operations_syntax

section \<open>Decisions\<close>

definition host_matches :: "string \<Rightarrow> string \<Rightarrow> bool" where
  "host_matches pattern host =
     (if pattern = ''*'' then True
      else case strip_prefix ''*.'' pattern of
        Some sfx \<Rightarrow> ends_with host (''.'' @ sfx) \<or> host = sfx
      | None \<Rightarrow>
          (case strip_suffix ''.*'' pattern of
             Some pfx \<Rightarrow> starts_with host (pfx @ ''.'')
           | None \<Rightarrow> pattern = host))"

definition listen_host_matches :: "string \<Rightarrow> string \<Rightarrow> bool" where
  "listen_host_matches pattern host =
     (if pattern = ''*'' then host = ''localhost'' \<or> host = ''127.0.0.1'' \<or> host = ''::1''
      else host_matches pattern host)"

definition shell_permits :: "Capabilities \<Rightarrow> ShellReq \<Rightarrow> ShellReason + unit" where
  "shell_permits caps req =
     (case cp_shell caps of
        None \<Rightarrow> Inl CapDenied
      | Some shell_caps \<Rightarrow>
          if rq_mode req = Shell \<and> \<not> sh_pty_allowed shell_caps then Inl CapDenied
          else if rq_mode req = Exec \<and> \<not> sh_exec_allowed shell_caps then Inl CapDenied
          else if is_some (rq_pty req) \<and> \<not> sh_pty_allowed shell_caps then Inl CapDenied
          else
            res_bind
              (if_some (sh_user_allowlist shell_caps) (\<lambda>allowlist.
                 let requested_user = (case rq_user req of Some u \<Rightarrow> u | None \<Rightarrow> '''')
                 in if \<not> list_ex (\<lambda>candidate. candidate = requested_user) allowlist
                    then Inl CapDenied else Inr ()))
              (\<lambda>_. if rq_mode req = Exec then
                 if_some (sh_command_allowlist shell_caps) (\<lambda>allowlist.
                   res_bind
                     (ok_or (SpawnFailed ''exec mode requires argv'')
                        (Option.bind (rq_argv req)
                           (\<lambda>argv. case argv of [] \<Rightarrow> None | a # _ \<Rightarrow> Some a)))
                     (\<lambda>argv0. if \<not> list_ex (\<lambda>candidate. candidate = argv0) allowlist
                              then Inl CapDenied else Inr ()))
               else Inr ()))"

definition tcp_permits :: "Capabilities \<Rightarrow> TcpReq \<Rightarrow> string + unit" where
  "tcp_permits caps req =
     (case cp_tcp caps of
        None \<Rightarrow> Inl ''tcp forwarding not allowed''
      | Some rules \<Rightarrow>
          if list_ex (\<lambda>rule. host_matches (pr_host_glob rule) (tr_host req) \<and>
                pr_port_min rule \<le> tr_port req \<and> tr_port req \<le> pr_port_max rule) rules
          then Inr () else Inl ''destination not permitted by ticket'')"

definition tcp_listen_permits :: "Capabilities \<Rightarrow> string \<Rightarrow> u16 \<Rightarrow> string + unit" where
  "tcp_listen_permits caps bind_host bind_port =
     (if cp_presence caps AND TCP_LISTEN_CAP_BIT = 0 then Inl ''tcp listen forwarding not allowed''
      else case cp_tcp caps of
        None \<Rightarrow> Inl ''tcp listen forwarding not allowed''
      | Some rules \<Rightarrow>
          if list_ex (\<lambda>rule. listen_host_matches (pr_host_glob rule) bind_host \<and>
                pr_port_min rule \<le> bind_port \<and> bind_port \<le> pr_port_max rule) rules
          then Inr () else Inl ''listen address not permitted by ticket'')"

definition unix_permits :: "Capabilities \<Rightarrow> UnixReq \<Rightarrow> string + unit" where
  "unix_permits caps req =
     (case cp_unix caps of
        None \<Rightarrow> Inl ''unix forwarding not allowed''
      | Some unix_caps \<Rightarrow>
          (let (rules, path) =
             (case un_op req of
                UnixConnect path \<Rightarrow> (ux_connect unix_caps, path)
              | UnixListen path _ _ \<Rightarrow> (ux_listen unix_caps, path))
           in if list_ex (\<lambda>rule. matches_path rule path) rules then Inr ()
              else Inl ''unix path not permitted by ticket''))"

definition udp_permits :: "Capabilities \<Rightarrow> UdpBind \<Rightarrow> string + unit" where
  "udp_permits caps bind =
     (case cp_udp caps of
        None \<Rightarrow> Inl ''udp forwarding not allowed''
      | Some rules \<Rightarrow>
          if list_ex (\<lambda>rule. host_matches (pr_host_glob rule) (ub_target_host bind) \<and>
                pr_port_min rule \<le> fst (ub_target_port_range bind) \<and>
                snd (ub_target_port_range bind) \<le> pr_port_max rule) rules
          then Inr () else Inl ''destination not permitted by ticket'')"


section \<open>What each decision admits\<close>

text \<open>A port rule admits a host and a range of ports.\<close>

definition rule_admits :: "(string \<Rightarrow> string \<Rightarrow> bool) \<Rightarrow> PortRule \<Rightarrow> string \<Rightarrow> u16 \<Rightarrow> u16 \<Rightarrow> bool" where
  "rule_admits hm rule host lo hi \<longleftrightarrow>
     hm (pr_host_glob rule) host \<and> pr_port_min rule \<le> lo \<and> hi \<le> pr_port_max rule"

lemma tcp_permits_iff:
  "tcp_permits c r = Inr () \<longleftrightarrow> (\<exists>rules. cp_tcp c = Some rules \<and>
     (\<exists>rule\<in>set rules. rule_admits host_matches rule (tr_host r) (tr_port r) (tr_port r)))"
  by (auto simp: tcp_permits_def rule_admits_def list_ex_iff split: option.split)

lemma udp_permits_iff:
  "udp_permits c b = Inr () \<longleftrightarrow> (\<exists>rules. cp_udp c = Some rules \<and>
     (\<exists>rule\<in>set rules. rule_admits host_matches rule (ub_target_host b)
        (fst (ub_target_port_range b)) (snd (ub_target_port_range b))))"
  by (auto simp: udp_permits_def rule_admits_def list_ex_iff split: option.split)

lemma tcp_listen_permits_iff:
  "tcp_listen_permits c h p = Inr () \<longleftrightarrow> bit (cp_presence c) 7 \<and>
     (\<exists>rules. cp_tcp c = Some rules \<and> (\<exists>rule\<in>set rules. rule_admits listen_host_matches rule h p p))"
  by (auto simp: tcp_listen_permits_def rule_admits_def list_ex_iff listen_bit_set
      split: option.split)

lemma unix_permits_iff:
  "unix_permits c r = Inr () \<longleftrightarrow> (\<exists>u. cp_unix c = Some u \<and>
     (case un_op r of
        UnixConnect path \<Rightarrow> \<exists>rule\<in>set (ux_connect u). matches_path rule path
      | UnixListen path _ _ \<Rightarrow> \<exists>rule\<in>set (ux_listen u). matches_path rule path))"
  by (auto simp: unix_permits_def list_ex_iff split: option.split UnixOp.split)

lemma shell_permits_iff:
  "shell_permits c r = Inr () \<longleftrightarrow> (\<exists>s. cp_shell c = Some s \<and>
     (rq_mode r = Shell \<or> is_some (rq_pty r) \<longrightarrow> sh_pty_allowed s) \<and>
     (rq_mode r = Exec \<longrightarrow> sh_exec_allowed s) \<and>
     (\<forall>allow. sh_user_allowlist s = Some allow \<longrightarrow>
        (case rq_user r of Some u \<Rightarrow> u | None \<Rightarrow> '''') \<in> set allow) \<and>
     (rq_mode r = Exec \<longrightarrow> (\<forall>allow. sh_command_allowlist s = Some allow \<longrightarrow>
        (\<exists>a as. rq_argv r = Some (a # as) \<and> a \<in> set allow))))"
proof (cases "cp_shell c")
  case None
  then show ?thesis by (simp add: shell_permits_def)
next
  case (Some s)
  show ?thesis
    by (cases "rq_mode r"; cases "rq_argv r"; cases "the (rq_argv r)")
       (auto simp: shell_permits_def Some res_simps if_some_def list_ex_iff ok_or_def
         split: option.splits if_splits)
qed


section \<open>The comparison is sound for the decisions\<close>

lemma host_glob_covers_sound:
  "host_glob_covers p c \<Longrightarrow> host_matches c h \<Longrightarrow> host_matches p h"
  by (auto simp: host_glob_covers_def host_matches_def)

lemma port_rule_covers_sound:
  "port_rule_covers p c \<Longrightarrow> rule_admits host_matches c h lo hi \<Longrightarrow> rule_admits host_matches p h lo hi"
  by (auto simp: port_rule_covers_def rule_admits_def intro: host_glob_covers_sound)

lemma port_rules_narrow_sound:
  assumes "option_narrows port_rules_narrow p c"
    and "\<exists>rules. c = Some rules \<and> (\<exists>rule\<in>set rules. rule_admits host_matches rule h lo hi)"
  shows "\<exists>rules. p = Some rules \<and> (\<exists>rule\<in>set rules. rule_admits host_matches rule h lo hi)"
  using assms unfolding option_narrows_iff port_rules_narrow_iff
  by (metis port_rule_covers_sound)

lemma unix_rules_narrow_sound:
  assumes "unix_rules_narrow ps cs" and "\<exists>rule\<in>set cs. matches_path rule path"
  shows "\<exists>rule\<in>set ps. matches_path rule path"
  using assms unfolding unix_rules_narrow_iff by (metis covers_sound)

lemma shell_narrows_sound:
  assumes "is_narrowing p c" and "is_ok (shell_permits c r)"
  shows "is_ok (shell_permits p r)"
proof -
  from assms(2) obtain s where s: "cp_shell c = Some s" by (auto simp: is_ok_iff shell_permits_iff)
  with is_narrowingD(2) [OF assms(1)] obtain q where q: "cp_shell p = Some q" "shell_narrows q s"
    by (auto simp: option_narrows_iff)
  then show ?thesis using assms(2) s
    by (fastforce simp: is_ok_iff shell_permits_iff shell_narrows_def bool_narrows_def
        allowlist_narrows_iff)
qed

interpretation shell_att: attenuation is_narrowing "\<lambda>c r. is_ok (shell_permits c r)"
  by unfold_locales (rule shell_narrows_sound)

interpretation tcp_att: attenuation is_narrowing "\<lambda>c r. is_ok (tcp_permits c r)"
  by unfold_locales
     (simp add: is_ok_iff tcp_permits_iff, erule port_rules_narrow_sound [OF is_narrowingD(3)])

interpretation udp_att: attenuation is_narrowing "\<lambda>c b. is_ok (udp_permits c b)"
  by unfold_locales
     (simp add: is_ok_iff udp_permits_iff, erule port_rules_narrow_sound [OF is_narrowingD(4)])

lemma unix_narrows_sound:
  assumes "is_narrowing p c" and "is_ok (unix_permits c r)"
  shows "is_ok (unix_permits p r)"
proof -
  from assms(2) obtain s where s: "cp_unix c = Some s" by (auto simp: is_ok_iff unix_permits_iff)
  with is_narrowingD(8) [OF assms(1)] obtain q where q: "cp_unix p = Some q" "unix_narrows q s"
    by (auto simp: option_narrows_iff)
  then show ?thesis using assms(2) s
    by (auto simp: is_ok_iff unix_permits_iff unix_narrows_def split: UnixOp.splits
        intro: unix_rules_narrow_sound)
qed

interpretation unix_att: attenuation is_narrowing "\<lambda>c r. is_ok (unix_permits c r)"
  by unfold_locales (rule unix_narrows_sound)

text \<open>The four request kinds together: the decision the stream handlers take.\<close>

datatype Request = ReqShell ShellReq | ReqTcp TcpReq | ReqUdp UdpBind | ReqUnix UnixReq

fun permits :: "Capabilities \<Rightarrow> Request \<Rightarrow> bool" where
  "permits c (ReqShell r) = is_ok (shell_permits c r)"
| "permits c (ReqTcp r) = is_ok (tcp_permits c r)"
| "permits c (ReqUdp b) = is_ok (udp_permits c b)"
| "permits c (ReqUnix r) = is_ok (unix_permits c r)"

interpretation req_att: attenuation is_narrowing permits
proof
  fix p c r assume "is_narrowing p c" and "permits c r"
  then show "permits p r"
    by (cases r) (auto intro: shell_att.narrows_sound tcp_att.narrows_sound
        udp_att.narrows_sound unix_att.narrows_sound)
qed


section \<open>Listening\<close>

text \<open>
  For TCP listen requests the star glob means loopback only, while the comparison lets a star
  rule cover every other glob.  The comparison is sound once the parent has no star rule.
\<close>

definition no_star_glob :: "Capabilities \<Rightarrow> bool" where
  "no_star_glob c \<longleftrightarrow> (\<forall>rules. cp_tcp c = Some rules \<longrightarrow> (\<forall>r\<in>set rules. pr_host_glob r \<noteq> ''*''))"

definition narrows_listen :: "Capabilities \<Rightarrow> Capabilities \<Rightarrow> bool" where
  "narrows_listen p c \<longleftrightarrow> is_narrowing p c \<and> no_star_glob p"

lemma port_rule_covers_listen:
  "port_rule_covers p c \<Longrightarrow> pr_host_glob p \<noteq> ''*'' \<Longrightarrow> rule_admits listen_host_matches c h lo hi \<Longrightarrow>
   rule_admits listen_host_matches p h lo hi"
  by (auto simp: port_rule_covers_def rule_admits_def host_glob_covers_def)

interpretation listen_att: attenuation narrows_listen
  "\<lambda>c (h, p). tcp_listen_permits c h p = Inr ()"
proof
  fix p c :: Capabilities and r :: "string \<times> u16"
  assume n: "narrows_listen p c" and c: "case r of (h, q) \<Rightarrow> tcp_listen_permits c h q = Inr ()"
  obtain h q where r: "r = (h, q)" by (cases r)
  from c r obtain rules rule where rules: "bit (cp_presence c) 7" "cp_tcp c = Some rules"
      "rule \<in> set rules" "rule_admits listen_host_matches rule h q q"
    by (auto simp: tcp_listen_permits_iff)
  from n have nar: "is_narrowing p c" and star: "no_star_glob p" by (auto simp: narrows_listen_def)
  from is_narrowingD(3) [OF nar] rules obtain prules prule where
      "cp_tcp p = Some prules" "prule \<in> set prules" "port_rule_covers prule rule"
    by (auto simp: option_narrows_iff port_rules_narrow_iff)
  moreover from this star have "rule_admits listen_host_matches prule h q q"
    using rules(4) by (auto simp: no_star_glob_def intro: port_rule_covers_listen)
  ultimately show "case r of (h, q) \<Rightarrow> tcp_listen_permits p h q = Inr ()"
    using is_narrowingD(1) [OF nar rules(1)] by (auto simp: r tcp_listen_permits_iff)
qed

definition listen_caps :: "string \<Rightarrow> Capabilities" where
  "listen_caps glob =
     \<lparr>cp_presence = 130, cp_shell = None,
      cp_tcp = Some [\<lparr>pr_host_glob = glob, pr_port_min = 0, pr_port_max = 65535\<rparr>],
      cp_udp = None, cp_fs = None, cp_vpn = None, cp_meta = None, cp_unix = None\<rparr>"

lemma listen_caps_canonical: "check_presence_bitmap (listen_caps g) = Inr ()"
  by (simp add: check_presence_bitmap_def listen_caps_def TCP_LISTEN_CAP_BIT_def)

lemma canonical_listen_caps: "canonical_caps (listen_caps g)"
  using listen_caps_canonical [of g]
  by (simp add: canonical_caps_def check_presence_bitmap_ok) (simp add: listen_caps_def)

text \<open>
  Listen escalation.  There is a canonical parent with a listen-enabled star rule and a
  canonical child that passes the delegation comparison against it, where the child admits
  binding \<^verbatim>\<open>0.0.0.0\<close> while the parent refuses it: for listen requests a delegate can obtain
  more than was delegated.
\<close>

lemma listen_escalation:
  "\<exists>p c. canonical_caps p \<and> canonical_caps c \<and> is_narrowing p c \<and>
     tcp_listen_permits c ''0.0.0.0'' 2222 = Inr () \<and>
     tcp_listen_permits p ''0.0.0.0'' 2222 = Inl ''listen address not permitted by ticket''"
proof (intro exI conjI)
  show "is_narrowing (listen_caps ''*'') (listen_caps ''0.0.0.0'')"
    by (simp add: is_narrowing_def listen_caps_def option_narrows_def port_rules_narrow_def
        port_rule_covers_def host_glob_covers_def)
  show "tcp_listen_permits (listen_caps ''0.0.0.0'') ''0.0.0.0'' 2222 = Inr ()"
    by (simp add: tcp_listen_permits_def listen_caps_def listen_host_matches_def host_matches_def
        TCP_LISTEN_CAP_BIT_def strip_prefix_def strip_suffix_def starts_with_def ends_with_def)
  show "tcp_listen_permits (listen_caps ''*'') ''0.0.0.0'' 2222 =
      Inl ''listen address not permitted by ticket''"
    by (simp add: tcp_listen_permits_def listen_caps_def listen_host_matches_def
        TCP_LISTEN_CAP_BIT_def)
qed (rule canonical_listen_caps)+

text \<open>
  Listen attenuation.  When no link but the last of a chain of capability sets has a
  star rule among its TCP rules, each link narrows the one before it, and the last link
  admits binding a host and port, then every link of the chain admits it.
\<close>

lemma listen_attenuation:
  assumes "successively is_narrowing cs" and "\<forall>c\<in>set (butlast cs). no_star_glob c"
    and "tcp_listen_permits (last cs) host port = Inr ()"
  shows "\<forall>c\<in>set cs. tcp_listen_permits c host port = Inr ()"
proof -
  have "successively narrows_listen cs" using assms(1,2)
    by (induction cs rule: induct_list012) (auto simp: narrows_listen_def)
  from listen_att.chain_sound [OF this, of "(host, port)"] assms(3) show ?thesis by simp
qed

text \<open>
  Unix forwarding stays inside absolute paths.  A unix request, connect or listen, is
  admitted only for a path that starts at the root, contains no NUL byte and has no \<^verbatim>\<open>..\<close>
  segment, whatever the rules of the ticket say.
\<close>

lemma unix_permits_safe:
  assumes "unix_permits caps req = Inr ()"
    and "un_op req = UnixConnect path \<or> un_op req = UnixListen path cleanup ssh_agent"
  shows "starts_with path ''/'' \<and> CHR 0x00 \<notin> set path \<and> ''..'' \<notin> set (split_on (CHR ''/'') path)"
  using assms unfolding unix_permits_iff safe_path_iff [symmetric]
  by (auto intro: matches_path_safe)

end
