(* ===== verification/Ticket_Crypto.thy ===== *)
theory Ticket_Crypto
  imports Ticket_Canonical
begin

text \<open>
  Hashing, signing, proof of possession and the wire codec of tickets
  (\<^verbatim>\<open>portl-core/src/ticket/{hash,sign,offer,codec}.rs\<close>).  The serializer (postcard), SHA-256
  and Ed25519 are third-party crates: they are the fields of the record \<open>externs\<close>, an argument
  of every definition that calls them, and what the sources rely on is stated by the named
  predicates of the next section.
\<close>

type_synonym signing_key = bytes

record externs =
  ex_body_bytes :: "PortlBody \<Rightarrow> bytes option"
  ex_ticket_bytes :: "PortlTicket \<Rightarrow> bytes option"
  ex_ticket_from :: "bytes \<Rightarrow> PortlTicket option"
  ex_sha256 :: "bytes \<Rightarrow> bytes"
  ex_verifying_key :: "signing_key \<Rightarrow> key32"
  ex_sign :: "signing_key \<Rightarrow> bytes \<Rightarrow> signature"
  ex_key_valid :: "key32 \<Rightarrow> bool"
  ex_verify_strict :: "key32 \<Rightarrow> bytes \<Rightarrow> signature \<Rightarrow> bool"

section \<open>Documented behaviour of the external crates\<close>

text \<open>
  Ed25519: the verifying key of a signing key is a valid point and strictly verifies what the
  signing key signed.  Postcard: a ticket body always serializes.
\<close>

definition ed25519_correct :: "externs \<Rightarrow> bool" where
  "ed25519_correct X \<longleftrightarrow> (\<forall>sk m. ex_key_valid X (ex_verifying_key X sk) \<and>
     ex_verify_strict X (ex_verifying_key X sk) m (ex_sign X sk m))"

definition postcard_total :: "externs \<Rightarrow> bool" where
  "postcard_total X \<longleftrightarrow> (\<forall>b. ex_body_bytes X b \<noteq> None)"

section \<open>Hashes\<close>

definition TICKET_ID_DOMAIN :: bytes where
  "TICKET_ID_DOMAIN = ascii ''portl/ticket-id/v1''"

definition PARENT_TICKET_ID_DOMAIN :: bytes where
  "PARENT_TICKET_ID_DOMAIN = ascii ''portl/parent/v1''"

definition CLIENT_NONCE_LOG_DOMAIN :: bytes where
  "CLIENT_NONCE_LOG_DOMAIN = ascii ''portl/client-nonce-log/v1''"

definition hash16 :: "externs \<Rightarrow> bytes \<Rightarrow> signature \<Rightarrow> ticket_hash" where
  "hash16 X domain sig = take 16 (ex_sha256 X (domain @ sig))"

definition ticket_id :: "externs \<Rightarrow> signature \<Rightarrow> ticket_hash" where
  "ticket_id X sig = hash16 X TICKET_ID_DOMAIN sig"

definition parent_ticket_id :: "externs \<Rightarrow> signature \<Rightarrow> ticket_hash" where
  "parent_ticket_id X sig = hash16 X PARENT_TICKET_ID_DOMAIN sig"

definition client_nonce_log_hash :: "externs \<Rightarrow> bytes \<Rightarrow> bytes" where
  "client_nonce_log_hash X client_nonce = take 16 (ex_sha256 X (CLIENT_NONCE_LOG_DOMAIN @ client_nonce))"

section \<open>Signing\<close>

definition body_signing_bytes :: "externs \<Rightarrow> PortlBody \<Rightarrow> PortlError + bytes" where
  "body_signing_bytes X body =
     res_bind (canonical_check body) (\<lambda>_. ok_or Postcard (ex_body_bytes X body))"

definition sign_body :: "externs \<Rightarrow> signing_key \<Rightarrow> PortlBody \<Rightarrow> PortlError + signature" where
  "sign_body X sk body =
     res_bind (body_signing_bytes X body) (\<lambda>bytes. Inr (ex_sign X sk bytes))"

definition verify_body :: "externs \<Rightarrow> key32 \<Rightarrow> PortlBody \<Rightarrow> signature \<Rightarrow> PortlError + unit" where
  "verify_body X pk body sig =
     res_bind (body_signing_bytes X body) (\<lambda>bytes.
       if \<not> ex_key_valid X pk then Inl (Signature ''invalid public key'')
       else if ex_verify_strict X pk bytes sig then Inr ()
       else Inl (Signature ''verify_strict failed''))"

section \<open>Proof of possession\<close>

definition POP_DOMAIN :: bytes where
  "POP_DOMAIN = ascii ''portl/ticket-pop/v1''"

definition pop_digest :: "externs \<Rightarrow> ticket_hash \<Rightarrow> bytes \<Rightarrow> bytes" where
  "pop_digest X tid client_nonce = ex_sha256 X (POP_DOMAIN @ tid @ client_nonce)"

definition compute_pop_sig :: "externs \<Rightarrow> signing_key \<Rightarrow> ticket_hash \<Rightarrow> bytes \<Rightarrow> signature" where
  "compute_pop_sig X op_sk tid client_nonce = ex_sign X op_sk (pop_digest X tid client_nonce)"

definition verify_pop :: "externs \<Rightarrow> key32 \<Rightarrow> ticket_hash \<Rightarrow> bytes \<Rightarrow> signature \<Rightarrow> PortlError + unit" where
  "verify_pop X op_pk tid client_nonce proof =
     (let digest = pop_digest X tid client_nonce in
      if \<not> ex_key_valid X op_pk then Inl (Signature ''invalid proof public key'')
      else if ex_verify_strict X op_pk digest proof then Inr ()
      else Inl (Signature ''bad proof''))"

definition validate_ticket_proof ::
  "externs \<Rightarrow> PortlTicket \<Rightarrow> bytes \<Rightarrow> signature option \<Rightarrow> PortlError + unit" where
  "validate_ticket_proof X ticket client_nonce proof =
     (case (bd_to (tk_body ticket), proof) of
        (Some holder, Some sig) \<Rightarrow> verify_pop X holder (ticket_id X (tk_sig ticket)) client_nonce sig
      | (None, None) \<Rightarrow> Inr ()
      | (None, Some _) \<Rightarrow> Inl (Ticket ''proof not expected for bearer ticket'')
      | (Some _, None) \<Rightarrow> Inl (Ticket ''proof required for to-bound ticket''))"

section \<open>Codec\<close>

definition encode :: "externs \<Rightarrow> PortlTicket \<Rightarrow> PortlError + bytes" where
  "encode X ticket =
     res_bind (canonical_check_ticket ticket) (\<lambda>_. ok_or Postcard (ex_ticket_bytes X ticket))"

definition decode :: "externs \<Rightarrow> bytes \<Rightarrow> PortlError + PortlTicket" where
  "decode X bytes =
     res_bind (ok_or Postcard (ex_ticket_from X bytes)) (\<lambda>ticket.
     res_bind (canonical_check_ticket ticket) (\<lambda>_.
     res_bind (ok_or Postcard (ex_ticket_bytes X ticket)) (\<lambda>reencoded.
       if reencoded \<noteq> bytes then Inl (Canonical ''re-encode mismatch'') else Inr ticket)))"

definition encode_bytes :: "externs \<Rightarrow> PortlTicket \<Rightarrow> bytes" where
  "encode_bytes X ticket = (case ex_ticket_bytes X ticket of Some bs \<Rightarrow> bs | None \<Rightarrow> [])"

datatype ParseError = ParsePostcard | ParseVerify string

definition decode_bytes :: "externs \<Rightarrow> bytes \<Rightarrow> ParseError + PortlTicket" where
  "decode_bytes X bytes =
     res_bind (ok_or ParsePostcard (ex_ticket_from X bytes)) (\<lambda>ticket.
     res_bind (map_err (\<lambda>_. ParseVerify ''canonical form violated'') (canonical_check_ticket ticket)) (\<lambda>_.
     res_bind (ok_or ParsePostcard (ex_ticket_bytes X ticket)) (\<lambda>reencoded.
       if reencoded \<noteq> bytes then Inl (ParseVerify ''re-encode mismatch'') else Inr ticket)))"


section \<open>Facts\<close>

lemma body_signing_bytes_ok [res_simps]:
  "body_signing_bytes X b = Inr bs \<longleftrightarrow> canonical_body b \<and> ex_body_bytes X b = Some bs"
  by (auto simp: body_signing_bytes_def res_simps)

lemma sign_body_ok [res_simps]:
  "sign_body X sk b = Inr sig \<longleftrightarrow>
     (\<exists>bs. canonical_body b \<and> ex_body_bytes X b = Some bs \<and> sig = ex_sign X sk bs)"
  by (auto simp: sign_body_def res_simps)

lemma verify_body_ok [res_simps]:
  "verify_body X pk b sig = Inr () \<longleftrightarrow>
     (\<exists>bs. canonical_body b \<and> ex_body_bytes X b = Some bs \<and> ex_key_valid X pk \<and>
       ex_verify_strict X pk bs sig)"
  by (auto simp: verify_body_def res_simps split: if_splits)

lemma sign_verify_body:
  "ed25519_correct X \<Longrightarrow> sign_body X sk b = Inr sig \<Longrightarrow>
   verify_body X (ex_verifying_key X sk) b sig = Inr ()"
  by (auto simp: res_simps ed25519_correct_def)

lemma verify_pop_ok [res_simps]:
  "verify_pop X pk tid n sig = Inr () \<longleftrightarrow>
     ex_key_valid X pk \<and> ex_verify_strict X pk (pop_digest X tid n) sig"
  by (auto simp: verify_pop_def)

lemma decode_ok [res_simps]:
  "decode X bs = Inr t \<longleftrightarrow>
     ex_ticket_from X bs = Some t \<and> canonical_ticket t \<and> ex_ticket_bytes X t = Some bs"
  by (auto simp: decode_def res_simps split: if_splits)

lemma encode_ok [res_simps]:
  "encode X t = Inr bs \<longleftrightarrow> canonical_ticket t \<and> ex_ticket_bytes X t = Some bs"
  by (auto simp: encode_def res_simps)

lemma decode_bytes_ok [res_simps]: "decode_bytes X bs = Inr t \<longleftrightarrow> decode X bs = Inr t"
  by (auto simp: decode_bytes_def res_simps split: if_splits)

text \<open>Postcard reads back what it wrote for a ticket.\<close>

definition postcard_roundtrip :: "externs \<Rightarrow> PortlTicket \<Rightarrow> bool" where
  "postcard_roundtrip X t \<longleftrightarrow> (\<forall>bs. ex_ticket_bytes X t = Some bs \<longrightarrow> ex_ticket_from X bs = Some t)"

end
