(* ===== verification/Ticket_Mint.thy ===== *)
theory Ticket_Mint
  imports Ticket_Crypto Caps_Narrowing
begin

text \<open>
  Minting of root, delegated and master tickets (\<^verbatim>\<open>portl-core/src/ticket/{mint,master}.rs\<close>).
  The random generator is the list of the values it will return: \<open>fresh_nonce\<close> is the retry
  loop over it, and \<open>None\<close> means that the loop is still drawing when the list ends.  The
  system clock is an argument, \<open>None\<close> standing for a clock before the Unix epoch.
\<close>

definition MAX_DELEGATION_DEPTH :: u8 where
  "MAX_DELEGATION_DEPTH = 8"

definition MAX_MASTER_TTL_SECS :: u64 where
  "MAX_MASTER_TTL_SECS = 30 * 24 * 60 * 60"

definition issuer_for :: "externs \<Rightarrow> signing_key \<Rightarrow> EndpointAddr \<Rightarrow> key32 option" where
  "issuer_for X sk addr =
     (let signer = ex_verifying_key X sk in if signer = ea_id addr then None else Some signer)"

fun fresh_nonce :: "bytes list \<Rightarrow> bytes option" where
  "fresh_nonce [] = None"
| "fresh_nonce (nonce # draws) =
     (if nonce \<noteq> replicate 8 0 then Some nonce else fresh_nonce draws)"

definition seal :: "externs \<Rightarrow> signing_key \<Rightarrow> EndpointAddr \<Rightarrow> PortlBody \<Rightarrow> PortlError + PortlTicket" where
  "seal X sk addr body =
     res_bind (sign_body X sk body) (\<lambda>sig.
       let ticket = \<lparr>tk_v = 1, tk_addr = addr, tk_body = body, tk_sig = sig\<rparr>
       in res_bind (canonical_check_ticket ticket) (\<lambda>_. Inr ticket))"

definition mint_root ::
  "externs \<Rightarrow> bytes list \<Rightarrow> signing_key \<Rightarrow> EndpointAddr \<Rightarrow> Capabilities \<Rightarrow> u64 \<Rightarrow> u64 \<Rightarrow>
   key32 option \<Rightarrow> (PortlError + PortlTicket) option" where
  "mint_root X draws sk addr caps not_before not_after to =
     map_option (\<lambda>nonce.
       seal X sk addr
         \<lparr>bd_caps = caps, bd_target = ea_id addr, bd_alpns_extra = [], bd_not_before = not_before,
          bd_not_after = not_after, bd_issuer = issuer_for X sk addr, bd_parent = None,
          bd_nonce = nonce, bd_bearer = None, bd_to = to\<rparr>) (fresh_nonce draws)"

definition child_depth :: "PortlError \<Rightarrow> PortlTicket \<Rightarrow> PortlError + u8" where
  "child_depth exhausted parent_ticket =
     (case bd_parent (tk_body parent_ticket) of
        Some parent \<Rightarrow> ok_or exhausted (checked_sub (dl_depth_remaining parent) 1)
      | None \<Rightarrow> Inr (MAX_DELEGATION_DEPTH - 1))"

definition mint_delegated ::
  "externs \<Rightarrow> bytes list \<Rightarrow> signing_key \<Rightarrow> PortlTicket \<Rightarrow> Capabilities \<Rightarrow> u64 \<Rightarrow> u64 \<Rightarrow>
   key32 option \<Rightarrow> (PortlError + PortlTicket) option" where
  "mint_delegated X draws parent_sk parent_ticket child_caps not_before not_after to =
     (case canonical_check_ticket parent_ticket of
        Inl e \<Rightarrow> Some (Inl e)
      | Inr _ \<Rightarrow>
          if \<not> is_narrowing (bd_caps (tk_body parent_ticket)) child_caps then
            Some (Inl (Ticket ''child capabilities widen parent''))
          else if not_before < bd_not_before (tk_body parent_ticket) \<or>
                  not_after > bd_not_after (tk_body parent_ticket) then
            Some (Inl (Ticket ''child validity window escapes parent''))
          else case child_depth (Ticket ''parent depth exhausted'') parent_ticket of
            Inl e \<Rightarrow> Some (Inl e)
          | Inr depth_remaining \<Rightarrow>
              map_option (\<lambda>nonce.
                seal X parent_sk (tk_addr parent_ticket)
                  \<lparr>bd_caps = child_caps, bd_target = bd_target (tk_body parent_ticket),
                   bd_alpns_extra = [], bd_not_before = not_before, bd_not_after = not_after,
                   bd_issuer = issuer_for X parent_sk (tk_addr parent_ticket),
                   bd_parent = Some
                     \<lparr>dl_parent_ticket_id = parent_ticket_id X (tk_sig parent_ticket),
                      dl_depth_remaining = depth_remaining\<rparr>,
                   bd_nonce = nonce, bd_bearer = None, bd_to = to\<rparr>) (fresh_nonce draws))"

definition mint_master ::
  "externs \<Rightarrow> bytes list \<Rightarrow> u64 option \<Rightarrow> signing_key \<Rightarrow> EndpointAddr \<Rightarrow> Capabilities \<Rightarrow> bytes \<Rightarrow>
   u64 \<Rightarrow> key32 \<Rightarrow> (PortlError + PortlTicket) option" where
  "mint_master X draws clock sk addr caps bearer ttl_secs to =
     (if bearer = [] then Some (Inl (Ticket ''master ticket bearer must be non-empty''))
      else if ttl_secs = 0 then Some (Inl (Ticket ''master ticket ttl must be > 0''))
      else if ttl_secs > MAX_MASTER_TTL_SECS then
        Some (Inl (Ticket ''master ticket ttl exceeds 30 days''))
      else case clock of
        None \<Rightarrow> Some (Inl (Clock ''system clock is before unix epoch''))
      | Some now \<Rightarrow>
          (case checked_add now ttl_secs of
             None \<Rightarrow> Some (Inl (Ticket ''master ticket ttl overflows u64''))
           | Some not_after \<Rightarrow>
               map_option (\<lambda>nonce.
                 seal X sk addr
                   \<lparr>bd_caps = caps, bd_target = ea_id addr, bd_alpns_extra = [],
                    bd_not_before = now, bd_not_after = not_after,
                    bd_issuer = issuer_for X sk addr, bd_parent = None, bd_nonce = nonce,
                    bd_bearer = Some bearer, bd_to = Some to\<rparr>) (fresh_nonce draws)))"

definition extract_bearer :: "PortlTicket \<Rightarrow> bytes option" where
  "extract_bearer ticket = bd_bearer (tk_body ticket)"


section \<open>Facts\<close>

lemma fresh_nonce_nonzero: "fresh_nonce draws = Some n \<Longrightarrow> n \<noteq> replicate 8 0 \<and> n \<in> set draws"
  by (induction draws) (auto split: if_splits)

text \<open>The retry loop returns as soon as one draw is not all zeroes.\<close>

lemma fresh_nonce_total: "d \<in> set draws \<Longrightarrow> d \<noteq> replicate 8 0 \<Longrightarrow> \<exists>n. fresh_nonce draws = Some n"
  by (induction draws) auto

lemma issuer_for_resolved:
  "resolved_issuer \<lparr>tk_v = v, tk_addr = addr, tk_body = b\<lparr>bd_issuer := issuer_for X sk addr\<rparr>, tk_sig = s\<rparr>
   = ex_verifying_key X sk"
  by (simp add: resolved_issuer_def issuer_for_def Let_def)

lemma issuer_for_elided: "issuer_for X sk addr \<noteq> Some (ea_id addr)"
  by (simp add: issuer_for_def Let_def)

text \<open>Sealing succeeds exactly on a canonical body for the address it is sealed for.\<close>

lemma seal_ok [res_simps]:
  "seal X sk addr body = Inr t \<longleftrightarrow>
     (\<exists>bs. canonical_ticket t \<and> ex_body_bytes X body = Some bs \<and>
        t = \<lparr>tk_v = 1, tk_addr = addr, tk_body = body, tk_sig = ex_sign X sk bs\<rparr>)"
  by (auto simp: seal_def res_simps Let_def canonical_ticket_def)

lemma seal_total:
  assumes "postcard_total X" and "canonical_body body" and "bd_target body = ea_id addr"
    and "bd_issuer body = issuer_for X sk addr"
  shows "\<exists>t. seal X sk addr body = Inr t"
proof -
  obtain bs where "ex_body_bytes X body = Some bs" using assms(1) by (auto simp: postcard_total_def)
  then show ?thesis using assms(2-4)
    by (auto simp: seal_ok canonical_ticket_def issuer_for_def Let_def)
qed

lemma seal_verifies:
  assumes "ed25519_correct X" and "seal X sk addr body = Inr t"
  shows "verify_body X (ex_verifying_key X sk) (tk_body t) (tk_sig t) = Inr ()"
  using assms by (auto simp: seal_ok verify_body_ok ed25519_correct_def canonical_ticket_def)

end
