(* ===== verification/Ticket_Verify.thy ===== *)
theory Ticket_Verify
  imports Ticket_Mint
begin

text \<open>
  Verification of a delegation chain (\<^verbatim>\<open>portl-core/src/ticket/verify.rs\<close>).  \<open>verify_chain\<close>
  keeps the order of the checks and their messages.  The interface \<open>chain_verifier\<close> is what a
  chain that was accepted promises to its user; it is provided by \<open>verify_chain\<close> here and by
  the agent's own copy of the loop in the acceptance pipeline.
\<close>

section \<open>The verifier\<close>

definition check_time_window :: "PortlTicket \<Rightarrow> u64 \<Rightarrow> PortlError + unit" where
  "check_time_window ticket now =
     (if saturating_add now 60 < bd_not_before (tk_body ticket) then
        Inl (Clock ''ticket not yet valid'')
      else if now \<ge> bd_not_after (tk_body ticket) then Inl (Clock ''ticket expired'')
      else Inr ())"

definition check_ticket :: "key32 \<Rightarrow> u64 \<Rightarrow> PortlTicket \<Rightarrow> PortlError + unit" where
  "check_ticket target now ticket =
     res_bind (canonical_check_ticket ticket) (\<lambda>_.
       if tk_v ticket \<noteq> 1 then Inl (Ticket ''unsupported ticket version'')
       else if ea_id (tk_addr ticket) \<noteq> target then
         Inl (Chain ''mismatched endpoint_id in chain'')
       else check_time_window ticket now)"

definition check_root :: "externs \<Rightarrow> key32 set \<Rightarrow> PortlTicket \<Rightarrow> PortlError + unit" where
  "check_root X roots root =
     (if is_some (bd_parent (tk_body root)) then Inl (Chain ''root ticket must not have parent'')
      else let root_key = resolved_issuer root in
        if root_key \<notin> roots then Inl (Chain ''unknown root'')
        else verify_body X root_key (tk_body root) (tk_sig root))"

definition check_child :: "externs \<Rightarrow> PortlTicket \<Rightarrow> PortlTicket \<Rightarrow> PortlError + unit" where
  "check_child X parent child =
     res_bind (ok_or (Chain ''delegated ticket missing parent'') (bd_parent (tk_body child)))
     (\<lambda>parent_ref. let parent_key = resolved_issuer parent in
     res_bind (verify_body X parent_key (tk_body child) (tk_sig child)) (\<lambda>_.
       if resolved_issuer child \<noteq> parent_key then
         Inl (Chain ''child issuer does not match parent authority'')
       else if dl_parent_ticket_id parent_ref \<noteq> parent_ticket_id X (tk_sig parent) then
         Inl (Chain ''parent ticket id mismatch'')
       else if \<not> is_narrowing (bd_caps (tk_body parent)) (bd_caps (tk_body child)) then
         Inl (Chain ''child caps widen parent'')
       else if bd_not_before (tk_body child) < bd_not_before (tk_body parent) \<or>
               bd_not_after (tk_body child) > bd_not_after (tk_body parent) then
         Inl (Chain ''child validity window escapes parent'')
       else if is_some (bd_bearer (tk_body parent)) \<and>
               bd_bearer (tk_body child) \<noteq> bd_bearer (tk_body parent) then
         Inl (Chain ''child bearer differs from parent'')
       else if \<not> is_some (bd_bearer (tk_body parent)) \<and> is_some (bd_bearer (tk_body child)) then
         Inl (Chain ''child introduces bearer not present in parent'')
       else
         res_bind (child_depth (Chain ''parent depth exhausted'') parent) (\<lambda>expected_depth.
           if dl_depth_remaining parent_ref \<noteq> expected_depth then
             Inl (Chain ''depth_remaining mismatch'')
           else Inr ())))"

fun check_links :: "externs \<Rightarrow> PortlTicket \<Rightarrow> PortlTicket list \<Rightarrow> PortlError + unit" where
  "check_links X parent [] = Inr ()"
| "check_links X parent (child # rest) =
     res_bind (check_child X parent child) (\<lambda>_. check_links X child rest)"

definition verify_chain ::
  "externs \<Rightarrow> PortlTicket \<Rightarrow> PortlTicket list \<Rightarrow> key32 set \<Rightarrow> u64 \<Rightarrow> PortlError + Capabilities" where
  "verify_chain X terminal chain roots now =
     (let all_tickets = chain @ [terminal] in
      if all_tickets = [] then Inl (Chain ''empty chain'')
      else if length all_tickets > unat MAX_DELEGATION_DEPTH + 1 then
        Inl (Chain ''delegation depth exceeded'')
      else let target = ea_id (tk_addr (hd all_tickets)); root = hd all_tickets in
        res_bind (for_each (check_ticket target now) all_tickets) (\<lambda>_.
        res_bind (check_root X roots root) (\<lambda>_.
        res_bind (check_links X root (tl all_tickets)) (\<lambda>_.
          Inr (bd_caps (tk_body terminal))))))"


section \<open>What an accepted chain promises\<close>

text \<open>One link, as both copies of the loop check it.\<close>

definition delegation_link :: "externs \<Rightarrow> PortlTicket \<Rightarrow> PortlTicket \<Rightarrow> bool" where
  "delegation_link X p c \<longleftrightarrow> (\<exists>d. bd_parent (tk_body c) = Some d \<and>
     verify_body X (resolved_issuer p) (tk_body c) (tk_sig c) = Inr () \<and>
     resolved_issuer c = resolved_issuer p \<and>
     dl_parent_ticket_id d = parent_ticket_id X (tk_sig p) \<and>
     is_narrowing (bd_caps (tk_body p)) (bd_caps (tk_body c)) \<and>
     bd_not_before (tk_body p) \<le> bd_not_before (tk_body c) \<and>
     bd_not_after (tk_body c) \<le> bd_not_after (tk_body p) \<and>
     child_depth (Chain '''') p = Inr (dl_depth_remaining d))"

definition bearer_inherited :: "PortlTicket \<Rightarrow> PortlTicket \<Rightarrow> bool" where
  "bearer_inherited p c \<longleftrightarrow> bd_bearer (tk_body c) = bd_bearer (tk_body p)"

definition sound_ticket :: "key32 \<Rightarrow> PortlTicket \<Rightarrow> bool" where
  "sound_ticket target t \<longleftrightarrow> canonical_ticket t \<and> tk_v t = 1 \<and> ea_id (tk_addr t) = target"

definition sound_root :: "externs \<Rightarrow> key32 set \<Rightarrow> PortlTicket \<Rightarrow> bool" where
  "sound_root X roots r \<longleftrightarrow> bd_parent (tk_body r) = None \<and> resolved_issuer r \<in> roots \<and>
     verify_body X (resolved_issuer r) (tk_body r) (tk_sig r) = Inr ()"

definition in_window :: "u64 \<Rightarrow> PortlTicket \<Rightarrow> bool" where
  "in_window now t \<longleftrightarrow> bd_not_before (tk_body t) \<le> saturating_add now 60 \<and>
     now < bd_not_after (tk_body t)"

definition sound_chain :: "externs \<Rightarrow> key32 set \<Rightarrow> PortlTicket list \<Rightarrow> bool" where
  "sound_chain X roots ts \<longleftrightarrow> ts \<noteq> [] \<and> length ts \<le> 9 \<and>
     (\<forall>t\<in>set ts. sound_ticket (ea_id (tk_addr (hd ts))) t) \<and>
     sound_root X roots (hd ts) \<and> successively (delegation_link X) ts"

lemma check_time_window_ok [res_simps]: "check_time_window t now = Inr () \<longleftrightarrow> in_window now t"
  by (auto simp: check_time_window_def in_window_def)

lemma check_ticket_ok [res_simps]:
  "check_ticket target now t = Inr () \<longleftrightarrow> sound_ticket target t \<and> in_window now t"
  by (auto simp: check_ticket_def res_simps sound_ticket_def split: if_splits)

lemma check_root_ok [res_simps]: "check_root X roots r = Inr () \<longleftrightarrow> sound_root X roots r"
  by (cases "bd_parent (tk_body r)") (auto simp: check_root_def sound_root_def Let_def)

lemma child_depth_error: "child_depth e p = Inr d \<longleftrightarrow> child_depth e' p = Inr d"
  by (auto simp: child_depth_def res_simps split: option.splits)

lemma check_child_ok [res_simps]:
  "check_child X p c = Inr () \<longleftrightarrow> delegation_link X p c \<and> bearer_inherited p c"
  unfolding check_child_def delegation_link_def bearer_inherited_def Let_def
  using child_depth_error [of "Chain ''parent depth exhausted''" p _ "Chain ''''"]
  by (cases "bd_bearer (tk_body p)"; cases "bd_bearer (tk_body c)")
     (auto simp: res_bind_unit_iff res_bind_Inr_iff ok_or_Inr_iff not_less split: if_splits)

lemma check_links_ok [res_simps]:
  "check_links X p cs = Inr () \<longleftrightarrow>
     successively (\<lambda>p c. delegation_link X p c \<and> bearer_inherited p c) (p # cs)"
  by (induction X p cs rule: check_links.induct) (auto simp: res_simps)

lemma successively_conj: "successively (\<lambda>x y. P x y \<and> Q x y) xs \<longleftrightarrow> successively P xs \<and> successively Q xs"
  by (induction xs rule: induct_list012) auto

lemma verify_chain_ok [res_simps]:
  "verify_chain X terminal chain roots now = Inr caps \<longleftrightarrow>
     sound_chain X roots (chain @ [terminal]) \<and> successively bearer_inherited (chain @ [terminal]) \<and>
     (\<forall>t\<in>set (chain @ [terminal]). in_window now t) \<and> caps = bd_caps (tk_body terminal)"
proof -
  obtain r rest where all: "chain @ [terminal] = r # rest" by (cases "chain @ [terminal]") auto
  show ?thesis
    unfolding verify_chain_def sound_chain_def Let_def all
    by (auto simp: res_bind_Inr_iff for_each_ok_iff check_ticket_ok check_root_ok check_links_ok
        successively_conj MAX_DELEGATION_DEPTH_def split: if_splits)
qed


section \<open>The interface of a chain verifier\<close>

locale chain_verifier =
  fixes accepts :: "externs \<Rightarrow> key32 set \<Rightarrow> PortlTicket list \<Rightarrow> bool"
  assumes accepts_sound: "accepts X roots ts \<Longrightarrow> sound_chain X roots ts"
begin

lemma accepts_link:
  assumes "accepts X roots ts" and "Suc i < length ts"
  shows "delegation_link X (ts ! i) (ts ! Suc i)"
  using accepts_sound [OF assms(1)] assms(2)
  by (auto simp: sound_chain_def successively_conv_nth)

lemma accepts_issuer:
  assumes "accepts X roots ts" and "i < length ts"
  shows "resolved_issuer (ts ! i) = resolved_issuer (hd ts)"
  using assms(2)
proof (induction i)
  case 0
  then show ?case by (cases ts) auto
next
  case (Suc i)
  then show ?case using accepts_link [OF assms(1), of i] by (auto simp: delegation_link_def)
qed

lemma accepts_root_trusted: "accepts X roots ts \<Longrightarrow> resolved_issuer (hd ts) \<in> roots"
  by (auto dest!: accepts_sound simp: sound_chain_def sound_root_def)

lemma accepts_signed:
  assumes a: "accepts X roots ts" and i: "i < length ts"
  shows "verify_body X (resolved_issuer (hd ts)) (tk_body (ts ! i)) (tk_sig (ts ! i)) = Inr ()"
proof (cases i)
  case 0
  then show ?thesis using accepts_sound [OF a] by (auto simp: sound_chain_def sound_root_def hd_conv_nth)
next
  case (Suc j)
  with i have "delegation_link X (ts ! j) (ts ! i)" using accepts_link [OF a, of j] by simp
  then show ?thesis using accepts_issuer [OF a, of j] i Suc by (auto simp: delegation_link_def)
qed

lemma accepts_depth:
  assumes a: "accepts X roots ts" and "Suc i < length ts"
  shows "\<exists>d. bd_parent (tk_body (ts ! Suc i)) = Some d \<and>
    dl_parent_ticket_id d = parent_ticket_id X (tk_sig (ts ! i)) \<and>
    unat (dl_depth_remaining d) = 7 - i"
  using assms(2)
proof (induction i)
  case 0
  have "bd_parent (tk_body (ts ! 0)) = None"
    using accepts_sound [OF a] 0 by (auto simp: sound_chain_def sound_root_def hd_conv_nth)
  then show ?case using accepts_link [OF a 0]
    by (auto simp: delegation_link_def child_depth_def MAX_DELEGATION_DEPTH_def)
next
  case (Suc i)
  then obtain e where e: "bd_parent (tk_body (ts ! Suc i)) = Some e"
      "unat (dl_depth_remaining e) = 7 - i" by auto
  then show ?case using accepts_link [OF a Suc.prems]
    by (auto simp: delegation_link_def child_depth_def res_simps dest!: unat_checked_sub)
qed

lemma accepts_narrowing:
  "accepts X roots ts \<Longrightarrow> successively is_narrowing (map (\<lambda>t. bd_caps (tk_body t)) ts)"
  by (drule accepts_sound)
     (auto simp: sound_chain_def successively_map delegation_link_def elim!: successively_mono)

lemma accepts_window:
  assumes a: "accepts X roots ts" and "i \<le> j" and "j < length ts"
  shows "bd_not_before (tk_body (ts ! i)) \<le> bd_not_before (tk_body (ts ! j)) \<and>
    bd_not_after (tk_body (ts ! j)) \<le> bd_not_after (tk_body (ts ! i))"
  using assms(2,3)
proof (induction j rule: dec_induct)
  case (step n)
  then show ?case using accepts_link [OF a, of n] by (auto simp: delegation_link_def)
qed simp

lemma accepts_length: "accepts X roots ts \<Longrightarrow> 0 < length ts \<and> length ts \<le> 9"
  by (auto dest!: accepts_sound simp: sound_chain_def)

end

definition core_accepts :: "u64 \<Rightarrow> externs \<Rightarrow> key32 set \<Rightarrow> PortlTicket list \<Rightarrow> bool" where
  "core_accepts now X roots ts \<longleftrightarrow>
     ts \<noteq> [] \<and> is_ok (verify_chain X (last ts) (butlast ts) roots now)"

interpretation core_chain: chain_verifier "core_accepts now" for now
  by unfold_locales (auto simp: core_accepts_def is_ok_iff verify_chain_ok)

lemma core_accepts_snoc:
  "core_accepts now X roots (chain @ [t]) \<longleftrightarrow> (\<exists>caps. verify_chain X t chain roots now = Inr caps)"
  by (simp add: core_accepts_def is_ok_iff)


section \<open>Minting produces what verification accepts\<close>

interpretation sound: chain_verifier sound_chain
  by unfold_locales

lemma successively_snoc2:
  "successively R (xs @ [p]) \<Longrightarrow> R p c \<Longrightarrow> successively R (xs @ [p, c])"
  by (induction xs rule: induct_list012) auto

lemma sound_chain_snoc:
  assumes "sound_chain X roots (chain @ [p])" and "delegation_link X p c"
    and "sound_ticket (ea_id (tk_addr p)) c" and "length chain \<le> 7"
  shows "sound_chain X roots ((chain @ [p]) @ [c])"
  using assms successively_snoc2 [of "delegation_link X" chain p c]
  by (cases chain) (auto simp: sound_chain_def sound_ticket_def)

lemma delegable_depth:
  assumes "sound_chain X roots (chain @ [p])" and "child_depth e p = Inr d"
  shows "length chain \<le> 7"
proof (cases "length chain")
  case (Suc i)
  with sound.accepts_depth [OF assms(1), of i] obtain f where
      "bd_parent (tk_body p) = Some f" "unat (dl_depth_remaining f) = 7 - i"
    by (auto simp: nth_append)
  with assms(2) Suc show ?thesis
    by (auto simp: child_depth_def res_simps dest!: unat_checked_sub)
qed simp

lemma delegable:
  assumes "sound_chain X roots (chain @ [p])" and "length chain < 8"
  shows "\<exists>d. child_depth e p = Inr d"
proof (cases "length chain")
  case 0
  then show ?thesis using assms(1) by (simp add: sound_chain_def sound_root_def child_depth_def)
next
  case (Suc i)
  with sound.accepts_depth [OF assms(1), of i] obtain f where
      "bd_parent (tk_body p) = Some f" "unat (dl_depth_remaining f) = 7 - i"
    by (auto simp: nth_append)
  with assms(2) Suc show ?thesis
    by (auto simp: child_depth_def ok_or_def checked_sub_def word_less_nat_alt)
qed

lemma mint_root_sound:
  assumes "ed25519_correct X" and "mint_root X draws sk addr caps nb na to = Some (Inr t)"
    and "ex_verifying_key X sk \<in> roots"
  shows "sound_chain X roots [t] \<and> bd_caps (tk_body t) = caps \<and> bd_bearer (tk_body t) = None \<and>
    bd_not_before (tk_body t) = nb \<and> bd_not_after (tk_body t) = na"
proof -
  from assms(2) obtain nonce body where body: "fresh_nonce draws = Some nonce"
      "body = \<lparr>bd_caps = caps, bd_target = ea_id addr, bd_alpns_extra = [], bd_not_before = nb,
         bd_not_after = na, bd_issuer = issuer_for X sk addr, bd_parent = None,
         bd_nonce = nonce, bd_bearer = None, bd_to = to\<rparr>"
      and seal: "seal X sk addr body = Inr t"
    by (auto simp: mint_root_def)
  have "resolved_issuer t = ex_verifying_key X sk"
    using seal body by (auto simp: seal_ok resolved_issuer_def issuer_for_def Let_def)
  with seal_verifies [OF assms(1) seal] seal body assms(3) show ?thesis
    by (auto simp: sound_chain_def sound_root_def sound_ticket_def seal_ok)
qed

lemma mint_delegated_cases:
  assumes "mint_delegated X draws sk p caps nb na to = Some (Inr t)"
  obtains nonce depth where "fresh_nonce draws = Some nonce"
    "is_narrowing (bd_caps (tk_body p)) caps" "bd_not_before (tk_body p) \<le> nb"
    "na \<le> bd_not_after (tk_body p)" "child_depth (Ticket ''parent depth exhausted'') p = Inr depth"
    "seal X sk (tk_addr p)
       \<lparr>bd_caps = caps, bd_target = bd_target (tk_body p), bd_alpns_extra = [], bd_not_before = nb,
        bd_not_after = na, bd_issuer = issuer_for X sk (tk_addr p),
        bd_parent = Some \<lparr>dl_parent_ticket_id = parent_ticket_id X (tk_sig p),
                          dl_depth_remaining = depth\<rparr>,
        bd_nonce = nonce, bd_bearer = None, bd_to = to\<rparr> = Inr t"
  using assms by (auto simp: mint_delegated_def not_less split: sum.splits if_splits)

lemma mint_delegated_sound:
  assumes X: "ed25519_correct X" and p: "sound_chain X roots (chain @ [p])"
    and mint: "mint_delegated X draws sk p caps nb na to = Some (Inr t)"
    and sk: "resolved_issuer p = ex_verifying_key X sk"
  shows "sound_chain X roots ((chain @ [p]) @ [t]) \<and> bd_caps (tk_body t) = caps \<and>
    bd_bearer (tk_body t) = None \<and> bd_not_before (tk_body t) = nb \<and> bd_not_after (tk_body t) = na"
  using mint
proof (cases rule: mint_delegated_cases)
  case (1 nonce depth)
  have iss: "resolved_issuer t = resolved_issuer p"
    using 1(6) sk by (auto simp: seal_ok resolved_issuer_def issuer_for_def Let_def)
  have "child_depth (Chain '''') p = Inr depth" using 1(5) child_depth_error by blast
  with 1 iss seal_verifies [OF X 1(6)] sk have "delegation_link X p t"
    by (auto simp: delegation_link_def seal_ok)
  moreover have "sound_ticket (ea_id (tk_addr p)) t" using 1(6)
    by (auto simp: sound_ticket_def seal_ok)
  ultimately show ?thesis
    using sound_chain_snoc [OF p] delegable_depth [OF p 1(5)] 1(6) by (auto simp: seal_ok)
qed


section \<open>A concrete instance\<close>

text \<open>
  Functions that satisfy the laws of the external crates, and a self-signed issuer, for the
  witnesses below.
\<close>

definition demo_externs :: externs where
  "demo_externs =
     \<lparr>ex_body_bytes = (\<lambda>b. Some (bd_nonce b)), ex_ticket_bytes = (\<lambda>t. Some (tk_sig t)),
      ex_ticket_from = (\<lambda>_. None), ex_sha256 = rev, ex_verifying_key = (\<lambda>sk. sk),
      ex_sign = (\<lambda>sk m. sk @ m), ex_key_valid = (\<lambda>_. True),
      ex_verify_strict = (\<lambda>pk m s. s = pk @ m)\<rparr>"

definition demo_addr :: EndpointAddr where
  "demo_addr = \<lparr>ea_id = replicate 32 1, ea_transport = []\<rparr>"

definition demo_caps :: Capabilities where
  "demo_caps = \<lparr>cp_presence = 34, cp_shell = None,
     cp_tcp = Some [\<lparr>pr_host_glob = ''*'', pr_port_min = 1, pr_port_max = 1024\<rparr>], cp_udp = None,
     cp_fs = None, cp_vpn = None, cp_meta = Some \<lparr>mt_ping = True, mt_info = True\<rparr>, cp_unix = None\<rparr>"

definition demo_root :: PortlTicket where
  "demo_root = \<lparr>tk_v = 1, tk_addr = demo_addr,
     tk_body = \<lparr>bd_caps = demo_caps, bd_target = replicate 32 1, bd_alpns_extra = [],
       bd_not_before = 1000, bd_not_after = 2000, bd_issuer = None, bd_parent = None,
       bd_nonce = replicate 8 7, bd_bearer = None, bd_to = None\<rparr>, tk_sig = replicate 32 1 @ replicate 8 7\<rparr>"

definition demo_child :: PortlTicket where
  "demo_child = \<lparr>tk_v = 1, tk_addr = demo_addr,
     tk_body = \<lparr>bd_caps = demo_caps, bd_target = replicate 32 1, bd_alpns_extra = [],
       bd_not_before = 1000, bd_not_after = 1500, bd_issuer = None,
       bd_parent = Some \<lparr>dl_parent_ticket_id = parent_ticket_id demo_externs (replicate 32 1 @ replicate 8 7),
                        dl_depth_remaining = 7\<rparr>,
       bd_nonce = replicate 8 9, bd_bearer = None, bd_to = None\<rparr>, tk_sig = replicate 32 1 @ replicate 8 9\<rparr>"

lemma demo_laws: "ed25519_correct demo_externs" "postcard_total demo_externs"
  by (simp_all add: ed25519_correct_def postcard_total_def demo_externs_def)

lemma demo_caps_canonical: "canonical_caps demo_caps"
proof -
  have "check_presence_bitmap demo_caps = Inr ()"
    by (simp add: check_presence_bitmap_def demo_caps_def TCP_LISTEN_CAP_BIT_def)
  then show ?thesis
    by (simp add: canonical_caps_def check_presence_bitmap_ok) (simp add: demo_caps_def)
qed

lemma demo_tickets_canonical: "canonical_ticket demo_root" "canonical_ticket demo_child"
  using demo_caps_canonical
  by (simp_all add: canonical_ticket_def canonical_body_def demo_root_def demo_child_def
      demo_addr_def)

lemma demo_caps_narrow: "is_narrowing demo_caps demo_caps"
  by (simp add: is_narrowing_reflexive demo_caps_canonical)

lemma demo_minted:
  "mint_root demo_externs [replicate 8 7] (replicate 32 1) demo_addr demo_caps 1000 2000 None = Some (Inr demo_root)"
  using demo_tickets_canonical(1)
  by (simp add: mint_root_def seal_ok)
     (simp add: demo_root_def demo_addr_def issuer_for_def demo_externs_def)

lemma demo_root_accepted: "verify_chain demo_externs demo_root [] {replicate 32 1} 1200 = Inr demo_caps"
proof -
  have "ex_verifying_key demo_externs (replicate 32 1) \<in> {replicate 32 1}" by (simp add: demo_externs_def)
  from mint_root_sound [OF demo_laws(1) demo_minted this] show ?thesis
    by (simp add: verify_chain_ok in_window_def demo_root_def saturating_add_def)
qed


definition demo_master :: PortlTicket where
  "demo_master = demo_root\<lparr>tk_body := (tk_body demo_root)\<lparr>bd_bearer := Some [42], bd_to := Some [5]\<rparr>\<rparr>"

lemma demo_master_canonical: "canonical_ticket demo_master"
  using demo_tickets_canonical(1)
  by (simp add: demo_master_def canonical_ticket_def canonical_body_def)

lemma demo_master_minted:
  "mint_master demo_externs [replicate 8 7] (Some 1000) (replicate 32 1) demo_addr demo_caps [42]
     1000 [5] = Some (Inr demo_master)"
  using demo_master_canonical
  by (simp add: mint_master_def MAX_MASTER_TTL_SECS_def checked_add_def seal_ok)
     (simp add: demo_master_def demo_root_def demo_addr_def issuer_for_def demo_externs_def)

lemma demo_master_child:
  "mint_delegated demo_externs [replicate 8 9] (replicate 32 1) demo_master demo_caps 1000 1500 None
   = Some (Inr demo_child)"
proof -
  have "canonical_check_ticket demo_master = Inr ()"
    using demo_master_canonical by (simp add: canonical_check_ticket_ok)
  then show ?thesis
    using demo_tickets_canonical(2) demo_caps_narrow
    by (simp add: mint_delegated_def seal_ok child_depth_def)
       (simp add: demo_child_def demo_master_def demo_root_def demo_addr_def issuer_for_def
         demo_externs_def child_depth_def MAX_DELEGATION_DEPTH_def seal_ok)
qed


section \<open>Properties\<close>

text \<open>
  C1.  What a verified chain is.  When \<open>verify_chain\<close> succeeds, the chain has at most eight
  hops, one trusted root key issued and signed every ticket of it, all tickets name the same
  endpoint and are inside their validity window, and the ticket at hop \<open>i\<close> carries the hash
  of the ticket before it and exactly \<open>8 - i\<close> as remaining depth.  The result is the
  capability set of the terminal ticket.
\<close>

theorem verify_chain_sound:
  assumes "verify_chain X terminal chain roots now = Inr caps"
  shows "length chain \<le> 8 \<and> caps = bd_caps (tk_body terminal) \<and>
    (\<exists>root\<in>roots. \<forall>i\<le>length chain. let ts = chain @ [terminal]; t = ts ! i in
       resolved_issuer t = root \<and> verify_body X root (tk_body t) (tk_sig t) = Inr () \<and>
       ea_id (tk_addr t) = ea_id (tk_addr terminal) \<and> in_window now t \<and>
       (0 < i \<longrightarrow> (\<exists>d. bd_parent (tk_body t) = Some d \<and>
          dl_parent_ticket_id d = parent_ticket_id X (tk_sig (ts ! (i - 1))) \<and>
          unat (dl_depth_remaining d) = 8 - i)))"
proof -
  let ?ts = "chain @ [terminal]"
  have acc: "core_accepts now X roots ?ts" using assms by (auto simp: core_accepts_snoc)
  have tickets: "\<forall>t\<in>set ?ts. sound_ticket (ea_id (tk_addr (hd ?ts))) t \<and> in_window now t"
    using assms by (auto simp: verify_chain_ok sound_chain_def)
  then have target: "ea_id (tk_addr t) = ea_id (tk_addr terminal)" if "t \<in> set ?ts" for t
    using that by (auto simp: sound_ticket_def)
  have "resolved_issuer (hd ?ts) \<in> roots" by (rule core_chain.accepts_root_trusted [OF acc])
  moreover have "\<forall>i\<le>length chain. resolved_issuer (?ts ! i) = resolved_issuer (hd ?ts) \<and>
      verify_body X (resolved_issuer (hd ?ts)) (tk_body (?ts ! i)) (tk_sig (?ts ! i)) = Inr () \<and>
      ea_id (tk_addr (?ts ! i)) = ea_id (tk_addr terminal) \<and> in_window now (?ts ! i)"
  proof (intro allI impI)
    fix i assume "i \<le> length chain"
    then have i: "i < length ?ts" by simp
    then have mem: "?ts ! i \<in> set ?ts" by (rule nth_mem)
    show "resolved_issuer (?ts ! i) = resolved_issuer (hd ?ts) \<and>
      verify_body X (resolved_issuer (hd ?ts)) (tk_body (?ts ! i)) (tk_sig (?ts ! i)) = Inr () \<and>
      ea_id (tk_addr (?ts ! i)) = ea_id (tk_addr terminal) \<and> in_window now (?ts ! i)"
      using core_chain.accepts_issuer [OF acc i] core_chain.accepts_signed [OF acc i]
        target [OF mem] tickets mem by blast
  qed
  moreover have "\<exists>d. bd_parent (tk_body (?ts ! i)) = Some d \<and>
      dl_parent_ticket_id d = parent_ticket_id X (tk_sig (?ts ! (i - 1))) \<and>
      unat (dl_depth_remaining d) = 8 - i" if "i \<le> length chain" "0 < i" for i
    using core_chain.accepts_depth [OF acc, of "i - 1"] that by auto
  ultimately show ?thesis
    using assms core_chain.accepts_length [OF acc] unfolding Let_def
    by (auto simp: verify_chain_ok intro!: bexI [of _ "resolved_issuer (hd ?ts)"])
qed

theorem verify_chain_sound_witness:
  "\<exists>root\<in>{replicate 32 1}. resolved_issuer demo_root = root"
  using verify_chain_sound [OF demo_root_accepted] by (simp add: Let_def)

text \<open>
  Minting a root ticket.  With a key that is a trust root, canonical capabilities, a
  non-empty validity window of at most 365 days and a random generator that eventually
  returns a non-zero nonce, \<open>mint_root\<close> returns a ticket, and at any moment inside the
  window \<open>verify_chain\<close> accepts it and grants exactly the capabilities asked for.
\<close>

lemma mint_root_accepted:
  assumes "ed25519_correct X" and "postcard_total X"
    and "\<exists>d\<in>set draws. d \<noteq> replicate 8 0" and "canonical_caps caps" and "nb < na"
    and "unat na - unat nb \<le> 365 * 86400" and "ex_verifying_key X sk \<in> roots"
    and "nb \<le> now" and "now < na"
  shows "\<exists>t. mint_root X draws sk addr caps nb na to = Some (Inr t) \<and>
    verify_chain X t [] roots now = Inr caps"
proof -
  obtain nonce where nonce: "fresh_nonce draws = Some nonce" using assms(3) fresh_nonce_total by blast
  have "\<exists>t. mint_root X draws sk addr caps nb na to = Some (Inr t)"
    using assms(2,4-6) fresh_nonce_nonzero [OF nonce] nonce
    by (auto simp: mint_root_def canonical_body_def intro!: seal_total)
  then obtain t where t: "mint_root X draws sk addr caps nb na to = Some (Inr t)" by blast
  moreover have "nb \<le> saturating_add now 60"
    using assms(8) le_saturating_add by (rule order_trans)
  ultimately show ?thesis
    using mint_root_sound [OF assms(1) t assms(7)] assms(9)
    by (auto simp: verify_chain_ok in_window_def)
qed

text \<open>
  C5.  Delegating.  On top of an accepted chain whose terminal ticket carries no bearer and is
  not at the last hop, the holder of the issuing key can mint a child for any canonical
  narrowing of the parent's capabilities and any window inside the parent's; \<open>mint_delegated\<close>
  returns a ticket and the extended chain is accepted with exactly the child's capabilities.
\<close>

theorem mint_delegated_accepted:
  assumes "ed25519_correct X" and "postcard_total X"
    and parent: "verify_chain X parent chain roots now = Inr parent_caps"
    and "resolved_issuer parent = ex_verifying_key X sk" and "bd_bearer (tk_body parent) = None"
    and "length chain < 8" and "\<exists>d\<in>set draws. d \<noteq> replicate 8 0"
    and "canonical_caps caps" and "is_narrowing (bd_caps (tk_body parent)) caps"
    and "bd_not_before (tk_body parent) \<le> nb" and "na \<le> bd_not_after (tk_body parent)"
    and "nb \<le> now" and "now < na"
  shows "\<exists>t. mint_delegated X draws sk parent caps nb na to = Some (Inr t) \<and>
    verify_chain X t (chain @ [parent]) roots now = Inr caps"
proof -
  have p: "sound_chain X roots (chain @ [parent])" "\<forall>t\<in>set (chain @ [parent]). in_window now t"
      "successively bearer_inherited (chain @ [parent])"
    using parent by (auto simp: verify_chain_ok)
  then have can: "canonical_ticket parent" by (auto simp: sound_chain_def sound_ticket_def)
  obtain nonce where nonce: "fresh_nonce draws = Some nonce" using assms(7) fresh_nonce_total by blast
  obtain depth where depth: "child_depth (Ticket ''parent depth exhausted'') parent = Inr depth"
    using p(1) assms(6) delegable by blast
  have ttl: "unat na - unat nb \<le> 365 * 86400" using can assms(10,11)
    by (auto simp: canonical_ticket_def canonical_body_def word_le_nat_alt)
  have "\<exists>t. mint_delegated X draws sk parent caps nb na to = Some (Inr t)"
    using can canonical_check_ticket_ok [of parent] depth assms(2,8-13) ttl nonce
      fresh_nonce_nonzero [OF nonce]
    by (auto simp: mint_delegated_def not_less canonical_body_def canonical_ticket_def
        split: sum.splits intro!: seal_total)
  then obtain t where t: "mint_delegated X draws sk parent caps nb na to = Some (Inr t)" by blast
  have "nb \<le> saturating_add now 60" using assms(12) le_saturating_add by (rule order_trans)
  with mint_delegated_sound [OF assms(1) p(1) t assms(4)] p(2,3) assms(5,13)
  have "verify_chain X t (chain @ [parent]) roots now = Inr caps"
    by (auto simp: verify_chain_ok in_window_def bearer_inherited_def intro: successively_snoc2)
  with t show ?thesis by blast
qed

theorem mint_delegated_accepted_witness:
  "\<exists>t. mint_delegated demo_externs [replicate 8 9] (replicate 32 1) demo_root demo_caps
       1000 1500 None = Some (Inr t) \<and>
     verify_chain demo_externs t ([] @ [demo_root]) {replicate 32 1} 1200 = Inr demo_caps"
  by (rule mint_delegated_accepted [OF demo_laws demo_root_accepted])
     (simp_all add: demo_caps_canonical demo_externs_def demo_root_def resolved_issuer_def
        demo_addr_def demo_caps_narrow)

text \<open>
  A master ticket cannot be delegated.  A child minted below a ticket that carries a
  bearer never carries one itself, and the chain check requires the bearer to be inherited:
  whatever the rest of the chain, the clock and the trust roots, the extended chain is refused.
\<close>

lemma master_delegation_rejected:
  assumes "mint_delegated X draws sk parent caps nb na to = Some (Inr t)"
    and "bd_bearer (tk_body parent) = Some bearer"
  shows "\<not> is_ok (verify_chain X t (chain @ [parent]) roots now)"
proof
  assume "is_ok (verify_chain X t (chain @ [parent]) roots now)"
  then have "bearer_inherited parent t"
    by (auto simp: is_ok_iff verify_chain_ok successively_append_iff)
  with assms show False
    by (auto simp: bearer_inherited_def seal_ok elim!: mint_delegated_cases)
qed


text \<open>
  Minting a master ticket.  A minted master ticket carries the given non-empty bearer, is
  bound to the given holder, is valid from the clock's second for exactly the requested
  lifetime, which is between one second and thirty days, and is accepted as a root ticket at
  every moment of that lifetime.
\<close>

lemma mint_master_spec:
  assumes "ed25519_correct X" and "ex_verifying_key X sk \<in> roots"
    and mint: "mint_master X draws (Some now) sk addr caps bearer ttl to = Some (Inr t)"
    and "now \<le> later" and "unat later < unat now + unat ttl"
  shows "extract_bearer t = Some bearer \<and> bearer \<noteq> [] \<and> bd_to (tk_body t) = Some to \<and>
    0 < unat ttl \<and> unat ttl \<le> 30 * 86400 \<and> bd_not_before (tk_body t) = now \<and>
    unat (bd_not_after (tk_body t)) = unat now + unat ttl \<and>
    verify_chain X t [] roots later = Inr caps"
proof -
  from mint obtain nonce na where pre: "bearer \<noteq> []" "ttl \<noteq> 0" "ttl \<le> MAX_MASTER_TTL_SECS"
      "checked_add now ttl = Some na" "fresh_nonce draws = Some nonce"
    and seal: "seal X sk addr
      \<lparr>bd_caps = caps, bd_target = ea_id addr, bd_alpns_extra = [], bd_not_before = now,
       bd_not_after = na, bd_issuer = issuer_for X sk addr, bd_parent = None, bd_nonce = nonce,
       bd_bearer = Some bearer, bd_to = Some to\<rparr> = Inr t"
    by (auto simp: mint_master_def not_less split: if_splits option.splits)
  have "resolved_issuer t = ex_verifying_key X sk"
    using seal by (auto simp: seal_ok resolved_issuer_def issuer_for_def Let_def)
  with seal_verifies [OF assms(1) seal] seal assms(2) have "sound_chain X roots [t]"
    by (auto simp: sound_chain_def sound_root_def sound_ticket_def seal_ok)
  moreover have "now \<le> saturating_add later 60" using assms(4) le_saturating_add by (rule order_trans)
  moreover have "unat ttl \<le> 30 * 86400" using pre(3)
    by (simp add: MAX_MASTER_TTL_SECS_def word_le_nat_alt)
  moreover have "later < na" using assms(5) unat_checked_add [OF pre(4)]
    by (simp add: word_less_nat_alt)
  ultimately show ?thesis using pre seal unat_checked_add [OF pre(4)]
    by (auto simp: verify_chain_ok in_window_def extract_bearer_def seal_ok unat_gt_0)
qed

text \<open>
  One issuer form.  Two canonical tickets for the same endpoint whose issuers resolve to
  the same key store the issuer in the same way, so the resolution rule leaves no room for two
  encodings of one body.
\<close>

lemma issuer_form_unique:
  assumes "canonical_check_ticket s = Inr ()" and "canonical_check_ticket t = Inr ()"
    and "ea_id (tk_addr s) = ea_id (tk_addr t)" and "resolved_issuer s = resolved_issuer t"
  shows "bd_issuer (tk_body s) = bd_issuer (tk_body t)"
  using assms unfolding canonical_check_ticket_ok canonical_ticket_def resolved_issuer_def
  by (auto split: option.splits)

text \<open>
  The wire codec.  Where the serializer reads back what it wrote for a ticket, decoding
  bytes to that ticket succeeds exactly when encoding it yields those bytes; in particular no
  second byte string decodes to it, and both decoders of the sources agree.
\<close>

lemma codec_roundtrip:
  assumes "postcard_roundtrip X t"
  shows "(decode X bs = Inr t \<longleftrightarrow> encode X t = Inr bs) \<and>
    (decode_bytes X bs = Inr t \<longleftrightarrow> encode X t = Inr bs)"
  using assms by (auto simp: res_simps postcard_roundtrip_def)

end
