(* ===== verification/Revocations.thy ===== *)
theory Revocations
  imports Ticket_Schema "HOL-Library.AList"
begin

text \<open>
  The agent's revocation set (\<^verbatim>\<open>portl-agent/src/revocations.rs\<close>): the identifiers, the records
  behind them, the live sessions that a revocation cancels, and the JSONL file.  The record
  \<open>RevocationSet\<close> carries, besides the fields of the struct, the content of the file the set
  owns (\<open>None\<close> when it does not exist) and the cancellation tokens that were cancelled.  The
  crates \<^verbatim>\<open>hex\<close> and \<^verbatim>\<open>serde_json\<close> are the fields of \<open>rev_externs\<close>; the argument \<open>io_ok\<close> of an
  operation that writes says whether the file system calls succeed.  Sums of machine integers
  wrap, as they do in the release profile.
\<close>

type_synonym token = nat

record RevocationRecord =
  rr_ticket_id :: string
  rr_reason :: string
  rr_revoked_at :: "u64 option"
  rr_not_after_of_ticket :: "u64 option"

record rev_externs =
  rx_hex_encode :: "bytes \<Rightarrow> string"
  rx_hex_decode :: "string \<Rightarrow> bytes option"
  rx_to_json :: "RevocationRecord \<Rightarrow> string option"
  rx_from_json :: "string \<Rightarrow> RevocationRecord option"

record RevocationSet =
  rs_ids :: "ticket_hash set"
  rs_records :: "RevocationRecord list"
  rs_live_sessions :: "(ticket_hash \<times> (bytes \<times> token) list) list"
  rs_max_bytes :: u64
  rs_disk :: "string option"
  rs_cancelled :: "token set"

datatype AppendError =
    SizeCeilingExceeded u64 u64 u64
  | InvalidRecord string
  | AppendIo string

definition REVOCATION_LINGER_SECS :: u64 where
  "REVOCATION_LINGER_SECS = 7 * 86400"

definition DEFAULT_REVOCATIONS_MAX_BYTES :: u64 where
  "DEFAULT_REVOCATIONS_MAX_BYTES = 10 * 1024 * 1024"

section \<open>Records\<close>

definition new_record :: "rev_externs \<Rightarrow> ticket_hash \<Rightarrow> string \<Rightarrow> u64 \<Rightarrow> u64 option \<Rightarrow> RevocationRecord" where
  "new_record R tid reason revoked_at not_after =
     \<lparr>rr_ticket_id = rx_hex_encode R tid, rr_reason = reason, rr_revoked_at = Some revoked_at,
      rr_not_after_of_ticket = not_after\<rparr>"

definition decode_ticket_id :: "rev_externs \<Rightarrow> string \<Rightarrow> string + ticket_hash" where
  "decode_ticket_id R hex_id =
     (case rx_hex_decode R hex_id of
        None \<Rightarrow> Inl (''decode ticket id '' @ hex_id)
      | Some bytes \<Rightarrow>
          if length bytes = 16 then Inr bytes
          else Inl (''ticket id must be exactly 16 bytes: '' @ hex_id))"

definition ticket_id_bytes :: "rev_externs \<Rightarrow> RevocationRecord \<Rightarrow> string + ticket_hash" where
  "ticket_id_bytes R record = decode_ticket_id R (rr_ticket_id record)"

definition usize_to_u64 :: "nat \<Rightarrow> u64" where
  "usize_to_u64 n = (if n < 2 ^ 64 then of_nat n else - 1)"

definition encoded_record_len :: "rev_externs \<Rightarrow> RevocationRecord \<Rightarrow> AppendError + u64" where
  "encoded_record_len R record =
     (case rx_to_json R record of
        None \<Rightarrow> Inl (AppendIo (''encode revocation '' @ rr_ticket_id record))
      | Some encoded \<Rightarrow> Inr (usize_to_u64 (length encoded + 1)))"

fun encode_jsonl :: "rev_externs \<Rightarrow> RevocationRecord list \<Rightarrow> string + string" where
  "encode_jsonl R [] = Inr ''''"
| "encode_jsonl R (record # records) =
     res_bind (ok_or (''encode revocation '' @ rr_ticket_id record) (rx_to_json R record)) (\<lambda>line.
     res_bind (encode_jsonl R records) (\<lambda>rest. Inr (line @ [CHR 0x0A] @ rest)))"

text \<open>
  The file is replaced by writing a sibling and renaming it, so a failed write leaves the old
  content in place.
\<close>

definition write_jsonl ::
  "rev_externs \<Rightarrow> bool \<Rightarrow> string option \<Rightarrow> RevocationRecord list \<Rightarrow> string + string option" where
  "write_jsonl R io_ok disk records =
     res_bind (encode_jsonl R records) (\<lambda>encoded.
       if io_ok then Inr (Some encoded) else Inl ''write revocations'')"

definition parse_line :: "rev_externs \<Rightarrow> string \<Rightarrow> string + RevocationRecord option" where
  "parse_line R line =
     (let trimmed = trim line in
      if trimmed = '''' then Inr None
      else case rx_from_json R trimmed of
        None \<Rightarrow> Inl ''parse revocation JSONL line''
      | Some record \<Rightarrow> Inr (Some record))"

definition parse_revocation_records :: "rev_externs \<Rightarrow> string \<Rightarrow> string + RevocationRecord list" where
  "parse_revocation_records R raw =
     res_bind (collect_results (parse_line R) (lines raw))
       (\<lambda>parsed. Inr (List.map_filter (\<lambda>r. r) parsed))"

section \<open>The set\<close>

definition contains :: "RevocationSet \<Rightarrow> ticket_hash \<Rightarrow> bool" where
  "contains s tid = (tid \<in> rs_ids s)"

definition cancel_live_sessions :: "ticket_hash \<Rightarrow> RevocationSet \<Rightarrow> RevocationSet" where
  "cancel_live_sessions tid s =
     (case map_of (rs_live_sessions s) tid of
        None \<Rightarrow> s
      | Some sessions \<Rightarrow> s\<lparr>rs_cancelled := rs_cancelled s \<union> set (map snd sessions)\<rparr>)"

definition insert_id :: "rev_externs \<Rightarrow> RevocationSet \<Rightarrow> ticket_hash \<Rightarrow> bool \<times> RevocationSet" where
  "insert_id R s tid =
     (if tid \<in> rs_ids s then (False, s)
      else (True, cancel_live_sessions tid
        (s\<lparr>rs_ids := insert tid (rs_ids s),
           rs_records := rs_records s @
             [\<lparr>rr_ticket_id = rx_hex_encode R tid, rr_reason = ''manual'', rr_revoked_at = None,
               rr_not_after_of_ticket = None\<rparr>]\<rparr>)))"

fun gather :: "rev_externs \<Rightarrow> RevocationRecord list \<Rightarrow> ticket_hash set \<Rightarrow> u64 \<Rightarrow>
  AppendError + (ticket_hash set \<times> u64 \<times> RevocationRecord list \<times> ticket_hash list)" where
  "gather R [] new_ids append_bytes = Inr (new_ids, append_bytes, [], [])"
| "gather R (record # records) new_ids append_bytes =
     res_bind (map_err InvalidRecord (ticket_id_bytes R record)) (\<lambda>tid.
       if tid \<in> new_ids then gather R records new_ids append_bytes
       else res_bind (encoded_record_len R record) (\<lambda>len.
         res_bind (gather R records (insert tid new_ids) (saturating_add append_bytes len))
           (\<lambda>(ids, bytes, pending, pending_ids). Inr (ids, bytes, record # pending, tid # pending_ids))))"

definition disk_len :: "RevocationSet \<Rightarrow> u64" where
  "disk_len s = (case rs_disk s of None \<Rightarrow> 0 | Some content \<Rightarrow> usize_to_u64 (length content))"

definition append_batch_atomic ::
  "rev_externs \<Rightarrow> bool \<Rightarrow> RevocationSet \<Rightarrow> RevocationRecord list \<Rightarrow> (AppendError + nat) \<times> RevocationSet" where
  "append_batch_atomic R io_ok s records =
     (if records = [] then (Inr 0, s)
      else let current_bytes = disk_len s in
        case gather R records (rs_ids s) 0 of
          Inl e \<Rightarrow> (Inl e, s)
        | Inr (new_ids, append_bytes, pending, pending_ids) \<Rightarrow>
            if pending = [] then (Inr 0, s)
            else if saturating_add current_bytes append_bytes > rs_max_bytes s then
              (Inl (SizeCeilingExceeded current_bytes append_bytes (rs_max_bytes s)), s)
            else let updated = rs_records s @ pending in
              (case write_jsonl R io_ok (rs_disk s) updated of
                 Inl e \<Rightarrow> (Inl (AppendIo e), s)
               | Inr disk \<Rightarrow>
                   (Inr (length pending),
                    fold cancel_live_sessions pending_ids
                      (s\<lparr>rs_records := updated, rs_ids := new_ids, rs_disk := disk\<rparr>))))"

definition append_record ::
  "rev_externs \<Rightarrow> bool \<Rightarrow> RevocationSet \<Rightarrow> RevocationRecord \<Rightarrow> (AppendError + bool) \<times> RevocationSet" where
  "append_record R io_ok s record =
     (case ticket_id_bytes R record of
        Inl e \<Rightarrow> (Inl (InvalidRecord e), s)
      | Inr tid \<Rightarrow>
          if tid \<in> rs_ids s then (Inr False, s)
          else (case append_batch_atomic R io_ok s [record] of
              (Inl e, s') \<Rightarrow> (Inl e, s')
            | (Inr _, s') \<Rightarrow> (Inr True, s')))"

definition insert_record :: "rev_externs \<Rightarrow> RevocationSet \<Rightarrow> RevocationRecord \<Rightarrow> bool \<times> RevocationSet" where
  "insert_record R s record =
     (case ticket_id_bytes R record of
        Inl _ \<Rightarrow> (False, s)
      | Inr tid \<Rightarrow>
          if tid \<in> rs_ids s then (False, s)
          else (True, cancel_live_sessions tid
            (s\<lparr>rs_ids := insert tid (rs_ids s), rs_records := rs_records s @ [record]\<rparr>)))"

definition register_one :: "bytes \<Rightarrow> token \<Rightarrow> ticket_hash \<Rightarrow>
  (ticket_hash \<times> (bytes \<times> token) list) list \<Rightarrow> (ticket_hash \<times> (bytes \<times> token) list) list" where
  "register_one session_id tok tid live =
     (let sessions = (case map_of live tid of None \<Rightarrow> [] | Some sessions \<Rightarrow> sessions)
      in AList.update tid (AList.update session_id tok sessions) live)"

definition register_live_session :: "RevocationSet \<Rightarrow> bytes \<Rightarrow> ticket_hash list \<Rightarrow> token \<Rightarrow> RevocationSet" where
  "register_live_session s session_id ticket_chain_ids tok =
     s\<lparr>rs_live_sessions := fold (register_one session_id tok) (remdups ticket_chain_ids)
       (rs_live_sessions s)\<rparr>"

definition deregister_one :: "bytes \<Rightarrow> ticket_hash \<Rightarrow>
  (ticket_hash \<times> (bytes \<times> token) list) list \<Rightarrow> (ticket_hash \<times> (bytes \<times> token) list) list" where
  "deregister_one session_id tid live =
     (case map_of live tid of
        None \<Rightarrow> live
      | Some sessions \<Rightarrow>
          (let rest = AList.delete session_id sessions
           in if rest = [] then AList.delete tid live else AList.update tid rest live))"

definition deregister_live_session :: "RevocationSet \<Rightarrow> bytes \<Rightarrow> ticket_hash list \<Rightarrow> RevocationSet" where
  "deregister_live_session s session_id ticket_chain_ids =
     s\<lparr>rs_live_sessions := fold (deregister_one session_id) (remdups ticket_chain_ids)
       (rs_live_sessions s)\<rparr>"

definition persist :: "rev_externs \<Rightarrow> bool \<Rightarrow> RevocationSet \<Rightarrow> (string + unit) \<times> RevocationSet" where
  "persist R io_ok s =
     (case write_jsonl R io_ok (rs_disk s) (rs_records s) of
        Inl e \<Rightarrow> (Inl e, s)
      | Inr disk \<Rightarrow> (Inr (), s\<lparr>rs_disk := disk\<rparr>))"

definition gc_keeps :: "u64 \<Rightarrow> RevocationRecord \<Rightarrow> bool" where
  "gc_keeps now record =
     (let linger_ok = (case rr_revoked_at record of
            None \<Rightarrow> True
          | Some revoked_at \<Rightarrow> now < revoked_at + REVOCATION_LINGER_SECS);
          ticket_still_valid = (case rr_not_after_of_ticket record of
            Some not_after \<Rightarrow> now < not_after
          | None \<Rightarrow> False)
      in linger_ok \<or> ticket_still_valid)"

definition record_ids :: "rev_externs \<Rightarrow> RevocationRecord list \<Rightarrow> ticket_hash set" where
  "record_ids R records = set (List.map_filter (\<lambda>record. case ticket_id_bytes R record of
     Inl _ \<Rightarrow> None | Inr tid \<Rightarrow> Some tid) records)"

definition gc :: "rev_externs \<Rightarrow> RevocationSet \<Rightarrow> u64 \<Rightarrow> nat \<times> RevocationSet" where
  "gc R s now =
     (let kept = filter (gc_keeps now) (rs_records s) in
      (length (rs_records s) - length kept,
       s\<lparr>rs_records := kept, rs_ids := record_ids R kept\<rparr>))"

definition load_with_max_bytes ::
  "rev_externs \<Rightarrow> bool \<Rightarrow> u64 option \<Rightarrow> string option \<Rightarrow> u64 \<Rightarrow> string + RevocationSet" where
  "load_with_max_bytes R io_ok clock disk max_bytes =
     res_bind (ok_or ''system clock is before unix epoch'' clock) (\<lambda>now.
     res_bind (case disk of None \<Rightarrow> Inr [] | Some raw \<Rightarrow> parse_revocation_records R raw) (\<lambda>records.
     res_bind (collect_results (ticket_id_bytes R) records) (\<lambda>ids.
       let (removed, s) = gc R \<lparr>rs_ids = set ids, rs_records = records,
             rs_live_sessions = [], rs_max_bytes = max_bytes, rs_disk = disk,
             rs_cancelled = {}\<rparr> now
       in if removed > 0 then
            (case persist R io_ok s of (Inl e, _) \<Rightarrow> Inl e | (Inr _, s') \<Rightarrow> Inr s')
          else Inr s)))"

definition sync_from_disk ::
  "rev_externs \<Rightarrow> u64 option \<Rightarrow> RevocationSet \<Rightarrow> (string + nat) \<times> RevocationSet" where
  "sync_from_disk R clock s =
     (case clock of
        None \<Rightarrow> (Inl ''system clock is before unix epoch'', s)
      | Some _ \<Rightarrow>
          (case rs_disk s of
             None \<Rightarrow> (Inr 0, s)
           | Some raw \<Rightarrow>
               (case parse_revocation_records R raw of
                  Inl e \<Rightarrow> (Inl e, s)
                | Inr records \<Rightarrow>
                    (case collect_results (ticket_id_bytes R) records of
                       Inl e \<Rightarrow> (Inl e, s)
                     | Inr ids \<Rightarrow>
                         (let added = filter (\<lambda>tid. tid \<notin> rs_ids s) (remdups ids)
                          in (Inr (length added),
                              fold cancel_live_sessions added
                                (s\<lparr>rs_records := records, rs_ids := set ids\<rparr>)))))))"



section \<open>Facts about the operations\<close>

definition hex_roundtrip :: "rev_externs \<Rightarrow> bool" where
  "hex_roundtrip R \<longleftrightarrow> (\<forall>b. rx_hex_decode R (rx_hex_encode R b) = Some b)"

lemma cancel_fields [simp]:
  "rs_ids (cancel_live_sessions t s) = rs_ids s"
  "rs_records (cancel_live_sessions t s) = rs_records s"
  "rs_live_sessions (cancel_live_sessions t s) = rs_live_sessions s"
  "rs_max_bytes (cancel_live_sessions t s) = rs_max_bytes s"
  "rs_disk (cancel_live_sessions t s) = rs_disk s"
  by (simp_all add: cancel_live_sessions_def split: option.split)

lemma fold_cancel_fields [simp]:
  "rs_ids (fold cancel_live_sessions ts s) = rs_ids s"
  "rs_records (fold cancel_live_sessions ts s) = rs_records s"
  "rs_live_sessions (fold cancel_live_sessions ts s) = rs_live_sessions s"
  "rs_max_bytes (fold cancel_live_sessions ts s) = rs_max_bytes s"
  "rs_disk (fold cancel_live_sessions ts s) = rs_disk s"
  by (induction ts arbitrary: s) simp_all

text \<open>A session is live under a ticket with a cancellation token.\<close>

definition live_under :: "RevocationSet \<Rightarrow> ticket_hash \<Rightarrow> bytes \<Rightarrow> token \<Rightarrow> bool" where
  "live_under s tid sid tok \<longleftrightarrow>
     (\<exists>sessions. map_of (rs_live_sessions s) tid = Some sessions \<and> map_of sessions sid = Some tok)"

lemma cancel_mono: "rs_cancelled s \<subseteq> rs_cancelled (cancel_live_sessions t s)"
  by (auto simp: cancel_live_sessions_def split: option.split)

lemma fold_cancel_mono: "rs_cancelled s \<subseteq> rs_cancelled (fold cancel_live_sessions ts s)"
  by (induction ts arbitrary: s) (auto dest: subsetD [OF cancel_mono])

lemma cancel_live: "live_under s tid sid tok \<Longrightarrow> tok \<in> rs_cancelled (cancel_live_sessions tid s)"
  unfolding live_under_def cancel_live_sessions_def by (force dest: map_of_SomeD [of _ sid])

lemma live_under_cancel [simp]: "live_under (cancel_live_sessions t s) = live_under s"
  by (intro ext) (simp add: live_under_def)

lemma fold_cancel_live:
  "live_under s tid sid tok \<Longrightarrow> tid \<in> set ts \<Longrightarrow> tok \<in> rs_cancelled (fold cancel_live_sessions ts s)"
proof (induction ts arbitrary: s)
  case (Cons t ts)
  show ?case
  proof (cases "t = tid")
    case True
    then show ?thesis using cancel_live [OF Cons.prems(1)] fold_cancel_mono by auto
  next
    case False
    then show ?thesis using Cons.IH [of "cancel_live_sessions t s"] Cons.prems by simp
  qed
qed simp

lemma register_one_live:
  "map_of (register_one sid tok tid live) tid' =
     (if tid' = tid then Some (AList.update sid tok (case map_of live tid of None \<Rightarrow> [] | Some x \<Rightarrow> x))
      else map_of live tid')"
  by (simp add: register_one_def update_conv')

lemma register_fold_live:
  assumes "distinct ts" and "tid \<in> set ts"
  shows "\<exists>sessions. map_of (fold (register_one sid tok) ts live) tid = Some sessions \<and>
    map_of sessions sid = Some tok"
  using assms
proof (induction ts arbitrary: live)
  case (Cons t ts)
  have keep: "map_of (fold (register_one sid tok) us l) x = map_of l x" if "x \<notin> set us" for us l x
    using that by (induction us arbitrary: l) (auto simp: register_one_live)
  show ?case
  proof (cases "t = tid")
    case True
    with Cons.prems show ?thesis by (auto simp: keep register_one_live update_conv')
  next
    case False
    with Cons show ?thesis by auto
  qed
qed simp

lemma register_live:
  "tid \<in> set chain \<Longrightarrow> live_under (register_live_session s sid chain tok) tid sid tok"
  using register_fold_live [of "remdups chain" tid sid tok "rs_live_sessions s"]
  by (auto simp: live_under_def register_live_session_def)


subsection \<open>Batches\<close>

lemma gather_ok:
  assumes "gather R recs ids0 bytes0 = Inr (ids, bytes, pending, pids)"
  shows "ids = ids0 \<union> set pids \<and> set pids \<inter> ids0 = {} \<and> distinct pids \<and>
    list_all2 (\<lambda>r i. ticket_id_bytes R r = Inr i) pending pids \<and>
    (\<forall>r\<in>set recs. \<exists>i\<in>ids. ticket_id_bytes R r = Inr i) \<and> set pending \<subseteq> set recs"
  using assms
proof (induction R recs ids0 bytes0 arbitrary: ids bytes pending pids rule: gather.induct)
  case (2 R rc rcs new_ids append_bytes)
  from "2.prems" obtain i where i: "ticket_id_bytes R rc = Inr i" by (auto simp: res_simps)
  show ?case
  proof (cases "i \<in> new_ids")
    case True
    with "2.prems" i have "gather R rcs new_ids append_bytes = Inr (ids, bytes, pending, pids)"
      by simp
    from "2.IH"(1) [OF True this] i True show ?thesis by auto
  next
    case False
    with "2.prems" i obtain len pending' pids' where
      len: "encoded_record_len R rc = Inr len" and
      rest: "gather R rcs (insert i new_ids) (saturating_add append_bytes len) =
        Inr (ids, bytes, pending', pids')"
      and eq: "pending = rc # pending'" "pids = i # pids'"
      by (auto simp: res_simps)
    from "2.IH"(2) [OF False rest] False i len eq show ?thesis by auto
  qed
qed auto

lemma append_batch_cases:
  assumes "append_batch_atomic R io_ok s records = (res, s')"
  obtains (error) e where "res = Inl e" "s' = s"
  | (nothing) "res = Inr 0" "s' = s" "\<forall>r\<in>set records. \<exists>i\<in>rs_ids s. ticket_id_bytes R r = Inr i"
  | (appended) pending pids content where "res = Inr (length pids)" "pids \<noteq> []" "distinct pids"
      "set pids \<inter> rs_ids s = {}" "rs_ids s' = rs_ids s \<union> set pids"
      "rs_records s' = rs_records s @ pending"
      "list_all2 (\<lambda>r i. ticket_id_bytes R r = Inr i) pending pids"
      "\<forall>r\<in>set records. \<exists>i\<in>rs_ids s'. ticket_id_bytes R r = Inr i"
      "encode_jsonl R (rs_records s') = Inr content" "rs_disk s' = Some content"
      "s' = fold cancel_live_sessions pids
         (s\<lparr>rs_records := rs_records s', rs_ids := rs_ids s', rs_disk := rs_disk s'\<rparr>)"
proof (cases "gather R records (rs_ids s) 0")
  case (Inl e)
  with assms error show ?thesis
    by (cases "records = []") (auto simp: append_batch_atomic_def intro: nothing)
next
  case (Inr g)
  obtain ids bytes pending pids where g: "g = (ids, bytes, pending, pids)" by (cases g)
  note ok = gather_ok [OF Inr [unfolded g]]
  show ?thesis
  proof (cases "records = [] \<or> pending = []")
    case True
    with assms Inr g have "res = Inr 0" "s' = s"
      by (auto simp: append_batch_atomic_def split: if_splits)
    moreover from True ok have "\<forall>r\<in>set records. \<exists>i\<in>rs_ids s. ticket_id_bytes R r = Inr i" by auto
    ultimately show ?thesis by (rule nothing)
  next
    case False
    with ok have ne: "pids \<noteq> []" and len: "length pending = length pids"
      by (auto dest: list_all2_lengthD)
    show ?thesis
    proof (cases "res")
      case (Inl e)
      with assms False Inr g show ?thesis
        by (auto simp: append_batch_atomic_def Let_def split: if_splits sum.splits intro: error)
    next
      case (Inr n)
      with assms False \<open>gather R records (rs_ids s) 0 = Inr g\<close> g obtain content where
        "encode_jsonl R (rs_records s @ pending) = Inr content" "n = length pending"
        "s' = fold cancel_live_sessions pids
           (s\<lparr>rs_records := rs_records s @ pending, rs_ids := ids, rs_disk := Some content\<rparr>)"
        by (auto simp: append_batch_atomic_def Let_def write_jsonl_def res_simps
            split: if_splits sum.splits)
      with Inr ok len ne show ?thesis by (auto intro: appended [of pids pending content])
    qed
  qed
qed



subsection \<open>The file\<close>

text \<open>
  \<^verbatim>\<open>serde_json::to_string\<close> writes a struct as one line between braces, control characters
  escaped, and \<^verbatim>\<open>from_str\<close> reads it back.
\<close>

definition json_line :: "rev_externs \<Rightarrow> RevocationRecord \<Rightarrow> bool" where
  "json_line R r \<longleftrightarrow> (\<forall>s. rx_to_json R r = Some s \<longrightarrow>
     rx_from_json R s = Some r \<and> CHR 0x0A \<notin> set s \<and> (\<exists>t. s = CHR ''{'' # t @ ''}''))"

lemma chomp_cr_brace: "chomp_cr (CHR ''{'' # t @ ''}'') = CHR ''{'' # t @ ''}''"
proof -
  have "strip_suffix [CHR 0x0D] (CHR ''{'' # t @ ''}'') = None"
    by (simp add: strip_suffix_def ends_with_def starts_with_def)
  then show ?thesis by (simp add: chomp_cr_def)
qed

lemma parse_encode:
  assumes "encode_jsonl R records = Inr content" and "\<forall>r\<in>set records. json_line R r"
  shows "parse_revocation_records R content = Inr records"
  using assms
proof (induction R records arbitrary: content rule: encode_jsonl.induct)
  case (1 R)
  then show ?case by (simp add: parse_revocation_records_def map_filter_simps)
next
  case (2 R r rs)
  then obtain line rest where line: "rx_to_json R r = Some line" "encode_jsonl R rs = Inr rest"
      "content = line @ CHR 0x0A # rest" by (auto simp: res_simps)
  with "2.prems"(2) obtain t where t: "line = CHR ''{'' # t @ ''}''" "rx_from_json R line = Some r"
      "CHR 0x0A \<notin> set line" by (auto simp: json_line_def)
  have "parse_revocation_records R rest = Inr rs" using 2 line(1,2) by auto
  moreover have "parse_line R (chomp_cr line) = Inr (Some r)"
    using t by (simp add: parse_line_def chomp_cr_brace trim_braces)
  ultimately show ?case
    using lines_line [OF t(3)] line(3)
    by (auto simp: parse_revocation_records_def res_bind_Inr_iff map_filter_simps)
qed


section \<open>The invariant\<close>

text \<open>The identifiers are exactly those of the records, and every record names one.\<close>

definition rev_inv :: "rev_externs \<Rightarrow> RevocationSet \<Rightarrow> bool" where
  "rev_inv R s \<longleftrightarrow> (\<forall>r\<in>set (rs_records s). is_ok (ticket_id_bytes R r)) \<and>
     rs_ids s = {i. \<exists>r\<in>set (rs_records s). ticket_id_bytes R r = Inr i}"

lemma record_ids_eq: "record_ids R records = {i. \<exists>r\<in>set records. ticket_id_bytes R r = Inr i}"
  by (force simp: record_ids_def map_filter_def split: sum.splits)

lemma rev_inv_cancel [simp]: "rev_inv R (cancel_live_sessions t s) \<longleftrightarrow> rev_inv R s"
  by (simp add: rev_inv_def)

lemma rev_inv_fold_cancel [simp]: "rev_inv R (fold cancel_live_sessions ts s) \<longleftrightarrow> rev_inv R s"
  by (simp add: rev_inv_def)

lemma gc_inv: "rev_inv R s \<Longrightarrow> rev_inv R (snd (gc R s now))"
  by (simp add: rev_inv_def gc_def record_ids_eq Let_def)

lemma persist_records [simp]:
  "rs_records (snd (persist R io s)) = rs_records s" "rs_ids (snd (persist R io s)) = rs_ids s"
  by (simp_all add: persist_def split: sum.split)

lemma append_batch_inv:
  assumes "rev_inv R s"
  shows "rev_inv R (snd (append_batch_atomic R io s records))"
proof -
  obtain res s' where step: "append_batch_atomic R io s records = (res, s')" by fastforce
  then have "rev_inv R s'"
  proof (cases rule: append_batch_cases)
    case (appended pending pids content)
    have "{i. \<exists>r\<in>set pending. ticket_id_bytes R r = Inr i} = set pids \<and>
        (\<forall>r\<in>set pending. is_ok (ticket_id_bytes R r))"
      using appended(7) by (induction pending pids rule: list_all2_induct) (auto simp: is_ok_iff)
    then show ?thesis using assms appended(5,6) by (auto simp: rev_inv_def)
  qed (use assms in simp_all)
  with step show ?thesis by simp
qed

lemma collect_ids:
  "collect_results (ticket_id_bytes R) records = Inr ids \<Longrightarrow>
   (\<forall>r\<in>set records. is_ok (ticket_id_bytes R r)) \<and>
   set ids = {i. \<exists>r\<in>set records. ticket_id_bytes R r = Inr i}"
  unfolding collect_results_ok_iff
  by (induction records ids rule: list_all2_induct) (auto simp: is_ok_iff)

lemma load_cases:
  assumes "load_with_max_bytes R io clock disk max_bytes = Inr s"
  obtains now records ids s0 where "clock = Some now"
    "collect_results (ticket_id_bytes R) records = Inr ids"
    "s0 = snd (gc R \<lparr>rs_ids = set ids, rs_records = records, rs_live_sessions = [],
       rs_max_bytes = max_bytes, rs_disk = disk, rs_cancelled = {}\<rparr> now)"
    "s = s0 \<or> s = snd (persist R io s0)"
proof -
  from assms obtain now records ids where *: "clock = Some now"
      "collect_results (ticket_id_bytes R) records = Inr ids"
    and g: "(let g = gc R \<lparr>rs_ids = set ids, rs_records = records, rs_live_sessions = [],
       rs_max_bytes = max_bytes, rs_disk = disk, rs_cancelled = {}\<rparr> now in
       if fst g > 0 then (case persist R io (snd g) of (Inl e, _) \<Rightarrow> Inl e | (Inr _, s') \<Rightarrow> Inr s')
       else Inr (snd g)) = Inr s"
    unfolding load_with_max_bytes_def res_bind_Inr_iff ok_or_Inr_iff Let_def case_prod_beta by blast
  from g that [OF * refl] show ?thesis
    by (auto simp: Let_def split: if_splits prod.splits sum.splits)
qed

lemma load_inv:
  assumes "load_with_max_bytes R io clock disk max_bytes = Inr s"
  shows "rev_inv R s"
  using assms
proof (cases rule: load_cases)
  case (1 now records ids s0)
  have "rev_inv R s0" unfolding 1(3)
    using collect_ids [OF 1(2)] by (intro gc_inv) (simp add: rev_inv_def)
  with 1(4) show ?thesis by (auto simp: rev_inv_def)
qed



text \<open>
  The states of the set in a running agent: loaded from the file, then changed by the
  operations in any order, with the file edited by other processes at any time.
\<close>

inductive rev_reach :: "rev_externs \<Rightarrow> RevocationSet \<Rightarrow> bool" for R where
  load: "load_with_max_bytes R io clock disk max_bytes = Inr s \<Longrightarrow> rev_reach R s"
| insert_id: "rev_reach R s \<Longrightarrow> length tid = 16 \<Longrightarrow> rev_reach R (snd (insert_id R s tid))"
| insert_record: "rev_reach R s \<Longrightarrow> rev_reach R (snd (insert_record R s r))"
| append_batch: "rev_reach R s \<Longrightarrow> rev_reach R (snd (append_batch_atomic R io s rs))"
| append: "rev_reach R s \<Longrightarrow> rev_reach R (snd (append_record R io s r))"
| register: "rev_reach R s \<Longrightarrow> rev_reach R (register_live_session s sid chain tok)"
| deregister: "rev_reach R s \<Longrightarrow> rev_reach R (deregister_live_session s sid chain)"
| gc: "rev_reach R s \<Longrightarrow> rev_reach R (snd (gc R s now))"
| persist: "rev_reach R s \<Longrightarrow> rev_reach R (snd (persist R io s))"
| sync: "rev_reach R s \<Longrightarrow> rev_reach R (snd (sync_from_disk R clock s))"
| edited: "rev_reach R s \<Longrightarrow> rev_reach R (s\<lparr>rs_disk := disk\<rparr>)"

lemma append_record_snd:
  "snd (append_record R io s r) = s \<or>
   snd (append_record R io s r) = snd (append_batch_atomic R io s [r])"
  by (auto simp: append_record_def split: sum.splits prod.splits)

lemma insert_record_inv: "rev_inv R s \<Longrightarrow> rev_inv R (snd (insert_record R s r))"
  by (auto simp: insert_record_def rev_inv_def is_ok_iff split: sum.splits)

lemma insert_id_inv:
  "hex_roundtrip R \<Longrightarrow> length tid = 16 \<Longrightarrow> rev_inv R s \<Longrightarrow> rev_inv R (snd (insert_id R s tid))"
  by (auto simp: insert_id_def rev_inv_def is_ok_iff ticket_id_bytes_def decode_ticket_id_def
      hex_roundtrip_def)

lemma sync_inv: "rev_inv R s \<Longrightarrow> rev_inv R (snd (sync_from_disk R clock s))"
  by (auto simp: sync_from_disk_def Let_def split: option.split sum.split dest!: collect_ids)
     (simp_all add: rev_inv_def)

lemma rev_reach_inv:
  assumes "hex_roundtrip R" and "rev_reach R s"
  shows "rev_inv R s"
  using assms(2)
proof (induction rule: rev_reach.induct)
  case (load io clock disk max_bytes s)
  then show ?case by (rule load_inv)
next
  case (insert_id s tid)
  then show ?case using assms(1) by (intro insert_id_inv)
next
  case (append s io r)
  then show ?case using append_record_snd [of R io s r] append_batch_inv by metis
next
  case (sync s clock)
  then show ?case by (intro sync_inv)
next
  case (register s sid chain tok)
  then show ?case by (simp add: rev_inv_def register_live_session_def)
next
  case (deregister s sid chain)
  then show ?case by (simp add: rev_inv_def deregister_live_session_def)
next
  case (persist s io)
  then show ?case by (simp add: rev_inv_def)
next
  case (edited s disk)
  then show ?case by (simp add: rev_inv_def)
qed (simp_all add: insert_record_inv append_batch_inv gc_inv)


section \<open>Retention\<close>

lemma contains_gc:
  "contains (snd (gc R s now)) tid \<longleftrightarrow>
     (\<exists>r\<in>set (rs_records s). ticket_id_bytes R r = Inr tid \<and> gc_keeps now r)"
  by (auto simp: gc_def contains_def record_ids_eq Let_def)

text \<open>The retention rule in unbounded arithmetic, while the linger sum does not overflow.\<close>

lemma gc_keeps_iff:
  assumes "\<And>t. rr_revoked_at r = Some t \<Longrightarrow> unat t + 604800 < 2 ^ 64"
  shows "gc_keeps now r \<longleftrightarrow>
    rr_revoked_at r = None \<or>
    (\<exists>t. rr_revoked_at r = Some t \<and> unat now < unat t + 604800) \<or>
    (\<exists>t. rr_not_after_of_ticket r = Some t \<and> now < t)"
proof -
  have "now < t + REVOCATION_LINGER_SECS \<longleftrightarrow> unat now < unat t + 604800"
    if "rr_revoked_at r = Some t" for t
    using assms [OF that]
    by (simp add: word_less_nat_alt unat_word_ariths REVOCATION_LINGER_SECS_def)
  then show ?thesis
    by (cases "rr_revoked_at r"; cases "rr_not_after_of_ticket r") (auto simp: gc_keeps_def)
qed



section \<open>Restart\<close>

lemma encode_filter:
  "encode_jsonl R records = Inr content \<Longrightarrow> \<exists>content'. encode_jsonl R (filter P records) = Inr content'"
  by (induction R records arbitrary: content rule: encode_jsonl.induct) (auto simp: res_simps)

lemma load_from_encoded:
  assumes "encode_jsonl R records = Inr content" and "\<forall>r\<in>set records. json_line R r"
    and "\<forall>r\<in>set records. is_ok (ticket_id_bytes R r)"
  shows "\<exists>s. load_with_max_bytes R True (Some now) (Some content) max_bytes = Inr s \<and>
    rs_records s = filter (gc_keeps now) records \<and> rs_ids s = record_ids R (rs_records s)"
proof -
  from assms(3) obtain ids where "collect_results (ticket_id_bytes R) records = Inr ids"
    by (induction records) (auto simp: is_ok_iff)
  moreover obtain content' where "encode_jsonl R (filter (gc_keeps now) records) = Inr content'"
    using encode_filter [OF assms(1)] by blast
  ultimately show ?thesis
    using parse_encode [OF assms(1,2)]
    by (simp add: load_with_max_bytes_def ok_or_def gc_def Let_def persist_def write_jsonl_def)
qed


section \<open>A concrete instance\<close>

definition demo_record :: RevocationRecord where
  "demo_record = \<lparr>rr_ticket_id = replicate 16 CHR ''a'', rr_reason = ''leak'',
     rr_revoked_at = Some 1000, rr_not_after_of_ticket = None\<rparr>"

definition demo_tid :: ticket_hash where
  "demo_tid = replicate 16 97"

definition demo_rev :: rev_externs where
  "demo_rev = \<lparr>rx_hex_encode = map (\<lambda>b. char_of (unat b)), rx_hex_decode = (\<lambda>s. Some (ascii s)),
     rx_to_json = (\<lambda>r. Some ''{}''),
     rx_from_json = (\<lambda>s. if s = ''{}'' then Some demo_record else None)\<rparr>"

definition demo_set :: RevocationSet where
  "demo_set = \<lparr>rs_ids = {}, rs_records = [], rs_live_sessions = [(demo_tid, [([1], 7)])],
     rs_max_bytes = 1000, rs_disk = None, rs_cancelled = {}\<rparr>"

lemma demo_hex: "hex_roundtrip demo_rev"
proof -
  have "of_nat (of_char (char_of (unat b))) = b" for b :: byte
  proof -
    have "unat b < 256" using unsigned_less [of b] by simp
    then show ?thesis by simp
  qed
  then show ?thesis by (simp add: hex_roundtrip_def demo_rev_def ascii_def comp_def)
qed

lemma demo_record_id: "ticket_id_bytes demo_rev demo_record = Inr demo_tid"
  by (simp add: ticket_id_bytes_def decode_ticket_id_def demo_rev_def demo_record_def demo_tid_def
      ascii_def)

lemma demo_json: "json_line demo_rev demo_record"
  by (auto simp: json_line_def demo_rev_def)

lemma demo_to_json: "rx_to_json demo_rev r = Some ''{}''"
  by (simp add: demo_rev_def)

lemma demo_len: "encoded_record_len demo_rev demo_record = Inr 3"
  by (simp add: encoded_record_len_def demo_to_json usize_to_u64_def)

lemma demo_append:
  "append_batch_atomic demo_rev True demo_set [demo_record] =
   (Inr 1, \<lparr>rs_ids = {demo_tid}, rs_records = [demo_record],
      rs_live_sessions = [(demo_tid, [([1], 7)])], rs_max_bytes = 1000,
      rs_disk = Some (''{}'' @ [CHR 0x0A]), rs_cancelled = {7}\<rparr>)"
  by (simp add: append_batch_atomic_def demo_record_id demo_len disk_len_def Let_def
      write_jsonl_def cancel_live_sessions_def demo_set_def saturating_add_def ok_or_def
      demo_to_json)

subsection \<open>The size of the file\<close>

definition disk_current :: "rev_externs \<Rightarrow> RevocationSet \<Rightarrow> bool" where
  "disk_current R s \<longleftrightarrow>
     encode_jsonl R (rs_records s) = Inr (case rs_disk s of None \<Rightarrow> [] | Some content \<Rightarrow> content)"

lemma encode_jsonl_append:
  "encode_jsonl R (xs @ ys) = Inr c \<Longrightarrow>
     \<exists>c1 c2. encode_jsonl R xs = Inr c1 \<and> encode_jsonl R ys = Inr c2 \<and> c = c1 @ c2"
proof (induction xs arbitrary: c)
  case (Cons x xs)
  then obtain line rest where "rx_to_json R x = Some line" "encode_jsonl R (xs @ ys) = Inr rest"
    "c = line @ [CHR 0x0A] @ rest" by (auto simp: res_simps)
  with Cons.IH show ?case by (fastforce simp: ok_or_def)
qed simp

lemma unat_usize_to_u64: "unat (usize_to_u64 n) = min (2 ^ 64 - 1) n"
  using unat_max [where 'a = 64] by (simp add: usize_to_u64_def unat_of_nat take_bit_nat_eq_self)

lemma gather_bytes:
  assumes "gather R recs ids0 bytes0 = Inr (ids, bytes, pending, pids)" and "encode_jsonl R pending = Inr c"
  shows "unat bytes = min (2 ^ 64 - 1) (unat bytes0 + length c)"
  using assms
proof (induction R recs ids0 bytes0 arbitrary: ids bytes pending pids c rule: gather.induct)
  case (1 R new_ids append_bytes)
  then show ?case using unat_le_max [of append_bytes] by simp
next
  case (2 R rc rcs new_ids append_bytes)
  from "2.prems" obtain i where i: "ticket_id_bytes R rc = Inr i" by (auto simp: res_simps)
  show ?case
  proof (cases "i \<in> new_ids")
    case True
    with "2.prems" i "2.IH"(1) show ?thesis by simp
  next
    case False
    with "2.prems"(1) i obtain line pending' pids' where line: "rx_to_json R rc = Some line"
      and rest: "gather R rcs (insert i new_ids) (saturating_add append_bytes (usize_to_u64 (length line + 1))) =
        Inr (ids, bytes, pending', pids')" and eq: "pending = rc # pending'"
      by (auto simp: res_simps encoded_record_len_def split: option.splits)
    from "2.prems"(2) eq line obtain c' where c: "encode_jsonl R pending' = Inr c'" "c = line @ [CHR 0x0A] @ c'"
      by (auto simp: res_simps)
    have "encoded_record_len R rc = Inr (usize_to_u64 (length line + 1))" using line by (simp add: encoded_record_len_def)
    then show ?thesis using "2.IH"(2) [OF False rest c(1)] c(2) by (simp add: unat_saturating_add unat_usize_to_u64)
  qed
qed

lemma append_batch_bounded:
  assumes "append_batch_atomic R io_ok s records = (Inr n, s')" and "0 < n"
    and "disk_current R s" and "rs_max_bytes s \<noteq> - 1"
  shows "\<exists>content. rs_disk s' = Some content \<and> length content \<le> unat (rs_max_bytes s)"
proof -
  from assms(1,2) obtain ids bytes pending pids content where
    g: "gather R records (rs_ids s) 0 = Inr (ids, bytes, pending, pids)"
    and le: "\<not> rs_max_bytes s < saturating_add (disk_len s) bytes"
    and e: "encode_jsonl R (rs_records s @ pending) = Inr content"
    and s': "s' = fold cancel_live_sessions pids (s\<lparr>rs_records := rs_records s @ pending, rs_ids := ids, rs_disk := Some content\<rparr>)"
    by (auto simp: append_batch_atomic_def Let_def write_jsonl_def res_simps split: if_splits sum.splits)
  from encode_jsonl_append [OF e] obtain c1 c2 where c: "encode_jsonl R (rs_records s) = Inr c1"
    "encode_jsonl R pending = Inr c2" "content = c1 @ c2" by blast
  have d: "unat (disk_len s) = min (2 ^ 64 - 1) (length c1)"
    using assms(3) c(1) by (simp add: disk_current_def disk_len_def unat_usize_to_u64 split: option.splits)
  have "unat (rs_max_bytes s) \<noteq> unat (- 1 :: u64)" using assms(4) by (simp only: word_unat_eq_iff not_False_eq_True)
  moreover have "unat (rs_max_bytes s) \<le> 2 ^ 64 - 1" using unat_le_max [of "rs_max_bytes s"] by simp
  moreover have "min (2 ^ 64 - 1) (min (2 ^ 64 - 1) (length c1) + min (2 ^ 64 - 1) (length c2)) \<le> unat (rs_max_bytes s)"
    using le d gather_bytes [OF g c(2)] by (simp add: not_less word_le_nat_alt unat_saturating_add)
  ultimately have "length content \<le> unat (rs_max_bytes s)" using c(3) unat_max [where 'a = 64] by simp
  then show ?thesis using s' by simp
qed

section \<open>Properties\<close>

text \<open>
  C14.  Publishing a batch is atomic and bounded.  If \<open>append_batch_atomic\<close> reports an error,
  neither the set nor the file nor any session changed.  If it succeeds, every record of the
  batch is revoked, nothing was un-revoked, the count returned is the number of new identifiers,
  and when it is positive the file holds exactly the encoding of the records in memory and, if
  it did so before, is not larger than the limit.
\<close>

theorem append_batch_atomic_spec:
  "case append_batch_atomic R io_ok s records of
     (Inl e, s') \<Rightarrow> s' = s
   | (Inr n, s') \<Rightarrow>
       (\<forall>r\<in>set records. \<exists>tid. ticket_id_bytes R r = Inr tid \<and> contains s' tid) \<and>
       rs_ids s \<subseteq> rs_ids s' \<and> n = card (rs_ids s' - rs_ids s) \<and>
       (0 < n \<longrightarrow> (\<exists>content. rs_disk s' = Some content \<and>
          encode_jsonl R (rs_records s') = Inr content \<and>
          (disk_current R s \<and> rs_max_bytes s \<noteq> - 1 \<longrightarrow> length content \<le> unat (rs_max_bytes s))))"
proof -
  obtain res s' where step: "append_batch_atomic R io_ok s records = (res, s')" by fastforce
  then show ?thesis
  proof (cases rule: append_batch_cases)
    case (appended pending pids content)
    have "rs_ids s' - rs_ids s = set pids" using appended(4,5) by auto
    then have "card (rs_ids s' - rs_ids s) = length pids"
      using appended(3) by (simp add: distinct_card)
    moreover have "disk_current R s \<and> rs_max_bytes s \<noteq> - 1 \<longrightarrow> length content \<le> unat (rs_max_bytes s)"
      using append_batch_bounded [of R io_ok s records "length pids" s'] step appended(1,2,10) by auto
    ultimately show ?thesis using step appended by (auto simp: contains_def)
  qed (auto simp: step contains_def)
qed

theorem append_batch_atomic_spec_witness:
  "contains (snd (append_batch_atomic demo_rev True demo_set [demo_record])) demo_tid"
  using append_batch_atomic_spec
    [where R = demo_rev and io_ok = True and s = demo_set and records = "[demo_record]"]
  by (simp add: demo_append demo_record_id)

text \<open>
  C15.  A revocation kills live sessions.  When an operation (a manual insert, a published
  batch or record, or a reload of the file) adds a ticket identifier that was not revoked
  before, the cancellation token of every session that is live under that ticket is cancelled.
\<close>

theorem revocation_cancels_live:
  assumes "live_under s tid sid tok" and "\<not> contains s tid" and "contains s' tid"
    and "s' \<in> {snd (insert_id R s x), snd (insert_record R s r), snd (append_batch_atomic R io s rs),
      snd (append_record R io s r), snd (sync_from_disk R clock s)}"
  shows "tok \<in> rs_cancelled s'"
proof -
  have batch: "tok \<in> rs_cancelled (snd (append_batch_atomic R io s rs))"
    if new: "contains (snd (append_batch_atomic R io s rs)) tid" for rs
  proof -
    obtain res s1 where step: "append_batch_atomic R io s rs = (res, s1)" by fastforce
    then show ?thesis
    proof (cases rule: append_batch_cases)
      case (appended pending pids content)
      with new step assms(2) have "tid \<in> set pids" by (auto simp: contains_def)
      moreover have "live_under (s\<lparr>rs_records := rs_records s1, rs_ids := rs_ids s1,
          rs_disk := rs_disk s1\<rparr>) tid sid tok" using assms(1) by (simp add: live_under_def)
      ultimately show ?thesis using fold_cancel_live appended(11) step by (metis snd_conv)
    qed (use new step assms(2) in auto)
  qed
  have live: "live_under (s\<lparr>rs_ids := I, rs_records := rcs\<rparr>) tid sid tok"
    "live_under (s\<lparr>rs_records := rcs, rs_ids := I\<rparr>) tid sid tok" for I rcs
    using assms(1) by (simp_all add: live_under_def)
  have "tok \<in> rs_cancelled (snd (sync_from_disk R clock s))"
    if "contains (snd (sync_from_disk R clock s)) tid"
    using that assms(2)
    by (auto simp: sync_from_disk_def contains_def Let_def split: option.splits sum.splits
        intro!: fold_cancel_live [OF live(2)])
  moreover have "tok \<in> rs_cancelled (snd (insert_id R s x))" if "contains (snd (insert_id R s x)) tid"
  proof -
    have "x = tid" using that assms(2) by (auto simp: insert_id_def contains_def split: if_splits)
    then show ?thesis using assms(2) cancel_live [OF live(1)] by (simp add: insert_id_def contains_def)
  qed
  moreover have "tok \<in> rs_cancelled (snd (insert_record R s r))"
    if "contains (snd (insert_record R s r)) tid"
  proof -
    have "ticket_id_bytes R r = Inr tid" using that assms(2)
      by (auto simp: insert_record_def contains_def split: if_splits sum.splits)
    then show ?thesis using assms(2) cancel_live [OF live(1)]
      by (simp add: insert_record_def contains_def)
  qed
  ultimately show ?thesis
    using assms(2-4) batch append_record_snd [of R io s r] by auto
qed

theorem revocation_cancels_live_witness:
  "7 \<in> rs_cancelled (snd (append_batch_atomic demo_rev True demo_set [demo_record]))"
  by (rule revocation_cancels_live
        [where s = demo_set and tid = demo_tid and sid = "[1]" and R = demo_rev and x = "[]" and
         r = demo_record and io = True and rs = "[demo_record]" and clock = None])
     (simp_all add: demo_append contains_def, simp_all add: live_under_def demo_set_def contains_def)

text \<open>
  A session registered late is not cancelled.  Registering a live session under a ticket
  that is already revoked leaves the session's token uncancelled, and revoking the same ticket
  again, by a manual insert or by a batch naming only it, does not cancel it either.
\<close>

lemma late_session_survives:
  assumes "contains s tid" and "tok \<notin> rs_cancelled s"
    and "s1 = register_live_session s sid (tid # chain) tok"
    and "\<forall>r\<in>set rs. ticket_id_bytes R r = Inr tid"
  shows "live_under s1 tid sid tok \<and> tok \<notin> rs_cancelled s1 \<and>
    tok \<notin> rs_cancelled (snd (insert_id R s1 tid)) \<and>
    tok \<notin> rs_cancelled (snd (append_batch_atomic R io s1 rs))"
proof -
  have s1: "rs_ids s1 = rs_ids s" "rs_cancelled s1 = rs_cancelled s"
    by (simp_all add: assms(3) register_live_session_def)
  have "gather R us ids b = Inr (ids, b, [], [])"
    if "\<forall>r\<in>set us. ticket_id_bytes R r = Inr tid" "tid \<in> ids" for us ids b
    using that by (induction us arbitrary: b) auto
  with assms(1,4) s1 have "gather R rs (rs_ids s1) 0 = Inr (rs_ids s1, 0, [], [])"
    by (auto simp: contains_def)
  then have "snd (append_batch_atomic R io s1 rs) = s1" by (simp add: append_batch_atomic_def)
  then show ?thesis using assms(1-3) s1 register_live [of tid "tid # chain" s sid tok]
    by (auto simp: insert_id_def contains_def)
qed


text \<open>
  Identifiers and records agree.  In every state a running agent can reach, whatever the
  order of loads, inserts, batches, collections, reloads and edits of the file by other
  processes, a ticket identifier is revoked exactly when some record names it.
\<close>

lemma revoked_iff_recorded:
  assumes "hex_roundtrip R" and "rev_reach R s"
  shows "contains s tid \<longleftrightarrow> (\<exists>r\<in>set (rs_records s). ticket_id_bytes R r = Inr tid)"
  using rev_reach_inv [OF assms] by (simp add: rev_inv_def contains_def)

lemma demo_empty_load: "rev_reach demo_rev \<lparr>rs_ids = {}, rs_records = [], rs_live_sessions = [],
   rs_max_bytes = 1000, rs_disk = None, rs_cancelled = {}\<rparr>"
  by (rule rev_reach.load [where io = True and clock = "Some 0" and disk = None and max_bytes = 1000])
     (simp add: load_with_max_bytes_def ok_or_def gc_def record_ids_def map_filter_simps Let_def)

text \<open>
  Retention.  While the linger sum does not overflow, collection at time \<open>now\<close> keeps a
  ticket revoked exactly when some record for it has no revocation time, or was made less than
  seven days ago, or names an expiry of the ticket that has not passed.
\<close>

lemma gc_retention:
  assumes "\<forall>r\<in>set (rs_records s). \<forall>t. rr_revoked_at r = Some t \<longrightarrow> unat t + 604800 < 2 ^ 64"
  shows "contains (snd (gc R s now)) tid \<longleftrightarrow>
    (\<exists>r\<in>set (rs_records s). ticket_id_bytes R r = Inr tid \<and>
       (rr_revoked_at r = None \<or>
        (\<exists>t. rr_revoked_at r = Some t \<and> unat now < unat t + 604800) \<or>
        (\<exists>t. rr_not_after_of_ticket r = Some t \<and> now < t)))"
  unfolding contains_gc using assms gc_keeps_iff by (metis (no_types, lifting))

text \<open>
  C16.  A revocation survives a restart.  After a batch was appended, loading the file again at
  a time when the collection rule keeps a record of the ticket yields a set in which the
  ticket is revoked.
\<close>

theorem revocations_survive_restart:
  assumes "rev_inv R s" and "append_batch_atomic R io s records = (Inr n, s')" and "0 < n"
    and "\<forall>r\<in>set (rs_records s'). json_line R r"
    and "r \<in> set (rs_records s')" and "ticket_id_bytes R r = Inr tid" and "gc_keeps now r"
  shows "\<exists>s2. load_with_max_bytes R True (Some now) (rs_disk s') max_bytes = Inr s2 \<and>
    contains s2 tid"
proof -
  from assms(2) obtain content where c: "rs_disk s' = Some content"
      "encode_jsonl R (rs_records s') = Inr content"
    by (cases rule: append_batch_cases) (use assms(3) in auto)
  have "rev_inv R s'" using append_batch_inv [OF assms(1), of io records] assms(2) by simp
  then have "\<forall>r\<in>set (rs_records s'). is_ok (ticket_id_bytes R r)" by (simp add: rev_inv_def)
  from load_from_encoded [OF c(2) assms(4) this, of now max_bytes] show ?thesis
    using assms(5-7) c(1) by (auto simp: contains_def record_ids_eq)
qed

theorem revocations_survive_restart_witness:
  "\<exists>s2. load_with_max_bytes demo_rev True (Some 2000) (Some (''{}'' @ [CHR 0x0A])) 1000 = Inr s2 \<and>
     contains s2 demo_tid"
proof -
  have "rev_inv demo_rev demo_set" by (simp add: rev_inv_def demo_set_def)
  from revocations_survive_restart [OF this demo_append, of demo_record demo_tid 2000 1000]
  show ?thesis by (simp add: demo_json demo_record_id gc_keeps_def)
    (simp add: demo_record_def REVOCATION_LINGER_SECS_def)
qed

end
