(* ===== verification/Pipeline.thy ===== *)
theory Pipeline
  imports Ticket_Verify Caps_Enforce Revocations
begin

text \<open>
  The agent's acceptance pipeline (\<^verbatim>\<open>portl-agent/src/pipeline.rs\<close>): a ticket offer is rate
  limited, decoded, its chain verified by the agent's own copy of the chain loop, checked
  against the revocation set, the clock, the proof of possession and the agent's mode.  The
  rate limiter (the crate \<^verbatim>\<open>governor\<close>) is a function argument.  The agent's mode
  (\<^verbatim>\<open>config.rs\<close>) and the protocol gate (\<^verbatim>\<open>lib.rs\<close>) are here as well.
\<close>

datatype AgentMode =
    Listener
  | Gateway (upstream_url: string) (upstream_host: string) (upstream_port: u16)

definition alpn_allowed_in_mode :: "AgentMode \<Rightarrow> string \<Rightarrow> string + unit" where
  "alpn_allowed_in_mode mode alpn =
     (case mode of
        Listener \<Rightarrow> Inr ()
      | Gateway _ _ _ \<Rightarrow>
          if alpn = ALPN_META_V1 \<or> alpn = ALPN_TCP_V1 then Inr ()
          else Inl ''gateway mode only serves meta/v1 and tcp/v1 streams'')"

definition CLOCK_SKEW_SECS :: u64 where
  "CLOCK_SKEW_SECS = 60"

definition PEER_TOKEN_DOMAIN :: bytes where
  "PEER_TOKEN_DOMAIN = ascii ''portl/peer-token/v1''"

record AcceptanceInput =
  in_offer :: TicketOffer
  in_source_id :: key32
  in_trust_roots :: "key32 set"
  in_revocations :: RevocationSet
  in_now :: u64
  in_rate_limit :: "key32 \<Rightarrow> bool"
  in_mode :: AgentMode

datatype AcceptanceOutcome =
    Accepted (ac_peer_token: bytes) (ac_caps: Capabilities) (ac_ticket_id: ticket_hash)
      (ac_ticket_chain_ids: "ticket_hash list") (ac_ticket_issuer_id: key32)
      (ac_ticket_holder_id: "key32 option") (ac_bearer: "bytes option")
  | Rejected (rj_reason: AckReason)

section \<open>The stages\<close>

definition decode_offer_ticket :: "externs \<Rightarrow> bytes \<Rightarrow> AckReason + PortlTicket" where
  "decode_offer_ticket X bytes =
     res_bind (ok_or (InternalError (Some ''malformed offer'')) (ex_ticket_from X bytes)) (\<lambda>ticket.
     res_bind (map_err (\<lambda>_. InternalError (Some ''non-canonical ticket''))
                 (canonical_check_ticket ticket)) (\<lambda>_.
     res_bind (ok_or (InternalError (Some ''malformed offer'')) (ex_ticket_bytes X ticket)) (\<lambda>reencoded.
       if reencoded \<noteq> bytes then Inl (InternalError (Some ''non-canonical ticket''))
       else Inr ticket)))"

record VerifiedChain =
  vc_caps :: Capabilities
  vc_root_issuer :: key32

definition accept_ticket :: "key32 \<Rightarrow> PortlTicket \<Rightarrow> AckReason + unit" where
  "accept_ticket target ticket =
     res_bind (map_err (\<lambda>_. BadSignature) (canonical_check_ticket ticket)) (\<lambda>_.
       if tk_v ticket \<noteq> 1 then Inl BadChain
       else if ea_id (tk_addr ticket) \<noteq> target then Inl BadChain
       else Inr ())"

definition accept_child :: "externs \<Rightarrow> PortlTicket \<Rightarrow> PortlTicket \<Rightarrow> AckReason + unit" where
  "accept_child X parent child =
     res_bind (ok_or BadChain (bd_parent (tk_body child))) (\<lambda>parent_ref.
     let parent_key = resolved_issuer parent in
     res_bind (map_err (\<lambda>_. BadSignature) (verify_body X parent_key (tk_body child) (tk_sig child))) (\<lambda>_.
       if resolved_issuer child \<noteq> parent_key then Inl BadChain
       else if dl_parent_ticket_id parent_ref \<noteq> parent_ticket_id X (tk_sig parent) then Inl BadChain
       else if \<not> is_narrowing (bd_caps (tk_body parent)) (bd_caps (tk_body child)) then
         Inl CapsExceedParent
       else if bd_not_before (tk_body child) < bd_not_before (tk_body parent) \<or>
               bd_not_after (tk_body child) > bd_not_after (tk_body parent) then Inl BadChain
       else
         res_bind (case bd_parent (tk_body parent) of
             Some delegation \<Rightarrow> ok_or BadChain (checked_sub (dl_depth_remaining delegation) 1)
           | None \<Rightarrow> Inr (MAX_DELEGATION_DEPTH - 1)) (\<lambda>expected_depth.
           if dl_depth_remaining parent_ref \<noteq> expected_depth then Inl BadChain else Inr ())))"

fun accept_links :: "externs \<Rightarrow> PortlTicket \<Rightarrow> PortlTicket list \<Rightarrow> AckReason + unit" where
  "accept_links X parent [] = Inr ()"
| "accept_links X parent (child # rest) =
     res_bind (accept_child X parent child) (\<lambda>_. accept_links X child rest)"

definition verify_chain_without_time ::
  "externs \<Rightarrow> PortlTicket \<Rightarrow> PortlTicket list \<Rightarrow> key32 set \<Rightarrow> AckReason + VerifiedChain" where
  "verify_chain_without_time X terminal chain roots =
     (let all_tickets = chain @ [terminal] in
      if all_tickets = [] then Inl BadChain
      else if length all_tickets > unat MAX_DELEGATION_DEPTH + 1 then Inl BadChain
      else let target = ea_id (tk_addr (hd all_tickets)); root = hd all_tickets;
               root_key = resolved_issuer root in
        res_bind (for_each (accept_ticket target) all_tickets) (\<lambda>_.
          if is_some (bd_parent (tk_body root)) then Inl BadChain
          else if root_key \<notin> roots then Inl BadChain
          else
            res_bind (map_err (\<lambda>_. BadSignature) (verify_body X root_key (tk_body root) (tk_sig root))) (\<lambda>_.
            res_bind (accept_links X root (tl all_tickets)) (\<lambda>_.
              Inr \<lparr>vc_caps = bd_caps (tk_body terminal), vc_root_issuer = root_key\<rparr>))))"

fun first_window_failure :: "u64 \<Rightarrow> PortlTicket list \<Rightarrow> AckReason option" where
  "first_window_failure now [] = None"
| "first_window_failure now (ticket # rest) =
     (if saturating_add now CLOCK_SKEW_SECS < bd_not_before (tk_body ticket) then Some NotYetValid
      else if now \<ge> bd_not_after (tk_body ticket) then Some Expired
      else first_window_failure now rest)"

definition check_validity_windows :: "PortlTicket \<Rightarrow> PortlTicket list \<Rightarrow> u64 \<Rightarrow> AckReason option" where
  "check_validity_windows terminal chain now = first_window_failure now (chain @ [terminal])"

definition check_proof :: "externs \<Rightarrow> PortlTicket \<Rightarrow> TicketOffer \<Rightarrow> AckReason option" where
  "check_proof X terminal offer =
     (case bd_to (tk_body terminal) of
        None \<Rightarrow> None
      | Some holder \<Rightarrow>
          (case of_proof offer of
             None \<Rightarrow> Some ProofMissing
           | Some proof \<Rightarrow>
               (case verify_pop X holder (ticket_id X (tk_sig terminal)) (of_client_nonce offer) proof of
                  Inl _ \<Rightarrow> Some ProofInvalid
                | Inr _ \<Rightarrow> None)))"

definition derive_peer_token :: "externs \<Rightarrow> key32 \<Rightarrow> ticket_hash \<Rightarrow> bytes" where
  "derive_peer_token X source_id tid = take 16 (ex_sha256 X (source_id @ tid @ PEER_TOKEN_DOMAIN))"

definition mode_refusal :: "AgentMode \<Rightarrow> bytes option \<Rightarrow> AckReason option" where
  "mode_refusal mode bearer =
     (case (mode, is_some bearer) of
        (Listener, True) \<Rightarrow> Some (InternalError (Some ''listener mode refuses master tickets''))
      | (Gateway _ _ _, False) \<Rightarrow>
          Some (InternalError (Some ''gateway mode requires a master ticket''))
      | _ \<Rightarrow> None)"

definition evaluate_offer :: "externs \<Rightarrow> AcceptanceInput \<Rightarrow> AcceptanceOutcome" where
  "evaluate_offer X inp =
     (let offer = in_offer inp in
      if \<not> in_rate_limit inp (in_source_id inp) then Rejected RateLimited
      else case decode_offer_ticket X (of_ticket offer) of
        Inl reason \<Rightarrow> Rejected reason
      | Inr terminal \<Rightarrow>
          (case collect_results (decode_offer_ticket X) (of_chain offer) of
             Inl reason \<Rightarrow> Rejected reason
           | Inr chain \<Rightarrow>
               (case verify_chain_without_time X terminal chain (in_trust_roots inp) of
                  Inl reason \<Rightarrow> Rejected reason
                | Inr verified \<Rightarrow>
                    if list_ex (\<lambda>ticket. contains (in_revocations inp) (ticket_id X (tk_sig ticket)))
                         (chain @ [terminal]) then Rejected Revoked
                    else case check_validity_windows terminal chain (in_now inp) of
                      Some reason \<Rightarrow> Rejected reason
                    | None \<Rightarrow>
                        (case check_proof X terminal offer of
                           Some reason \<Rightarrow> Rejected reason
                         | None \<Rightarrow>
                             (let bearer = bd_bearer (tk_body terminal) in
                              case mode_refusal (in_mode inp) bearer of
                                Some reason \<Rightarrow> Rejected reason
                              | None \<Rightarrow>
                                  (let terminal_ticket_id = ticket_id X (tk_sig terminal) in
                                   Accepted
                                     (derive_peer_token X (in_source_id inp) terminal_ticket_id)
                                     (vc_caps verified) terminal_ticket_id
                                     (map (\<lambda>t. ticket_id X (tk_sig t)) chain @ [terminal_ticket_id])
                                     (vc_root_issuer verified) (bd_to (tk_body terminal)) bearer))))))"



section \<open>Facts about the stages\<close>

lemma decode_offer_ticket_ok [res_simps]: "decode_offer_ticket X bs = Inr t \<longleftrightarrow> decode X bs = Inr t"
  by (auto simp: decode_offer_ticket_def res_simps split: if_splits)

lemma accept_ticket_ok [res_simps]: "accept_ticket target t = Inr () \<longleftrightarrow> sound_ticket target t"
  by (auto simp: accept_ticket_def res_simps sound_ticket_def split: if_splits)

lemma accept_child_ok [res_simps]: "accept_child X p c = Inr () \<longleftrightarrow> delegation_link X p c"
  unfolding accept_child_def delegation_link_def child_depth_def Let_def
  by (cases "bd_parent (tk_body p)")
     (auto simp: res_bind_unit_iff res_bind_Inr_iff ok_or_Inr_iff map_err_Inr_iff not_less
       split: if_splits)

lemma accept_links_ok [res_simps]:
  "accept_links X p cs = Inr () \<longleftrightarrow> successively (delegation_link X) (p # cs)"
  by (induction X p cs rule: accept_links.induct) (auto simp: res_simps)

lemma verify_chain_without_time_ok [res_simps]:
  "verify_chain_without_time X terminal chain roots = Inr v \<longleftrightarrow>
     sound_chain X roots (chain @ [terminal]) \<and> vc_caps v = bd_caps (tk_body terminal) \<and>
     vc_root_issuer v = resolved_issuer (hd (chain @ [terminal]))"
proof -
  obtain r rest where all: "chain @ [terminal] = r # rest" by (cases "chain @ [terminal]") auto
  show ?thesis
    unfolding verify_chain_without_time_def sound_chain_def sound_root_def Let_def all
    by (cases "bd_parent (tk_body r)"; cases v)
       (auto simp: res_bind_Inr_iff for_each_ok_iff accept_ticket_ok accept_links_ok map_err_Inr_iff
         MAX_DELEGATION_DEPTH_def split: if_splits)
qed

lemma first_window_failure_None: "first_window_failure now ts = None \<longleftrightarrow> (\<forall>t\<in>set ts. in_window now t)"
  by (induction ts) (auto simp: in_window_def CLOCK_SKEW_SECS_def)

lemma check_validity_windows_None:
  "check_validity_windows terminal chain now = None \<longleftrightarrow> (\<forall>t\<in>set (chain @ [terminal]). in_window now t)"
  by (simp add: check_validity_windows_def first_window_failure_None)

definition possession_shown :: "externs \<Rightarrow> PortlTicket \<Rightarrow> TicketOffer \<Rightarrow> bool" where
  "possession_shown X t offer \<longleftrightarrow> (\<forall>holder. bd_to (tk_body t) = Some holder \<longrightarrow>
     (\<exists>proof. of_proof offer = Some proof \<and>
        verify_pop X holder (ticket_id X (tk_sig t)) (of_client_nonce offer) proof = Inr ()))"

lemma check_proof_None: "check_proof X t offer = None \<longleftrightarrow> possession_shown X t offer"
  by (auto simp: check_proof_def possession_shown_def split: option.splits sum.splits)

lemma mode_refusal_None: "mode_refusal mode b = None \<longleftrightarrow> (b \<noteq> None \<longleftrightarrow> mode \<noteq> Listener)"
  by (cases mode; cases b) (auto simp: mode_refusal_def)

text \<open>The offer's tickets, decoded, root first.\<close>

definition offer_tickets :: "externs \<Rightarrow> TicketOffer \<Rightarrow> PortlTicket list \<Rightarrow> PortlTicket \<Rightarrow> bool" where
  "offer_tickets X offer chain terminal \<longleftrightarrow> decode X (of_ticket offer) = Inr terminal \<and>
     list_all2 (\<lambda>bs t. decode X bs = Inr t) (of_chain offer) chain"

definition acceptable ::
  "externs \<Rightarrow> AcceptanceInput \<Rightarrow> PortlTicket list \<Rightarrow> PortlTicket \<Rightarrow> bool" where
  "acceptable X inp chain terminal \<longleftrightarrow>
     in_rate_limit inp (in_source_id inp) \<and>
     sound_chain X (in_trust_roots inp) (chain @ [terminal]) \<and>
     (\<forall>t\<in>set (chain @ [terminal]). \<not> contains (in_revocations inp) (ticket_id X (tk_sig t)) \<and>
        in_window (in_now inp) t) \<and>
     possession_shown X terminal (in_offer inp) \<and>
     (bd_bearer (tk_body terminal) \<noteq> None \<longleftrightarrow> in_mode inp \<noteq> Listener)"

definition acceptance :: "externs \<Rightarrow> AcceptanceInput \<Rightarrow> PortlTicket list \<Rightarrow> PortlTicket \<Rightarrow> AcceptanceOutcome" where
  "acceptance X inp chain terminal =
     Accepted (derive_peer_token X (in_source_id inp) (ticket_id X (tk_sig terminal)))
       (bd_caps (tk_body terminal)) (ticket_id X (tk_sig terminal))
       (map (\<lambda>t. ticket_id X (tk_sig t)) (chain @ [terminal]))
       (resolved_issuer (hd (chain @ [terminal]))) (bd_to (tk_body terminal))
       (bd_bearer (tk_body terminal))"

lemma evaluate_offer_decoded:
  assumes "offer_tickets X (in_offer inp) chain terminal"
  shows "decode_offer_ticket X (of_ticket (in_offer inp)) = Inr terminal"
    and "collect_results (decode_offer_ticket X) (of_chain (in_offer inp)) = Inr chain"
  using assms by (simp_all add: offer_tickets_def collect_results_ok_iff decode_offer_ticket_ok)

lemma evaluate_offer_accepts:
  assumes "offer_tickets X (in_offer inp) chain terminal" and "acceptable X inp chain terminal"
  shows "evaluate_offer X inp = acceptance X inp chain terminal"
proof -
  let ?v = "\<lparr>vc_caps = bd_caps (tk_body terminal), vc_root_issuer = resolved_issuer (hd (chain @ [terminal]))\<rparr>"
  have ok: "in_rate_limit inp (in_source_id inp)"
      "sound_chain X (in_trust_roots inp) (chain @ [terminal])"
      "\<forall>t\<in>set (chain @ [terminal]). \<not> contains (in_revocations inp) (ticket_id X (tk_sig t))"
      "\<forall>t\<in>set (chain @ [terminal]). in_window (in_now inp) t"
      "possession_shown X terminal (in_offer inp)"
      "bd_bearer (tk_body terminal) \<noteq> None \<longleftrightarrow> in_mode inp \<noteq> Listener"
    using assms(2) unfolding acceptable_def by blast+
  have "verify_chain_without_time X terminal chain (in_trust_roots inp) = Inr ?v"
    using ok(2) by (simp add: verify_chain_without_time_ok)
  moreover have "\<not> list_ex (\<lambda>t. contains (in_revocations inp) (ticket_id X (tk_sig t))) (chain @ [terminal])"
    using ok(3) by (simp only: list_ex_iff) blast
  moreover have "check_validity_windows terminal chain (in_now inp) = None"
    using ok(4) by (simp only: check_validity_windows_None)
  moreover have "check_proof X terminal (in_offer inp) = None" using ok(5) by (simp only: check_proof_None)
  moreover have "mode_refusal (in_mode inp) (bd_bearer (tk_body terminal)) = None"
    using ok(6) by (simp only: mode_refusal_None)
  ultimately show ?thesis
    unfolding evaluate_offer_def Let_def acceptance_def
    using ok(1) evaluate_offer_decoded [OF assms(1)] by simp
qed

lemma evaluate_offer_accepted:
  assumes "evaluate_offer X inp = Accepted a b c d e f g"
  obtains chain terminal where "offer_tickets X (in_offer inp) chain terminal"
    "acceptable X inp chain terminal"
proof -
  from assms obtain terminal chain v where t: "decode_offer_ticket X (of_ticket (in_offer inp)) = Inr terminal"
      "collect_results (decode_offer_ticket X) (of_chain (in_offer inp)) = Inr chain"
      "verify_chain_without_time X terminal chain (in_trust_roots inp) = Inr v"
      "in_rate_limit inp (in_source_id inp)"
      and r: "\<not> list_ex (\<lambda>t. contains (in_revocations inp) (ticket_id X (tk_sig t))) (chain @ [terminal])"
      and c: "check_validity_windows terminal chain (in_now inp) = None"
        "check_proof X terminal (in_offer inp) = None"
        "mode_refusal (in_mode inp) (bd_bearer (tk_body terminal)) = None"
    unfolding evaluate_offer_def Let_def
    by (simp del: list_ex_append split: if_split_asm sum.split_asm option.split_asm)
  from t r c have "acceptable X inp chain terminal"
    unfolding acceptable_def check_validity_windows_None check_proof_None mode_refusal_None
      verify_chain_without_time_ok list_ex_iff by blast
  moreover have "offer_tickets X (in_offer inp) chain terminal"
    using t(1,2) by (simp add: offer_tickets_def collect_results_ok_iff decode_offer_ticket_ok)
  ultimately show ?thesis by (rule that [rotated])
qed



definition pipe_accepts :: "externs \<Rightarrow> key32 set \<Rightarrow> PortlTicket list \<Rightarrow> bool" where
  "pipe_accepts X roots ts \<longleftrightarrow>
     ts \<noteq> [] \<and> is_ok (verify_chain_without_time X (last ts) (butlast ts) roots)"

interpretation pipe_chain: chain_verifier pipe_accepts
  by unfold_locales (auto simp: pipe_accepts_def is_ok_iff verify_chain_without_time_ok)

lemma acceptable_pipe:
  "acceptable X inp chain terminal \<Longrightarrow> pipe_accepts X (in_trust_roots inp) (chain @ [terminal])"
  unfolding acceptable_def pipe_accepts_def is_ok_iff
  using verify_chain_without_time_ok [of X terminal chain "in_trust_roots inp"
      "\<lparr>vc_caps = bd_caps (tk_body terminal), vc_root_issuer = resolved_issuer (hd (chain @ [terminal]))\<rparr>"]
  by auto

lemma offer_tickets_unique:
  assumes "offer_tickets X offer chain terminal" and "offer_tickets X offer chain' terminal'"
  shows "chain' = chain \<and> terminal' = terminal"
proof -
  have "collect_results (decode X) (of_chain offer) = Inr chain"
    and "collect_results (decode X) (of_chain offer) = Inr chain'"
    using assms by (simp_all add: offer_tickets_def collect_results_ok_iff)
  then show ?thesis using assms by (simp add: offer_tickets_def)
qed


section \<open>A concrete instance\<close>

text \<open>
  The serializer of the concrete instance reads back the three tickets used by the witnesses;
  \<open>demo_bearer_child\<close> is a delegated ticket that introduces a bearer its parent lacks.
\<close>

definition demo_bearer_child :: PortlTicket where
  "demo_bearer_child = demo_child\<lparr>tk_body := (tk_body demo_child)\<lparr>bd_bearer := Some [42]\<rparr>,
     tk_sig := replicate 32 1 @ replicate 8 9\<rparr>"

definition demo_codec :: "PortlTicket \<Rightarrow> externs" where
  "demo_codec child = demo_externs\<lparr>ex_ticket_from := (\<lambda>bs.
     if bs = tk_sig demo_root then Some demo_root else if bs = tk_sig child then Some child else None)\<rparr>"

definition demo_input :: "AgentMode \<Rightarrow> AcceptanceInput" where
  "demo_input mode = \<lparr>in_offer = \<lparr>of_ticket = tk_sig demo_child, of_chain = [tk_sig demo_root],
       of_proof = None, of_client_nonce = replicate 16 3\<rparr>,
     in_source_id = replicate 32 4, in_trust_roots = {replicate 32 1},
     in_revocations = \<lparr>rs_ids = {}, rs_records = [], rs_live_sessions = [], rs_max_bytes = 1000,
       rs_disk = None, rs_cancelled = {}\<rparr>,
     in_now = 1200, in_rate_limit = (\<lambda>_. True), in_mode = mode\<rparr>"

lemma demo_codec_simps:
  "ex_body_bytes (demo_codec c) b = Some (bd_nonce b)" "ex_ticket_bytes (demo_codec c) t = Some (tk_sig t)"
  "ex_key_valid (demo_codec c) k" "ex_verify_strict (demo_codec c) k m sig \<longleftrightarrow> sig = k @ m"
  "parent_ticket_id (demo_codec c) = parent_ticket_id demo_externs"
  by (simp_all add: demo_codec_def demo_externs_def parent_ticket_id_def hash16_def fun_eq_iff)

lemma demo_sound_chain:
  assumes "c = demo_child \<or> c = demo_bearer_child"
  shows "sound_chain (demo_codec c) {replicate 32 1} [demo_root, c]"
proof -
  have can: "canonical_ticket demo_root" "canonical_ticket c"
    using assms demo_tickets_canonical
    by (auto simp: demo_bearer_child_def canonical_ticket_def canonical_body_def)
  then have "canonical_body (tk_body demo_root)" "canonical_body (tk_body c)"
    by (simp_all add: canonical_ticket_def)
  with can assms show ?thesis
    by (auto simp: sound_chain_def sound_ticket_def sound_root_def delegation_link_def verify_body_ok
        demo_codec_simps)
       (auto simp: demo_root_def demo_child_def demo_bearer_child_def demo_addr_def resolved_issuer_def
        demo_caps_narrow child_depth_def MAX_DELEGATION_DEPTH_def)
qed

lemma demo_offer:
  assumes "c = demo_child \<or> c = demo_bearer_child"
  shows "offer_tickets (demo_codec c) (in_offer (demo_input mode)) [demo_root] c"
proof -
  have "canonical_ticket demo_root" "canonical_ticket c"
    using demo_sound_chain [OF assms] by (auto simp: sound_chain_def sound_ticket_def)
  moreover have "tk_sig c = tk_sig demo_child" "tk_sig demo_child \<noteq> tk_sig demo_root"
    using assms by (auto simp: demo_bearer_child_def demo_child_def demo_root_def)
  ultimately show ?thesis
    by (auto simp: offer_tickets_def demo_input_def decode_ok demo_codec_simps)
       (auto simp: demo_codec_def)
qed

lemma demo_acceptable:
  "acceptable (demo_codec demo_child) (demo_input Listener) [demo_root] demo_child"
  "acceptable (demo_codec demo_bearer_child) (demo_input (Gateway u h p)) [demo_root] demo_bearer_child"
  using demo_sound_chain
  by (auto simp: acceptable_def demo_input_def contains_def possession_shown_def in_window_def
      demo_root_def demo_child_def demo_bearer_child_def saturating_add_def)



section \<open>Properties\<close>

text \<open>
  C2.  What is accepted.  An offer is accepted exactly when the source passes the rate limit,
  all its tickets decode, the decoded chain is sound for the trust roots, no ticket of it is
  revoked or outside its window, a ticket bound to a holder comes with that holder's proof for
  this offer's nonce, and the bearer is present exactly in gateway mode; the acceptance then
  carries the terminal capabilities, the root's issuer and the identifiers of the whole chain.
\<close>

theorem evaluate_offer_exact:
  "evaluate_offer X inp = Accepted tok caps tid ids issuer holder bearer \<longleftrightarrow>
   (\<exists>chain terminal. offer_tickets X (in_offer inp) chain terminal \<and>
      acceptable X inp chain terminal \<and>
      acceptance X inp chain terminal = Accepted tok caps tid ids issuer holder bearer)"
proof
  assume acc: "evaluate_offer X inp = Accepted tok caps tid ids issuer holder bearer"
  then show "\<exists>chain terminal. offer_tickets X (in_offer inp) chain terminal \<and>
      acceptable X inp chain terminal \<and>
      acceptance X inp chain terminal = Accepted tok caps tid ids issuer holder bearer"
    by (rule evaluate_offer_accepted) (metis acc evaluate_offer_accepts)
next
  assume "\<exists>chain terminal. offer_tickets X (in_offer inp) chain terminal \<and>
      acceptable X inp chain terminal \<and>
      acceptance X inp chain terminal = Accepted tok caps tid ids issuer holder bearer"
  then show "evaluate_offer X inp = Accepted tok caps tid ids issuer holder bearer"
    by (metis evaluate_offer_accepts)
qed

text \<open>
  C3.  Authority comes from the root.  When an offer is accepted and the granted capabilities
  admit a shell, TCP connect, UDP or unix request, then every ticket of the offered chain, the
  root ticket included, admits that request, and every one of them was issued and signed by
  one and the same trusted root key, the issuer recorded in the session.
\<close>

theorem accepted_request_from_root:
  assumes "evaluate_offer X inp = Accepted tok caps tid ids issuer holder bearer"
    and "permits caps req"
  shows "issuer \<in> in_trust_roots inp \<and>
    (\<exists>chain terminal. offer_tickets X (in_offer inp) chain terminal \<and>
       (\<forall>t\<in>set (chain @ [terminal]). permits (bd_caps (tk_body t)) req \<and>
          resolved_issuer t = issuer \<and> verify_body X issuer (tk_body t) (tk_sig t) = Inr ()))"
proof -
  from assms(1) obtain chain terminal where o: "offer_tickets X (in_offer inp) chain terminal"
      and a: "acceptable X inp chain terminal" by (rule evaluate_offer_accepted)
  let ?ts = "chain @ [terminal]"
  note p = acceptable_pipe [OF a]
  have eq: "caps = bd_caps (tk_body terminal)" "issuer = resolved_issuer (hd ?ts)"
    using evaluate_offer_accepts [OF o a] assms(1) by (simp_all add: acceptance_def)
  have "\<forall>c\<in>set (map (\<lambda>t. bd_caps (tk_body t)) ?ts). permits c req"
    by (rule req_att.chain_sound [OF pipe_chain.accepts_narrowing [OF p]]) (use assms(2) eq in simp)
  moreover have "resolved_issuer t = issuer \<and> verify_body X issuer (tk_body t) (tk_sig t) = Inr ()"
    if "t \<in> set ?ts" for t
  proof -
    from that obtain i where "i < length ?ts" "t = ?ts ! i" by (metis in_set_conv_nth)
    then show ?thesis
      using pipe_chain.accepts_issuer [OF p] pipe_chain.accepts_signed [OF p] eq by blast
  qed
  ultimately show ?thesis
    using o pipe_chain.accepts_root_trusted [OF p] eq by (simp only: set_map) blast
qed

lemma demo_accepted:
  "evaluate_offer (demo_codec demo_child) (demo_input Listener) =
   acceptance (demo_codec demo_child) (demo_input Listener) [demo_root] demo_child"
  by (rule evaluate_offer_accepts [OF demo_offer demo_acceptable(1)]) simp

theorem accepted_request_from_root_witness:
  "replicate 32 1 \<in> in_trust_roots (demo_input Listener) \<and>
   permits (bd_caps (tk_body demo_root)) (ReqTcp \<lparr>tr_preamble = \<lparr>sp_peer_token = [], sp_alpn = ALPN_TCP_V1\<rparr>,
     tr_host = ''db.internal'', tr_port = 22\<rparr>)"
proof -
  let ?req = "ReqTcp \<lparr>tr_preamble = \<lparr>sp_peer_token = [], sp_alpn = ALPN_TCP_V1\<rparr>,
     tr_host = ''db.internal'', tr_port = 22\<rparr>"
  have "permits demo_caps ?req"
    by (simp add: demo_caps_def tcp_permits_def host_matches_def)
  from accepted_request_from_root [OF demo_accepted [unfolded acceptance_def], of ?req] this
  obtain chain terminal where "offer_tickets (demo_codec demo_child) (in_offer (demo_input Listener)) chain terminal"
      and *: "\<forall>t\<in>set (chain @ [terminal]). permits (bd_caps (tk_body t)) ?req"
      and r: "resolved_issuer demo_root \<in> in_trust_roots (demo_input Listener)"
    by (auto simp: demo_child_def)
  then have "chain = [demo_root]" using offer_tickets_unique demo_offer by blast
  with * r show ?thesis by (simp add: resolved_issuer_def demo_root_def demo_addr_def)
qed

text \<open>
  C4.  Ancestor revocation.  Once the identifier of any ticket of the offered chain, an
  ancestor or the terminal ticket, is in the revocation set, the offer is not accepted.
\<close>

theorem revoked_chain_rejected:
  assumes "offer_tickets X (in_offer inp) chain terminal" and "t \<in> set (chain @ [terminal])"
    and "contains (in_revocations inp) (ticket_id X (tk_sig t))"
  shows "\<exists>reason. evaluate_offer X inp = Rejected reason"
proof (cases "evaluate_offer X inp")
  case (Accepted a b c d e f g)
  then obtain chain' terminal' where o: "offer_tickets X (in_offer inp) chain' terminal'"
      and a: "acceptable X inp chain' terminal'" by (rule evaluate_offer_accepted)
  from offer_tickets_unique [OF assms(1) o] a assms(2,3) have False by (auto simp: acceptable_def)
  then show ?thesis ..
qed simp

theorem revoked_chain_rejected_witness:
  "\<exists>reason. evaluate_offer (demo_codec demo_child)
     (demo_input Listener\<lparr>in_revocations := \<lparr>rs_ids = {ticket_id (demo_codec demo_child) (tk_sig demo_root)},
        rs_records = [], rs_live_sessions = [], rs_max_bytes = 1000, rs_disk = None,
        rs_cancelled = {}\<rparr>\<rparr>) = Rejected reason"
  by (rule revoked_chain_rejected [of _ _ "[demo_root]" demo_child demo_root])
     (use demo_offer [of demo_child Listener] in \<open>simp_all add: demo_input_def contains_def\<close>)

text \<open>
  C13.  The two chain verifiers agree up to the clock and the bearer.  The client's
  \<open>verify_chain\<close> succeeds exactly when the agent's \<open>verify_chain_without_time\<close> does, the
  agent's window check finds nothing, and every link inherits the bearer of its parent.
\<close>

theorem verifiers_agree:
  "verify_chain X terminal chain roots now = Inr caps \<longleftrightarrow>
     (\<exists>v. verify_chain_without_time X terminal chain roots = Inr v \<and> vc_caps v = caps) \<and>
     check_validity_windows terminal chain now = None \<and>
     successively bearer_inherited (chain @ [terminal])"
  unfolding verify_chain_ok verify_chain_without_time_ok check_validity_windows_None
  by (auto intro!: exI [of _ "\<lparr>vc_caps = caps, vc_root_issuer = resolved_issuer (hd (chain @ [terminal]))\<rparr>"])

text \<open>
  The agent does not check bearer inheritance.  There is an offer whose delegated ticket
  introduces a bearer its parent does not carry: an agent in gateway mode accepts it with that
  bearer, while \<open>verify_chain\<close> rejects the same chain at the same time.
\<close>

lemma introduced_bearer_accepted:
  "\<exists>X inp chain terminal. offer_tickets X (in_offer inp) chain terminal \<and>
     evaluate_offer X inp = acceptance X inp chain terminal \<and>
     bd_bearer (tk_body terminal) = Some [42] \<and> bd_bearer (tk_body (last chain)) = None \<and>
     \<not> is_ok (verify_chain X terminal chain (in_trust_roots inp) (in_now inp))"
proof (intro exI conjI)
  let ?inp = "demo_input (Gateway ''http://up:80'' ''up'' 80)"
  show o: "offer_tickets (demo_codec demo_bearer_child) (in_offer ?inp) [demo_root] demo_bearer_child"
    by (rule demo_offer) simp
  show "evaluate_offer (demo_codec demo_bearer_child) ?inp =
      acceptance (demo_codec demo_bearer_child) ?inp [demo_root] demo_bearer_child"
    by (rule evaluate_offer_accepts [OF o demo_acceptable(2)])
  show "\<not> is_ok (verify_chain (demo_codec demo_bearer_child) demo_bearer_child [demo_root]
      (in_trust_roots ?inp) (in_now ?inp))"
    by (auto simp: is_ok_iff verify_chain_ok bearer_inherited_def demo_bearer_child_def
        demo_child_def demo_root_def)
qed (simp_all add: demo_bearer_child_def demo_child_def demo_root_def)




end
