(* ===== verification/Meta_Handler.thy ===== *)
theory Meta_Handler
  imports Pipeline
begin

text \<open>
  The metadata protocol (\<^verbatim>\<open>portl-agent/src/meta_handler.rs\<close>): ping, info and the publication
  of revocations.  What the handler reads from the host (clocks, uptime, host name, version,
  operating system) is the record \<open>MetaHost\<close>.  A clock of \<open>None\<close> is the failure of the system
  call; a failure that the handler propagates with the question mark operator closes the
  stream without a response and is the left result of \<open>serve_meta\<close>.
\<close>

record MetaHost =
  mh_version :: string
  mh_uptime_s :: u64
  mh_hostname :: string
  mh_os :: string
  mh_now_micros :: "u64 option"
  mh_now_secs :: "u64 option"
  mh_disk_ok :: bool

definition MAX_PUBLISH_ITEMS :: nat where
  "MAX_PUBLISH_ITEMS = 1000"

definition meta_caps :: "Session \<Rightarrow> MetaCaps option" where
  "meta_caps session = cp_meta (ss_caps session)"

definition meta_error :: "ErrorKind \<Rightarrow> string \<Rightarrow> u32 option \<Rightarrow> MetaResp" where
  "meta_error kind message retry =
     MetaError \<lparr>er_kind = kind, er_message = message, er_retry_after_ms = retry\<rparr>"

definition cap_denied :: "string \<Rightarrow> MetaResp" where
  "cap_denied message = meta_error KCapDenied message None"

definition supported_alpns :: "AgentMode \<Rightarrow> string list" where
  "supported_alpns mode =
     [ALPN_TICKET_V1, ALPN_META_V1, ALPN_SHELL_V1, ALPN_TCP_V1, ALPN_UDP_V1] @
     (if mode = Listener then [ALPN_TCP_V2] else [])"

definition meta_req_name :: "MetaReq \<Rightarrow> string" where
  "meta_req_name req =
     (case req of Ping _ \<Rightarrow> ''ping'' | Info \<Rightarrow> ''info'' | PublishRevocations _ \<Rightarrow> ''publish_revocations'')"

definition meta_resp_outcome :: "MetaResp \<Rightarrow> string" where
  "meta_resp_outcome resp =
     (case resp of
        MetaError err \<Rightarrow> if er_kind err = KCapDenied then ''cap_denied'' else ''error''
      | _ \<Rightarrow> ''success'')"

fun triage :: "rev_externs \<Rightarrow> string \<Rightarrow> u64 \<Rightarrow> bytes list \<Rightarrow> u32 \<Rightarrow>
  u32 \<times> (bytes \<times> string) list \<times> RevocationRecord list" where
  "triage R reason now [] accepted = (accepted, [], [])"
| "triage R reason now (raw # items) accepted =
     (if length raw \<noteq> 16 then
        (let (acc, rejected, batch) = triage R reason now items accepted
         in (acc, (raw, ''ticket_id must be 16 bytes'') # rejected, batch))
      else
        (let (acc, rejected, batch) = triage R reason now items (saturating_add accepted 1)
         in (acc, rejected, new_record R raw reason now None # batch)))"

definition append_error_text :: "AppendError \<Rightarrow> string" where
  "append_error_text err =
     (case err of
        SizeCeilingExceeded current appended mx \<Rightarrow>
          ''revocations.jsonl would exceed ceiling: current='' @ decimal (unat current) @
          '' append='' @ decimal (unat appended) @ '' max='' @ decimal (unat mx)
      | InvalidRecord message \<Rightarrow> ''invalid revocation record: '' @ message
      | AppendIo message \<Rightarrow> message)"

definition publish_revocations ::
  "rev_externs \<Rightarrow> MetaHost \<Rightarrow> RevocationSet \<Rightarrow> Session \<Rightarrow> bytes list \<Rightarrow> MetaResp \<times> RevocationSet" where
  "publish_revocations R host revs session items =
     (if \<not> (case meta_caps session of None \<Rightarrow> False | Some caps \<Rightarrow> mt_info caps) then
        (cap_denied ''publish revocations requires meta.info capability'', revs)
      else if length items > MAX_PUBLISH_ITEMS then
        (meta_error KRateLimited ''batch exceeds 1000 records; split into smaller requests'' (Some 1000),
         revs)
      else case mh_now_secs host of
        None \<Rightarrow>
          (meta_error KInternalError
             ''unix time unavailable: system clock is before unix epoch'' None, revs)
      | Some now \<Rightarrow>
          (let caller_hex = rx_hex_encode R (ss_caller_endpoint_id session);
               (accepted, rejected, batch) =
                 triage R (''meta_publish_from_'' @ caller_hex) now items 0
           in case append_batch_atomic R (mh_disk_ok host) revs batch of
             (Inr _, revs') \<Rightarrow> (PublishedRevocations accepted rejected, revs')
           | (Inl (SizeCeilingExceeded current appended mx), revs') \<Rightarrow>
               (meta_error KResourceExhausted
                  (''revocations.jsonl ceiling exceeded: current='' @ decimal (unat current) @
                   '' append='' @ decimal (unat appended) @ '' max='' @ decimal (unat mx)) None, revs')
           | (Inl err, revs') \<Rightarrow>
               (meta_error KInternalError (''append revocations: '' @ append_error_text err) None,
                revs')))"

definition serve_meta ::
  "rev_externs \<Rightarrow> MetaHost \<Rightarrow> AgentMode \<Rightarrow> RevocationSet \<Rightarrow> Session \<Rightarrow> StreamPreamble \<Rightarrow> MetaReq \<Rightarrow>
   (string + MetaResp) \<times> RevocationSet" where
  "serve_meta R host mode revs session preamble req =
     (if sp_peer_token preamble \<noteq> ss_peer_token session \<or> sp_alpn preamble \<noteq> ALPN_META_V1 then
        (Inl ''policy denied'', revs)
      else case req of
        Ping _ \<Rightarrow>
          if (case meta_caps session of None \<Rightarrow> False | Some caps \<Rightarrow> mt_ping caps) then
            (case mh_now_micros host of
               None \<Rightarrow> (Inl ''clock'', revs)
             | Some t \<Rightarrow> (Inr (Pong t), revs))
          else (Inr (cap_denied ''meta ping not allowed''), revs)
      | Info \<Rightarrow>
          if (case meta_caps session of None \<Rightarrow> False | Some caps \<Rightarrow> mt_info caps) then
            (Inr (InfoResp (mh_version host) (supported_alpns mode) (mh_uptime_s host)
               (mh_hostname host) (mh_os host) []), revs)
          else (Inr (cap_denied ''meta info not allowed''), revs)
      | PublishRevocations items \<Rightarrow>
          (let (resp, revs') = publish_revocations R host revs session items in (Inr resp, revs')))"


section \<open>Facts\<close>

definition meta_permits :: "Capabilities \<Rightarrow> MetaReq \<Rightarrow> bool" where
  "meta_permits c req \<longleftrightarrow> (\<exists>m. cp_meta c = Some m \<and>
     (case req of Ping _ \<Rightarrow> mt_ping m | Info \<Rightarrow> mt_info m | PublishRevocations _ \<Rightarrow> mt_info m))"

interpretation meta_att: attenuation is_narrowing meta_permits
proof
  fix p c r assume n: "is_narrowing p c" and c: "meta_permits c r"
  then obtain m where "cp_meta c = Some m" by (auto simp: meta_permits_def)
  with is_narrowingD(7) [OF n] obtain q where "cp_meta p = Some q" "meta_narrows q m"
    by (auto simp: option_narrows_iff)
  with c \<open>cp_meta c = Some m\<close> show "meta_permits p r"
    by (auto simp: meta_permits_def meta_narrows_def bool_narrows_def split: MetaReq.splits)
qed

lemma triage_spec:
  "triage R reason now items acc =
     (fold (\<lambda>_ n. saturating_add n 1) (filter (\<lambda>raw. length raw = 16) items) acc,
      map (\<lambda>raw. (raw, ''ticket_id must be 16 bytes'')) (filter (\<lambda>raw. length raw \<noteq> 16) items),
      map (\<lambda>raw. new_record R raw reason now None) (filter (\<lambda>raw. length raw = 16) items))"
  by (induction R reason now items acc rule: triage.induct) simp_all

lemma new_record_id:
  "hex_roundtrip R \<Longrightarrow> length raw = 16 \<Longrightarrow> ticket_id_bytes R (new_record R raw reason now na) = Inr raw"
  by (simp add: ticket_id_bytes_def decode_ticket_id_def new_record_def hex_roundtrip_def)

lemma publish_ok:
  assumes "publish_revocations R host revs session items = (PublishedRevocations acc rej, revs')"
  obtains now n where "mh_now_secs host = Some now" "meta_permits (ss_caps session) (PublishRevocations items)"
    "length items \<le> MAX_PUBLISH_ITEMS"
    "append_batch_atomic R (mh_disk_ok host) revs
       (map (\<lambda>raw. new_record R raw (''meta_publish_from_'' @ rx_hex_encode R (ss_caller_endpoint_id session))
          now None) (filter (\<lambda>raw. length raw = 16) items)) = (Inr n, revs')"
    "rej = map (\<lambda>raw. (raw, ''ticket_id must be 16 bytes'')) (filter (\<lambda>raw. length raw \<noteq> 16) items)"
  using assms
  by (auto simp: publish_revocations_def triage_spec meta_permits_def meta_caps_def cap_denied_def
      meta_error_def Let_def not_less
      split: if_splits option.splits prod.splits sum.splits AppendError.splits)



section \<open>A concrete instance\<close>

definition demo_host :: MetaHost where
  "demo_host = \<lparr>mh_version = ''1'', mh_uptime_s = 5, mh_hostname = ''h'', mh_os = ''linux'',
     mh_now_micros = Some 7, mh_now_secs = Some 1000, mh_disk_ok = True\<rparr>"

definition demo_session :: Session where
  "demo_session = \<lparr>ss_peer_token = [1], ss_caps = demo_caps, ss_ticket_id = [], ss_ticket_chain_ids = [],
     ss_caller_endpoint_id = [65], ss_ticket_issuer_id = [], ss_ticket_holder_id = None, ss_bearer = None\<rparr>"

definition empty_revs :: RevocationSet where
  "empty_revs = \<lparr>rs_ids = {}, rs_records = [], rs_live_sessions = [], rs_max_bytes = 1000,
     rs_disk = None, rs_cancelled = {}\<rparr>"

lemma demo_publish:
  "\<exists>revs'. publish_revocations demo_rev demo_host empty_revs demo_session [demo_tid] =
     (PublishedRevocations 1 [], revs')"
proof -
  have id: "ticket_id_bytes demo_rev (new_record demo_rev demo_tid reason 1000 None) = Inr demo_tid" for reason
    by (rule new_record_id [OF demo_hex]) (simp add: demo_tid_def)
  have len: "encoded_record_len demo_rev r = Inr 3" for r
    by (simp add: encoded_record_len_def demo_to_json usize_to_u64_def)
  have t: "length demo_tid = 16" by (simp add: demo_tid_def)
  show ?thesis
    by (simp add: publish_revocations_def demo_session_def demo_host_def meta_caps_def demo_caps_def
        MAX_PUBLISH_ITEMS_def t id len append_batch_atomic_def empty_revs_def disk_len_def
        write_jsonl_def demo_to_json ok_or_def saturating_add_def Let_def)
qed


section \<open>Properties\<close>

text \<open>
  Publishing revocations.  When the agent answers a publication with success, the session
  had the info capability, every 16-byte identifier of the request is revoked, the rejected
  list is exactly the remaining items in order, and no earlier revocation was lost.
\<close>

lemma publish_revokes:
  assumes "hex_roundtrip R"
    and "publish_revocations R host revs session items = (PublishedRevocations acc rej, revs')"
  shows "meta_permits (ss_caps session) (PublishRevocations items) \<and>
    (\<forall>raw\<in>set items. length raw = 16 \<longrightarrow> contains revs' raw) \<and>
    map fst rej = filter (\<lambda>raw. length raw \<noteq> 16) items \<and> rs_ids revs \<subseteq> rs_ids revs'"
  using assms(2)
proof (cases rule: publish_ok)
  case (1 now n)
  from 1(4) have "(\<forall>raw\<in>set (filter (\<lambda>raw. length raw = 16) items). contains revs' raw) \<and>
      rs_ids revs \<subseteq> rs_ids revs'"
    by (cases rule: append_batch_cases) (auto simp: contains_def new_record_id [OF assms(1)])
  with 1(2,5) show ?thesis by (auto simp: comp_def)
qed

text \<open>
  A published revocation lapses after seven days.  The handler records no expiry for the
  ticket it revokes, so once seven days have passed the next collection forgets a ticket that
  was revoked by publication, whatever validity the ticket still has.
\<close>

lemma published_revocation_lapses:
  assumes "hex_roundtrip R" and "rev_inv R revs" and "\<not> contains revs raw" and "raw \<in> set items"
    and "length raw = 16" and "mh_now_secs host = Some now"
    and "publish_revocations R host revs session items = (PublishedRevocations acc rej, revs')"
    and "unat now + 604800 < 2 ^ 64" and "unat now + 604800 \<le> unat later"
  shows "contains revs' raw \<and> \<not> contains (snd (gc R revs' later)) raw"
  using assms(7)
proof (cases rule: publish_ok)
  case (1 t n)
  have t: "t = now" using 1(1) assms(6) by simp
  have drop: "\<not> gc_keeps later r" if "rr_revoked_at r = Some now" "rr_not_after_of_ticket r = None" for r
    using gc_keeps_iff [of r later] that assms(8,9) by simp
  let ?batch = "map (\<lambda>raw. new_record R raw (''meta_publish_from_'' @
      rx_hex_encode R (ss_caller_endpoint_id session)) now None) (filter (\<lambda>raw. length raw = 16) items)"
  obtain g where "gather R ?batch (rs_ids revs) 0 = Inr g" and "g = (fst g, fst (snd g), fst (snd (snd g)), snd (snd (snd g)))"
    using 1(4) assms(4,5) unfolding t
    by (cases "gather R ?batch (rs_ids revs) 0") (auto simp: append_batch_atomic_def split: if_splits)
  then obtain ids b pending pids where g: "gather R ?batch (rs_ids revs) 0 = Inr (ids, b, pending, pids)"
    by metis
  have old: "\<forall>r\<in>set (rs_records revs). ticket_id_bytes R r \<noteq> Inr raw"
    using assms(2,3) by (auto simp: rev_inv_def contains_def)
  have "rs_records revs' = rs_records revs \<or> rs_records revs' = rs_records revs @ pending"
    using 1(4) g unfolding t
    by (auto simp: append_batch_atomic_def Let_def split: if_splits sum.splits)
  moreover have "\<forall>r\<in>set pending. \<not> gc_keeps later r"
    using gather_ok [OF g] drop by (auto simp: new_record_def)
  moreover have "contains revs' raw"
    using 1(4) by (cases rule: append_batch_cases)
      (use assms(3-5) in \<open>auto simp: contains_def new_record_id [OF assms(1)]\<close>)
  ultimately show ?thesis using old by (auto simp: contains_gc)
qed

text \<open>
  Meta requests are guarded.  Without the capability for a request the agent's revocation
  set stays as it was and the answer, if the stream's preamble is valid, is a denial; with an
  invalid preamble there is no answer.
\<close>

lemma serve_meta_guarded:
  assumes "\<not> meta_permits (ss_caps session) req"
  shows "snd (serve_meta R host mode revs session preamble req) = revs \<and>
    (case fst (serve_meta R host mode revs session preamble req) of
       Inl _ \<Rightarrow> sp_peer_token preamble \<noteq> ss_peer_token session \<or> sp_alpn preamble \<noteq> ALPN_META_V1
     | Inr resp \<Rightarrow> meta_resp_outcome resp = ''cap_denied'')"
  using assms
  by (cases req; cases "meta_caps session")
     (auto simp: serve_meta_def meta_permits_def meta_caps_def publish_revocations_def cap_denied_def
       meta_error_def meta_resp_outcome_def)

text \<open>
  Gateway mode advertises what it refuses.  In gateway mode the info response lists the
  shell and UDP protocols, whose streams the same agent closes.
\<close>

lemma gateway_advertises_refused:
  "ALPN_SHELL_V1 \<in> set (supported_alpns (Gateway u h p)) \<and>
   ALPN_UDP_V1 \<in> set (supported_alpns (Gateway u h p)) \<and>
   \<not> is_ok (alpn_allowed_in_mode (Gateway u h p) ALPN_SHELL_V1) \<and>
   \<not> is_ok (alpn_allowed_in_mode (Gateway u h p) ALPN_UDP_V1)"
  by (simp add: supported_alpns_def alpn_allowed_in_mode_def alpn_defs)

end
