(* ===== verification/Gateway.thy ===== *)
theory Gateway
  imports Pipeline
begin

text \<open>
  Gateway mode (\<^verbatim>\<open>portl-agent/src/gateway.rs\<close>): a TCP stream is admitted only for the
  configured upstream, and the HTTP/1.1 header block at its start is rewritten to carry the
  bearer of the master ticket.  Streams are byte lists; a read that fails is not modelled.
\<close>

definition CRLF :: bytes where
  "CRLF = [13, 10]"

definition MAX_HTTP_HEADER_BYTES :: nat where
  "MAX_HTTP_HEADER_BYTES = 64 * 1024"

section \<open>Admission\<close>

datatype GatewayVerdict = Bail string | Reject string | Forward bytes

definition gateway_admit :: "AgentMode \<Rightarrow> Session \<Rightarrow> TcpReq \<Rightarrow> GatewayVerdict" where
  "gateway_admit mode session req =
     (if sp_peer_token (tr_preamble req) \<noteq> ss_peer_token session \<or>
         sp_alpn (tr_preamble req) \<noteq> ALPN_TCP_V1 then Bail ''invalid tcp preamble''
      else case mode of
        Listener \<Rightarrow> Bail ''gateway stream called in listener mode''
      | Gateway url host port \<Rightarrow>
          (let forced_req = \<lparr>tr_preamble = tr_preamble req, tr_host = host, tr_port = port\<rparr> in
           case tcp_permits (ss_caps session) forced_req of
             Inl err \<Rightarrow> Reject err
           | Inr _ \<Rightarrow>
               if tr_host req \<noteq> host \<or> tr_port req \<noteq> port then
                 Reject ''destination restricted by gateway mode''
               else case ss_bearer session of
                 None \<Rightarrow> Reject ''gateway mode requires a ticket bearer''
               | Some bearer \<Rightarrow>
                   if bearer = [] then Reject ''gateway mode requires a ticket bearer''
                   else Forward bearer))"

section \<open>Header rewriting\<close>

fun read_initial_headers :: "bytes \<Rightarrow> bytes \<Rightarrow> (string + bytes option) \<times> bytes" where
  "read_initial_headers acc [] =
     (if acc = [] then Inr None else Inl ''gateway expected an HTTP/1.1 header block'', [])"
| "read_initial_headers acc (b # bs) =
     (if length (acc @ [b]) > MAX_HTTP_HEADER_BYTES then
        (Inl ''gateway header block exceeded 65536 bytes'', bs)
      else if ends_with (acc @ [b]) (CRLF @ CRLF) then (Inr (Some (acc @ [b])), bs)
      else read_initial_headers (acc @ [b]) bs)"

fun crlf_position :: "bytes \<Rightarrow> nat option" where
  "crlf_position (a # b # bs) =
     (if [a, b] = CRLF then Some 0 else map_option Suc (crlf_position (b # bs)))"
| "crlf_position _ = None"

definition to_ascii_lowercase :: "byte \<Rightarrow> byte" where
  "to_ascii_lowercase b = (if 65 \<le> b \<and> b \<le> 90 then b + 32 else b)"

definition is_header_named :: "bytes \<Rightarrow> bytes \<Rightarrow> bool" where
  "is_header_named line name =
     (map to_ascii_lowercase (hd (split_on 58 line)) = map to_ascii_lowercase name)"

definition bearer_to_header_value :: "bytes \<Rightarrow> string + bytes" where
  "bearer_to_header_value bearer =
     (if \<not> valid_utf8 bearer then Inl ''bearer contains non-UTF-8 bytes''
      else if bearer = [] then Inl ''bearer is empty''
      else if \<not> list_all (\<lambda>c. 0x21 \<le> c \<and> c \<le> 0x7E) bearer then
        Inl ''bearer contains non-printable characters''
      else Inr bearer)"

definition validate_http11_request_line :: "bytes \<Rightarrow> string + unit" where
  "validate_http11_request_line line =
     (if \<not> valid_utf8 line then Inl ''gateway request line was not utf-8''
      else if \<not> ends_with line (ascii '' HTTP/1.1'' @ CRLF) then
        Inl ''gateway requires an HTTP/1.1 request line''
      else let trimmed = rev (trim_leading [rev CRLF] (rev line)) in
        (case split_on 32 trimmed of
           [method, target, version] \<Rightarrow>
             if method = [] \<or> target = [] \<or> version \<noteq> ascii ''HTTP/1.1'' then
               Inl ''gateway received a malformed HTTP/1.1 request line''
             else Inr ()
         | _ \<Rightarrow> Inl ''gateway received a malformed HTTP/1.1 request line''))"

definition drops_line :: "bytes \<Rightarrow> bool" where
  "drops_line line \<longleftrightarrow> line = [] \<or> line = [13] \<or> is_header_named line (ascii ''authorization'') \<or>
     is_header_named line (ascii ''connection'')"

definition auth_line :: "bytes \<Rightarrow> bytes" where
  "auth_line value = ascii ''Authorization: Bearer '' @ value @ CRLF"

definition rewrite_request_headers :: "bytes \<Rightarrow> bytes \<Rightarrow> string + bytes" where
  "rewrite_request_headers headers bearer =
     res_bind (ok_or ''gateway request line terminator missing'' (crlf_position headers)) (\<lambda>request_line_end.
     let request_line = take (request_line_end + 2) headers in
     res_bind (validate_http11_request_line request_line) (\<lambda>_.
     res_bind (bearer_to_header_value bearer) (\<lambda>header_value.
       let header_block = drop (request_line_end + 2) (take (length headers - 2) headers) in
       Inr (request_line @ auth_line header_value @ ascii ''Connection: close'' @ CRLF @
            concat (map (\<lambda>line. line @ [10]) (filter (\<lambda>l. \<not> drops_line l) (split_on 10 header_block))) @
            CRLF))))"

definition inject_authorization_header :: "bytes \<Rightarrow> bytes \<Rightarrow> (string + bytes option) \<times> bytes" where
  "inject_authorization_header reader bearer =
     (case read_initial_headers [] reader of
        (Inl e, rest) \<Rightarrow> (Inl e, rest)
      | (Inr None, rest) \<Rightarrow> (Inr None, rest)
      | (Inr (Some headers), rest) \<Rightarrow>
          (case rewrite_request_headers headers bearer of
             Inl e \<Rightarrow> (Inl e, rest)
           | Inr rewritten \<Rightarrow> (Inr (Some rewritten), rest)))"


section \<open>Facts\<close>

lemma read_initial_headers_ok:
  "read_initial_headers acc bs = (Inr (Some headers), rest) \<Longrightarrow>
   acc @ bs = headers @ rest \<and> ends_with headers (CRLF @ CRLF) \<and>
   length headers \<le> MAX_HTTP_HEADER_BYTES"
  by (induction acc bs rule: read_initial_headers.induct) (auto split: if_splits)

lemma crlf_position_ok:
  "crlf_position bs = Some n \<Longrightarrow> n + 2 \<le> length bs \<and> take 2 (drop n bs) = CRLF"
  by (induction bs arbitrary: n rule: crlf_position.induct) (auto simp: CRLF_def split: if_splits)

lemma crlf_position_first: "crlf_position bs = Some n \<Longrightarrow> bs = xs @ CRLF @ ys \<Longrightarrow> n \<le> length xs"
proof (induction bs arbitrary: n xs rule: crlf_position.induct)
  case (1 a b bs)
  show ?case
  proof (cases "[a, b] = CRLF")
    case True
    with "1.prems"(1) show ?thesis by simp
  next
    case False
    with "1.prems"(1) obtain m where m: "crlf_position (b # bs) = Some m" "n = Suc m" by auto
    from False "1.prems"(2) obtain xs' where "xs = a # xs'" "b # bs = xs' @ CRLF @ ys"
      by (cases xs) (auto simp: CRLF_def)
    with "1.IH" [OF False m(1)] m(2) show ?thesis by simp
  qed
qed (auto simp: CRLF_def Cons_eq_append_conv)

text \<open>
  The slice of the header block taken by the source is in range for every block the reader
  returns.
\<close>

lemma header_block_in_range:
  assumes "read_initial_headers [] reader = (Inr (Some headers), rest)"
    and "crlf_position headers = Some n"
  shows "n + 2 \<le> length headers - 2"
proof -
  from read_initial_headers_ok [OF assms(1)] obtain xs where "headers = (xs @ CRLF @ CRLF)"
    by (auto simp: ends_with_iff)
  with crlf_position_first [OF assms(2), of xs CRLF] show ?thesis by (simp add: CRLF_def)
qed

lemma split_on_concat:
  "\<forall>l\<in>set ls. c \<notin> set l \<Longrightarrow> split_on c (concat (map (\<lambda>l. l @ [c]) ls) @ rest) = ls @ split_on c rest"
  by (induction ls) (simp_all add: split_on_append)

lemma split_on_pieces: "l \<in> set (split_on c xs) \<Longrightarrow> c \<notin> set l"
  by (induction xs arbitrary: l) (auto split: list.splits if_splits)

lemma printable_no_ctl:
  "list_all (\<lambda>c. 0x21 \<le> c \<and> c \<le> 0x7E) v \<Longrightarrow> 10 \<notin> set v" for v :: bytes
  by (auto simp: list_all_iff)



text \<open>The lines of the rewritten block after the request line.\<close>

lemma rewritten_lines:
  assumes "rewrite_request_headers headers bearer = Inr out"
  obtains n kept where "crlf_position headers = Some n"
    "out = take (n + 2) headers @ auth_line bearer @ ascii ''Connection: close'' @ CRLF @
       concat (map (\<lambda>line. line @ [10]) kept) @ CRLF"
    "kept = filter (\<lambda>l. \<not> drops_line l) (split_on 10 (drop (n + 2) (take (length headers - 2) headers)))"
    "split_on 10 (drop (n + 2) out) =
       (ascii ''Authorization: Bearer '' @ bearer @ [13]) # (ascii ''Connection: close'' @ [13]) #
       kept @ [[13], []]"
proof -
  from assms obtain n where n: "crlf_position headers = Some n"
      and v: "bearer_to_header_value bearer = Inr bearer"
      and out: "out = take (n + 2) headers @ auth_line bearer @ ascii ''Connection: close'' @ CRLF @
         concat (map (\<lambda>line. line @ [10]) (filter (\<lambda>l. \<not> drops_line l)
           (split_on 10 (drop (n + 2) (take (length headers - 2) headers))))) @ CRLF"
    by (auto simp: rewrite_request_headers_def Let_def res_bind_Inr_iff ok_or_Inr_iff
        bearer_to_header_value_def split: if_splits)
  have p: "10 \<notin> set bearer" using v
    by (auto simp: bearer_to_header_value_def dest: printable_no_ctl split: if_splits)
  let ?kept = "filter (\<lambda>l. \<not> drops_line l) (split_on 10 (drop (n + 2) (take (length headers - 2) headers)))"
  let ?auth = "ascii ''Authorization: Bearer '' @ bearer @ [13]"
  let ?conn = "ascii ''Connection: close'' @ [13]"
  have tail: "drop (n + 2) out = concat (map (\<lambda>l. l @ [10]) (?auth # ?conn # ?kept @ [[13]])) @ []"
    using crlf_position_ok [OF n] by (simp add: out auth_line_def CRLF_def)
  have "\<forall>l\<in>set (?auth # ?conn # ?kept @ [[13]]). 10 \<notin> set l"
    using p by (auto simp: ascii_def dest: split_on_pieces)
  from split_on_concat [OF this, of "[]"]
  have "split_on 10 (drop (n + 2) out) = ?auth # ?conn # ?kept @ [[13], []]" unfolding tail by simp
  with n out show ?thesis using that by blast
qed

lemma auth_line_named:
  "is_header_named (ascii ''Authorization: Bearer '' @ v @ [13]) (ascii ''authorization'')"
  by (simp add: is_header_named_def ascii_def to_ascii_lowercase_def)

lemma other_lines_unnamed:
  "\<not> is_header_named (ascii ''Connection: close'' @ [13]) (ascii ''authorization'')"
  "\<not> is_header_named [13] (ascii ''authorization'')" "\<not> is_header_named [] (ascii ''authorization'')"
  by (simp_all add: is_header_named_def ascii_def to_ascii_lowercase_def)


section \<open>Properties\<close>



lemma demo_rewrite:
  "rewrite_request_headers (ascii ''GET / HTTP/1.1'' @ CRLF @ ascii ''AUTHORIZATION: x'' @ CRLF @ CRLF)
     (ascii ''tok'') =
   Inr (ascii ''GET / HTTP/1.1'' @ CRLF @ ascii ''Authorization: Bearer tok'' @ CRLF @
     ascii ''Connection: close'' @ CRLF @ CRLF)"
  by code_simp


text \<open>
  A smuggled header survives.  The request line is validated by its spaces only, so a line
  feed inside it passes: there is a block whose rewritten form has a second line named
  Authorization, under the client's control, in front of the injected one.
\<close>

lemma request_line_smuggles:
  "\<exists>headers out. rewrite_request_headers headers (ascii ''tok'') = Inr out \<and>
     filter (\<lambda>l. is_header_named l (ascii ''authorization'')) (split_on 10 out) =
       [ascii ''Authorization:evil'', ascii ''Authorization: Bearer tok'' @ [13]]"
proof (intro exI conjI)
  show "rewrite_request_headers (ascii ''GET /'' @ [10] @ ascii ''Authorization:evil'' @ [10] @
      ascii ''X: HTTP/1.1'' @ CRLF @ CRLF) (ascii ''tok'') = Inr (ascii ''GET /'' @ [10] @ ascii ''Authorization:evil'' @ [10] @
      ascii ''X: HTTP/1.1'' @ CRLF @ ascii ''Authorization: Bearer tok'' @ CRLF @
      ascii ''Connection: close'' @ CRLF @ CRLF)" by code_simp
qed code_simp


text \<open>
  The gateway reaches its upstream only.  A stream is forwarded exactly when the preamble
  belongs to the session, the agent is a gateway, the request names the configured upstream
  host and port, the session's capabilities admit that destination, and the session carries a
  non-empty bearer, which is the one injected.
\<close>

lemma gateway_forwards_iff:
  "gateway_admit mode session req = Forward bearer \<longleftrightarrow>
     (\<exists>url host port. mode = Gateway url host port \<and> tr_host req = host \<and> tr_port req = port) \<and>
     sp_peer_token (tr_preamble req) = ss_peer_token session \<and>
     sp_alpn (tr_preamble req) = ALPN_TCP_V1 \<and>
     tcp_permits (ss_caps session) req = Inr () \<and> ss_bearer session = Some bearer \<and> bearer \<noteq> []"
proof (cases mode)
  case (Gateway url host port)
  have eq: "tcp_permits c \<lparr>tr_preamble = tr_preamble req, tr_host = tr_host req, tr_port = tr_port req\<rparr> =
      tcp_permits c req" for c by (cases req) simp
  from Gateway show ?thesis
    by (cases "ss_bearer session")
       (auto simp: gateway_admit_def Let_def eq split: sum.splits if_splits)
qed (auto simp: gateway_admit_def)

text \<open>
  The stream behind the header block is untouched.  When the injection succeeds, the
  client's stream is a header block ending in an empty line, of at most 65536 bytes, followed
  by the bytes that remain to be copied; what is written first is the rewriting of that block.
\<close>

lemma injection_splits_stream:
  assumes "inject_authorization_header reader bearer = (Inr (Some out), rest)"
  shows "\<exists>headers. reader = headers @ rest \<and> ends_with headers (CRLF @ CRLF) \<and>
    length headers \<le> 65536 \<and> rewrite_request_headers headers bearer = Inr out"
proof -
  from assms obtain headers where h: "read_initial_headers [] reader = (Inr (Some headers), rest)"
      "rewrite_request_headers headers bearer = Inr out"
    by (auto simp: inject_authorization_header_def split: prod.splits sum.splits option.splits)
  with read_initial_headers_ok [OF h(1)] show ?thesis by (auto simp: MAX_HTTP_HEADER_BYTES_def)
qed

end
