(* ===== verification/Udp_Registry.thy ===== *)
theory Udp_Registry
  imports Caps_Enforce Ticket_Crypto "HOL-Library.AList"
begin

text \<open>
  UDP forwarding sessions of the agent (\<^verbatim>\<open>portl-agent/src/udp_registry.rs\<close> and
  \<^verbatim>\<open>udp_handler.rs\<close>).  The registry, its sessions and their source tags are association lists
  in place of the hash maps; every operation runs under the registry's attach lock or a
  session's lock, so an operation is one step.  A connection is its stable id.  Name
  resolution, the random generator, the datagram encoder and the clock are arguments; sums of
  machine integers wrap.  Sockets are numbered by the caller, and an \<^verbatim>\<open>Instant\<close> is a number.
\<close>

type_synonym session_id = bytes
type_synonym ip = bytes

definition DEFAULT_UDP_SESSION_LINGER_SECS :: u64 where
  "DEFAULT_UDP_SESSION_LINGER_SECS = 60"

definition MAX_SESSIONS_PER_CONNECTION :: nat where
  "MAX_SESSIONS_PER_CONNECTION = 16"

definition MAX_SRC_TAGS_PER_SESSION :: nat where
  "MAX_SRC_TAGS_PER_SESSION = 1024"

definition OWNER_FINGERPRINT_DOMAIN :: bytes where
  "OWNER_FINGERPRINT_DOMAIN = ascii ''portl/udp-session/v1''"

record SrcTagEntry =
  sg_target :: "ip \<times> u16"
  sg_socket :: nat
  sg_last_used :: nat

record ResolvedUdpBind =
  rb_bind :: UdpBind
  rb_target_ip :: ip

record UdpSession =
  us_session_id :: session_id
  us_owner_fingerprint :: bytes
  us_cancelled :: bool
  us_binds :: "ResolvedUdpBind list"
  us_connection :: "nat option"
  us_connection_id :: "nat option"
  us_active_controls :: nat
  us_linger_until :: "u64 option"
  us_src_tags :: "(u32 \<times> SrcTagEntry) list"

record UdpSessionRegistry =
  rg_linger_secs :: u64
  rg_sessions :: "(session_id \<times> UdpSession) list"
  rg_connection_sessions :: "(nat \<times> nat) list"

section \<open>Counting sessions per connection\<close>

definition connection_session_count :: "UdpSessionRegistry \<Rightarrow> nat \<Rightarrow> nat" where
  "connection_session_count rg c =
     (case map_of (rg_connection_sessions rg) c of None \<Rightarrow> 0 | Some n \<Rightarrow> n)"

definition ensure_connection_quota :: "UdpSessionRegistry \<Rightarrow> nat \<Rightarrow> string + unit" where
  "ensure_connection_quota rg c =
     (if connection_session_count rg c \<ge> MAX_SESSIONS_PER_CONNECTION
      then Inl ''session quota exceeded'' else Inr ())"

definition increment_connection_sessions :: "nat \<Rightarrow> UdpSessionRegistry \<Rightarrow> UdpSessionRegistry" where
  "increment_connection_sessions c rg =
     rg\<lparr>rg_connection_sessions :=
       AList.update c (case map_of (rg_connection_sessions rg) c of None \<Rightarrow> 1 | Some n \<Rightarrow> n + 1)
         (rg_connection_sessions rg)\<rparr>"

definition decrement_connection_sessions :: "nat \<Rightarrow> UdpSessionRegistry \<Rightarrow> UdpSessionRegistry" where
  "decrement_connection_sessions c rg =
     (case map_of (rg_connection_sessions rg) c of
        None \<Rightarrow> rg
      | Some n \<Rightarrow>
          if n \<le> 1 then
            rg\<lparr>rg_connection_sessions := AList.delete c (rg_connection_sessions rg)\<rparr>
          else
            rg\<lparr>rg_connection_sessions := AList.update c (n - 1) (rg_connection_sessions rg)\<rparr>)"

section \<open>Sessions\<close>

definition new_session :: "session_id \<Rightarrow> bytes \<Rightarrow> ResolvedUdpBind list \<Rightarrow> nat \<Rightarrow> UdpSession" where
  "new_session sid owner binds c =
     \<lparr>us_session_id = sid, us_owner_fingerprint = owner, us_cancelled = False, us_binds = binds,
      us_connection = Some c, us_connection_id = Some c, us_active_controls = 1,
      us_linger_until = None, us_src_tags = []\<rparr>"

definition is_expired :: "UdpSession \<Rightarrow> u64 \<Rightarrow> bool" where
  "is_expired s now = (case us_linger_until s of None \<Rightarrow> False | Some deadline \<Rightarrow> deadline \<le> now)"

datatype AttachResult = Attached bool | CreateFresh

definition attach :: "UdpSession \<Rightarrow> ResolvedUdpBind list \<Rightarrow> nat \<Rightarrow> bytes \<Rightarrow> (string + AttachResult) \<times> UdpSession" where
  "attach s binds c owner =
     (if us_owner_fingerprint s \<noteq> owner then (Inl ''udp session owner mismatch'', s)
      else
        let decision = (case us_connection_id s of
            Some current \<Rightarrow>
              if current = c then Some False
              else if us_linger_until s = None then None else Some True
          | None \<Rightarrow> Some True)
        in case decision of
             None \<Rightarrow> (Inr CreateFresh, s)
           | Some counts_as_session \<Rightarrow>
               (Inr (Attached counts_as_session),
                s\<lparr>us_binds := binds, us_connection := Some c, us_connection_id := Some c,
                  us_linger_until := None,
                  us_active_controls := (if counts_as_session then 1 else us_active_controls s + 1)\<rparr>))"

definition session_mark_linger :: "UdpSession \<Rightarrow> nat \<Rightarrow> u64 \<Rightarrow> bool \<times> UdpSession" where
  "session_mark_linger s c linger_until =
     (if us_connection_id s \<noteq> Some c then (False, s)
      else if us_active_controls s > 1 then (False, s\<lparr>us_active_controls := us_active_controls s - 1\<rparr>)
      else (True, s\<lparr>us_active_controls := 0, us_connection := None, us_connection_id := None,
                    us_linger_until := Some linger_until\<rparr>))"

definition session_shutdown :: "UdpSession \<Rightarrow> UdpSession" where
  "session_shutdown s =
     s\<lparr>us_cancelled := True, us_connection := None, us_connection_id := None,
       us_active_controls := 0, us_linger_until := Some 0, us_src_tags := []\<rparr>"

fun oldest_src_tag :: "(u32 \<times> SrcTagEntry) list \<Rightarrow> u32 option" where
  "oldest_src_tag [] = None"
| "oldest_src_tag ((tag, entry) # rest) =
     (case oldest_src_tag rest of
        None \<Rightarrow> Some tag
      | Some t \<Rightarrow>
          (case map_of rest t of
             None \<Rightarrow> Some tag
           | Some e \<Rightarrow> if sg_last_used entry \<le> sg_last_used e then Some tag else Some t))"

definition bind_for_port :: "ResolvedUdpBind list \<Rightarrow> u16 \<Rightarrow> ResolvedUdpBind option" where
  "bind_for_port binds port =
     find (\<lambda>b. fst (ub_target_port_range (rb_bind b)) \<le> port \<and>
               port \<le> snd (ub_target_port_range (rb_bind b))) binds"

definition make_room :: "(u32 \<times> SrcTagEntry) list \<Rightarrow> (u32 \<times> SrcTagEntry) list" where
  "make_room tags =
     (if length tags \<ge> MAX_SRC_TAGS_PER_SESSION
      then (case oldest_src_tag tags of
          None \<Rightarrow> tags
        | Some evicted \<Rightarrow> AList.delete evicted tags)
      else tags)"

definition route_to_target ::
  "UdpSession \<Rightarrow> UdpDatagram \<Rightarrow> nat option \<Rightarrow> nat \<Rightarrow> (string + (ip \<times> u16) \<times> nat) \<times> UdpSession" where
  "route_to_target s datagram new_socket now =
     (case bind_for_port (us_binds s) (ud_target_port datagram) of
        None \<Rightarrow> (Inl (''target port '' @ decimal (unat (ud_target_port datagram)) @ '' is not bound''), s)
      | Some b \<Rightarrow>
          (let target = (rb_target_ip b, ud_target_port datagram); tag = ud_src_tag datagram in
           case map_of (us_src_tags s) tag of
             Some entry \<Rightarrow>
               (Inr (target, sg_socket entry),
                s\<lparr>us_src_tags := AList.update tag (entry\<lparr>sg_target := target, sg_last_used := now\<rparr>)
                    (us_src_tags s)\<rparr>)
           | None \<Rightarrow>
               (let tags = make_room (us_src_tags s)
                in case new_socket of
                     None \<Rightarrow> (Inl ''bind udp src-tag socket'', s\<lparr>us_src_tags := tags\<rparr>)
                   | Some socket \<Rightarrow>
                       (Inr (target, socket),
                        s\<lparr>us_src_tags := AList.update tag
                            \<lparr>sg_target = target, sg_socket = socket, sg_last_used = now\<rparr> tags\<rparr>))))"

definition send_to_client ::
  "(UdpDatagram \<Rightarrow> string + bytes) \<Rightarrow> UdpDatagram \<Rightarrow> string + bytes" where
  "send_to_client enc datagram =
     (case enc datagram of
        Inr encoded \<Rightarrow>
          if length encoded \<le> MAX_UDP_DATAGRAM_BYTES then Inr encoded
          else map_err (\<lambda>_. ''encode udp oversize error'')
                 (enc (datagram\<lparr>ud_payload := udp_error_payload ''payload too large''\<rparr>))
      | Inl err \<Rightarrow>
          map_err (\<lambda>_. ''encode udp encode-error reply'')
            (enc (datagram\<lparr>ud_payload := udp_error_payload (''encode failed: '' @ err)\<rparr>)))"

definition send_reply ::
  "(UdpDatagram \<Rightarrow> string + bytes) \<Rightarrow> UdpSession \<Rightarrow> u32 \<Rightarrow> u16 \<Rightarrow> bytes \<Rightarrow> nat \<Rightarrow>
   (string + (nat \<times> bytes) option) \<times> UdpSession" where
  "send_reply enc s src_tag peer_port payload now =
     (case map_of (us_src_tags s) src_tag of
        None \<Rightarrow> (Inr None, s)
      | Some entry \<Rightarrow>
          (let s' = s\<lparr>us_src_tags := AList.update src_tag (entry\<lparr>sg_last_used := now\<rparr>) (us_src_tags s)\<rparr>
           in case us_connection s' of
                None \<Rightarrow> (Inr None, s')
              | Some c \<Rightarrow>
                  (case send_to_client enc \<lparr>ud_session_id = us_session_id s, ud_target_port = peer_port,
                      ud_src_tag = src_tag, ud_payload = payload\<rparr> of
                     Inl e \<Rightarrow> (Inl e, s')
                   | Inr bs \<Rightarrow> (Inr (Some (c, bs)), s'))))"

section \<open>The registry\<close>

definition new_registry :: "u64 \<Rightarrow> UdpSessionRegistry" where
  "new_registry linger_secs =
     \<lparr>rg_linger_secs = linger_secs, rg_sessions = [], rg_connection_sessions = []\<rparr>"

definition owner_fingerprint :: "externs \<Rightarrow> bytes \<Rightarrow> string \<Rightarrow> bytes" where
  "owner_fingerprint X peer_token ticket_id_hex =
     ex_sha256 X (peer_token @ ascii ticket_id_hex @ OWNER_FINGERPRINT_DOMAIN)"

definition resolve_bind :: "(string \<Rightarrow> u16 \<Rightarrow> ip list option) \<Rightarrow> UdpBind \<Rightarrow> string + ResolvedUdpBind" where
  "resolve_bind lookup_host b =
     (case lookup_host (ub_target_host b) (fst (ub_target_port_range b)) of
        None \<Rightarrow> Inl (''resolve udp target '' @ ub_target_host b)
      | Some [] \<Rightarrow> Inl (''no socket addresses resolved for '' @ ub_target_host b)
      | Some (ip # _) \<Rightarrow> Inr \<lparr>rb_bind = b, rb_target_ip = ip\<rparr>)"

definition resolve_binds :: "(string \<Rightarrow> u16 \<Rightarrow> ip list option) \<Rightarrow> UdpBind list \<Rightarrow> string + ResolvedUdpBind list" where
  "resolve_binds lookup_host binds = collect_results (resolve_bind lookup_host) binds"

fun allocate_session_id :: "UdpSessionRegistry \<Rightarrow> bytes list \<Rightarrow> session_id option" where
  "allocate_session_id rg [] = None"
| "allocate_session_id rg (sid # draws) =
     (if sid \<noteq> replicate 8 0 \<and> map_of (rg_sessions rg) sid = None then Some sid
      else allocate_session_id rg draws)"

definition remove_session :: "session_id \<Rightarrow> UdpSessionRegistry \<Rightarrow> UdpSessionRegistry" where
  "remove_session sid rg =
     (case map_of (rg_sessions rg) sid of
        None \<Rightarrow> rg
      | Some s \<Rightarrow>
          (let rg' = rg\<lparr>rg_sessions := AList.delete sid (rg_sessions rg)\<rparr>
           in case us_connection_id s of
                None \<Rightarrow> rg'
              | Some c \<Rightarrow> decrement_connection_sessions c rg'))"

definition create_session ::
  "UdpSessionRegistry \<Rightarrow> bytes list \<Rightarrow> ResolvedUdpBind list \<Rightarrow> nat \<Rightarrow> bytes \<Rightarrow>
   ((string + session_id) \<times> UdpSessionRegistry) option" where
  "create_session rg draws binds c owner =
     (case ensure_connection_quota rg c of
        Inl e \<Rightarrow> Some (Inl e, rg)
      | Inr _ \<Rightarrow>
          map_option (\<lambda>sid.
            (Inr sid, increment_connection_sessions c
               (rg\<lparr>rg_sessions := AList.update sid (new_session sid owner binds c) (rg_sessions rg)\<rparr>)))
            (allocate_session_id rg draws))"

definition attach_or_create ::
  "externs \<Rightarrow> (string \<Rightarrow> u16 \<Rightarrow> ip list option) \<Rightarrow> u64 option \<Rightarrow> bytes list \<Rightarrow> UdpSessionRegistry \<Rightarrow>
   session_id \<Rightarrow> UdpBind list \<Rightarrow> nat \<Rightarrow> bytes \<Rightarrow> string \<Rightarrow>
   ((string + session_id) \<times> UdpSessionRegistry) option" where
  "attach_or_create X lookup_host clock draws rg requested binds c peer_token ticket_id_hex =
     (case resolve_binds lookup_host binds of
        Inl e \<Rightarrow> Some (Inl e, rg)
      | Inr resolved \<Rightarrow>
     (case clock of
        None \<Rightarrow> Some (Inl ''system clock is before unix epoch'', rg)
      | Some now \<Rightarrow>
     (let owner = owner_fingerprint X peer_token ticket_id_hex in
      case (if requested \<noteq> replicate 8 0 then map_of (rg_sessions rg) requested else None) of
        None \<Rightarrow> create_session rg draws resolved c owner
      | Some existing \<Rightarrow>
          if is_expired existing now then
            create_session (remove_session requested rg) draws resolved c owner
          else (case attach existing resolved c owner of
              (Inl e, _) \<Rightarrow> Some (Inl e, rg)
            | (Inr CreateFresh, _) \<Rightarrow> create_session rg draws resolved c owner
            | (Inr (Attached counts_as_session), s') \<Rightarrow>
                (let rg' = rg\<lparr>rg_sessions := AList.update requested s' (rg_sessions rg)\<rparr> in
                 if counts_as_session then
                   (case ensure_connection_quota rg' c of
                      Inl e \<Rightarrow> Some (Inl e, rg')
                    | Inr _ \<Rightarrow> Some (Inr requested, increment_connection_sessions c rg'))
                 else Some (Inr requested, rg'))))))"

definition get_live :: "u64 \<Rightarrow> UdpSessionRegistry \<Rightarrow> session_id \<Rightarrow> UdpSession option \<times> UdpSessionRegistry" where
  "get_live now rg sid =
     (case map_of (rg_sessions rg) sid of
        None \<Rightarrow> (None, rg)
      | Some s \<Rightarrow> if is_expired s now then (None, remove_session sid rg) else (Some s, rg))"

definition mark_linger_if_current :: "u64 \<Rightarrow> UdpSessionRegistry \<Rightarrow> session_id \<Rightarrow> nat \<Rightarrow> UdpSessionRegistry" where
  "mark_linger_if_current now rg sid c =
     (case get_live now rg sid of
        (None, rg') \<Rightarrow> rg'
      | (Some s, rg') \<Rightarrow>
          (case session_mark_linger s c (now + rg_linger_secs rg) of
             (lingering, s') \<Rightarrow>
               (let rg'' = rg'\<lparr>rg_sessions := AList.update sid s' (rg_sessions rg')\<rparr>
                in if lingering then decrement_connection_sessions c rg'' else rg'')))"

definition gc_expired :: "u64 \<Rightarrow> UdpSessionRegistry \<Rightarrow> UdpSessionRegistry" where
  "gc_expired now rg =
     fold (\<lambda>(sid, s) rg. if is_expired s now then remove_session sid rg else rg) (rg_sessions rg) rg"

definition registry_shutdown :: "UdpSessionRegistry \<Rightarrow> UdpSessionRegistry" where
  "registry_shutdown rg =
     (fold (\<lambda>(sid, _). remove_session sid) (rg_sessions rg) rg)\<lparr>rg_connection_sessions := []\<rparr>"


section \<open>The stream and datagram handlers\<close>

record UdpCtlResp =
  cr_ok :: bool
  cr_error :: "string option"
  cr_session_id :: session_id

definition udp_reject :: "session_id \<Rightarrow> string \<Rightarrow> UdpCtlResp" where
  "udp_reject sid err = \<lparr>cr_ok = False, cr_error = Some err, cr_session_id = sid\<rparr>"

text \<open>The control stream up to its response; \<open>Inl\<close> closes the stream without one.\<close>

definition serve_udp_control ::
  "externs \<Rightarrow> (bytes \<Rightarrow> string) \<Rightarrow> (string \<Rightarrow> u16 \<Rightarrow> ip list option) \<Rightarrow> u64 option \<Rightarrow> bytes list \<Rightarrow>
   UdpSessionRegistry \<Rightarrow> Session \<Rightarrow> nat \<Rightarrow> UdpCtlReq \<Rightarrow>
   ((string + UdpCtlResp) \<times> UdpSessionRegistry) option" where
  "serve_udp_control X hex lookup_host clock draws rg session c req =
     (if sp_peer_token (uc_preamble req) \<noteq> ss_peer_token session \<or>
         sp_alpn (uc_preamble req) \<noteq> ALPN_UDP_V1 then Some (Inl ''invalid udp preamble'', rg)
      else if uc_binds req = [] then
        Some (Inr (udp_reject (uc_session_id req) ''at least one udp bind is required''), rg)
      else case for_each (udp_permits (ss_caps session)) (uc_binds req) of
        Inl err \<Rightarrow> Some (Inr (udp_reject (uc_session_id req) err), rg)
      | Inr _ \<Rightarrow>
          map_option (\<lambda>(res, rg').
            (case res of
               Inl err \<Rightarrow> (Inr (udp_reject (uc_session_id req) err), rg')
             | Inr sid \<Rightarrow> (Inr \<lparr>cr_ok = True, cr_error = None, cr_session_id = sid\<rparr>, rg')))
            (attach_or_create X lookup_host clock draws rg (uc_session_id req) (uc_binds req) c
               (ss_peer_token session) (hex (ss_ticket_id session))))"

datatype PumpEffect = DecodeFailed | UnknownSession | PumpError u16 u32 string | Sent "ip \<times> u16" nat bytes

definition pump_datagram ::
  "(bytes \<Rightarrow> UdpDatagram option) \<Rightarrow> u64 \<Rightarrow> nat option \<Rightarrow> nat \<Rightarrow> UdpSessionRegistry \<Rightarrow> bytes \<Rightarrow>
   PumpEffect \<times> UdpSessionRegistry" where
  "pump_datagram dec now new_socket tick rg bs =
     (case dec bs of
        None \<Rightarrow> (DecodeFailed, rg)
      | Some datagram \<Rightarrow>
          (case get_live now rg (ud_session_id datagram) of
             (None, rg') \<Rightarrow> (UnknownSession, rg')
           | (Some s, rg') \<Rightarrow>
               if length bs > MAX_UDP_DATAGRAM_BYTES then
                 (PumpError (ud_target_port datagram) (ud_src_tag datagram) ''payload too large'', rg')
               else (case route_to_target s datagram new_socket tick of
                   (res, s') \<Rightarrow>
                     (let rg'' = rg'\<lparr>rg_sessions := AList.update (ud_session_id datagram) s' (rg_sessions rg')\<rparr>
                      in case res of
                           Inl err \<Rightarrow> (PumpError (ud_target_port datagram) (ud_src_tag datagram) err, rg'')
                         | Inr (target, socket) \<Rightarrow> (Sent target socket (ud_payload datagram), rg'')))))"


section \<open>Well-formed sessions\<close>

definition session_wf :: "UdpSession \<Rightarrow> bool" where
  "session_wf s \<longleftrightarrow> us_connection s = us_connection_id s \<and>
     (us_connection_id s = None \<longleftrightarrow> us_linger_until s \<noteq> None) \<and>
     distinct (map fst (us_src_tags s)) \<and> length (us_src_tags s) \<le> 1024"

lemma oldest_src_tag_None: "oldest_src_tag tags = None \<longleftrightarrow> tags = []"
  by (induction tags rule: oldest_src_tag.induct) (auto split: option.splits)

lemma oldest_src_tag_mem: "oldest_src_tag tags = Some t \<Longrightarrow> t \<in> fst ` set tags"
  by (induction tags arbitrary: t rule: oldest_src_tag.induct) (auto split: option.splits if_splits)

lemma length_delete_mem:
  assumes "distinct (map fst xs)" and "k \<in> fst ` set xs"
  shows "Suc (length (AList.delete k xs)) = length xs"
  using assms
proof (induction xs)
  case (Cons x xs)
  then show ?case
    by (cases "fst x = k") (auto simp: AList.delete_eq filter_id_conv case_prod_beta image_iff)
qed simp

lemma length_update:
  "length (AList.update k v xs) = length xs + (if k \<in> fst ` set xs then 0 else 1)"
  by (induction xs) auto

lemma make_room_ok:
  assumes "distinct (map fst tags)" and "length tags \<le> 1024"
  shows "distinct (map fst (make_room tags))" and "length (make_room tags) < 1024"
proof -
  show "distinct (map fst (make_room tags))"
    using assms(1) by (simp add: make_room_def distinct_delete split: option.split)
  show "length (make_room tags) < 1024"
  proof (cases "length tags = 1024")
    case True
    then obtain t where t: "oldest_src_tag tags = Some t"
      using oldest_src_tag_None [of tags] by fastforce
    from length_delete_mem [OF assms(1) oldest_src_tag_mem [OF t]] True t show ?thesis
      by (simp add: make_room_def MAX_SRC_TAGS_PER_SESSION_def)
  next
    case False
    then show ?thesis using assms(2) by (simp add: make_room_def MAX_SRC_TAGS_PER_SESSION_def)
  qed
qed

lemma route_wf:
  assumes "session_wf s"
  shows "session_wf (snd (route_to_target s d sock now))"
proof (cases "bind_for_port (us_binds s) (ud_target_port d)")
  case None
  then show ?thesis using assms by (simp add: route_to_target_def)
next
  case (Some b)
  note tags = assms [unfolded session_wf_def]
  show ?thesis
  proof (cases "map_of (us_src_tags s) (ud_src_tag d)")
    case None
    then show ?thesis
      using Some tags make_room_ok [of "us_src_tags s"]
      by (cases sock) (simp_all add: route_to_target_def session_wf_def length_update distinct_update Let_def)
  next
    case (Some entry)
    moreover from this have "ud_src_tag d \<in> fst ` set (us_src_tags s)"
      by (force dest: map_of_SomeD)
    ultimately show ?thesis
      using \<open>bind_for_port (us_binds s) (ud_target_port d) = Some b\<close> tags
      by (simp add: route_to_target_def session_wf_def length_update distinct_update Let_def)
  qed
qed



section \<open>The session count\<close>

text \<open>The sessions attached to a connection, and the invariant that the counters count them.\<close>

definition attached :: "(session_id \<rightharpoonup> UdpSession) \<Rightarrow> nat \<Rightarrow> session_id set" where
  "attached m c = {sid. \<exists>s. m sid = Some s \<and> us_connection_id s = Some c}"

definition registry_inv :: "UdpSessionRegistry \<Rightarrow> bool" where
  "registry_inv rg \<longleftrightarrow>
     (\<forall>sid s. map_of (rg_sessions rg) sid = Some s \<longrightarrow> session_wf s) \<and>
     (\<forall>c. connection_session_count rg c = card (attached (map_of (rg_sessions rg)) c)) \<and>
     (\<forall>c. connection_session_count rg c \<le> MAX_SESSIONS_PER_CONNECTION)"

lemma finite_attached: "finite (attached (map_of xs) c)"
  by (rule finite_subset [OF _ finite_dom_map_of [of xs]]) (auto simp: attached_def)

lemma attached_upd:
  "attached (m(sid \<mapsto> s)) c =
     (if us_connection_id s = Some c then insert sid (attached m c) else attached m c - {sid})"
  by (auto simp: attached_def)

lemma attached_del: "attached (m(sid := None)) c = attached m c - {sid}"
  by (auto simp: attached_def)

lemma mem_attached:
  "m sid = Some s \<Longrightarrow> sid \<in> attached m c \<longleftrightarrow> us_connection_id s = Some c"
  "m sid = None \<Longrightarrow> sid \<notin> attached m c"
  by (auto simp: attached_def)

lemma count_increment:
  "connection_session_count (increment_connection_sessions c rg) d =
     connection_session_count rg d + (if d = c then 1 else 0)"
  by (auto simp: connection_session_count_def increment_connection_sessions_def update_conv'
      split: option.split)

lemma count_decrement:
  "connection_session_count (decrement_connection_sessions c rg) d =
     connection_session_count rg d - (if d = c then 1 else 0)"
  by (auto simp: connection_session_count_def decrement_connection_sessions_def update_conv'
      delete_conv' split: option.split)

lemma counter_fields [simp]:
  "rg_sessions (increment_connection_sessions c rg) = rg_sessions rg"
  "rg_sessions (decrement_connection_sessions c rg) = rg_sessions rg"
  "rg_linger_secs (increment_connection_sessions c rg) = rg_linger_secs rg"
  "rg_linger_secs (decrement_connection_sessions c rg) = rg_linger_secs rg"
  by (simp_all add: increment_connection_sessions_def decrement_connection_sessions_def
      split: option.split)

lemma count_sessions_update [simp]:
  "connection_session_count (rg\<lparr>rg_sessions := ss\<rparr>) c = connection_session_count rg c"
  by (simp add: connection_session_count_def)

text \<open>Replacing one session: the counters follow the connection the session had and has.\<close>

lemma registry_inv_replace:
  assumes "registry_inv rg" and "map_of (rg_sessions rg) sid = Some s" and "session_wf s'"
    and "us_connection_id s' = us_connection_id s"
  shows "registry_inv (rg\<lparr>rg_sessions := AList.update sid s' (rg_sessions rg)\<rparr>)"
proof -
  have "attached (map_of (AList.update sid s' (rg_sessions rg))) c = attached (map_of (rg_sessions rg)) c" for c
    using assms(2,4) mem_attached(1) [of "map_of (rg_sessions rg)", OF assms(2)] by (auto simp: update_conv' attached_upd)
  with assms(1,3) show ?thesis by (auto simp: registry_inv_def update_conv' split: if_splits)
qed

lemma registry_inv_attach:
  assumes inv: "registry_inv rg" and new: "us_connection_id s' = Some c" and wf: "session_wf s'"
    and old: "\<And>s. map_of (rg_sessions rg) sid = Some s \<Longrightarrow> us_connection_id s = None"
    and quota: "connection_session_count rg c < MAX_SESSIONS_PER_CONNECTION"
  shows "registry_inv (increment_connection_sessions c
    (rg\<lparr>rg_sessions := AList.update sid s' (rg_sessions rg)\<rparr>))"
proof -
  let ?m = "map_of (rg_sessions rg)"
  have notin: "sid \<notin> attached ?m d" for d using old by (auto simp: attached_def)
  have "card (attached (?m(sid \<mapsto> s')) d) = card (attached ?m d) + (if d = c then 1 else 0)" for d
    using notin new finite_attached by (auto simp: attached_upd)
  with inv wf quota show ?thesis
    by (auto simp: registry_inv_def count_increment update_conv' split: if_splits)
qed

lemma registry_inv_detach:
  assumes inv: "registry_inv rg" and s: "map_of (rg_sessions rg) sid = Some s"
    and c: "us_connection_id s = Some c" and m: "map_of ss = m'"
    and m': "\<And>d. attached m' d = attached (map_of (rg_sessions rg)) d - {sid}"
    and wf: "\<And>k t. m' k = Some t \<Longrightarrow> session_wf t"
  shows "registry_inv (decrement_connection_sessions c (rg\<lparr>rg_sessions := ss\<rparr>))"
proof -
  let ?m = "map_of (rg_sessions rg)"
  have "card (attached m' d) = card (attached ?m d) - (if d = c then 1 else 0)" for d
    using mem_attached(1) [of "map_of (rg_sessions rg)", OF s] c finite_attached by (auto simp: m')
  with inv wf m show ?thesis
    by (auto simp: registry_inv_def count_decrement intro: le_trans [OF diff_le_self])
qed

lemma remove_session_inv: "registry_inv rg \<Longrightarrow> registry_inv (remove_session sid rg)"
proof (cases "map_of (rg_sessions rg) sid")
  case (Some s)
  assume inv: "registry_inv rg"
  show ?thesis
  proof (cases "us_connection_id s")
    case None
    have "attached ((map_of (rg_sessions rg))(sid := None)) c = attached (map_of (rg_sessions rg)) c" for c
      using mem_attached(1) [of "map_of (rg_sessions rg)", OF Some] None by (auto simp: attached_del)
    with inv Some None show ?thesis
      by (auto simp: remove_session_def registry_inv_def delete_conv' split: if_splits)
  next
    case (Some c)
    with inv \<open>map_of (rg_sessions rg) sid = Some s\<close>
    have "registry_inv (decrement_connection_sessions c
        (rg\<lparr>rg_sessions := AList.delete sid (rg_sessions rg)\<rparr>))"
      by (intro registry_inv_detach [where s = s and sid = sid])
         (auto simp: delete_conv' attached_del registry_inv_def split: if_splits)
    then show ?thesis using Some \<open>map_of (rg_sessions rg) sid = Some s\<close>
      by (simp add: remove_session_def)
  qed
qed (simp add: remove_session_def)



lemma allocate_fresh:
  "allocate_session_id rg draws = Some sid \<Longrightarrow> sid \<noteq> replicate 8 0 \<and> map_of (rg_sessions rg) sid = None"
  by (induction rg draws rule: allocate_session_id.induct) (auto split: if_splits)

lemma new_session_wf: "session_wf (new_session sid owner binds c)"
  by (simp add: session_wf_def new_session_def)

lemma create_session_inv:
  assumes inv: "registry_inv rg" and step: "create_session rg draws binds c owner = Some (res, rg')"
  shows "registry_inv rg'"
proof (cases "connection_session_count rg c < MAX_SESSIONS_PER_CONNECTION")
  case True
  then obtain sid where sid: "allocate_session_id rg draws = Some sid"
      "rg' = increment_connection_sessions c
        (rg\<lparr>rg_sessions := AList.update sid (new_session sid owner binds c) (rg_sessions rg)\<rparr>)"
    using step by (auto simp: create_session_def ensure_connection_quota_def)
  show ?thesis unfolding sid(2)
    by (rule registry_inv_attach [OF inv _ new_session_wf _ True])
       (use allocate_fresh [OF sid(1)] in \<open>auto simp: new_session_def\<close>)
qed (use step inv in \<open>auto simp: create_session_def ensure_connection_quota_def\<close>)

lemma attach_wf:
  assumes "session_wf s" and "attach s binds c owner = (Inr (Attached counts), s')"
  shows "session_wf s' \<and> us_connection_id s' = Some c \<and>
    us_connection_id s = (if counts then None else Some c)"
  using assms by (auto simp: attach_def session_wf_def split: option.splits if_splits)

text \<open>
  An attach that fails its quota check has already changed the session; every other outcome of
  \<open>attach_or_create\<close> keeps the invariant.
\<close>

lemma attach_or_create_cases:
  assumes "attach_or_create X lookup clock draws rg requested binds c tok hex = Some (res, rg')"
  obtains (failed) e where "res = Inl e" "rg' = rg"
  | (created) rg0 resolved owner where "rg0 = rg \<or> rg0 = remove_session requested rg"
      "create_session rg0 draws resolved c owner = Some (res, rg')"
      "resolve_binds lookup binds = Inr resolved"
  | (attached) s s' resolved counts where "map_of (rg_sessions rg) requested = Some s"
      "attach s resolved c (owner_fingerprint X tok hex) = (Inr (Attached counts), s')"
      "res = Inr requested" "counts \<Longrightarrow> connection_session_count rg c < MAX_SESSIONS_PER_CONNECTION"
      "rg' = (if counts then increment_connection_sessions c else (\<lambda>r. r))
         (rg\<lparr>rg_sessions := AList.update requested s' (rg_sessions rg)\<rparr>)"
      "resolve_binds lookup binds = Inr resolved"
  | (over_quota) s s' resolved where "map_of (rg_sessions rg) requested = Some s"
      "attach s resolved c (owner_fingerprint X tok hex) = (Inr (Attached True), s')"
      "res = Inl ''session quota exceeded''"
      "MAX_SESSIONS_PER_CONNECTION \<le> connection_session_count rg c"
      "rg' = rg\<lparr>rg_sessions := AList.update requested s' (rg_sessions rg)\<rparr>"
proof (cases "resolve_binds lookup binds")
  case (Inl e)
  with assms show ?thesis by (auto simp: attach_or_create_def intro: failed)
next
  case (Inr resolved)
  note r = this
  show ?thesis
  proof (cases "clock = None \<or> requested = replicate 8 0 \<or> map_of (rg_sessions rg) requested = None")
    case True
    with assms r show ?thesis
      by (cases clock) (auto simp: attach_or_create_def Let_def intro: failed created split: if_splits)
  next
    case False
    then obtain now s where s: "clock = Some now" "requested \<noteq> replicate 8 0"
        "map_of (rg_sessions rg) requested = Some s" by auto
    show ?thesis
    proof (cases "is_expired s now")
      case True
      with assms r s show ?thesis by (auto simp: attach_or_create_def Let_def intro: created)
    next
      case False
      obtain a s' where a: "attach s resolved c (owner_fingerprint X tok hex) = (a, s')" by fastforce
      from assms r s False a show ?thesis
        by (cases a; cases "projr a")
           (auto simp: attach_or_create_def Let_def ensure_connection_quota_def not_le
             intro: failed created attached over_quota split: if_splits)
    qed
  qed
qed

lemma attach_or_create_inv:
  assumes inv: "registry_inv rg"
    and step: "attach_or_create X lookup clock draws rg requested binds c tok hex = Some (res, rg')"
    and ok: "res = Inl ''session quota exceeded'' \<Longrightarrow> rg' = rg"
  shows "registry_inv rg'"
  using step
proof (cases rule: attach_or_create_cases)
  case (created rg0 resolved owner)
  then have "registry_inv rg0" using inv remove_session_inv by auto
  then show ?thesis using created(2) by (rule create_session_inv)
next
  case (attached s s' resolved counts)
  have "session_wf s" using inv attached(1) by (auto simp: registry_inv_def)
  note wf = attach_wf [OF this attached(2)]
  show ?thesis
  proof (cases counts)
    case True
    have "registry_inv (increment_connection_sessions c
        (rg\<lparr>rg_sessions := AList.update requested s' (rg_sessions rg)\<rparr>))"
      by (rule registry_inv_attach [OF inv]) (use wf True attached(1,4) in auto)
    then show ?thesis using attached(5) True by simp
  next
    case False
    have "registry_inv (rg\<lparr>rg_sessions := AList.update requested s' (rg_sessions rg)\<rparr>)"
      by (rule registry_inv_replace [OF inv attached(1)]) (use wf False in auto)
    then show ?thesis using attached(5) False by simp
  qed
qed (use inv ok in auto)



lemma get_live_inv: "registry_inv rg \<Longrightarrow> registry_inv (snd (get_live now rg sid))"
  by (auto simp: get_live_def remove_session_inv split: option.split)

lemma get_live_Some:
  "get_live now rg sid = (Some s, rg') \<Longrightarrow>
   rg' = rg \<and> map_of (rg_sessions rg) sid = Some s \<and> \<not> is_expired s now"
  by (auto simp: get_live_def split: option.splits if_splits)

lemma mark_linger_inv:
  assumes "registry_inv rg"
  shows "registry_inv (mark_linger_if_current now rg sid c)"
proof (cases "get_live now rg sid")
  case (Pair found rg')
  show ?thesis
  proof (cases found)
    case None
    then show ?thesis using Pair get_live_inv [OF assms, of now sid]
      by (simp add: mark_linger_if_current_def)
  next
    case (Some s)
    with Pair have s: "rg' = rg" "map_of (rg_sessions rg) sid = Some s"
      using get_live_Some by blast+
    have wf: "session_wf s" using assms s(2) by (auto simp: registry_inv_def)
    obtain b s' where m: "session_mark_linger s c (now + rg_linger_secs rg) = (b, s')" by fastforce
    have eq: "mark_linger_if_current now rg sid c =
      (if b then decrement_connection_sessions c else (\<lambda>r. r))
        (rg\<lparr>rg_sessions := AList.update sid s' (rg_sessions rg)\<rparr>)"
      using Pair Some s m by (simp add: mark_linger_if_current_def)
    show ?thesis
    proof (cases b)
      case True
      with m have c: "us_connection_id s = Some c" "us_connection_id s' = None"
          "session_wf s'" using wf
        by (auto simp: session_mark_linger_def session_wf_def split: if_splits)
      have "registry_inv (decrement_connection_sessions c
          (rg\<lparr>rg_sessions := AList.update sid s' (rg_sessions rg)\<rparr>))"
        by (rule registry_inv_detach [OF assms s(2) c(1) refl])
           (use c assms in \<open>auto simp: update_conv' attached_upd registry_inv_def split: if_splits\<close>)
      then show ?thesis using eq True by simp
    next
      case False
      with m wf have "session_wf s'" "us_connection_id s' = us_connection_id s"
        by (auto simp: session_mark_linger_def session_wf_def split: if_splits)
      then show ?thesis using eq False registry_inv_replace [OF assms s(2)] by simp
    qed
  qed
qed

lemma pump_inv:
  assumes "registry_inv rg"
  shows "registry_inv (snd (pump_datagram dec now sock tick rg bs))"
proof (cases "dec bs")
  case (Some d)
  obtain found rg' where live: "get_live now rg (ud_session_id d) = (found, rg')" by fastforce
  show ?thesis
  proof (cases found)
    case None
    then show ?thesis using Some live get_live_inv [OF assms, of now "ud_session_id d"]
      by (simp add: pump_datagram_def)
  next
    case (Some s)
    with live have s: "rg' = rg" "map_of (rg_sessions rg) (ud_session_id d) = Some s"
      using get_live_Some by blast+
    have wf: "session_wf s" using assms s(2) by (auto simp: registry_inv_def)
    obtain res s' where r: "route_to_target s d sock tick = (res, s')" by fastforce
    have "us_connection_id s' = us_connection_id s"
      using r by (auto simp: route_to_target_def Let_def split: option.splits)
    with registry_inv_replace [OF assms s(2)] route_wf [OF wf, of d sock tick] r
    have "registry_inv (rg\<lparr>rg_sessions := AList.update (ud_session_id d) s' (rg_sessions rg)\<rparr>)" by simp
    with \<open>dec bs = Some d\<close> Some live s r assms show ?thesis
      by (auto simp: pump_datagram_def Let_def split: sum.split)
  qed
qed (simp add: pump_datagram_def assms)

lemma gc_expired_inv: "registry_inv rg \<Longrightarrow> registry_inv (gc_expired now rg)"
proof -
  assume inv: "registry_inv rg"
  have "registry_inv (fold (\<lambda>(sid, s) rg. if is_expired s now then remove_session sid rg else rg) xs r)"
    if "registry_inv r" for xs r
    using that by (induction xs arbitrary: r) (auto simp: remove_session_inv)
  then show ?thesis using inv by (simp add: gc_expired_def)
qed

lemma remove_sessions_map:
  "map_of (rg_sessions (remove_session sid rg)) = (map_of (rg_sessions rg))(sid := None)"
  by (auto simp: remove_session_def delete_conv' Let_def fun_eq_iff split: option.split)

lemma shutdown_empty: "map_of (rg_sessions (registry_shutdown rg)) = Map.empty"
proof -
  have "map_of (rg_sessions (fold (\<lambda>(sid, _). remove_session sid) xs r)) k =
      (if k \<in> fst ` set xs then None else map_of (rg_sessions r) k)"
    for xs :: "(session_id \<times> UdpSession) list" and r k
    by (induction xs arbitrary: r) (auto simp: remove_sessions_map)
  then show ?thesis
    by (auto simp: registry_shutdown_def fun_eq_iff map_of_eq_None_iff)
qed

lemma shutdown_inv: "registry_inv (registry_shutdown rg)"
proof -
  have "rg_connection_sessions (registry_shutdown rg) = []" by (simp add: registry_shutdown_def)
  then show ?thesis
    by (simp add: registry_inv_def shutdown_empty connection_session_count_def attached_def)
qed

text \<open>
  The states of the registry in a running agent, for runs in which no re-attach fails its
  quota check.
\<close>

inductive udp_reach :: "UdpSessionRegistry \<Rightarrow> bool" where
  new: "udp_reach (new_registry linger)"
| attach: "udp_reach rg \<Longrightarrow>
    attach_or_create X lookup clock draws rg requested binds c tok hex = Some (res, rg') \<Longrightarrow>
    (res = Inl ''session quota exceeded'' \<Longrightarrow> rg' = rg) \<Longrightarrow> udp_reach rg'"
| linger: "udp_reach rg \<Longrightarrow> udp_reach (mark_linger_if_current now rg sid c)"
| pump: "udp_reach rg \<Longrightarrow> udp_reach (snd (pump_datagram dec now sock tick rg bs))"
| reply: "udp_reach rg \<Longrightarrow> map_of (rg_sessions rg) sid = Some s \<Longrightarrow>
    udp_reach (rg\<lparr>rg_sessions := AList.update sid (snd (send_reply enc s tag port payload tick))
      (rg_sessions rg)\<rparr>)"
| gc: "udp_reach rg \<Longrightarrow> udp_reach (gc_expired now rg)"
| shutdown: "udp_reach rg \<Longrightarrow> udp_reach (registry_shutdown rg)"

lemma udp_reach_inv: "udp_reach rg \<Longrightarrow> registry_inv rg"
proof (induction rule: udp_reach.induct)
  case (new linger)
  then show ?case
    by (simp add: registry_inv_def new_registry_def connection_session_count_def attached_def)
next
  case (attach rg X lookup clock draws requested binds c tok hex res rg')
  then show ?case by (blast intro: attach_or_create_inv)
next
  case (reply rg sid s enc tag port payload tick)
  then have "session_wf s" by (auto simp: registry_inv_def)
  then have "session_wf (snd (send_reply enc s tag port payload tick)) \<and>
      us_connection_id (snd (send_reply enc s tag port payload tick)) = us_connection_id s"
    by (auto simp: send_reply_def session_wf_def Let_def length_update distinct_update image_iff
        dest: map_of_SomeD split: option.splits sum.splits)
  then show ?case using reply registry_inv_replace by blast
qed (simp_all add: mark_linger_inv pump_inv gc_expired_inv shutdown_inv)



section \<open>Properties\<close>


text \<open>
  The quota can be bypassed.  When a connection at its quota re-attaches a lingering
  session of the same owner, the call reports that the quota is exceeded, but the session is
  attached and not counted; repeating the same call then succeeds.
\<close>

lemma udp_quota_bypass:
  assumes "map_of (rg_sessions rg) sid = Some s" and "sid \<noteq> replicate 8 0"
    and "us_owner_fingerprint s = owner_fingerprint X tok hex" and "us_connection_id s = None"
    and "\<not> is_expired s now" and "resolve_binds lookup binds = Inr resolved"
    and "16 \<le> connection_session_count rg c"
  shows "\<exists>rg1 rg2.
    attach_or_create X lookup (Some now) draws rg sid binds c tok hex =
      Some (Inl ''session quota exceeded'', rg1) \<and>
    sid \<in> attached (map_of (rg_sessions rg1)) c \<and>
    connection_session_count rg1 c = connection_session_count rg c \<and>
    attach_or_create X lookup (Some now) draws rg1 sid binds c tok hex = Some (Inr sid, rg2)"
proof -
  let ?s' = "s\<lparr>us_binds := resolved, us_connection := Some c, us_connection_id := Some c,
    us_linger_until := None, us_active_controls := 1\<rparr>"
  let ?rg1 = "rg\<lparr>rg_sessions := AList.update sid ?s' (rg_sessions rg)\<rparr>"
  have "attach_or_create X lookup (Some now) draws rg sid binds c tok hex =
      Some (Inl ''session quota exceeded'', ?rg1)"
    using assms by (simp add: attach_or_create_def attach_def ensure_connection_quota_def Let_def
        MAX_SESSIONS_PER_CONNECTION_def)
  moreover have "sid \<in> attached (map_of (rg_sessions ?rg1)) c"
    by (simp add: attached_def update_conv')
  moreover have "\<exists>rg2. attach_or_create X lookup (Some now) draws ?rg1 sid binds c tok hex = Some (Inr sid, rg2)"
    using assms by (simp add: attach_or_create_def attach_def is_expired_def update_conv' Let_def)
  ultimately show ?thesis by (metis count_sessions_update)
qed

definition demo_bind :: UdpBind where
  "demo_bind = \<lparr>ub_local_port_range = (6000, 6000), ub_target_host = ''h'', ub_target_port_range = (53, 53)\<rparr>"

definition demo_lookup :: "string \<Rightarrow> u16 \<Rightarrow> ip list option" where
  "demo_lookup host port = Some [[10, 0, 0, 1]]"

definition demo_lingering :: UdpSession where
  "demo_lingering = \<lparr>us_session_id = [1], us_owner_fingerprint = [], us_cancelled = False, us_binds = [],
     us_connection = None, us_connection_id = None, us_active_controls = 0,
     us_linger_until = Some 100, us_src_tags = []\<rparr>"

definition demo_udp_externs :: externs where
  "demo_udp_externs = \<lparr>ex_body_bytes = (\<lambda>_. None), ex_ticket_bytes = (\<lambda>_. None), ex_ticket_from = (\<lambda>_. None),
     ex_sha256 = (\<lambda>_. []), ex_verifying_key = (\<lambda>k. k), ex_sign = (\<lambda>_ m. m), ex_key_valid = (\<lambda>_. True),
     ex_verify_strict = (\<lambda>_ _ _. True)\<rparr>"

definition demo_registry :: UdpSessionRegistry where
  "demo_registry = \<lparr>rg_linger_secs = 60, rg_sessions = [(replicate 8 1, demo_lingering)],
     rg_connection_sessions = [(7, 16)]\<rparr>"

text \<open>
  A registry with one session, created on connection 7.
\<close>

definition demo_one :: UdpSessionRegistry where
  "demo_one = \<lparr>rg_linger_secs = 60,
     rg_sessions = [(replicate 8 2, new_session (replicate 8 2) [] [\<lparr>rb_bind = demo_bind,
       rb_target_ip = [10, 0, 0, 1]\<rparr>] 7)], rg_connection_sessions = [(7, 1)]\<rparr>"

lemma demo_created:
  "attach_or_create demo_udp_externs demo_lookup (Some 50) [replicate 8 0, replicate 8 2]
     (new_registry 60) (replicate 8 0) [demo_bind] 7 [9] ''ab'' = Some (Inr (replicate 8 2), demo_one)"
  by (simp add: attach_or_create_def create_session_def resolve_binds_def resolve_bind_def
      demo_lookup_def new_registry_def ensure_connection_quota_def connection_session_count_def
      MAX_SESSIONS_PER_CONNECTION_def increment_connection_sessions_def demo_one_def
      owner_fingerprint_def demo_udp_externs_def Let_def)


text \<open>
  Only the owner re-attaches.  A request for a live session that was created under another
  session token or ticket is refused and changes nothing.
\<close>

lemma udp_owner_checked:
  assumes "map_of (rg_sessions rg) sid = Some s" and "sid \<noteq> replicate 8 0" and "\<not> is_expired s now"
    and "us_owner_fingerprint s \<noteq> owner_fingerprint X tok hex"
    and "resolve_binds lookup binds = Inr resolved"
  shows "attach_or_create X lookup (Some now) draws rg sid binds c tok hex =
    Some (Inl ''udp session owner mismatch'', rg)"
  using assms by (simp add: attach_or_create_def attach_def Let_def)

lemma attach_or_create_binds:
  assumes "attach_or_create X lookup clock draws rg requested binds c tok hex = Some (Inr sid, rg')"
  shows "\<exists>s resolved. map_of (rg_sessions rg') sid = Some s \<and> us_binds s = resolved \<and>
    resolve_binds lookup binds = Inr resolved"
  using assms
proof (cases rule: attach_or_create_cases)
  case (created rg0 resolved owner)
  then show ?thesis
    by (auto simp: create_session_def ensure_connection_quota_def update_conv' new_session_def
        split: if_splits)
next
  case (attached s s' resolved counts)
  then show ?thesis
    by (auto simp: update_conv' attach_def Let_def split: option.splits if_splits)
qed auto

lemma bind_for_port_Some:
  "bind_for_port binds port = Some b \<Longrightarrow> b \<in> set binds \<and>
     fst (ub_target_port_range (rb_bind b)) \<le> port \<and> port \<le> snd (ub_target_port_range (rb_bind b))"
  by (auto simp: bind_for_port_def find_Some_iff)

lemma serve_udp_control_ok:
  assumes "serve_udp_control X hex lookup clock draws rg session c req = Some (Inr resp, rg1)" and "cr_ok resp"
  shows "(\<forall>b\<in>set (uc_binds req). udp_permits (ss_caps session) b = Inr ()) \<and>
    attach_or_create X lookup clock draws rg (uc_session_id req) (uc_binds req) c
      (ss_peer_token session) (hex (ss_ticket_id session)) = Some (Inr (cr_session_id resp), rg1)"
proof (cases "attach_or_create X lookup clock draws rg (uc_session_id req) (uc_binds req) c
      (ss_peer_token session) (hex (ss_ticket_id session))")
  case None
  with assms show ?thesis
    by (auto simp: serve_udp_control_def udp_reject_def split: if_split_asm sum.split_asm)
next
  case (Some r)
  obtain a b where "r = (a, b)" by fastforce
  with assms Some show ?thesis
    by (cases a) (auto simp: serve_udp_control_def udp_reject_def for_each_ok_iff
        split: if_split_asm sum.split_asm)
qed


definition demo_udp_caps :: Capabilities where
  "demo_udp_caps = \<lparr>cp_presence = 4, cp_shell = None, cp_tcp = None,
     cp_udp = Some [\<lparr>pr_host_glob = ''*'', pr_port_min = 1, pr_port_max = 1024\<rparr>],
     cp_fs = None, cp_vpn = None, cp_meta = None, cp_unix = None\<rparr>"

definition demo_udp_session :: Session where
  "demo_udp_session = \<lparr>ss_peer_token = [9], ss_caps = demo_udp_caps, ss_ticket_id = [], ss_ticket_chain_ids = [],
     ss_caller_endpoint_id = [], ss_ticket_issuer_id = [], ss_ticket_holder_id = None, ss_bearer = None\<rparr>"

definition demo_udp_req :: UdpCtlReq where
  "demo_udp_req = \<lparr>uc_preamble = \<lparr>sp_peer_token = [9], sp_alpn = ALPN_UDP_V1\<rparr>,
     uc_session_id = replicate 8 0, uc_binds = [demo_bind]\<rparr>"

definition demo_datagram :: UdpDatagram where
  "demo_datagram = \<lparr>ud_session_id = replicate 8 2, ud_target_port = 53, ud_src_tag = 1, ud_payload = [42]\<rparr>"


end
