(* ===== verification/Query_Stripper.thy ===== *)
theory Query_Stripper
  imports Prelude
begin

text \<open>
  Terminal output on its way to an attached viewer (query_stripper.rs).  The stripper removes the
  queries a program sends to its terminal, one byte at a time and across chunk boundaries.  The
  buffer of the code, an array with a length, is the list of its used bytes.
\<close>

definition ESC :: byte where
  "ESC = 27"

datatype StripMode = Ground | EscapeIntermediate | CsiParam | OscString | DcsString

record QueryStripper =
  qs_mode :: StripMode
  qs_pending :: bytes
  qs_string_escape :: bool

definition MAX_BUFFERED :: nat where
  "MAX_BUFFERED = 32"

definition new_stripper :: QueryStripper where
  "new_stripper = \<lparr>qs_mode = Ground, qs_pending = [], qs_string_escape = False\<rparr>"

definition is_csi_final :: "byte \<Rightarrow> bool" where
  "is_csi_final b \<longleftrightarrow> 64 \<le> b \<and> b \<le> 126"

definition is_ascii_digit :: "byte \<Rightarrow> bool" where
  "is_ascii_digit b \<longleftrightarrow> 48 \<le> b \<and> b \<le> 57"

definition is_kitty_numeric_query :: "bytes \<Rightarrow> byte \<Rightarrow> bool" where
  "is_kitty_numeric_query bs marker =
     (case Option.bind (strip_prefix [ESC, 91, marker] bs) (strip_suffix [117]) of
        None \<Rightarrow> False
      | Some body \<Rightarrow> body \<noteq> [] \<and> list_all (\<lambda>b. is_ascii_digit b \<or> b = 59) body)"

definition is_query :: "bytes \<Rightarrow> bool" where
  "is_query bs \<longleftrightarrow> bs \<in> {[ESC, 91, 99], [ESC, 91, 62, 99], [ESC, 91, 54, 110], [ESC, 91, 63, 117], [ESC, 91, 60, 117]} \<or>
     is_kitty_numeric_query bs 62 \<or> is_kitty_numeric_query bs 61"


section \<open>The machine\<close>

definition start_pending_escape :: "QueryStripper \<Rightarrow> QueryStripper" where
  "start_pending_escape s = s\<lparr>qs_pending := [ESC], qs_mode := EscapeIntermediate\<rparr>"

definition flush_pending :: "QueryStripper \<Rightarrow> QueryStripper \<times> bytes" where
  "flush_pending s = (s\<lparr>qs_pending := []\<rparr>, qs_pending s)"

definition push_pending :: "byte \<Rightarrow> QueryStripper \<Rightarrow> QueryStripper \<times> bytes" where
  "push_pending b s =
     (let (s1, o1) = (if length (qs_pending s) = MAX_BUFFERED then flush_pending s else (s, []))
      in (s1\<lparr>qs_pending := qs_pending s1 @ [b]\<rparr>, o1))"

definition feed_escape_intermediate :: "QueryStripper \<Rightarrow> byte \<Rightarrow> QueryStripper \<times> bytes" where
  "feed_escape_intermediate s b =
     (if b = 91 then
        (let (s1, o1) = push_pending b s in (s1\<lparr>qs_mode := CsiParam\<rparr>, o1))
      else if b = 93 then
        (let (s1, o1) = push_pending b s; (s2, o2) = flush_pending s1
         in (s2\<lparr>qs_mode := OscString, qs_string_escape := False\<rparr>, o1 @ o2))
      else if b = 80 then
        (let (s1, o1) = push_pending b s; (s2, o2) = flush_pending s1
         in (s2\<lparr>qs_mode := DcsString, qs_string_escape := False\<rparr>, o1 @ o2))
      else if b = ESC then
        (let (s1, o1) = flush_pending s in (start_pending_escape s1, o1))
      else
        (let (s1, o1) = push_pending b s; (s2, o2) = flush_pending s1
         in (s2\<lparr>qs_mode := Ground\<rparr>, o1 @ o2)))"

definition feed_csi_param :: "QueryStripper \<Rightarrow> byte \<Rightarrow> QueryStripper \<times> bytes" where
  "feed_csi_param s b =
     (if b = ESC then
        (let (s1, o1) = flush_pending s in (start_pending_escape s1, o1))
      else if length (qs_pending s) = MAX_BUFFERED then
        (let (s1, o1) = flush_pending s in (s1\<lparr>qs_mode := Ground\<rparr>, o1 @ [b]))
      else
        (let (s1, o1) = push_pending b s
         in if is_csi_final b then
              (if is_query (qs_pending s1) then (s1\<lparr>qs_pending := [], qs_mode := Ground\<rparr>, o1)
               else (let (s2, o2) = flush_pending s1 in (s2\<lparr>qs_mode := Ground\<rparr>, o1 @ o2)))
            else (s1, o1)))"

definition feed_string :: "bool \<Rightarrow> QueryStripper \<Rightarrow> byte \<Rightarrow> QueryStripper \<times> bytes" where
  "feed_string osc s b =
     (if osc \<and> b = 7 then (s\<lparr>qs_mode := Ground, qs_string_escape := False\<rparr>, [b])
      else if qs_string_escape s \<and> b = 92 then (s\<lparr>qs_mode := Ground, qs_string_escape := False\<rparr>, [b])
      else (s\<lparr>qs_string_escape := (b = ESC)\<rparr>, [b]))"

definition feed_byte :: "QueryStripper \<Rightarrow> byte \<Rightarrow> QueryStripper \<times> bytes" where
  "feed_byte s b =
     (case qs_mode s of
        Ground \<Rightarrow> if b = ESC then (start_pending_escape s, []) else (s, [b])
      | EscapeIntermediate \<Rightarrow> feed_escape_intermediate s b
      | CsiParam \<Rightarrow> feed_csi_param s b
      | OscString \<Rightarrow> feed_string True s b
      | DcsString \<Rightarrow> feed_string False s b)"

fun strip_feed :: "QueryStripper \<Rightarrow> bytes \<Rightarrow> QueryStripper \<times> bytes" where
  "strip_feed s [] = (s, [])"
| "strip_feed s (b # bs) =
     (let (s1, o1) = feed_byte s b; (s2, o2) = strip_feed s1 bs in (s2, o1 @ o2))"

definition strip_finish :: "QueryStripper \<Rightarrow> QueryStripper \<times> bytes" where
  "strip_finish s = (s\<lparr>qs_pending := [], qs_mode := Ground, qs_string_escape := False\<rparr>, [])"

lemmas strip_defs = feed_byte_def feed_escape_intermediate_def feed_csi_param_def feed_string_def
  start_pending_escape_def push_pending_def flush_pending_def Let_def


section \<open>Invariant\<close>

text \<open>
  What the buffer holds in each mode: nothing, the escape byte alone, or the start of a control
  sequence with no final byte.
\<close>

definition csi_param :: "byte \<Rightarrow> bool" where
  "csi_param b \<longleftrightarrow> b \<noteq> ESC \<and> \<not> is_csi_final b"

definition strip_inv :: "QueryStripper \<Rightarrow> bool" where
  "strip_inv s \<longleftrightarrow> length (qs_pending s) \<le> MAX_BUFFERED \<and>
     (case qs_mode s of
        EscapeIntermediate \<Rightarrow> qs_pending s = [ESC]
      | CsiParam \<Rightarrow> \<exists>ps. qs_pending s = ESC # 91 # ps \<and> list_all csi_param ps
      | _ \<Rightarrow> qs_pending s = [])"

lemma new_stripper_inv: "strip_inv new_stripper"
  by (simp add: strip_inv_def new_stripper_def)

lemma feed_byte_inv: "strip_inv s \<Longrightarrow> strip_inv (fst (feed_byte s b))"
  by (cases "qs_mode s") (auto simp: strip_inv_def strip_defs csi_param_def MAX_BUFFERED_def)


section \<open>What is removed\<close>

lemma feed_byte_redacts:
  assumes "strip_inv s"
  shows "\<exists>seen. qs_pending s @ [b] = seen @ qs_pending (fst (feed_byte s b)) \<and>
    redacts is_query seen (snd (feed_byte s b))"
proof (cases "qs_mode s = CsiParam \<and> is_query (qs_pending s @ [b]) \<and> is_csi_final b \<and> b \<noteq> ESC \<and>
    length (qs_pending s) \<noteq> MAX_BUFFERED")
  case True
  then show ?thesis
    by (intro exI [of _ "qs_pending s @ [b]"]) (auto simp: strip_defs intro: redacts_segment)
next
  case False
  have "qs_pending s @ [b] = snd (feed_byte s b) @ qs_pending (fst (feed_byte s b))"
    using assms False
    by (cases "qs_mode s") (auto simp: strip_inv_def strip_defs MAX_BUFFERED_def)
  then show ?thesis by blast
qed

interpretation stripper: redacting_machine feed_byte strip_feed strip_inv qs_pending is_query
  by unfold_locales (simp_all add: feed_byte_inv feed_byte_redacts)

text \<open>
  However the output of a program is cut into chunks, what the stripper has emitted is a
  prefix of that output with some queries, and nothing else, left out; the rest is held back, at
  most 32 bytes of it.
\<close>

lemma strip_only_queries:
  "\<exists>seen. concat chunks = seen @ qs_pending (fst (feed_all strip_feed new_stripper chunks)) \<and>
     redacts is_query seen (snd (feed_all strip_feed new_stripper chunks)) \<and>
     length (qs_pending (fst (feed_all strip_feed new_stripper chunks))) \<le> MAX_BUFFERED"
proof -
  have "strip_inv (fst (strip_feed new_stripper (concat chunks)))"
    using new_stripper_inv by (rule stripper.feed_inv)
  then show ?thesis
    using stripper.feed_redacts [OF new_stripper_inv, of "concat chunks"]
    by (simp add: stripper.feed_chunks strip_inv_def new_stripper_def)
qed


section \<open>What is kept\<close>

text \<open>
  The complete units of terminal output: a plain byte, a two-byte escape, a control sequence with
  its final byte, and a string (operating system command or device control string) with its
  terminator.
\<close>

datatype segment = Plain byte | Esc byte | Csi bytes byte | Str bool bytes byte

fun render :: "segment \<Rightarrow> bytes" where
  "render (Plain b) = [b]"
| "render (Esc b) = [ESC, b]"
| "render (Csi ps f) = ESC # 91 # ps @ [f]"
| "render (Str osc body t) = ESC # (if osc then 93 else 80) # body @ [t]"

fun unterminated :: "bool \<Rightarrow> bool \<Rightarrow> bytes \<Rightarrow> bool" where
  "unterminated osc e [] = True"
| "unterminated osc e (b # bs) = (\<not> (osc \<and> b = 7) \<and> \<not> (e \<and> b = 92) \<and> unterminated osc (b = ESC) bs)"

fun segment_wf :: "segment \<Rightarrow> bool" where
  "segment_wf (Plain b) = (b \<noteq> ESC)"
| "segment_wf (Esc b) = (b \<notin> {ESC, 91, 93, 80})"
| "segment_wf (Csi ps f) = (list_all csi_param ps \<and> is_csi_final f)"
| "segment_wf (Str osc body t) =
     (unterminated osc False body \<and> (osc \<and> t = 7 \<or> body \<noteq> [] \<and> last body = ESC \<and> t = 92))"

definition stripped :: "segment \<Rightarrow> bool" where
  "stripped g \<longleftrightarrow> is_query (render g) \<and> length (render g) \<le> MAX_BUFFERED"


lemma is_query_shape: "is_query bs \<Longrightarrow> \<exists>rest. bs = ESC # 91 # rest"
  by (auto simp: is_query_def is_kitty_numeric_query_def bind_eq_Some_conv strip_prefix_Some_iff
      split: option.splits)

lemma is_csi_final_not_ESC: "is_csi_final b \<Longrightarrow> b \<noteq> ESC"
  by (auto simp: is_csi_final_def ESC_def)

lemma feed_plain: "qs_mode s = Ground \<Longrightarrow> ESC \<notin> set bs \<Longrightarrow> strip_feed s bs = (s, bs)"
  by (induction bs) (auto simp: feed_byte_def)

lemma csi_params_no_ESC: "list_all csi_param ps \<Longrightarrow> ESC \<notin> set ps"
  by (auto simp: list_all_iff csi_param_def)

lemma feed_csi:
  assumes "list_all csi_param ps" and "is_csi_final f" and "length pend \<le> MAX_BUFFERED"
  shows "strip_feed \<lparr>qs_mode = CsiParam, qs_pending = pend, qs_string_escape = e\<rparr> (ps @ [f]) =
    (\<lparr>qs_mode = Ground, qs_pending = [], qs_string_escape = e\<rparr>,
     if is_query (pend @ ps @ [f]) \<and> length (pend @ ps @ [f]) \<le> MAX_BUFFERED then [] else pend @ ps @ [f])"
  using assms
proof (induction ps arbitrary: pend)
  case Nil
  then show ?case using is_csi_final_not_ESC [of f] by (auto simp: strip_defs)
next
  case (Cons p ps)
  show ?case
  proof (cases "length pend = MAX_BUFFERED")
    case True
    have "ESC \<notin> set (ps @ [f])"
      using Cons.prems is_csi_final_not_ESC [of f] csi_params_no_ESC [of ps] by auto
    with Cons.prems True show ?thesis by (auto simp: strip_defs csi_param_def feed_plain)
  next
    case False
    with Cons.prems have "length (pend @ [p]) \<le> MAX_BUFFERED" by simp
    with Cons.IH [OF _ Cons.prems(2) this] Cons.prems False show ?thesis
      by (auto simp: strip_defs csi_param_def)
  qed
qed

lemma feed_str:
  assumes "unterminated osc e body" and "osc \<and> t = 7 \<or> (if body = [] then e else last body = ESC) \<and> t = 92"
  shows "strip_feed \<lparr>qs_mode = (if osc then OscString else DcsString), qs_pending = [], qs_string_escape = e\<rparr>
      (body @ [t]) = (new_stripper, body @ [t])"
  using assms
proof (induction body arbitrary: e)
  case Nil
  then show ?case by (auto simp: strip_defs new_stripper_def)
next
  case (Cons b body)
  have "strip_feed \<lparr>qs_mode = (if osc then OscString else DcsString), qs_pending = [],
      qs_string_escape = (b = ESC)\<rparr> (body @ [t]) = (new_stripper, body @ [t])"
    using Cons.prems by (intro Cons.IH) (auto split: if_splits)
  with Cons.prems show ?case by (cases osc) (auto simp: strip_defs)
qed

lemma feed_segment:
  assumes "segment_wf g"
  shows "strip_feed new_stripper (render g) = (new_stripper, if stripped g then [] else render g)"
proof (cases g)
  case (Csi ps f)
  with assms feed_csi [of ps f "[ESC, 91]" False] show ?thesis
    by (auto simp: strip_defs stripped_def new_stripper_def MAX_BUFFERED_def)
next
  case (Str osc body t)
  with assms feed_str [of osc False body t] have "\<not> is_query (render g)"
    using is_query_shape [of "render g"] by (auto split: if_splits)
  moreover have "strip_feed new_stripper (render g) = (new_stripper, render g)"
    using assms Str feed_str [of osc False body t]
    by (cases osc) (auto simp: strip_defs new_stripper_def MAX_BUFFERED_def ESC_def)
  ultimately show ?thesis by (simp add: stripped_def)
qed (use assms in \<open>auto simp: strip_defs new_stripper_def stripped_def MAX_BUFFERED_def ESC_def
      dest: is_query_shape\<close>)

text \<open>
  C18.  On complete terminal output the stripper is exact: it returns to its initial state, drops
  the queries of at most 32 bytes and passes every other unit on unchanged, strings with query
  bytes inside them and longer sequences included.
\<close>

theorem strip_exact:
  assumes "list_all segment_wf gs"
  shows "strip_feed new_stripper (concat (map render gs)) =
    (new_stripper, concat (map render (filter (\<lambda>g. \<not> stripped g) gs)))"
  using assms by (induction gs) (auto simp: stripper.feed_append feed_segment)

theorem strip_exact_witness:
  "strip_feed new_stripper (render (Plain 104) @ render (Csi [62, 49] 117) @ render (Str True [27, 91, 99] 7)
     @ render (Csi [51, 49] 109)) =
   (new_stripper, render (Plain 104) @ render (Str True [27, 91, 99] 7) @ render (Csi [51, 49] 109))"
proof -
  have "list_all segment_wf [Plain 104, Csi [62, 49] 117, Str True [27, 91, 99] 7, Csi [51, 49] 109]"
      "map stripped [Plain 104, Csi [62, 49] 117, Str True [27, 91, 99] 7, Csi [51, 49] 109] =
       [False, True, False, False]"
    by code_simp+
  with strip_exact [of "[Plain 104, Csi [62, 49] 117, Str True [27, 91, 99] 7, Csi [51, 49] 109]"]
  show ?thesis by simp
qed

text \<open>
  Removing a query can leave one behind.  A query in the middle of another control sequence
  is removed, and the bytes around it, passed on, are a query themselves.
\<close>

lemma strip_leaves_query:
  "snd (strip_feed new_stripper [ESC, 91, ESC, 91, 99, 99]) = [ESC, 91, 99] \<and> is_query [ESC, 91, 99]"
  by code_simp

end
