(* ===== verification/Query_Response_Filter.thy ===== *)
theory Query_Response_Filter
  imports Query_Stripper "HOL-Library.Sublist"
begin

text \<open>
  Terminal input on its way from an attached viewer (query_response_filter.rs).  The filter
  removes the answers a viewer's terminal gives to queries, one byte at a time, and leaves pasted
  text alone.
\<close>

definition BRACKETED_PASTE_BEGIN :: bytes where
  "BRACKETED_PASTE_BEGIN = [ESC, 91, 50, 48, 48, 126]"

definition BRACKETED_PASTE_END :: bytes where
  "BRACKETED_PASTE_END = [ESC, 91, 50, 48, 49, 126]"

datatype FilterMode = InGround | InEscape | InCsi

record QueryResponseFilter =
  qf_mode :: FilterMode
  qf_pending :: bytes
  qf_in_bracketed_paste :: bool
  qf_paste_end_match :: nat

definition MAX_BUFFERED_INPUT :: nat where
  "MAX_BUFFERED_INPUT = 32"

definition new_filter :: QueryResponseFilter where
  "new_filter = \<lparr>qf_mode = InGround, qf_pending = [], qf_in_bracketed_paste = False, qf_paste_end_match = 0\<rparr>"

fun params_scan :: "bytes \<Rightarrow> bool \<Rightarrow> bytes \<Rightarrow> bool option" where
  "params_scan separators saw_digit [] = Some saw_digit"
| "params_scan separators saw_digit (b # bs) =
     (if 48 \<le> b \<and> b \<le> 57 then params_scan separators True bs
      else if b \<in> set separators then params_scan separators saw_digit bs
      else None)"

definition response_params_match :: "bytes \<Rightarrow> bytes \<Rightarrow> bool \<Rightarrow> bool" where
  "response_params_match params separators require_digit =
     (case params_scan separators False params of
        None \<Rightarrow> False
      | Some saw_digit \<Rightarrow> \<not> require_digit \<or> saw_digit)"

definition is_response :: "bytes \<Rightarrow> bool" where
  "is_response bs =
     (if bs = [] then False
      else case strip_prefix [ESC, 91] (butlast bs) of
        None \<Rightarrow> False
      | Some params \<Rightarrow>
          (let first = (case params of [] \<Rightarrow> None | p # _ \<Rightarrow> Some p); final = last bs in
           if first = Some 63 \<and> final = 117 then response_params_match (tl params) [59, 58] True
           else if (first = Some 63 \<or> first = Some 62) \<and> final = 99 \<or> first = Some 63 \<and> final = 82
             then response_params_match (tl params) [59] True
           else if final = 82 then response_params_match params [59] True
           else False))"


section \<open>The machine\<close>

definition qf_start_pending_escape :: "QueryResponseFilter \<Rightarrow> QueryResponseFilter" where
  "qf_start_pending_escape s = s\<lparr>qf_pending := [ESC], qf_mode := InEscape\<rparr>"

definition qf_flush_pending :: "QueryResponseFilter \<Rightarrow> QueryResponseFilter \<times> bytes" where
  "qf_flush_pending s = (s\<lparr>qf_pending := []\<rparr>, qf_pending s)"

definition qf_push_pending :: "byte \<Rightarrow> QueryResponseFilter \<Rightarrow> QueryResponseFilter \<times> bytes" where
  "qf_push_pending b s =
     (let (s1, o1) = (if length (qf_pending s) = MAX_BUFFERED_INPUT then qf_flush_pending s else (s, []))
      in (s1\<lparr>qf_pending := qf_pending s1 @ [b]\<rparr>, o1))"

definition track_bracketed_paste_end :: "QueryResponseFilter \<Rightarrow> byte \<Rightarrow> QueryResponseFilter" where
  "track_bracketed_paste_end s b =
     (if b = BRACKETED_PASTE_END ! qf_paste_end_match s then
        (let s1 = s\<lparr>qf_paste_end_match := qf_paste_end_match s + 1\<rparr>
         in if qf_paste_end_match s1 = length BRACKETED_PASTE_END
            then s1\<lparr>qf_in_bracketed_paste := False, qf_paste_end_match := 0\<rparr> else s1)
      else s\<lparr>qf_paste_end_match := (if b = BRACKETED_PASTE_END ! 0 then 1 else 0)\<rparr>)"

definition qf_feed_csi :: "QueryResponseFilter \<Rightarrow> byte \<Rightarrow> QueryResponseFilter \<times> bytes" where
  "qf_feed_csi s b =
     (if b = ESC then
        (let (s1, o1) = qf_flush_pending s in (qf_start_pending_escape s1, o1))
      else if length (qf_pending s) = MAX_BUFFERED_INPUT then
        (let (s1, o1) = qf_flush_pending s in (s1\<lparr>qf_mode := InGround\<rparr>, o1 @ [b]))
      else
        (let (s1, o1) = qf_push_pending b s
         in if is_csi_final b then
              (let (s2, o2) =
                 (if qf_pending s1 = BRACKETED_PASTE_BEGIN then
                    (let (s2, o2) = qf_flush_pending s1
                     in (s2\<lparr>qf_in_bracketed_paste := True, qf_paste_end_match := 0\<rparr>, o2))
                  else if is_response (qf_pending s1) then (s1\<lparr>qf_pending := []\<rparr>, [])
                  else qf_flush_pending s1)
               in (s2\<lparr>qf_mode := InGround\<rparr>, o1 @ o2))
            else (s1, o1)))"

definition qf_feed_byte :: "QueryResponseFilter \<Rightarrow> byte \<Rightarrow> QueryResponseFilter \<times> bytes" where
  "qf_feed_byte s b =
     (if qf_in_bracketed_paste s then (track_bracketed_paste_end s b, [b])
      else case qf_mode s of
        InGround \<Rightarrow> if b = ESC then (qf_start_pending_escape s, []) else (s, [b])
      | InEscape \<Rightarrow>
          (if b = 91 then
             (let (s1, o1) = qf_push_pending b s in (s1\<lparr>qf_mode := InCsi\<rparr>, o1))
           else if b = ESC then
             (let (s1, o1) = qf_flush_pending s in (qf_start_pending_escape s1, o1))
           else
             (let (s1, o1) = qf_push_pending b s; (s2, o2) = qf_flush_pending s1
              in (s2\<lparr>qf_mode := InGround\<rparr>, o1 @ o2)))
      | InCsi \<Rightarrow> qf_feed_csi s b)"

fun filter_feed :: "QueryResponseFilter \<Rightarrow> bytes \<Rightarrow> QueryResponseFilter \<times> bytes" where
  "filter_feed s [] = (s, [])"
| "filter_feed s (b # bs) =
     (let (s1, o1) = qf_feed_byte s b; (s2, o2) = filter_feed s1 bs in (s2, o1 @ o2))"

definition flush_timeout :: "QueryResponseFilter \<Rightarrow> QueryResponseFilter \<times> bytes" where
  "flush_timeout s =
     (if qf_mode s = InEscape \<and> length (qf_pending s) = 1 then
        (let (s1, o1) = qf_flush_pending s in (s1\<lparr>qf_mode := InGround\<rparr>, o1))
      else (s, []))"

definition filter_finish :: "QueryResponseFilter \<Rightarrow> QueryResponseFilter \<times> bytes" where
  "filter_finish s =
     (let (s1, o1) = qf_flush_pending s
      in (s1\<lparr>qf_mode := InGround, qf_in_bracketed_paste := False, qf_paste_end_match := 0\<rparr>, o1))"

lemmas filter_defs = qf_feed_byte_def qf_feed_csi_def qf_start_pending_escape_def qf_push_pending_def
  qf_flush_pending_def Let_def


section \<open>Invariant\<close>

text \<open>
  Outside a paste the buffer holds an incomplete escape or control sequence; inside a paste it
  is empty and the match counter is an index of the end marker.
\<close>

definition filter_inv :: "QueryResponseFilter \<Rightarrow> bool" where
  "filter_inv s \<longleftrightarrow> length (qf_pending s) \<le> MAX_BUFFERED_INPUT \<and> qf_paste_end_match s < 6 \<and>
     (qf_in_bracketed_paste s \<longrightarrow> qf_mode s = InGround) \<and>
     (case qf_mode s of
        InGround \<Rightarrow> qf_pending s = []
      | InEscape \<Rightarrow> qf_pending s = [ESC]
      | InCsi \<Rightarrow> \<exists>ps. qf_pending s = ESC # 91 # ps \<and> list_all csi_param ps)"

lemma new_filter_inv: "filter_inv new_filter"
  by (simp add: filter_inv_def new_filter_def)

lemma track_inv: "filter_inv s \<Longrightarrow> qf_in_bracketed_paste s \<Longrightarrow> filter_inv (track_bracketed_paste_end s b)"
  by (auto simp: filter_inv_def track_bracketed_paste_end_def BRACKETED_PASTE_END_def Let_def)

lemma paste_begin_iff [simp]:
  "ESC # 91 # ps @ [b] = BRACKETED_PASTE_BEGIN \<longleftrightarrow> ps = [50, 48, 48] \<and> b = 126"
  by (auto simp: BRACKETED_PASTE_BEGIN_def append_eq_Cons_conv)

lemma final_126 [simp]: "is_csi_final 126"
  by (simp add: is_csi_final_def)

lemma qf_feed_byte_inv: "filter_inv s \<Longrightarrow> filter_inv (fst (qf_feed_byte s b))"
  by (cases "qf_in_bracketed_paste s", simp add: qf_feed_byte_def track_inv, cases "qf_mode s")
     (auto simp: filter_inv_def filter_defs csi_param_def MAX_BUFFERED_INPUT_def)

lemma track_frame [simp]:
  "qf_pending (track_bracketed_paste_end s b) = qf_pending s"
  "qf_mode (track_bracketed_paste_end s b) = qf_mode s"
  by (simp_all add: track_bracketed_paste_end_def Let_def)

lemma qf_feed_byte_redacts:
  assumes "filter_inv s"
  shows "\<exists>seen. qf_pending s @ [b] = seen @ qf_pending (fst (qf_feed_byte s b)) \<and>
    redacts is_response seen (snd (qf_feed_byte s b))"
proof (cases "\<not> qf_in_bracketed_paste s \<and> qf_mode s = InCsi \<and> is_response (qf_pending s @ [b]) \<and>
    qf_pending s @ [b] \<noteq> BRACKETED_PASTE_BEGIN \<and> is_csi_final b \<and> b \<noteq> ESC \<and>
    length (qf_pending s) \<noteq> MAX_BUFFERED_INPUT")
  case True
  then show ?thesis
    by (intro exI [of _ "qf_pending s @ [b]"]) (auto simp: filter_defs intro: redacts_segment)
next
  case False
  have "qf_pending s @ [b] = snd (qf_feed_byte s b) @ qf_pending (fst (qf_feed_byte s b))"
    using assms False
    by (cases "qf_in_bracketed_paste s"; cases "qf_mode s")
       (auto simp: filter_inv_def filter_defs MAX_BUFFERED_INPUT_def)
  then show ?thesis by blast
qed

interpretation rfilter: redacting_machine qf_feed_byte filter_feed filter_inv qf_pending is_response
  by unfold_locales (simp_all add: qf_feed_byte_inv qf_feed_byte_redacts)



section \<open>Pastes\<close>

text \<open>
  The match counter of a paste is the length of the longest start of the end marker that the text
  read so far ends with; so the paste ends at the first end marker, although the counter never
  looks back further than one byte after a mismatch.
\<close>

definition longest_match :: "bytes \<Rightarrow> nat \<Rightarrow> bool" where
  "longest_match w k \<longleftrightarrow> k < 6 \<and> suffix (take k BRACKETED_PASTE_END) w \<and>
     (\<forall>j<6. suffix (take j BRACKETED_PASTE_END) w \<longrightarrow> j \<le> k)"

lemma longest_match_Nil: "longest_match [] 0"
  by (auto simp: longest_match_def BRACKETED_PASTE_END_def take_Cons' split: if_splits)

lemma take_Suc_END: "k < 6 \<Longrightarrow> take (Suc k) BRACKETED_PASTE_END =
    take k BRACKETED_PASTE_END @ [BRACKETED_PASTE_END ! k]"
  by (rule take_Suc_conv_app_nth) (simp add: BRACKETED_PASTE_END_def)

lemma suffix_snoc_END: "j < 6 \<Longrightarrow> suffix (take (Suc j) BRACKETED_PASTE_END) (w @ [b]) \<longleftrightarrow>
    suffix (take j BRACKETED_PASTE_END) w \<and> b = BRACKETED_PASTE_END ! j"
  by (auto simp: take_Suc_END)

text \<open>
  The escape byte occurs in the end marker once, so no start of it ends with a shorter one.
\<close>

lemma END_self_overlap:
  assumes "suffix (take j BRACKETED_PASTE_END) (take k BRACKETED_PASTE_END)" and "j < k" and "k < 6"
  shows "j = 0"
proof -
  from assms(2,3) have "k \<in> {1, 2, 3, 4, 5}" "j \<in> {0, 1, 2, 3, 4}" by auto
  then show ?thesis using assms(1,2)
    by (auto simp: BRACKETED_PASTE_END_def ESC_def suffix_Cons)
qed

lemma longest_match_step:
  assumes "longest_match w k"
  shows "if b = BRACKETED_PASTE_END ! k
    then (if k = 5 then suffix BRACKETED_PASTE_END (w @ [b]) else longest_match (w @ [b]) (Suc k))
    else longest_match (w @ [b]) (if b = ESC then 1 else 0)"
proof (cases "b = BRACKETED_PASTE_END ! k")
  case True
  have full: "suffix (take (Suc k) BRACKETED_PASTE_END) (w @ [b])"
    using assms True by (simp add: longest_match_def suffix_snoc_END del: suffix_snoc)
  have "j \<le> Suc k" if "j < 6" "suffix (take j BRACKETED_PASTE_END) (w @ [b])" for j
    using that assms by (cases j) (auto simp: longest_match_def suffix_snoc_END simp del: suffix_snoc)
  with full True assms show ?thesis
    by (auto simp: longest_match_def BRACKETED_PASTE_END_def)
next
  case False
  have "j \<le> (if b = ESC then 1 else 0)" if "j < 6" "suffix (take j BRACKETED_PASTE_END) (w @ [b])" for j
  proof (cases j)
    case (Suc i)
    with that have i: "i < 6" "suffix (take i BRACKETED_PASTE_END) w" "b = BRACKETED_PASTE_END ! i"
      by (simp_all add: suffix_snoc_END del: suffix_snoc)
    with assms False have "i < k" "suffix (take k BRACKETED_PASTE_END) w" "k < 6"
      by (auto simp: longest_match_def le_less)
    moreover from i(2) this(2) have "suffix (take i BRACKETED_PASTE_END) (take k BRACKETED_PASTE_END)"
      by (rule suffix_length_suffix) (use \<open>i < k\<close> in simp)
    ultimately have "i = 0" using END_self_overlap by blast
    with i Suc show ?thesis by (simp add: BRACKETED_PASTE_END_def)
  qed simp
  then show ?thesis using False
    by (auto simp: longest_match_def BRACKETED_PASTE_END_def)
qed


lemma paste_run:
  assumes "longest_match w k" and "\<And>v. prefix v bs \<Longrightarrow> \<not> suffix BRACKETED_PASTE_END (w @ v)"
  shows "\<exists>k'. filter_feed \<lparr>qf_mode = InGround, qf_pending = [], qf_in_bracketed_paste = True, qf_paste_end_match = k\<rparr> bs =
    (\<lparr>qf_mode = InGround, qf_pending = [], qf_in_bracketed_paste = True, qf_paste_end_match = k'\<rparr>, bs) \<and>
    longest_match (w @ bs) k'"
  using assms
proof (induction bs arbitrary: w k)
  case Nil
  then show ?case by simp
next
  case (Cons b bs)
  have no: "\<not> suffix BRACKETED_PASTE_END (w @ [b])" using Cons.prems(2) [of "[b]"] by simp
  define k1 where "k1 = (if b = BRACKETED_PASTE_END ! k then Suc k else if b = ESC then 1 else 0)"
  from longest_match_step [OF Cons.prems(1), of b] no have
      ok: "longest_match (w @ [b]) k1" "b = BRACKETED_PASTE_END ! k \<Longrightarrow> k \<noteq> 5"
    by (auto simp: k1_def split: if_splits)
  have "track_bracketed_paste_end \<lparr>qf_mode = InGround, qf_pending = [], qf_in_bracketed_paste = True,
      qf_paste_end_match = k\<rparr> b = \<lparr>qf_mode = InGround, qf_pending = [], qf_in_bracketed_paste = True,
      qf_paste_end_match = k1\<rparr>"
    using ok(2) by (auto simp: track_bracketed_paste_end_def k1_def BRACKETED_PASTE_END_def Let_def)
  moreover have "\<not> suffix BRACKETED_PASTE_END ((w @ [b]) @ v)" if "prefix v bs" for v
    using Cons.prems(2) [of "b # v"] that by simp
  ultimately show ?case using Cons.IH [OF ok(1)] by (auto simp: qf_feed_byte_def)
qed

lemma not_sublist_prefix:
  "\<not> sublist x bs \<Longrightarrow> prefix v bs \<Longrightarrow> \<not> suffix x v"
  using sublist_order.order_trans prefix_imp_sublist suffix_imp_sublist by blast

lemma paste_through:
  assumes "\<not> sublist BRACKETED_PASTE_END (body @ butlast BRACKETED_PASTE_END)"
  shows "filter_feed \<lparr>qf_mode = InGround, qf_pending = [], qf_in_bracketed_paste = True, qf_paste_end_match = 0\<rparr>
    (body @ BRACKETED_PASTE_END) = (new_filter, body @ BRACKETED_PASTE_END)"
proof -
  have five: "butlast BRACKETED_PASTE_END = take 5 BRACKETED_PASTE_END" "BRACKETED_PASTE_END ! 5 = 126"
      "BRACKETED_PASTE_END = butlast BRACKETED_PASTE_END @ [126]"
    by (simp_all add: BRACKETED_PASTE_END_def)
  let ?bs = "body @ butlast BRACKETED_PASTE_END"
  from paste_run [OF longest_match_Nil, of ?bs] not_sublist_prefix [OF assms] obtain k where
      k: "filter_feed \<lparr>qf_mode = InGround, qf_pending = [], qf_in_bracketed_paste = True, qf_paste_end_match = 0\<rparr> ?bs =
        (\<lparr>qf_mode = InGround, qf_pending = [], qf_in_bracketed_paste = True, qf_paste_end_match = k\<rparr>, ?bs)"
      and m: "longest_match ?bs k" by auto
  from m have "5 \<le> k" "k < 6"
    unfolding longest_match_def five(1) using suffixI [of _ body "take 5 BRACKETED_PASTE_END"] by auto
  then have "k = 5" by simp
  then have "qf_feed_byte \<lparr>qf_mode = InGround, qf_pending = [], qf_in_bracketed_paste = True, qf_paste_end_match = k\<rparr> 126 =
      (new_filter, [126])"
    by (simp add: qf_feed_byte_def track_bracketed_paste_end_def five(2) new_filter_def)
       (simp add: BRACKETED_PASTE_END_def)
  with k have "filter_feed \<lparr>qf_mode = InGround, qf_pending = [], qf_in_bracketed_paste = True, qf_paste_end_match = 0\<rparr>
      (?bs @ [126]) = (new_filter, ?bs @ [126])"
    unfolding rfilter.feed_append [of _ ?bs "[126]"] by simp
  then show ?thesis using five(3) by simp
qed


section \<open>What is kept\<close>

text \<open>
  The complete units of terminal input: a plain byte, an escape with a second byte, a control
  sequence that does not open a paste, and a paste up to its first end marker.
\<close>

datatype input_unit = Key byte | EscKey byte | CsiKey bytes byte | Paste bytes

fun typed :: "input_unit \<Rightarrow> bytes" where
  "typed (Key b) = [b]"
| "typed (EscKey b) = [ESC, b]"
| "typed (CsiKey ps f) = ESC # 91 # ps @ [f]"
| "typed (Paste body) = BRACKETED_PASTE_BEGIN @ body @ BRACKETED_PASTE_END"

fun input_wf :: "input_unit \<Rightarrow> bool" where
  "input_wf (Key b) = (b \<noteq> ESC)"
| "input_wf (EscKey b) = (b \<noteq> ESC \<and> b \<noteq> 91)"
| "input_wf (CsiKey ps f) = (list_all csi_param ps \<and> is_csi_final f \<and> \<not> (ps = [50, 48, 48] \<and> f = 126))"
| "input_wf (Paste body) = (\<not> sublist BRACKETED_PASTE_END (body @ butlast BRACKETED_PASTE_END))"

fun swallowed :: "input_unit \<Rightarrow> bool" where
  "swallowed (CsiKey ps f) =
     (is_response (ESC # 91 # ps @ [f]) \<and> length (ESC # 91 # ps @ [f]) \<le> MAX_BUFFERED_INPUT)"
| "swallowed _ = False"

lemma filter_plain:
  "qf_mode s = InGround \<Longrightarrow> \<not> qf_in_bracketed_paste s \<Longrightarrow> ESC \<notin> set bs \<Longrightarrow> filter_feed s bs = (s, bs)"
  by (induction bs) (auto simp: qf_feed_byte_def)

lemma filter_csi:
  assumes "list_all csi_param ps" and "is_csi_final f" and "length pend \<le> MAX_BUFFERED_INPUT"
    and "pend @ ps @ [f] \<noteq> BRACKETED_PASTE_BEGIN"
  shows "filter_feed \<lparr>qf_mode = InCsi, qf_pending = pend, qf_in_bracketed_paste = False, qf_paste_end_match = 0\<rparr>
      (ps @ [f]) = (new_filter,
     if is_response (pend @ ps @ [f]) \<and> length (pend @ ps @ [f]) \<le> MAX_BUFFERED_INPUT then [] else pend @ ps @ [f])"
  using assms
proof (induction ps arbitrary: pend)
  case Nil
  then show ?case using is_csi_final_not_ESC [of f] by (auto simp: filter_defs new_filter_def)
next
  case (Cons p ps)
  show ?case
  proof (cases "length pend = MAX_BUFFERED_INPUT")
    case True
    have "ESC \<notin> set (ps @ [f])"
      using Cons.prems is_csi_final_not_ESC [of f] csi_params_no_ESC [of ps] by auto
    with Cons.prems True show ?thesis by (auto simp: filter_defs csi_param_def filter_plain new_filter_def)
  next
    case False
    with Cons.prems have "length (pend @ [p]) \<le> MAX_BUFFERED_INPUT" by simp
    with Cons.IH [OF _ Cons.prems(2) this] Cons.prems False show ?thesis
      by (auto simp: filter_defs csi_param_def)
  qed
qed

lemma filter_paste_begin:
  "filter_feed new_filter BRACKETED_PASTE_BEGIN =
    (\<lparr>qf_mode = InGround, qf_pending = [], qf_in_bracketed_paste = True, qf_paste_end_match = 0\<rparr>,
     BRACKETED_PASTE_BEGIN)"
  by code_simp

lemma filter_unit:
  assumes "input_wf g"
  shows "filter_feed new_filter (typed g) = (new_filter, if swallowed g then [] else typed g)"
proof (cases g)
  case (CsiKey ps f)
  with assms filter_csi [of ps f "[ESC, 91]"] show ?thesis
    by (auto simp: filter_defs new_filter_def MAX_BUFFERED_INPUT_def)
next
  case (Paste body)
  with assms show ?thesis
    by (simp add: rfilter.feed_append [of new_filter BRACKETED_PASTE_BEGIN] filter_paste_begin paste_through)
qed (use assms in \<open>auto simp: filter_defs new_filter_def MAX_BUFFERED_INPUT_def\<close>)

text \<open>
  C19.  On complete terminal input the filter is exact: it drops the answers to terminal queries of
  at most 32 bytes and passes everything else on unchanged, in any division into chunks; pasted
  text is never touched, not even where it looks like an answer, and the paste ends exactly at its
  first end marker.
\<close>

theorem filter_exact:
  assumes "list_all input_wf gs" and "concat chunks = concat (map typed gs)"
  shows "feed_all filter_feed new_filter chunks =
    (new_filter, concat (map typed (filter (\<lambda>g. \<not> swallowed g) gs)))"
proof -
  have "filter_feed new_filter (concat (map typed gs)) =
      (new_filter, concat (map typed (filter (\<lambda>g. \<not> swallowed g) gs)))"
    using assms(1) by (induction gs) (auto simp: rfilter.feed_append filter_unit)
  then show ?thesis by (simp add: rfilter.feed_chunks assms(2))
qed

theorem filter_exact_witness:
  "feed_all filter_feed new_filter
     [[104, 27], [91, 49, 59, 53, 82, 27, 91, 50, 48], [48, 126, 27, 91, 49, 82, 27, 91, 50, 48, 49, 126]] =
   (new_filter, [104, 27, 91, 50, 48, 48, 126, 27, 91, 49, 82, 27, 91, 50, 48, 49, 126])"
proof -
  let ?gs = "[Key 104, CsiKey [49, 59, 53] 82, Paste [27, 91, 49, 82]]"
  have wf: "list_all input_wf ?gs" by code_simp
  have "concat [[104, 27], [91, 49, 59, 53, 82, 27, 91, 50, 48], [48, 126, 27, 91, 49, 82, 27, 91, 50, 48, 49, 126]] =
      concat (map typed ?gs)" by code_simp
  note filter_exact [OF wf this]
  also have "concat (map typed (filter (\<lambda>g. \<not> swallowed g) ?gs)) =
      [104, 27, 91, 50, 48, 48, 126, 27, 91, 49, 82, 27, 91, 50, 48, 49, 126]" by code_simp
  finally show ?thesis .
qed

text \<open>
  For every input, complete or not, the filter drops nothing but answers to queries, holds
  back at most 32 bytes, and at the end of the stream returns what it still holds.
\<close>

lemma filter_only_responses:
  "redacts is_response (concat chunks)
     (snd (feed_all filter_feed new_filter chunks) @ snd (filter_finish (fst (feed_all filter_feed new_filter chunks)))) \<and>
   length (qf_pending (fst (feed_all filter_feed new_filter chunks))) \<le> MAX_BUFFERED_INPUT \<and>
   fst (filter_finish (fst (feed_all filter_feed new_filter chunks))) = new_filter"
proof -
  let ?s = "fst (filter_feed new_filter (concat chunks))"
  have inv: "filter_inv ?s" using new_filter_inv by (rule rfilter.feed_inv)
  obtain seen where "concat chunks = seen @ qf_pending ?s"
      "redacts is_response seen (snd (filter_feed new_filter (concat chunks)))"
    using rfilter.feed_redacts [OF new_filter_inv, of "concat chunks"] by (auto simp: new_filter_def)
  then have "redacts is_response (concat chunks) (snd (filter_feed new_filter (concat chunks)) @ qf_pending ?s)"
    using redacts_append [OF _ redacts_refl] by metis
  with inv show ?thesis
    by (simp add: rfilter.feed_chunks filter_inv_def filter_finish_def qf_flush_pending_def new_filter_def)
qed

end
