(* ===== verification/Terminal_Mode.thy ===== *)
theory Terminal_Mode
  imports Query_Stripper
begin

text \<open>
  The modes a program leaves its terminal in (terminal_mode_tracker.rs).  The tracker reads the
  output of an attached session, one byte at a time, records the modes it sets, and computes the
  bytes that put the viewer's terminal back into its default modes.  The control sequence buffer,
  an array with a length, is the list of its used bytes.
\<close>

definition KITTY_POP :: bytes where
  "KITTY_POP = [ESC, 91, 60, 117]"

definition KITTY_FLAGS_CLEAR :: bytes where
  "KITTY_FLAGS_CLEAR = [ESC, 91, 61, 48, 117]"

definition MODIFY_OTHER_KEYS_CLEAR :: bytes where
  "MODIFY_OTHER_KEYS_CLEAR = [ESC, 91, 62, 52, 59, 48, 109]"

definition ALT_SCREEN_1049_LEAVE :: bytes where
  "ALT_SCREEN_1049_LEAVE = [ESC, 91, 63, 49, 48, 52, 57, 108]"

definition ALT_SCREEN_47_LEAVE :: bytes where
  "ALT_SCREEN_47_LEAVE = [ESC, 91, 63, 52, 55, 108]"

definition BRACKETED_PASTE_DISABLE :: bytes where
  "BRACKETED_PASTE_DISABLE = [ESC, 91, 63, 50, 48, 48, 52, 108]"

definition DECAWM_ENABLE :: bytes where
  "DECAWM_ENABLE = [ESC, 91, 63, 55, 104]"

definition SCROLL_REGION_RESET :: bytes where
  "SCROLL_REGION_RESET = [ESC, 91, 114]"

definition MOUSE_MODES :: "u16 list" where
  "MOUSE_MODES = [1000, 1002, 1003, 1006]"

definition CSI_BUFFER_CAPACITY :: nat where
  "CSI_BUFFER_CAPACITY = 64"

definition MAX_KITTY_DEPTH :: u8 where
  "MAX_KITTY_DEPTH = 16"

datatype AltScreenMode = Legacy47 | Mode1049

record TerminalModeState =
  ms_kitty_keyboard_depth :: u8
  ms_kitty_flags :: u16
  ms_alt_screen :: "AltScreenMode option"
  ms_bracketed_paste :: bool
  ms_mouse_modes :: "bool list"
  ms_modify_other_keys :: u16
  ms_decawm :: bool
  ms_scroll_region_non_default :: bool

definition default_modes :: TerminalModeState where
  "default_modes = \<lparr>ms_kitty_keyboard_depth = 0, ms_kitty_flags = 0, ms_alt_screen = None,
     ms_bracketed_paste = False, ms_mouse_modes = replicate 4 False, ms_modify_other_keys = 0,
     ms_decawm = True, ms_scroll_region_non_default = False\<rparr>"

datatype ParserState = PGround | PEscape | PCsi | POsc | POscEscape

record TerminalModeTracker =
  tk_modes :: TerminalModeState
  tk_parser :: ParserState
  tk_csi :: bytes
  tk_csi_overflowed :: bool
  tk_pending_alt_screen_kitty_reset :: bool

definition new_tracker :: TerminalModeTracker where
  "new_tracker = \<lparr>tk_modes = default_modes, tk_parser = PGround, tk_csi = [], tk_csi_overflowed = False,
     tk_pending_alt_screen_kitty_reset = False\<rparr>"


section \<open>Parameters of control sequences\<close>

fun params_loop :: "u16 list \<Rightarrow> u16 \<Rightarrow> bool \<Rightarrow> bytes \<Rightarrow> (u16 list \<times> u16 \<times> bool) option" where
  "params_loop parsed current has_digit [] = Some (parsed, current, has_digit)"
| "params_loop parsed current has_digit (b # bs) =
     (if 48 \<le> b \<and> b \<le> 57 then
        params_loop parsed (saturating_add (saturating_mul current 10) (ucast (b - 48))) True bs
      else if b = 59 \<or> b = 58 then
        params_loop (parsed @ [if has_digit then current else 0]) 0 False bs
      else None)"

definition parse_params :: "bytes \<Rightarrow> u16 list" where
  "parse_params params =
     (case params_loop [] 0 False params of
        None \<Rightarrow> []
      | Some (parsed, current, has_digit) \<Rightarrow>
          if has_digit \<or> params \<noteq> [] then parsed @ [if has_digit then current else 0] else parsed)"

definition scroll_region_non_default :: "bytes \<Rightarrow> bool" where
  "scroll_region_non_default params =
     (if params = [] then False else parse_params params \<notin> {[], [0], [1, 0]})"

definition mouse_mode_index :: "u16 \<Rightarrow> nat option" where
  "mouse_mode_index mode =
     (if mode = 1000 then Some 0 else if mode = 1002 then Some 1
      else if mode = 1003 then Some 2 else if mode = 1006 then Some 3 else None)"


section \<open>Modes\<close>

definition is_kitty_active :: "TerminalModeState \<Rightarrow> bool" where
  "is_kitty_active m \<longleftrightarrow> 0 < ms_kitty_keyboard_depth m \<or> ms_kitty_flags m \<noteq> 0"

definition is_mouse_mode_enabled :: "TerminalModeState \<Rightarrow> u16 \<Rightarrow> bool" where
  "is_mouse_mode_enabled m mode =
     (case mouse_mode_index mode of None \<Rightarrow> False | Some i \<Rightarrow> ms_mouse_modes m ! i)"

definition set_mouse_mode :: "u16 \<Rightarrow> bool \<Rightarrow> TerminalModeState \<Rightarrow> TerminalModeState" where
  "set_mouse_mode mode enable m =
     (case mouse_mode_index mode of
        None \<Rightarrow> m
      | Some i \<Rightarrow> m\<lparr>ms_mouse_modes := (ms_mouse_modes m)[i := enable]\<rparr>)"

definition any_dirty :: "TerminalModeState \<Rightarrow> bool" where
  "any_dirty m \<longleftrightarrow> is_kitty_active m \<or> ms_modify_other_keys m \<noteq> 0 \<or> ms_bracketed_paste m \<or>
     list_ex (\<lambda>enabled. enabled) (ms_mouse_modes m) \<or> \<not> ms_decawm m \<or> ms_scroll_region_non_default m"

definition set_alt_screen :: "AltScreenMode \<Rightarrow> bool \<Rightarrow> TerminalModeTracker \<Rightarrow> TerminalModeTracker" where
  "set_alt_screen mode enable t =
     (let m = tk_modes t in
      if enable then t\<lparr>tk_modes := m\<lparr>ms_alt_screen := Some mode\<rparr>\<rparr>
      else if ms_alt_screen m = Some mode \<or> ms_alt_screen m \<noteq> None then
        (let t1 = t\<lparr>tk_modes := m\<lparr>ms_alt_screen := None\<rparr>\<rparr>
         in if any_dirty m then t1\<lparr>tk_pending_alt_screen_kitty_reset := True\<rparr> else t1)
      else t)"

definition apply_private_mode :: "bool \<Rightarrow> u16 \<Rightarrow> TerminalModeTracker \<Rightarrow> TerminalModeTracker" where
  "apply_private_mode enable mode t =
     (if mode = 47 then set_alt_screen Legacy47 enable t
      else if mode = 1049 then set_alt_screen Mode1049 enable t
      else if mode = 2004 then t\<lparr>tk_modes := (tk_modes t)\<lparr>ms_bracketed_paste := enable\<rparr>\<rparr>
      else if mode = 7 then t\<lparr>tk_modes := (tk_modes t)\<lparr>ms_decawm := enable\<rparr>\<rparr>
      else if mode \<in> {1000, 1002, 1003, 1006} then t\<lparr>tk_modes := set_mouse_mode mode enable (tk_modes t)\<rparr>
      else t)"

definition settle_kitty :: "TerminalModeTracker \<Rightarrow> TerminalModeTracker" where
  "settle_kitty t = (if is_kitty_active (tk_modes t) then t else t\<lparr>tk_pending_alt_screen_kitty_reset := False\<rparr>)"

definition handle_csi :: "byte \<Rightarrow> TerminalModeTracker \<Rightarrow> TerminalModeTracker" where
  "handle_csi final t =
     (if tk_csi_overflowed t then t
      else
        (let params = tk_csi t; m = tk_modes t;
             first = (case params of [] \<Rightarrow> None | p # _ \<Rightarrow> Some p);
             parsed = parse_params (tl params) in
         if first = Some 62 \<and> final = 117 \<and> 1 < length params \<and>
            0 < (case parsed of [] \<Rightarrow> 0 | v # _ \<Rightarrow> v) then
           t\<lparr>tk_modes := m\<lparr>ms_kitty_keyboard_depth :=
               min (saturating_add (ms_kitty_keyboard_depth m) 1) MAX_KITTY_DEPTH\<rparr>\<rparr>
         else if first = Some 60 \<and> final = 117 then
           settle_kitty (t\<lparr>tk_modes := m\<lparr>ms_kitty_keyboard_depth :=
               saturating_sub (ms_kitty_keyboard_depth m) 1\<rparr>\<rparr>)
         else if first = Some 61 \<and> final = 117 then
           settle_kitty (t\<lparr>tk_modes := m\<lparr>ms_kitty_flags := (case parsed of [] \<Rightarrow> 0 | v # _ \<Rightarrow> v)\<rparr>\<rparr>)
         else if first = Some 62 \<and> final = 109 then
           (case parsed of
              v # rest \<Rightarrow>
                if v = 4 then t\<lparr>tk_modes := m\<lparr>ms_modify_other_keys := (case rest of [] \<Rightarrow> 0 | w # _ \<Rightarrow> w)\<rparr>\<rparr>
                else t
            | [] \<Rightarrow> t)
         else if first = Some 63 \<and> (final = 104 \<or> final = 108) then
           fold (apply_private_mode (final = 104)) parsed t
         else if final = 114 then
           t\<lparr>tk_modes := m\<lparr>ms_scroll_region_non_default := scroll_region_non_default params\<rparr>\<rparr>
         else t))"


section \<open>The parser\<close>

definition reset_csi :: "TerminalModeTracker \<Rightarrow> TerminalModeTracker" where
  "reset_csi t = t\<lparr>tk_csi := [], tk_csi_overflowed := False\<rparr>"

definition track_byte :: "byte \<Rightarrow> TerminalModeTracker \<Rightarrow> TerminalModeTracker" where
  "track_byte b t =
     (case tk_parser t of
        PGround \<Rightarrow> if b = ESC then t\<lparr>tk_parser := PEscape\<rparr> else t
      | PEscape \<Rightarrow>
          if b = 91 then (reset_csi t)\<lparr>tk_parser := PCsi\<rparr>
          else if b = 93 then t\<lparr>tk_parser := POsc\<rparr>
          else if b = ESC then t\<lparr>tk_parser := PEscape\<rparr>
          else t\<lparr>tk_parser := PGround\<rparr>
      | PCsi \<Rightarrow>
          if b = ESC then reset_csi (t\<lparr>tk_parser := PEscape\<rparr>)
          else if is_csi_final b then reset_csi ((handle_csi b t)\<lparr>tk_parser := PGround\<rparr>)
          else if length (tk_csi t) < CSI_BUFFER_CAPACITY then t\<lparr>tk_csi := tk_csi t @ [b]\<rparr>
          else t\<lparr>tk_csi_overflowed := True\<rparr>
      | POsc \<Rightarrow>
          if b = 7 then t\<lparr>tk_parser := PGround\<rparr>
          else if b = ESC then t\<lparr>tk_parser := POscEscape\<rparr>
          else t
      | POscEscape \<Rightarrow>
          if b = 92 then t\<lparr>tk_parser := PGround\<rparr>
          else if b = ESC then t\<lparr>tk_parser := POscEscape\<rparr>
          else t\<lparr>tk_parser := POsc\<rparr>)"

definition track_feed :: "TerminalModeTracker \<Rightarrow> bytes \<Rightarrow> TerminalModeTracker" where
  "track_feed t bs = fold track_byte bs t"


section \<open>Cleanup\<close>

definition private_mode_reset :: "u16 \<Rightarrow> bytes" where
  "private_mode_reset mode = [ESC, 91, 63] @ ascii (decimal (unat mode)) @ [108]"

definition clear_mouse :: "u16 \<Rightarrow> bytes \<times> TerminalModeState \<Rightarrow> bytes \<times> TerminalModeState" where
  "clear_mouse mode = (\<lambda>(plan, m).
     if is_mouse_mode_enabled m mode then (plan @ private_mode_reset mode, set_mouse_mode mode False m)
     else (plan, m))"

definition cleanup_plan :: "TerminalModeTracker \<Rightarrow> TerminalModeTracker \<times> bytes" where
  "cleanup_plan t =
     (let m = tk_modes t;
          pops = concat (replicate (unat (ms_kitty_keyboard_depth m)) KITTY_POP);
          m1 = m\<lparr>ms_kitty_keyboard_depth := 0\<rparr>;
          (p2, m2) = (if ms_kitty_flags m1 \<noteq> 0 then (KITTY_FLAGS_CLEAR, m1\<lparr>ms_kitty_flags := 0\<rparr>) else ([], m1));
          (p3, m3) = (if ms_modify_other_keys m2 \<noteq> 0
                      then (MODIFY_OTHER_KEYS_CLEAR, m2\<lparr>ms_modify_other_keys := 0\<rparr>) else ([], m2));
          p4 = (case ms_alt_screen m3 of
                  None \<Rightarrow> []
                | Some Legacy47 \<Rightarrow> ALT_SCREEN_47_LEAVE
                | Some Mode1049 \<Rightarrow> ALT_SCREEN_1049_LEAVE);
          m4 = m3\<lparr>ms_alt_screen := None\<rparr>;
          (p5, m5) = (if ms_bracketed_paste m4
                      then (BRACKETED_PASTE_DISABLE, m4\<lparr>ms_bracketed_paste := False\<rparr>) else ([], m4));
          (p6, m6) = fold clear_mouse MOUSE_MODES ([], m5);
          (p7, m7) = (if \<not> ms_decawm m6 then (DECAWM_ENABLE, m6\<lparr>ms_decawm := True\<rparr>) else ([], m6));
          (p8, m8) = (if ms_scroll_region_non_default m7
                      then (SCROLL_REGION_RESET, m7\<lparr>ms_scroll_region_non_default := False\<rparr>) else ([], m7))
      in (t\<lparr>tk_modes := m8, tk_pending_alt_screen_kitty_reset := False\<rparr>,
          pops @ p2 @ p3 @ p4 @ p5 @ p6 @ p7 @ p8))"

definition take_alt_screen_leave_kitty_reset :: "TerminalModeTracker \<Rightarrow> TerminalModeTracker \<times> bytes" where
  "take_alt_screen_leave_kitty_reset t =
     (if \<not> tk_pending_alt_screen_kitty_reset t then (t, [])
      else
        (let m = tk_modes t;
             t1 = t\<lparr>tk_pending_alt_screen_kitty_reset := False,
                    tk_modes := m\<lparr>ms_kitty_keyboard_depth := 0, ms_kitty_flags := 0, ms_modify_other_keys := 0\<rparr>\<rparr>;
             (t2, rest) = cleanup_plan t1
         in (t2, (if 0 < ms_kitty_keyboard_depth m then KITTY_POP else []) @
                 (if ms_kitty_flags m \<noteq> 0 then KITTY_FLAGS_CLEAR else []) @
                 (if ms_modify_other_keys m \<noteq> 0 then MODIFY_OTHER_KEYS_CLEAR else []) @ rest)))"



section \<open>Invariant\<close>

definition modes_wf :: "TerminalModeState \<Rightarrow> bool" where
  "modes_wf m \<longleftrightarrow> length (ms_mouse_modes m) = 4 \<and> ms_kitty_keyboard_depth m \<le> MAX_KITTY_DEPTH"

definition tracker_inv :: "TerminalModeTracker \<Rightarrow> bool" where
  "tracker_inv t \<longleftrightarrow> modes_wf (tk_modes t) \<and> length (tk_csi t) \<le> CSI_BUFFER_CAPACITY"

lemma new_tracker_inv: "tracker_inv new_tracker"
  by (simp add: tracker_inv_def modes_wf_def new_tracker_def default_modes_def)

lemma apply_private_mode_frame [simp]:
  "tk_csi (apply_private_mode e mode t) = tk_csi t"
  "tk_parser (apply_private_mode e mode t) = tk_parser t"
  "tk_csi_overflowed (apply_private_mode e mode t) = tk_csi_overflowed t"
  by (simp_all add: apply_private_mode_def set_alt_screen_def Let_def)

lemma apply_private_mode_wf: "modes_wf (tk_modes t) \<Longrightarrow> modes_wf (tk_modes (apply_private_mode e mode t))"
  by (auto simp: apply_private_mode_def set_alt_screen_def set_mouse_mode_def modes_wf_def Let_def
      split: option.split)

lemma fold_private_frame [simp]:
  "tk_csi (fold (apply_private_mode e) ms t) = tk_csi t"
  "tk_parser (fold (apply_private_mode e) ms t) = tk_parser t"
  "tk_csi_overflowed (fold (apply_private_mode e) ms t) = tk_csi_overflowed t"
  by (induction ms arbitrary: t) simp_all

lemma fold_private_wf: "modes_wf (tk_modes t) \<Longrightarrow> modes_wf (tk_modes (fold (apply_private_mode e) ms t))"
  by (induction ms arbitrary: t) (simp_all add: apply_private_mode_wf)

lemma settle_kitty_frame [simp]:
  "tk_modes (settle_kitty t) = tk_modes t" "tk_csi (settle_kitty t) = tk_csi t"
  "tk_parser (settle_kitty t) = tk_parser t" "tk_csi_overflowed (settle_kitty t) = tk_csi_overflowed t"
  by (simp_all add: settle_kitty_def)

lemma handle_csi_frame [simp]:
  "tk_csi (handle_csi f t) = tk_csi t" "tk_parser (handle_csi f t) = tk_parser t"
  "tk_csi_overflowed (handle_csi f t) = tk_csi_overflowed t"
  by (simp_all add: handle_csi_def Let_def split: list.split)

lemma saturating_sub_le: "saturating_sub a b \<le> a" for a :: "'a::len word"
  by (simp add: word_le_nat_alt unat_saturating_sub)

lemma handle_csi_wf: "modes_wf (tk_modes t) \<Longrightarrow> modes_wf (tk_modes (handle_csi f t))"
  using saturating_sub_le [of "ms_kitty_keyboard_depth (tk_modes t)" 1]
  by (auto simp: handle_csi_def Let_def fold_private_wf split: list.split)
     (auto simp: modes_wf_def)

lemma track_byte_inv: "tracker_inv t \<Longrightarrow> tracker_inv (track_byte b t)"
  by (cases "tk_parser t")
     (auto simp: tracker_inv_def track_byte_def reset_csi_def handle_csi_wf CSI_BUFFER_CAPACITY_def)

lemma track_feed_inv: "tracker_inv t \<Longrightarrow> tracker_inv (track_feed t bs)"
  unfolding track_feed_def by (induction bs arbitrary: t) (simp_all add: track_byte_inv)

lemma track_feed_append: "track_feed t (xs @ ys) = track_feed (track_feed t xs) ys"
  by (simp add: track_feed_def)


section \<open>Control sequences as actions on the modes\<close>

text \<open>
  Outside operating system commands an escape byte starts a new sequence.
\<close>

definition ready :: "TerminalModeTracker \<Rightarrow> bool" where
  "ready t \<longleftrightarrow> tk_parser t \<in> {PGround, PEscape, PCsi}"

lemma ESC_neq [simp]: "ESC \<noteq> 91" "ESC \<noteq> 93" "91 \<noteq> ESC"
  by (simp_all add: ESC_def)

lemma csi_run:
  assumes "tk_parser t = PCsi" and "list_all csi_param ps" and "length (tk_csi t) + length ps \<le> CSI_BUFFER_CAPACITY"
  shows "track_feed t ps = t\<lparr>tk_csi := tk_csi t @ ps\<rparr>"
  using assms
proof (induction ps arbitrary: t)
  case Nil
  then show ?case by (simp add: track_feed_def)
next
  case (Cons p ps)
  have "track_byte p t = t\<lparr>tk_csi := tk_csi t @ [p]\<rparr>"
    using Cons.prems by (simp add: track_byte_def csi_param_def)
  then show ?case using Cons.IH [of "t\<lparr>tk_csi := tk_csi t @ [p]\<rparr>"] Cons.prems
    by (simp add: track_feed_def)
qed

lemma csi_done:
  assumes "ready t" and "list_all csi_param ps" and "length ps \<le> CSI_BUFFER_CAPACITY" and "is_csi_final f"
  shows "track_feed t (ESC # 91 # ps @ [f]) =
    reset_csi ((handle_csi f (t\<lparr>tk_parser := PCsi, tk_csi := ps, tk_csi_overflowed := False\<rparr>))\<lparr>tk_parser := PGround\<rparr>)"
proof -
  let ?t = "t\<lparr>tk_parser := PCsi, tk_csi := [], tk_csi_overflowed := False\<rparr>"
  have split: "ESC # 91 # ps @ [f] = [ESC, 91] @ ps @ [f]" by simp
  have start: "track_feed t [ESC, 91] = ?t"
    using assms(1) by (cases "tk_parser t") (simp_all add: ready_def track_feed_def track_byte_def reset_csi_def)
  have run: "track_feed ?t ps = t\<lparr>tk_parser := PCsi, tk_csi := ps, tk_csi_overflowed := False\<rparr>"
    using csi_run [of ?t ps] assms(2,3) by simp
  show ?thesis
    unfolding split track_feed_append start run
    using assms(4) is_csi_final_not_ESC [OF assms(4)] by (simp add: track_feed_def track_byte_def)
qed

definition acts :: "bytes \<Rightarrow> (TerminalModeState \<Rightarrow> TerminalModeState) \<Rightarrow> bool" where
  "acts bs f \<longleftrightarrow> (\<forall>t. ready t \<longrightarrow> ready (track_feed t bs) \<and> tk_modes (track_feed t bs) = f (tk_modes t))"

lemma acts_Nil [intro]: "acts [] id"
  by (simp add: acts_def track_feed_def)

lemma acts_append [intro]: "acts xs f \<Longrightarrow> acts ys g \<Longrightarrow> acts (xs @ ys) (g \<circ> f)"
  by (simp add: acts_def track_feed_append)

lemma acts_if [intro]: "acts xs f \<Longrightarrow> acts (if c then xs else []) (if c then f else id)"
  by (simp add: acts_Nil)

lemma acts_csi:
  assumes "bs = ESC # 91 # ps @ [f]" and "list_all csi_param ps" and "length ps \<le> CSI_BUFFER_CAPACITY" and "is_csi_final f"
    and "\<And>t. tk_csi t = ps \<Longrightarrow> \<not> tk_csi_overflowed t \<Longrightarrow> tk_modes (handle_csi f t) = g (tk_modes t)"
  shows "acts bs g"
  using assms by (simp add: acts_def csi_done ready_def reset_csi_def)


lemma parse_samples:
  "parse_params [48] = [0]" "parse_params [52, 59, 48] = [4, 0]" "parse_params [49, 48, 52, 57] = [1049]"
  "parse_params [52, 55] = [47]" "parse_params [50, 48, 48, 52] = [2004]" "parse_params [55] = [7]"
  "parse_params [49, 48, 48, 48] = [1000]" "parse_params [49, 48, 48, 50] = [1002]"
  "parse_params [49, 48, 48, 51] = [1003]" "parse_params [49, 48, 48, 54] = [1006]"
  by (simp_all add: parse_params_def saturating_mul_def saturating_add_def)

lemma params_ok:
  "csi_param 48" "csi_param 49" "csi_param 50" "csi_param 51" "csi_param 52" "csi_param 54" "csi_param 55"
  "csi_param 57" "csi_param 59" "csi_param 60" "csi_param 61" "csi_param 62" "csi_param 63"
  by code_simp+

lemma finals_ok: "is_csi_final 117" "is_csi_final 109" "is_csi_final 108" "is_csi_final 104" "is_csi_final 114"
  by code_simp+

lemmas acts_simps = handle_csi_def Let_def parse_samples params_ok finals_ok CSI_BUFFER_CAPACITY_def
  apply_private_mode_def

lemma acts_KITTY_POP:
  "acts KITTY_POP (\<lambda>m. m\<lparr>ms_kitty_keyboard_depth := saturating_sub (ms_kitty_keyboard_depth m) 1\<rparr>)"
  by (rule acts_csi [of _ "[60]" 117]) (simp_all add: KITTY_POP_def acts_simps)

lemma acts_KITTY_FLAGS_CLEAR: "acts KITTY_FLAGS_CLEAR (\<lambda>m. m\<lparr>ms_kitty_flags := 0\<rparr>)"
  by (rule acts_csi [of _ "[61, 48]" 117]) (simp_all add: KITTY_FLAGS_CLEAR_def acts_simps)

lemma acts_MODIFY_OTHER_KEYS_CLEAR: "acts MODIFY_OTHER_KEYS_CLEAR (\<lambda>m. m\<lparr>ms_modify_other_keys := 0\<rparr>)"
  by (rule acts_csi [of _ "[62, 52, 59, 48]" 109]) (simp_all add: MODIFY_OTHER_KEYS_CLEAR_def acts_simps)

lemma set_alt_screen_off [simp]:
  "tk_modes (set_alt_screen mode False t) = (tk_modes t)\<lparr>ms_alt_screen := None\<rparr>"
  by (cases "ms_alt_screen (tk_modes t)") (simp_all add: set_alt_screen_def Let_def)

lemma acts_ALT_SCREEN_1049_LEAVE: "acts ALT_SCREEN_1049_LEAVE (\<lambda>m. m\<lparr>ms_alt_screen := None\<rparr>)"
  by (rule acts_csi [of _ "[63, 49, 48, 52, 57]" 108]) (simp_all add: ALT_SCREEN_1049_LEAVE_def acts_simps)

lemma acts_ALT_SCREEN_47_LEAVE: "acts ALT_SCREEN_47_LEAVE (\<lambda>m. m\<lparr>ms_alt_screen := None\<rparr>)"
  by (rule acts_csi [of _ "[63, 52, 55]" 108]) (simp_all add: ALT_SCREEN_47_LEAVE_def acts_simps)

lemma acts_BRACKETED_PASTE_DISABLE: "acts BRACKETED_PASTE_DISABLE (\<lambda>m. m\<lparr>ms_bracketed_paste := False\<rparr>)"
  by (rule acts_csi [of _ "[63, 50, 48, 48, 52]" 108]) (simp_all add: BRACKETED_PASTE_DISABLE_def acts_simps)

lemma acts_DECAWM_ENABLE: "acts DECAWM_ENABLE (\<lambda>m. m\<lparr>ms_decawm := True\<rparr>)"
  by (rule acts_csi [of _ "[63, 55]" 104]) (simp_all add: DECAWM_ENABLE_def acts_simps)

lemma acts_SCROLL_REGION_RESET: "acts SCROLL_REGION_RESET (\<lambda>m. m\<lparr>ms_scroll_region_non_default := False\<rparr>)"
  by (rule acts_csi [of _ "[]" 114]) (simp_all add: SCROLL_REGION_RESET_def acts_simps scroll_region_non_default_def)

lemma private_mode_resets:
  "private_mode_reset 1000 = ESC # 91 # [63, 49, 48, 48, 48] @ [108]"
  "private_mode_reset 1002 = ESC # 91 # [63, 49, 48, 48, 50] @ [108]"
  "private_mode_reset 1003 = ESC # 91 # [63, 49, 48, 48, 51] @ [108]"
  "private_mode_reset 1006 = ESC # 91 # [63, 49, 48, 48, 54] @ [108]"
  by code_simp+

lemma acts_mouse_off:
  assumes "mode \<in> set MOUSE_MODES"
  shows "acts (private_mode_reset mode) (set_mouse_mode mode False)"
proof -
  have "acts (private_mode_reset 1000) (set_mouse_mode 1000 False)"
    by (rule acts_csi, rule private_mode_resets) (simp_all add: acts_simps)
  moreover have "acts (private_mode_reset 1002) (set_mouse_mode 1002 False)"
    by (rule acts_csi, rule private_mode_resets) (simp_all add: acts_simps)
  moreover have "acts (private_mode_reset 1003) (set_mouse_mode 1003 False)"
    by (rule acts_csi, rule private_mode_resets) (simp_all add: acts_simps)
  moreover have "acts (private_mode_reset 1006) (set_mouse_mode 1006 False)"
    by (rule acts_csi, rule private_mode_resets) (simp_all add: acts_simps)
  ultimately show ?thesis using assms by (auto simp: MOUSE_MODES_def)
qed


lemma acts_pops:
  "acts (concat (replicate n KITTY_POP))
     (\<lambda>m. m\<lparr>ms_kitty_keyboard_depth := word_of_nat (unat (ms_kitty_keyboard_depth m) - n)\<rparr>)"
proof (induction n)
  case 0
  then show ?case using acts_Nil by (simp add: id_def)
next
  case (Suc n)
  from acts_append [OF acts_KITTY_POP Suc.IH] show ?case by (simp add: o_def unat_saturating_sub)
qed

lemma list4: "length xs = 4 \<Longrightarrow> \<exists>a b c d. xs = [a, b, c, d]"
  by (auto simp: eval_nat_numeral length_Suc_conv)

lemma mouse_indices:
  "mouse_mode_index 1000 = Some 0" "mouse_mode_index 1002 = Some (Suc 0)"
  "mouse_mode_index 1003 = Some (Suc (Suc 0))" "mouse_mode_index 1006 = Some (Suc (Suc (Suc 0)))"
  by (simp_all add: mouse_mode_index_def)

lemma clear_mouse_fold:
  assumes "length (ms_mouse_modes m) = 4"
  shows "fold clear_mouse MOUSE_MODES ([], m) =
    (concat (map (\<lambda>mode. if is_mouse_mode_enabled m mode then private_mode_reset mode else []) MOUSE_MODES),
     m\<lparr>ms_mouse_modes := replicate 4 False\<rparr>)"
proof -
  from list4 [OF assms] obtain a b c d where "ms_mouse_modes m = [a, b, c, d]" by blast
  moreover have "replicate 4 False = [False, False, False, False]" by (simp add: eval_nat_numeral)
  ultimately show ?thesis
    by (cases m; cases a; cases b; cases c; cases d)
       (simp_all add: MOUSE_MODES_def clear_mouse_def is_mouse_mode_enabled_def mouse_indices
         set_mouse_mode_def)
qed

text \<open>
  The plan, read off the modes at its start.
\<close>

definition plan_of :: "TerminalModeState \<Rightarrow> bytes" where
  "plan_of m =
     concat (replicate (unat (ms_kitty_keyboard_depth m)) KITTY_POP) @
     (if ms_kitty_flags m \<noteq> 0 then KITTY_FLAGS_CLEAR else []) @
     (if ms_modify_other_keys m \<noteq> 0 then MODIFY_OTHER_KEYS_CLEAR else []) @
     (if ms_alt_screen m = Some Legacy47 then ALT_SCREEN_47_LEAVE else []) @
     (if ms_alt_screen m = Some Mode1049 then ALT_SCREEN_1049_LEAVE else []) @
     (if ms_bracketed_paste m then BRACKETED_PASTE_DISABLE else []) @
     concat (map (\<lambda>mode. if is_mouse_mode_enabled m mode then private_mode_reset mode else []) MOUSE_MODES) @
     (if \<not> ms_decawm m then DECAWM_ENABLE else []) @
     (if ms_scroll_region_non_default m then SCROLL_REGION_RESET else [])"

lemma is_mouse_mode_enabled_update [simp]:
  "is_mouse_mode_enabled (m\<lparr>ms_kitty_keyboard_depth := k\<rparr>) = is_mouse_mode_enabled m"
  "is_mouse_mode_enabled (m\<lparr>ms_kitty_flags := fl\<rparr>) = is_mouse_mode_enabled m"
  "is_mouse_mode_enabled (m\<lparr>ms_modify_other_keys := mk\<rparr>) = is_mouse_mode_enabled m"
  "is_mouse_mode_enabled (m\<lparr>ms_alt_screen := al\<rparr>) = is_mouse_mode_enabled m"
  "is_mouse_mode_enabled (m\<lparr>ms_bracketed_paste := bp\<rparr>) = is_mouse_mode_enabled m"
  by (simp_all add: fun_eq_iff is_mouse_mode_enabled_def split: option.split)

lemma modes_cong:
  "ms_kitty_keyboard_depth m = ms_kitty_keyboard_depth m' \<Longrightarrow> ms_kitty_flags m = ms_kitty_flags m' \<Longrightarrow>
   ms_alt_screen m = ms_alt_screen m' \<Longrightarrow> ms_bracketed_paste m = ms_bracketed_paste m' \<Longrightarrow>
   ms_mouse_modes m = ms_mouse_modes m' \<Longrightarrow> ms_modify_other_keys m = ms_modify_other_keys m' \<Longrightarrow>
   ms_decawm m = ms_decawm m' \<Longrightarrow> ms_scroll_region_non_default m = ms_scroll_region_non_default m' \<Longrightarrow>
   m = (m' :: TerminalModeState)"
  by simp

lemma cleanup_plan_eq:
  assumes "modes_wf (tk_modes t)"
  shows "cleanup_plan t =
    (t\<lparr>tk_modes := default_modes, tk_pending_alt_screen_kitty_reset := False\<rparr>, plan_of (tk_modes t))"
proof -
  have four: "length (ms_mouse_modes (tk_modes t)) = 4" using assms by (simp add: modes_wf_def)
  show ?thesis
    by (cases "ms_alt_screen (tk_modes t)"; cases "the (ms_alt_screen (tk_modes t))")
       (auto simp: cleanup_plan_def Let_def clear_mouse_fold four plan_of_def default_modes_def
         intro!: modes_cong)
qed


section \<open>The plan restores the defaults\<close>

text \<open>
  The plan without the pops of the kitty keyboard stack.
\<close>

definition tail_of :: "TerminalModeState \<Rightarrow> bytes" where
  "tail_of m =
     (if ms_kitty_flags m \<noteq> 0 then KITTY_FLAGS_CLEAR else []) @
     (if ms_modify_other_keys m \<noteq> 0 then MODIFY_OTHER_KEYS_CLEAR else []) @
     (if ms_alt_screen m = Some Legacy47 then ALT_SCREEN_47_LEAVE else []) @
     (if ms_alt_screen m = Some Mode1049 then ALT_SCREEN_1049_LEAVE else []) @
     (if ms_bracketed_paste m then BRACKETED_PASTE_DISABLE else []) @
     concat (map (\<lambda>mode. if is_mouse_mode_enabled m mode then private_mode_reset mode else []) MOUSE_MODES) @
     (if \<not> ms_decawm m then DECAWM_ENABLE else []) @
     (if ms_scroll_region_non_default m then SCROLL_REGION_RESET else [])"

lemma plan_of_tail:
  "plan_of m = concat (replicate (unat (ms_kitty_keyboard_depth m)) KITTY_POP) @ tail_of m"
  by (simp add: plan_of_def tail_of_def)

lemma acts_concat_map:
  "(\<And>x. x \<in> set xs \<Longrightarrow> acts (h x) (g x)) \<Longrightarrow> acts (concat (map h xs)) (fold g xs)"
  by (induction xs) (auto simp: acts_Nil intro: acts_append)

lemma acts_mouse_part:
  "acts (concat (map (\<lambda>mode. if is_mouse_mode_enabled m mode then private_mode_reset mode else []) MOUSE_MODES))
     (fold (\<lambda>mode. if is_mouse_mode_enabled m mode then set_mouse_mode mode False else id) MOUSE_MODES)"
  by (rule acts_concat_map) (rule acts_if, rule acts_mouse_off)

lemma mouse_part_off:
  assumes "length (ms_mouse_modes m) = 4" and "ms_mouse_modes n = ms_mouse_modes m"
  shows "fold (\<lambda>mode. if is_mouse_mode_enabled m mode then set_mouse_mode mode False else id) MOUSE_MODES n =
    n\<lparr>ms_mouse_modes := replicate 4 False\<rparr>"
proof -
  from list4 [OF assms(1)] obtain a b c d where "ms_mouse_modes m = [a, b, c, d]" by blast
  moreover have "replicate 4 False = [False, False, False, False]" by (simp add: eval_nat_numeral)
  ultimately show ?thesis using assms(2)
    by (cases n; cases a; cases b; cases c; cases d)
       (simp_all add: MOUSE_MODES_def is_mouse_mode_enabled_def mouse_indices set_mouse_mode_def)
qed

lemmas acts_parts = acts_KITTY_FLAGS_CLEAR acts_MODIFY_OTHER_KEYS_CLEAR acts_ALT_SCREEN_47_LEAVE
  acts_ALT_SCREEN_1049_LEAVE acts_BRACKETED_PASTE_DISABLE acts_mouse_part acts_DECAWM_ENABLE
  acts_SCROLL_REGION_RESET

lemma acts_tail:
  assumes "modes_wf m"
  shows "\<exists>f. acts (tail_of m) f \<and>
    (\<forall>d. f (m\<lparr>ms_kitty_keyboard_depth := d\<rparr>) = default_modes\<lparr>ms_kitty_keyboard_depth := d\<rparr>)"
proof (intro exI conjI)
  show "acts (tail_of m)
     ((if ms_scroll_region_non_default m then \<lambda>m. m\<lparr>ms_scroll_region_non_default := False\<rparr> else id) \<circ>
      (if \<not> ms_decawm m then \<lambda>m. m\<lparr>ms_decawm := True\<rparr> else id) \<circ>
      fold (\<lambda>mode. if is_mouse_mode_enabled m mode then set_mouse_mode mode False else id) MOUSE_MODES \<circ>
      (if ms_bracketed_paste m then \<lambda>m. m\<lparr>ms_bracketed_paste := False\<rparr> else id) \<circ>
      (if ms_alt_screen m = Some Mode1049 then \<lambda>m. m\<lparr>ms_alt_screen := None\<rparr> else id) \<circ>
      (if ms_alt_screen m = Some Legacy47 then \<lambda>m. m\<lparr>ms_alt_screen := None\<rparr> else id) \<circ>
      (if ms_modify_other_keys m \<noteq> 0 then \<lambda>m. m\<lparr>ms_modify_other_keys := 0\<rparr> else id) \<circ>
      (if ms_kitty_flags m \<noteq> 0 then \<lambda>m. m\<lparr>ms_kitty_flags := 0\<rparr> else id))" (is "acts _ ?f")
    unfolding tail_of_def by (intro acts_append acts_if acts_parts)
  have four: "length (ms_mouse_modes m) = 4" using assms by (simp add: modes_wf_def)
  show "\<forall>d. ?f (m\<lparr>ms_kitty_keyboard_depth := d\<rparr>) = default_modes\<lparr>ms_kitty_keyboard_depth := d\<rparr>"
    by (cases "ms_alt_screen m"; cases "the (ms_alt_screen m)")
       (auto simp: mouse_part_off four default_modes_def intro!: modes_cong)
qed


lemma acts_at:
  assumes "acts bs f" and "ready t"
  shows "ready (track_feed t bs)" and "tk_modes (track_feed t bs) = f (tk_modes t)"
  using assms by (simp_all add: acts_def)

lemma feed_tail:
  assumes "modes_wf m" and "ready t" and "tk_modes t = m\<lparr>ms_kitty_keyboard_depth := d\<rparr>"
  shows "tk_modes (track_feed t (tail_of m)) = default_modes\<lparr>ms_kitty_keyboard_depth := d\<rparr>"
  using acts_tail [OF assms(1)] acts_at(2) [OF _ assms(2)] assms(3) by auto

lemma feed_plan:
  assumes "modes_wf (tk_modes t)" and "ready t"
  shows "tk_modes (track_feed t (plan_of (tk_modes t))) = default_modes"
proof -
  let ?pops = "concat (replicate (unat (ms_kitty_keyboard_depth (tk_modes t))) KITTY_POP)"
  note pops = acts_at [OF acts_pops assms(2), of "unat (ms_kitty_keyboard_depth (tk_modes t))"]
  have "tk_modes (track_feed t ?pops) = (tk_modes t)\<lparr>ms_kitty_keyboard_depth := 0\<rparr>" using pops(2) by simp
  from feed_tail [OF assms(1) pops(1) this] show ?thesis
    by (simp add: plan_of_tail track_feed_append default_modes_def)
qed

text \<open>
  The states a tracker can be in: it is fed bytes and asked for its plans, in any order.
\<close>

inductive tracker_reach :: "TerminalModeTracker \<Rightarrow> bool" where
  new: "tracker_reach new_tracker"
| feed: "tracker_reach t \<Longrightarrow> tracker_reach (track_feed t bs)"
| cleanup: "tracker_reach t \<Longrightarrow> tracker_reach (fst (cleanup_plan t))"
| take_reset: "tracker_reach t \<Longrightarrow> tracker_reach (fst (take_alt_screen_leave_kitty_reset t))"

lemma default_wf: "modes_wf default_modes"
  by (simp add: modes_wf_def default_modes_def)

lemma take_reset_eq:
  assumes "modes_wf (tk_modes t)" and "tk_pending_alt_screen_kitty_reset t"
  shows "take_alt_screen_leave_kitty_reset t =
    (t\<lparr>tk_modes := default_modes, tk_pending_alt_screen_kitty_reset := False\<rparr>,
     (if 0 < ms_kitty_keyboard_depth (tk_modes t) then KITTY_POP else []) @ tail_of (tk_modes t))"
proof -
  let ?t = "t\<lparr>tk_pending_alt_screen_kitty_reset := False, tk_modes := (tk_modes t)\<lparr>ms_kitty_keyboard_depth := 0,
    ms_kitty_flags := 0, ms_modify_other_keys := 0\<rparr>\<rparr>"
  have "modes_wf (tk_modes ?t)" using assms(1) by (simp add: modes_wf_def)
  from cleanup_plan_eq [OF this] assms(2) show ?thesis
    by (simp add: take_alt_screen_leave_kitty_reset_def Let_def plan_of_tail tail_of_def)
qed

lemma reach_inv: "tracker_reach t \<Longrightarrow> tracker_inv t"
proof (induction rule: tracker_reach.induct)
  case (take_reset t)
  then show ?case
    by (cases "tk_pending_alt_screen_kitty_reset t")
       (simp add: tracker_inv_def take_reset_eq default_wf, simp add: take_alt_screen_leave_kitty_reset_def)
qed (auto simp: new_tracker_inv track_feed_inv, auto simp: tracker_inv_def cleanup_plan_eq default_wf)

text \<open>
  C17.  The cleanup plan is right.  Whatever the tracker has read, a terminal that interprets
  control sequences as the tracker does, and is not inside an operating system command, ends in
  its default modes when it receives the plan; the tracker records exactly these defaults, never
  counts more than 16 keyboard pushes and never buffers more than 64 bytes.
\<close>

theorem cleanup_restores:
  assumes "tracker_reach t" and "ready t"
  shows "tk_modes (track_feed t (snd (cleanup_plan t))) = default_modes \<and>
    tk_modes (fst (cleanup_plan t)) = default_modes \<and> snd (cleanup_plan (fst (cleanup_plan t))) = [] \<and>
    ms_kitty_keyboard_depth (tk_modes t) \<le> MAX_KITTY_DEPTH \<and> length (tk_csi t) \<le> CSI_BUFFER_CAPACITY"
proof -
  from reach_inv [OF assms(1)] have inv: "modes_wf (tk_modes t)" "length (tk_csi t) \<le> CSI_BUFFER_CAPACITY"
    by (simp_all add: tracker_inv_def)
  then have "ms_kitty_keyboard_depth (tk_modes t) \<le> MAX_KITTY_DEPTH" by (simp add: modes_wf_def)
  moreover have "plan_of default_modes = []"
    by (simp add: plan_of_def default_modes_def MOUSE_MODES_def is_mouse_mode_enabled_def mouse_indices
        numeral_eq_Suc)
  ultimately show ?thesis using inv feed_plan [OF inv(1) assms(2)]
    by (simp add: cleanup_plan_eq default_wf)
qed

text \<open>
  The reset after a program leaves the alternate screen restores every mode but pops the
  keyboard stack once: a terminal with a deeper stack keeps one entry less, while the tracker
  records an empty stack.
\<close>

lemma alt_leave_reset:
  assumes "tracker_reach t" and "ready t" and "tk_pending_alt_screen_kitty_reset t"
  shows "tk_modes (fst (take_alt_screen_leave_kitty_reset t)) = default_modes \<and>
    tk_modes (track_feed t (snd (take_alt_screen_leave_kitty_reset t))) =
      default_modes\<lparr>ms_kitty_keyboard_depth := saturating_sub (ms_kitty_keyboard_depth (tk_modes t)) 1\<rparr>"
proof -
  let ?m = "tk_modes t"
  from reach_inv [OF assms(1)] have wf: "modes_wf ?m" by (simp add: tracker_inv_def)
  let ?pop = "if 0 < ms_kitty_keyboard_depth ?m then KITTY_POP else []"
  from acts_KITTY_POP assms(2) have "ready (track_feed t ?pop)" "tk_modes (track_feed t ?pop) =
      ?m\<lparr>ms_kitty_keyboard_depth := saturating_sub (ms_kitty_keyboard_depth ?m) 1\<rparr>"
    by (auto simp: acts_def saturating_sub_def track_feed_def word_gt_0)
  from feed_tail [OF wf this] show ?thesis
    by (simp add: take_reset_eq [OF wf assms(3)] track_feed_append)
qed


text \<open>
  A session that pushed the keyboard mode twice, entered the alternate screen and turned the mouse on.
\<close>

definition demo_output :: bytes where
  "demo_output = [ESC, 91, 62, 49, 117, ESC, 91, 62, 49, 117, ESC, 91, 63, 49, 48, 52, 57, 104,
     ESC, 91, 63, 49, 48, 48, 54, 104]"

definition demo_leave :: bytes where
  "demo_leave = [ESC, 91, 63, 49, 48, 52, 57, 108]"


lemma demo_ready:
  "tk_parser (track_feed new_tracker demo_output) = PGround"
  "tk_parser (track_feed new_tracker (demo_output @ demo_leave)) = PGround"
  "tk_pending_alt_screen_kitty_reset (track_feed new_tracker (demo_output @ demo_leave))"
  "ms_kitty_keyboard_depth (tk_modes (track_feed new_tracker (demo_output @ demo_leave))) = 2"
  by code_simp+

theorem cleanup_restores_witness:
  "tk_modes (track_feed (track_feed new_tracker demo_output)
     (snd (cleanup_plan (track_feed new_tracker demo_output)))) = default_modes"
  using cleanup_restores [OF tracker_reach.feed [OF tracker_reach.new], of demo_output]
  by (simp add: ready_def demo_ready)

end
