(* ===== verification/Pty_Queue.thy ===== *)
theory Pty_Queue
  imports Prelude "HOL-Library.Sublist"
begin

text \<open>
  Input on its way to a pseudo terminal (shell_handler/pty_master.rs): the bounded queue of
  chunks that are not yet written, and the contract its clients rely on.  Lengths are natural
  numbers; the one addition that could exceed the machine's range saturates as in the code.
\<close>

section \<open>The queue of the code\<close>

definition DEFAULT_PTY_INPUT_QUEUE_BYTES :: nat where
  "DEFAULT_PTY_INPUT_QUEUE_BYTES = 1024 * 1024"

record PendingPtyWrite =
  pw_chunks :: "bytes list"
  pw_front_offset :: nat
  pw_pending_bytes :: nat
  pw_max_bytes :: nat

definition new_pending :: "nat \<Rightarrow> PendingPtyWrite" where
  "new_pending max_bytes =
     \<lparr>pw_chunks = [], pw_front_offset = 0, pw_pending_bytes = 0, pw_max_bytes = max_bytes\<rparr>"

definition usize_saturating_add :: "nat \<Rightarrow> nat \<Rightarrow> nat" where
  "usize_saturating_add a b = min (a + b) (2 ^ 64 - 1)"

definition pw_push :: "bytes \<Rightarrow> PendingPtyWrite \<Rightarrow> string + PendingPtyWrite" where
  "pw_push bs q =
     (if bs = [] then Inr q
      else if usize_saturating_add (pw_pending_bytes q) (length bs) > pw_max_bytes q
      then Inl ''pty input queue is full''
      else Inr (q\<lparr>pw_pending_bytes := pw_pending_bytes q + length bs, pw_chunks := pw_chunks q @ [bs]\<rparr>))"

definition front_chunk :: "PendingPtyWrite \<Rightarrow> bytes option" where
  "front_chunk q =
     (case pw_chunks q of
        [] \<Rightarrow> None
      | chunk # _ \<Rightarrow>
          (let rest = drop (pw_front_offset q) chunk in if rest = [] then None else Some rest))"

function consume_loop :: "nat \<Rightarrow> PendingPtyWrite \<Rightarrow> PendingPtyWrite" where
  "consume_loop remaining q =
     (if remaining = 0 then q
      else case pw_chunks q of
        [] \<Rightarrow> q\<lparr>pw_front_offset := 0\<rparr>
      | front # rest \<Rightarrow>
          (let available = length front - pw_front_offset q in
           if remaining < available
           then q\<lparr>pw_front_offset := pw_front_offset q + remaining,
                  pw_pending_bytes := pw_pending_bytes q - remaining\<rparr>
           else consume_loop (remaining - available)
                  (q\<lparr>pw_pending_bytes := pw_pending_bytes q - available, pw_chunks := rest,
                     pw_front_offset := 0\<rparr>)))"
  by pat_completeness auto
termination
  by (relation "measure (\<lambda>(_, q). length (pw_chunks q))") auto

declare consume_loop.simps [simp del]

definition consume :: "nat \<Rightarrow> PendingPtyWrite \<Rightarrow> PendingPtyWrite" where
  "consume written q = consume_loop (min written (pw_pending_bytes q)) q"

definition pw_clear :: "PendingPtyWrite \<Rightarrow> PendingPtyWrite" where
  "pw_clear q = q\<lparr>pw_chunks := [], pw_front_offset := 0, pw_pending_bytes := 0\<rparr>"

definition pw_is_empty :: "PendingPtyWrite \<Rightarrow> bool" where
  "pw_is_empty q \<longleftrightarrow> pw_pending_bytes q = 0"


section \<open>The contract of a bounded byte queue\<close>

text \<open>
  A client pushes chunks, looks at the front, consumes what was written of it, and clears.  The
  queue is a byte list of bounded length; chunk boundaries are not part of the contract.
\<close>

locale byte_queue =
  fixes push :: "bytes \<Rightarrow> 'q \<Rightarrow> 'e + 'q"
    and front :: "'q \<Rightarrow> bytes option"
    and eat :: "nat \<Rightarrow> 'q \<Rightarrow> 'q"
    and clear :: "'q \<Rightarrow> 'q"
    and empty :: "'q \<Rightarrow> bool"
    and content :: "'q \<Rightarrow> bytes"
    and capacity :: "'q \<Rightarrow> nat"
    and inv :: "'q \<Rightarrow> bool"
  assumes push_accepts: "inv q \<Longrightarrow> length (content q) + length bs \<le> capacity q \<Longrightarrow>
      \<exists>q'. push bs q = Inr q' \<and> inv q' \<and> content q' = content q @ bs \<and> capacity q' = capacity q"
    and push_refuses: "inv q \<Longrightarrow> capacity q < length (content q) + length bs \<Longrightarrow> \<not> is_ok (push bs q)"
    and bounded: "inv q \<Longrightarrow> length (content q) \<le> capacity q"
    and front_law: "inv q \<Longrightarrow> (case front q of
        None \<Rightarrow> content q = [] | Some c \<Rightarrow> c \<noteq> [] \<and> prefix c (content q))"
    and eat_law: "inv q \<Longrightarrow> n \<le> length (content q) \<Longrightarrow>
      inv (eat n q) \<and> content (eat n q) = drop n (content q) \<and> capacity (eat n q) = capacity q"
    and clear_law: "inv q \<Longrightarrow> inv (clear q) \<and> content (clear q) = [] \<and> capacity (clear q) = capacity q"
    and empty_law: "inv q \<Longrightarrow> empty q \<longleftrightarrow> content q = []"
begin

lemma push_cases:
  assumes "inv q"
  obtains q' where "push bs q = Inr q'" "inv q'" "content q' = content q @ bs" "capacity q' = capacity q"
    "length (content q) + length bs \<le> capacity q"
  | e where "push bs q = Inl e" "capacity q < length (content q) + length bs"
proof (cases "length (content q) + length bs \<le> capacity q")
  case True
  with push_accepts [OF assms True] that(1) show ?thesis by blast
next
  case False
  with push_refuses [OF assms, of bs] that(2) show ?thesis by (cases "push bs q") auto
qed

lemma push_Inr:
  assumes "inv q" and "push bs q = Inr q'"
  shows "inv q'" and "content q' = content q @ bs" and "capacity q' = capacity q"
  using push_cases [OF assms(1), of bs] assms(2) by auto

text \<open>
  One write of at most the front chunk takes the written bytes off the queue, in order.
\<close>

lemma write_front:
  assumes "inv q" and "front q = Some c" and "n \<le> length c"
  shows "inv (eat n q)" and "take n c @ content (eat n q) = content q" and "capacity (eat n q) = capacity q"
proof -
  from front_law [OF assms(1)] assms(2) obtain r where r: "content q = c @ r" by (auto simp: prefix_def)
  with eat_law [OF assms(1), of n] assms(3)
  show "inv (eat n q)" "take n c @ content (eat n q) = content q" "capacity (eat n q) = capacity q" by auto
qed

lemma not_empty_front: "inv q \<Longrightarrow> \<not> empty q \<Longrightarrow> \<exists>c. front q = Some c \<and> c \<noteq> [] \<and> prefix c (content q)"
  using front_law [of q] empty_law [of q] by (auto split: option.splits)

end


section \<open>The queue of the code satisfies the contract\<close>

definition pw_content :: "PendingPtyWrite \<Rightarrow> bytes" where
  "pw_content q = drop (pw_front_offset q) (concat (pw_chunks q))"

definition pw_inv :: "PendingPtyWrite \<Rightarrow> bool" where
  "pw_inv q \<longleftrightarrow> [] \<notin> set (pw_chunks q) \<and>
     (case pw_chunks q of [] \<Rightarrow> pw_front_offset q = 0 | c # _ \<Rightarrow> pw_front_offset q < length c) \<and>
     pw_pending_bytes q = length (pw_content q) \<and>
     pw_pending_bytes q \<le> pw_max_bytes q \<and> pw_max_bytes q < 2 ^ 64 - 1"

lemma new_pending_inv: "m < 2 ^ 64 - 1 \<Longrightarrow> pw_inv (new_pending m)"
  by (simp add: pw_inv_def new_pending_def pw_content_def)

lemma pw_content_Cons:
  "pw_chunks q = c # cs \<Longrightarrow> pw_front_offset q < length c \<Longrightarrow>
   pw_content q = drop (pw_front_offset q) c @ concat cs"
  by (simp add: pw_content_def)

lemma pw_push_accepts:
  assumes "pw_inv q" and "length (pw_content q) + length bs \<le> pw_max_bytes q"
  shows "\<exists>q'. pw_push bs q = Inr q' \<and> pw_inv q' \<and> pw_content q' = pw_content q @ bs \<and>
    pw_max_bytes q' = pw_max_bytes q"
proof (cases "bs = []")
  case False
  let ?q = "q\<lparr>pw_pending_bytes := pw_pending_bytes q + length bs, pw_chunks := pw_chunks q @ [bs]\<rparr>"
  have off: "pw_front_offset q \<le> length (concat (pw_chunks q))"
    using assms(1) by (cases "pw_chunks q") (auto simp: pw_inv_def)
  then have content: "pw_content ?q = pw_content q @ bs" by (simp add: pw_content_def)
  have "pw_inv ?q" using assms False content
    by (cases "pw_chunks q") (auto simp: pw_inv_def)
  moreover have "pw_push bs q = Inr ?q"
    using assms False by (simp add: pw_push_def usize_saturating_add_def pw_inv_def)
  ultimately show ?thesis using content by simp
qed (use assms in \<open>simp add: pw_push_def\<close>)

lemma pw_push_refuses:
  assumes "pw_inv q" and "pw_max_bytes q < length (pw_content q) + length bs"
  shows "\<not> is_ok (pw_push bs q)"
proof -
  have "bs \<noteq> []" using assms by (auto simp: pw_inv_def)
  then show ?thesis using assms
    by (simp add: pw_push_def usize_saturating_add_def pw_inv_def)
qed

lemma front_chunk_law:
  assumes "pw_inv q"
  shows "case front_chunk q of
    None \<Rightarrow> pw_content q = [] | Some c \<Rightarrow> c \<noteq> [] \<and> prefix c (pw_content q)"
proof (cases "pw_chunks q")
  case Nil
  then show ?thesis using assms by (simp add: front_chunk_def pw_inv_def pw_content_def)
next
  case (Cons c cs)
  then show ?thesis using assms by (auto simp: front_chunk_def pw_inv_def pw_content_Cons Let_def)
qed


lemma consume_loop_law:
  assumes "pw_inv q" and "n \<le> length (pw_content q)"
  shows "pw_inv (consume_loop n q) \<and> pw_content (consume_loop n q) = drop n (pw_content q) \<and>
    pw_max_bytes (consume_loop n q) = pw_max_bytes q"
  using assms
proof (induction n q rule: consume_loop.induct)
  case (1 n q)
  show ?case
  proof (cases "n = 0")
    case True
    then show ?thesis using "1.prems" by (simp add: consume_loop.simps)
  next
    case False
    with "1.prems" obtain c cs where q: "pw_chunks q = c # cs"
      by (cases "pw_chunks q") (auto simp: pw_content_def)
    with "1.prems" have off: "pw_front_offset q < length c" by (simp add: pw_inv_def)
    note content = pw_content_Cons [OF q off]
    show ?thesis
    proof (cases "n < length c - pw_front_offset q")
      case True
      let ?q = "q\<lparr>pw_front_offset := pw_front_offset q + n, pw_pending_bytes := pw_pending_bytes q - n\<rparr>"
      have "pw_content ?q = drop n (pw_content q)" using True q by (simp add: pw_content_def add.commute)
      moreover have "consume_loop n q = ?q"
        using True False q by (simp add: consume_loop.simps [of n q] Let_def)
      ultimately show ?thesis using "1.prems" True q by (auto simp: pw_inv_def)
    next
      case more: False
      let ?a = "length c - pw_front_offset q"
      let ?q = "q\<lparr>pw_pending_bytes := pw_pending_bytes q - ?a, pw_chunks := cs, pw_front_offset := 0\<rparr>"
      have c': "pw_content ?q = drop ?a (pw_content q)" using content off by (simp add: pw_content_def)
      have "pw_inv ?q" using "1.prems"(1) q off c' content
        by (cases cs) (auto simp: pw_inv_def)
      moreover have "n - ?a \<le> length (pw_content ?q)" using "1.prems"(2) c' by simp
      ultimately have "pw_inv (consume_loop (n - ?a) ?q) \<and>
          pw_content (consume_loop (n - ?a) ?q) = drop (n - ?a) (pw_content ?q) \<and>
          pw_max_bytes (consume_loop (n - ?a) ?q) = pw_max_bytes ?q"
        using "1.IH" [OF False q refl more] by blast
      moreover have "consume_loop n q = consume_loop (n - ?a) ?q"
        using False more q by (simp add: consume_loop.simps [of n q] Let_def)
      ultimately show ?thesis using c' more by simp
    qed
  qed
qed

lemma consume_law:
  assumes "pw_inv q" and "n \<le> length (pw_content q)"
  shows "pw_inv (consume n q) \<and> pw_content (consume n q) = drop n (pw_content q) \<and>
    pw_max_bytes (consume n q) = pw_max_bytes q"
proof -
  have "min n (pw_pending_bytes q) = n" using assms by (simp add: pw_inv_def)
  then show ?thesis using consume_loop_law [OF assms] by (simp add: consume_def)
qed

lemma pw_clear_law:
  "pw_inv q \<Longrightarrow> pw_inv (pw_clear q) \<and> pw_content (pw_clear q) = [] \<and> pw_max_bytes (pw_clear q) = pw_max_bytes q"
  by (simp add: pw_inv_def pw_clear_def pw_content_def)

interpretation pty_queue: byte_queue pw_push front_chunk consume pw_clear pw_is_empty pw_content pw_max_bytes pw_inv
proof unfold_locales
  fix q bs n assume q: "pw_inv q"
  show "length (pw_content q) \<le> pw_max_bytes q" using q by (simp add: pw_inv_def)
  show "pw_is_empty q \<longleftrightarrow> pw_content q = []" using q by (simp add: pw_inv_def pw_is_empty_def)
qed (fact pw_push_accepts pw_push_refuses front_chunk_law consume_law pw_clear_law)+

text \<open>
  C32.  The queue is a bounded byte queue.  Pushing appends the bytes or, exactly when they do not
  fit, fails and leaves the queue alone; consuming any number of queued bytes, across chunk
  boundaries, removes exactly that many from the front; the front chunk is a nonempty start of
  the queue unless the queue is empty.
\<close>

theorem pty_queue_refines:
  assumes "pw_inv q"
  shows "(case pw_push bs q of
      Inl e \<Rightarrow> e = ''pty input queue is full'' \<and> pw_max_bytes q < length (pw_content q) + length bs
    | Inr q' \<Rightarrow> pw_inv q' \<and> pw_content q' = pw_content q @ bs \<and> length (pw_content q') \<le> pw_max_bytes q) \<and>
    (n \<le> length (pw_content q) \<longrightarrow> pw_inv (consume n q) \<and> pw_content (consume n q) = drop n (pw_content q)) \<and>
    (case front_chunk q of None \<Rightarrow> pw_is_empty q | Some c \<Rightarrow> c \<noteq> [] \<and> prefix c (pw_content q))"
proof -
  have "case pw_push bs q of
      Inl e \<Rightarrow> e = ''pty input queue is full'' \<and> pw_max_bytes q < length (pw_content q) + length bs
    | Inr q' \<Rightarrow> pw_inv q' \<and> pw_content q' = pw_content q @ bs \<and> length (pw_content q') \<le> pw_max_bytes q"
    using assms
  proof (cases rule: pty_queue.push_cases [of q bs])
    case (2 e)
    then show ?thesis by (auto simp: pw_push_def split: if_splits)
  qed auto
  then show ?thesis
    using pty_queue.front_law [OF assms] pty_queue.eat_law [OF assms] pty_queue.empty_law [OF assms]
    by (auto split: option.splits)
qed

theorem pty_queue_refines_witness:
  "pw_content (consume 3 \<lparr>pw_chunks = [[1, 2], [3, 4]], pw_front_offset = 1, pw_pending_bytes = 3,
     pw_max_bytes = 8\<rparr>) = []"
proof -
  have "pw_inv \<lparr>pw_chunks = [[1, 2], [3, 4]], pw_front_offset = 1, pw_pending_bytes = 3, pw_max_bytes = 8\<rparr>"
    by (simp add: pw_inv_def pw_content_def)
  from pty_queue_refines [OF this, where n = 3] show ?thesis by (simp add: pw_content_def)
qed

end
