(* ===== verification/Pty_Task.thy ===== *)
theory Pty_Task
  imports Pty_Queue
begin

text \<open>
  The task that owns the master side of a session's pseudo terminal (pty_master_task in
  shell_handler/pty_master.rs).  Its loop waits for one of five events, in a fixed priority; an
  event of the model is one turn of the loop, together with what the operating system answered.
  Two ghost fields record the bytes the terminal has received and the input messages taken.
\<close>

datatype StdinMessage = Data bytes | StdinClose

datatype PtyCommand = Resize u16 u16 | PtyClose bool | KickOthers

datatype WriteAnswer = Wrote nat | WouldBlock | WriteError string

datatype ReadAnswer = ReadBytes bytes | ReadEof | ReadError string

record PtyTask =
  pt_commands :: "PtyCommand list"
  pt_stdin :: "StdinMessage list"
  pt_stdin_open :: bool
  pt_draining :: bool
  pt_pending :: PendingPtyWrite
  pt_size :: "(u16 \<times> u16) option"
  pt_stdout :: "bytes list"
  pt_written :: bytes
  pt_taken :: "StdinMessage list"
  pt_result :: "(string + unit) option"

datatype PtyEvent =
    SendCommand PtyCommand
  | SendStdin StdinMessage
  | RecvCommand bool
  | RecvStdin
  | DrainElapsed
  | WriteReady WriteAnswer
  | ReadReady ReadAnswer bool

definition new_task :: PtyTask where
  "new_task = \<lparr>pt_commands = [], pt_stdin = [], pt_stdin_open = True, pt_draining = False,
     pt_pending = new_pending DEFAULT_PTY_INPUT_QUEUE_BYTES, pt_size = None, pt_stdout = [],
     pt_written = [], pt_taken = [], pt_result = None\<rparr>"

definition take_data :: "string \<Rightarrow> bytes \<Rightarrow> PtyTask \<Rightarrow> PtyTask" where
  "take_data what bs t =
     (case pw_push bs (pt_pending t) of
        Inl err \<Rightarrow> t\<lparr>pt_result := Some (Inl (what @ '': '' @ err))\<rparr>
      | Inr q \<Rightarrow> t\<lparr>pt_pending := q, pt_taken := pt_taken t @ [Data bs]\<rparr>)"

fun drain_stdin :: "StdinMessage list \<Rightarrow> PtyTask \<Rightarrow> PtyTask" where
  "drain_stdin [] t = t\<lparr>pt_stdin := [], pt_draining := True\<rparr>"
| "drain_stdin (Data bs # ms) t =
     (let t1 = take_data ''queue pty stdin on close'' bs t
      in if pt_result t1 \<noteq> None then t1\<lparr>pt_stdin := ms\<rparr> else drain_stdin ms t1)"
| "drain_stdin (StdinClose # ms) t =
     t\<lparr>pt_stdin := ms, pt_stdin_open := False, pt_taken := pt_taken t @ [StdinClose], pt_draining := True\<rparr>"

definition on_command :: "bool \<Rightarrow> PtyCommand \<Rightarrow> PtyTask \<Rightarrow> PtyTask" where
  "on_command resize_ok cmd t =
     (case cmd of
        Resize rows cols \<Rightarrow>
          if pt_draining t then t
          else if resize_ok then t\<lparr>pt_size := Some (rows, cols)\<rparr>
          else t\<lparr>pt_result := Some (Inl ''resize pty'')\<rparr>
      | PtyClose force \<Rightarrow>
          if force then t\<lparr>pt_result := Some (Inr ())\<rparr>
          else if pt_draining t then t
          else drain_stdin (pt_stdin t) t
      | KickOthers \<Rightarrow> t)"

definition on_stdin :: "StdinMessage \<Rightarrow> PtyTask \<Rightarrow> PtyTask" where
  "on_stdin msg t =
     (case msg of
        Data bs \<Rightarrow> take_data ''queue pty stdin'' bs t
      | StdinClose \<Rightarrow> t\<lparr>pt_stdin_open := False, pt_taken := pt_taken t @ [StdinClose]\<rparr>)"

definition write_one_pending_pty_chunk :: "WriteAnswer \<Rightarrow> PtyTask \<Rightarrow> PtyTask" where
  "write_one_pending_pty_chunk answer t =
     (case front_chunk (pt_pending t) of
        None \<Rightarrow> t
      | Some bs \<Rightarrow>
          (case answer of
             Wrote n \<Rightarrow>
               if n = 0 then t\<lparr>pt_result := Some (Inl ''write pty stdin: pty write returned zero bytes'')\<rparr>
               else t\<lparr>pt_pending := consume n (pt_pending t), pt_written := pt_written t @ take n bs\<rparr>
           | WouldBlock \<Rightarrow> t
           | WriteError err \<Rightarrow> t\<lparr>pt_result := Some (Inl (''write pty stdin: '' @ err))\<rparr>))"

definition on_read :: "ReadAnswer \<Rightarrow> bool \<Rightarrow> PtyTask \<Rightarrow> PtyTask" where
  "on_read answer receiver_alive t =
     (case answer of
        ReadBytes chunk \<Rightarrow>
          if receiver_alive then t\<lparr>pt_stdout := pt_stdout t @ [chunk]\<rparr> else t\<lparr>pt_result := Some (Inr ())\<rparr>
      | ReadEof \<Rightarrow> t\<lparr>pt_result := Some (Inr ())\<rparr>
      | ReadError err \<Rightarrow> t\<lparr>pt_result := Some (Inl (''read pty output: '' @ err))\<rparr>)"

text \<open>
  The arms of the loop and when each can be chosen: a command goes before everything, input
  before the rest, and nothing happens once the task has returned.
\<close>

definition stdin_ready :: "PtyTask \<Rightarrow> bool" where
  "stdin_ready t \<longleftrightarrow> pt_stdin_open t \<and> \<not> pt_draining t \<and> pt_stdin t \<noteq> []"

fun enabled :: "PtyTask \<Rightarrow> PtyEvent \<Rightarrow> bool" where
  "enabled t (SendCommand c) = True"
| "enabled t (SendStdin m) = True"
| "enabled t (RecvCommand ok) = (pt_result t = None \<and> pt_commands t \<noteq> [])"
| "enabled t RecvStdin = (pt_result t = None \<and> pt_commands t = [] \<and> stdin_ready t)"
| "enabled t DrainElapsed =
     (pt_result t = None \<and> pt_commands t = [] \<and> \<not> stdin_ready t \<and> pt_draining t)"
| "enabled t (WriteReady a) =
     (pt_result t = None \<and> pt_commands t = [] \<and> \<not> stdin_ready t \<and> \<not> pw_is_empty (pt_pending t) \<and>
      (case a of
         Wrote n \<Rightarrow> n \<le> (case front_chunk (pt_pending t) of None \<Rightarrow> 0 | Some bs \<Rightarrow> length bs)
       | _ \<Rightarrow> True))"
| "enabled t (ReadReady a alive) = (pt_result t = None \<and> pt_commands t = [] \<and> \<not> stdin_ready t)"

fun pty_step :: "PtyTask \<Rightarrow> PtyEvent \<Rightarrow> PtyTask" where
  "pty_step t (SendCommand c) = t\<lparr>pt_commands := pt_commands t @ [c]\<rparr>"
| "pty_step t (SendStdin m) = t\<lparr>pt_stdin := pt_stdin t @ [m]\<rparr>"
| "pty_step t (RecvCommand ok) = on_command ok (hd (pt_commands t)) (t\<lparr>pt_commands := tl (pt_commands t)\<rparr>)"
| "pty_step t RecvStdin = on_stdin (hd (pt_stdin t)) (t\<lparr>pt_stdin := tl (pt_stdin t)\<rparr>)"
| "pty_step t DrainElapsed = t\<lparr>pt_result := Some (Inr ())\<rparr>"
| "pty_step t (WriteReady a) = write_one_pending_pty_chunk a t"
| "pty_step t (ReadReady a alive) = on_read a alive t"

inductive pty_run :: "PtyTask \<Rightarrow> PtyEvent list \<Rightarrow> PtyTask \<Rightarrow> bool" where
  none: "pty_run t [] t"
| event: "enabled t e \<Longrightarrow> pty_run (pty_step t e) es u \<Longrightarrow> pty_run t (e # es) u"

inductive_cases pty_run_Cons: "pty_run t (e # es) u"

fun pty_exec :: "PtyTask \<Rightarrow> PtyEvent list \<Rightarrow> PtyTask option" where
  "pty_exec t [] = Some t"
| "pty_exec t (e # es) = (if enabled t e then pty_exec (pty_step t e) es else None)"

lemma pty_exec_run: "pty_exec t es = Some u \<longleftrightarrow> pty_run t es u"
  by (induction es arbitrary: t) (auto intro: pty_run.intros elim: pty_run.cases pty_run_Cons)


section \<open>Invariant\<close>

fun data_of :: "StdinMessage list \<Rightarrow> bytes" where
  "data_of [] = []"
| "data_of (Data bs # ms) = bs @ data_of ms"
| "data_of (StdinClose # ms) = data_of ms"

lemma data_of_append [simp]: "data_of (xs @ ys) = data_of xs @ data_of ys"
  by (induction xs rule: data_of.induct) simp_all

definition task_inv :: "PtyTask \<Rightarrow> bool" where
  "task_inv t \<longleftrightarrow> pw_inv (pt_pending t) \<and> pw_max_bytes (pt_pending t) = DEFAULT_PTY_INPUT_QUEUE_BYTES \<and>
     pt_written t @ pw_content (pt_pending t) = data_of (pt_taken t)"

lemma new_task_inv: "task_inv new_task"
  using new_pending_inv [of DEFAULT_PTY_INPUT_QUEUE_BYTES]
  by (simp add: task_inv_def new_task_def DEFAULT_PTY_INPUT_QUEUE_BYTES_def) 
     (simp add: new_pending_def pw_content_def)

lemma take_data_inv:
  assumes "task_inv t"
  shows "task_inv (take_data what bs t)"
proof -
  have "pw_inv (pt_pending t)" using assms by (simp add: task_inv_def)
  then show ?thesis using assms
    by (cases rule: pty_queue.push_cases [of "pt_pending t" bs])
       (auto simp: take_data_def task_inv_def)
qed

lemma drain_stdin_inv: "task_inv t \<Longrightarrow> task_inv (drain_stdin ms t)"
proof (induction ms t rule: drain_stdin.induct)
  case (2 bs ms t)
  then show ?case
    using take_data_inv [of t "''queue pty stdin on close''" bs] by (auto simp: Let_def task_inv_def)
qed (auto simp: task_inv_def)

lemma write_one_inv:
  assumes "task_inv t" and "enabled t (WriteReady a)"
  shows "task_inv (write_one_pending_pty_chunk a t)"
proof (cases "front_chunk (pt_pending t)")
  case None
  then show ?thesis using assms(1) by (simp add: write_one_pending_pty_chunk_def)
next
  case (Some c)
  have inv: "pw_inv (pt_pending t)" using assms(1) by (simp add: task_inv_def)
  show ?thesis
  proof (cases a)
    case (Wrote n)
    then have "n \<le> length c" using assms(2) Some by simp
    from pty_queue.write_front [OF inv Some this] assms(1) Some Wrote show ?thesis
      by (auto simp: task_inv_def write_one_pending_pty_chunk_def)
  qed (use assms(1) Some in \<open>auto simp: task_inv_def write_one_pending_pty_chunk_def\<close>)
qed

lemma pty_step_inv: "task_inv t \<Longrightarrow> enabled t e \<Longrightarrow> task_inv (pty_step t e)"
proof (cases e)
  case (RecvCommand ok)
  assume "task_inv t"
  then show ?thesis unfolding RecvCommand
    using drain_stdin_inv [of "t\<lparr>pt_commands := tl (pt_commands t)\<rparr>" "pt_stdin t"]
    by (cases "hd (pt_commands t)") (auto simp: on_command_def task_inv_def)
next
  case RecvStdin
  assume "task_inv t"
  then show ?thesis unfolding RecvStdin
    using take_data_inv [of "t\<lparr>pt_stdin := tl (pt_stdin t)\<rparr>" "''queue pty stdin''"]
    by (cases "hd (pt_stdin t)") (auto simp: on_stdin_def task_inv_def)
next
  case (ReadReady a alive)
  assume "task_inv t"
  then show ?thesis unfolding ReadReady by (cases a) (auto simp: on_read_def task_inv_def)
qed (auto simp: write_one_inv, auto simp: task_inv_def)



section \<open>No input is lost, repeated or reordered\<close>

fun sent_of :: "PtyEvent list \<Rightarrow> StdinMessage list" where
  "sent_of [] = []"
| "sent_of (SendStdin m # es) = m # sent_of es"
| "sent_of (_ # es) = sent_of es"

text \<open>
  Every message sent is taken or waiting, except the one a failed push was called with.
\<close>

definition accounted :: "StdinMessage list \<Rightarrow> PtyTask \<Rightarrow> bool" where
  "accounted ms t \<longleftrightarrow> ms = pt_taken t @ pt_stdin t \<or>
     (\<exists>e m. pt_result t = Some (Inl e) \<and> ms = pt_taken t @ m # pt_stdin t)"

lemma take_data_frame [simp]:
  "pt_stdin (take_data w bs t) = pt_stdin t" "pt_commands (take_data w bs t) = pt_commands t"
  "pt_stdin_open (take_data w bs t) = pt_stdin_open t" "pt_draining (take_data w bs t) = pt_draining t"
  "pt_written (take_data w bs t) = pt_written t"
  by (simp_all add: take_data_def split: sum.split)

lemma take_data_result:
  "pt_result t = None \<Longrightarrow>
    (pt_result (take_data w bs t) = None \<and> pt_taken (take_data w bs t) = pt_taken t @ [Data bs]) \<or>
    ((\<exists>e. pt_result (take_data w bs t) = Some (Inl e)) \<and> pt_taken (take_data w bs t) = pt_taken t)"
  by (simp add: take_data_def split: sum.split)

lemma drain_stdin_accounted:
  "pt_result t = None \<Longrightarrow> accounted (pt_taken t @ ms) (drain_stdin ms t)"
proof (induction ms t rule: drain_stdin.induct)
  case (2 bs ms t)
  let ?t = "take_data ''queue pty stdin on close'' bs t"
  from take_data_result [OF "2.prems", of "''queue pty stdin on close''" bs] show ?case
  proof
    assume ok: "pt_result ?t = None \<and> pt_taken ?t = pt_taken t @ [Data bs]"
    then have "accounted (pt_taken ?t @ ms) (drain_stdin ms ?t)" using "2.IH" by simp
    with ok show ?thesis by simp
  next
    assume "(\<exists>e. pt_result ?t = Some (Inl e)) \<and> pt_taken ?t = pt_taken t"
    then show ?thesis by (auto simp: accounted_def Let_def)
  qed
qed (simp_all add: accounted_def)

lemma pty_step_accounted:
  assumes "accounted ms t" and "enabled t e"
  shows "accounted (ms @ sent_of [e]) (pty_step t e)"
proof (cases "pt_result t")
  case None
  then have ms: "ms = pt_taken t @ pt_stdin t" using assms(1) by (simp add: accounted_def)
  show ?thesis
  proof (cases e)
    case (RecvCommand ok)
    then show ?thesis
      using None ms drain_stdin_accounted [of "t\<lparr>pt_commands := tl (pt_commands t)\<rparr>" "pt_stdin t"]
      by (cases "hd (pt_commands t)") (auto simp: on_command_def, auto simp: accounted_def)
  next
    case RecvStdin
    then obtain m rest where rest: "pt_stdin t = m # rest"
      using assms(2) by (cases "pt_stdin t") (auto simp: stdin_ready_def)
    show ?thesis
    proof (cases m)
      case (Data bs)
      then show ?thesis using RecvStdin None ms rest
          take_data_result [of "t\<lparr>pt_stdin := rest\<rparr>" "''queue pty stdin''" bs]
        by (auto simp: on_stdin_def accounted_def)
    qed (use RecvStdin None ms rest in \<open>auto simp: on_stdin_def accounted_def\<close>)
  next
    case (WriteReady a)
    then show ?thesis using ms
      by (auto simp: accounted_def write_one_pending_pty_chunk_def split: option.split WriteAnswer.split)
  next
    case (ReadReady a alive)
    then show ?thesis using ms by (cases a) (auto simp: accounted_def on_read_def)
  qed (use ms in \<open>auto simp: accounted_def\<close>)
next
  case (Some r)
  then show ?thesis using assms by (cases e) (auto simp: accounted_def)
qed

lemma sent_of_Cons: "sent_of (e # es) = sent_of [e] @ sent_of es"
  by (cases e) simp_all

lemma pty_run_inv:
  assumes "pty_run t es u" and "task_inv t" and "accounted ms t"
  shows "task_inv u \<and> accounted (ms @ sent_of es) u"
  using assms
proof (induction arbitrary: ms rule: pty_run.induct)
  case (none t)
  then show ?case by simp
next
  case (event t e es u)
  have "task_inv u \<and> accounted ((ms @ sent_of [e]) @ sent_of es) u"
    using event by (intro event.IH pty_step_inv pty_step_accounted)
  then show ?case by (simp add: sent_of_Cons [of e es])
qed

lemma reachable_task:
  assumes "pty_run new_task es u"
  shows "task_inv u" and "accounted (sent_of es) u"
  using pty_run_inv [OF assms new_task_inv, of "[]"] by (simp_all add: accounted_def new_task_def)

text \<open>
  C33.  Input reaches the terminal in order.  In every run of the task, whatever the terminal
  accepts and however commands, input and output interleave, the bytes it has received are a
  prefix of the input sent; unless the task has failed, they are followed in that order by the
  queue and the messages still waiting; and the queue never exceeds one mebibyte.
\<close>

theorem pty_input_in_order:
  assumes "pty_run new_task es u"
  shows "prefix (pt_written u) (data_of (sent_of es)) \<and>
    (pt_result u \<in> {None, Some (Inr ())} \<longrightarrow>
      pt_written u @ pw_content (pt_pending u) @ data_of (pt_stdin u) = data_of (sent_of es)) \<and>
    length (pw_content (pt_pending u)) \<le> 1024 * 1024"
proof -
  from reachable_task [OF assms] have inv: "task_inv u" "accounted (sent_of es) u" .
  have eq: "data_of (pt_taken u) = pt_written u @ pw_content (pt_pending u)"
    using inv(1) by (simp add: task_inv_def)
  have "\<exists>rest. sent_of es = pt_taken u @ rest" using inv(2) by (auto simp: accounted_def)
  then have "prefix (pt_written u) (data_of (sent_of es))" using eq by (auto simp: prefix_def)
  moreover have "sent_of es = pt_taken u @ pt_stdin u" if "pt_result u \<in> {None, Some (Inr ())}"
    using inv(2) that by (auto simp: accounted_def)
  moreover have "length (pw_content (pt_pending u)) \<le> 1024 * 1024"
    using inv(1) pty_queue.bounded [of "pt_pending u"]
    by (simp add: task_inv_def DEFAULT_PTY_INPUT_QUEUE_BYTES_def)
  ultimately show ?thesis using eq by auto
qed

theorem pty_input_in_order_witness:
  "prefix [1, 2, 3] (data_of (sent_of [SendStdin (Data [1, 2]), SendStdin (Data [3, 4]), RecvStdin, RecvStdin,
     WriteReady (Wrote 2), WriteReady (Wrote 1)]))"
proof -
  let ?es = "[SendStdin (Data [1, 2]), SendStdin (Data [3, 4]), RecvStdin, RecvStdin,
     WriteReady (Wrote 2), WriteReady (Wrote 1)]"
  have "map_option pt_written (pty_exec new_task ?es) = Some [1, 2, 3]"
    by (simp add: new_task_def new_pending_def stdin_ready_def on_stdin_def take_data_def pw_push_def
        usize_saturating_add_def DEFAULT_PTY_INPUT_QUEUE_BYTES_def pw_is_empty_def front_chunk_def
        write_one_pending_pty_chunk_def consume_def consume_loop.simps Let_def)
  then obtain u where "pty_exec new_task ?es = Some u" "pt_written u = [1, 2, 3]"
    unfolding map_option_eq_Some by blast
  then have "pty_run new_task ?es u" "pt_written u = [1, 2, 3]" by (simp_all only: pty_exec_run)
  with pty_input_in_order [of ?es u] show ?thesis by simp
qed



section \<open>A graceful close flushes\<close>

fun until_close :: "StdinMessage list \<Rightarrow> StdinMessage list" where
  "until_close [] = []"
| "until_close (Data bs # ms) = Data bs # until_close ms"
| "until_close (StdinClose # ms) = [StdinClose]"

lemma take_data_fits:
  assumes "task_inv t" and "length (pw_content (pt_pending t)) + length bs \<le> 1024 * 1024"
  shows "pt_result (take_data w bs t) = pt_result t \<and> pt_taken (take_data w bs t) = pt_taken t @ [Data bs] \<and>
    pw_content (pt_pending (take_data w bs t)) = pw_content (pt_pending t) @ bs"
proof -
  have "pw_inv (pt_pending t)" "pw_max_bytes (pt_pending t) = 1024 * 1024"
    using assms(1) by (simp_all add: task_inv_def DEFAULT_PTY_INPUT_QUEUE_BYTES_def)
  with pty_queue.push_accepts [of "pt_pending t" bs] assms(2) show ?thesis by (auto simp: take_data_def)
qed

lemma drain_stdin_fits:
  assumes "task_inv t" and "pt_result t = None"
    and "length (pw_content (pt_pending t)) + length (data_of (until_close ms)) \<le> 1024 * 1024"
  shows "pt_result (drain_stdin ms t) = None \<and> pt_taken (drain_stdin ms t) = pt_taken t @ until_close ms \<and>
    pt_draining (drain_stdin ms t) \<and> pt_commands (drain_stdin ms t) = pt_commands t"
  using assms
proof (induction ms t rule: drain_stdin.induct)
  case (2 bs ms t)
  let ?t = "take_data ''queue pty stdin on close'' bs t"
  have fits: "pt_result ?t = None" "pt_taken ?t = pt_taken t @ [Data bs]"
      "pw_content (pt_pending ?t) = pw_content (pt_pending t) @ bs"
    using take_data_fits [OF "2.prems"(1), of bs "''queue pty stdin on close''"] "2.prems"(2,3) by simp_all
  have "\<not> pt_result ?t \<noteq> None" using fits by simp
  from "2.IH" [OF refl this take_data_inv [OF "2.prems"(1)] fits(1)] fits "2.prems"(3) show ?case by simp
qed simp_all

fun is_write :: "PtyEvent \<Rightarrow> bool" where
  "is_write (WriteReady (Wrote n)) = (0 < n)"
| "is_write _ = False"

lemma flush_possible:
  assumes "task_inv t" and "pt_result t = None" and "pt_commands t = []" and "pt_draining t"
  shows "\<exists>ws v. pty_run t ws v \<and> list_all is_write ws \<and> pt_result v = None \<and>
    pt_written v = pt_written t @ pw_content (pt_pending t)"
  using assms
proof (induction "length (pw_content (pt_pending t))" arbitrary: t rule: less_induct)
  case less
  have inv: "pw_inv (pt_pending t)" using less.prems(1) by (simp add: task_inv_def)
  show ?case
  proof (cases "pw_is_empty (pt_pending t)")
    case True
    then have "pw_content (pt_pending t) = []" using pty_queue.empty_law [OF inv] by simp
    then show ?thesis using less.prems(2) by (intro exI [of _ "[]"] exI [of _ t]) (simp add: pty_run.none)
  next
    case False
    from pty_queue.not_empty_front [OF inv False] obtain c where
        c: "front_chunk (pt_pending t) = Some c" "c \<noteq> []" by blast
    let ?e = "WriteReady (Wrote (length c))" and ?u = "pty_step t (WriteReady (Wrote (length c)))"
    have en: "enabled t ?e" using less.prems False c by (simp add: stdin_ready_def)
    note w = pty_queue.write_front [OF inv c(1) le_refl]
    have u: "pt_result ?u = None" "pt_commands ?u = []" "pt_draining ?u" "pt_written ?u = pt_written t @ c"
        "pw_content (pt_pending t) = c @ pw_content (pt_pending ?u)"
      using less.prems c w(2) by (simp_all add: write_one_pending_pty_chunk_def)
    then have "length (pw_content (pt_pending ?u)) < length (pw_content (pt_pending t))" using c(2) by simp
    from less.hyps [OF this pty_step_inv [OF less.prems(1) en] u(1-3)] obtain ws v where
        "pty_run ?u ws v" "list_all is_write ws" "pt_result v = None"
        "pt_written v = pt_written ?u @ pw_content (pt_pending ?u)" by blast
    then show ?thesis using u en c(2)
      by (intro exI [of _ "?e # ws"] exI [of _ v]) (auto intro: pty_run.event)
  qed
qed

text \<open>
  A graceful close loses nothing.  When the close command is handled and the input waiting
  before the end-of-input message fits the queue, all of it is taken, the task keeps running, and
  a run of at least one-byte writes alone delivers every byte taken so far to the terminal.
\<close>

lemma graceful_close_flushes:
  assumes "pty_run new_task es t" and "pt_result t = None" and "\<not> pt_draining t"
    and "pt_commands t = [PtyClose False]"
    and "length (pw_content (pt_pending t)) + length (data_of (until_close (pt_stdin t))) \<le> 1024 * 1024"
  shows "\<exists>ws v. pty_run t (RecvCommand ok # ws) v \<and> list_all is_write ws \<and> pt_result v = None \<and>
    pt_written v = data_of (pt_taken t @ until_close (pt_stdin t))"
proof -
  let ?t = "t\<lparr>pt_commands := []\<rparr>" and ?u = "pty_step t (RecvCommand ok)"
  note inv = reachable_task(1) [OF assms(1)]
  have u: "?u = drain_stdin (pt_stdin t) ?t" using assms(3,4) by (simp add: on_command_def)
  have en: "enabled t (RecvCommand ok)" using assms(2,4) by simp
  have "task_inv ?t" using inv by (simp add: task_inv_def)
  from drain_stdin_fits [OF this, of "pt_stdin t"] assms(2,5) u have
      d: "pt_result ?u = None" "pt_taken ?u = pt_taken t @ until_close (pt_stdin t)" "pt_draining ?u"
      "pt_commands ?u = []" by simp_all
  note inv' = pty_step_inv [OF inv en]
  from flush_possible [OF inv' d(1) d(4) d(3)] obtain ws v where
      "pty_run ?u ws v" "list_all is_write ws" "pt_result v = None"
      "pt_written v = pt_written ?u @ pw_content (pt_pending ?u)" by blast
  moreover have "pt_written ?u @ pw_content (pt_pending ?u) = data_of (pt_taken ?u)"
    using inv' by (simp only: task_inv_def)
  ultimately show ?thesis using d(2) pty_run.event [OF en] by metis
qed

end
