(* ===== verification/Attach_Control.thy ===== *)
theory Attach_Control
  imports Query_Stripper "HOL-Library.Sublist"
begin

text \<open>
  The controls of an attached session (attach_control.rs): recognising the key that opens them,
  and the status bar.  A cursor into a byte slice is the rest of the slice; the text of the bar is
  the list of its Unicode scalar values, because the code counts characters.
\<close>

section \<open>Recognising the key\<close>

fun digits_value :: "u32 \<Rightarrow> bytes \<Rightarrow> u32 \<times> bytes" where
  "digits_value v [] = (v, [])"
| "digits_value v (b # bs) =
     (if is_ascii_digit b then digits_value (saturating_add (saturating_mul v 10) (ucast (b - 48))) bs
      else (v, b # bs))"

definition parse_decimal :: "bytes \<Rightarrow> u32 option \<times> bytes" where
  "parse_decimal bs =
     (case digits_value 0 bs of (v, rest) \<Rightarrow> (if length rest = length bs then None else Some v, rest))"

lemma digits_value_length: "length (snd (digits_value v bs)) \<le> length bs"
  by (induction v bs rule: digits_value.induct) auto

lemma parse_decimal_length: "length (snd (parse_decimal bs)) \<le> length bs"
  using digits_value_length [of 0 bs] by (simp add: parse_decimal_def case_prod_beta)

function skip_alternates :: "bytes \<Rightarrow> bytes" where
  "skip_alternates [] = []"
| "skip_alternates (b # bs) = (if b = 58 then skip_alternates (snd (parse_decimal bs)) else b # bs)"
  by pat_completeness auto
termination
  by (relation "measure length") (auto simp: le_imp_less_Suc parse_decimal_length)

definition keypress_with_mod :: "bytes \<Rightarrow> u32 \<Rightarrow> u32 \<Rightarrow> bool" where
  "keypress_with_mod data expected_key expected_mods =
     (case parse_decimal data of
        (None, _) \<Rightarrow> False
      | (Some key_code, r1) \<Rightarrow>
          if key_code \<noteq> expected_key then False
          else (case skip_alternates r1 of
              [] \<Rightarrow> False
            | b # r2 \<Rightarrow>
                if b \<noteq> 59 then False
                else (case parse_decimal r2 of
                    (None, _) \<Rightarrow> False
                  | (Some mod_encoded, r3) \<Rightarrow>
                      if mod_encoded < 1 then False
                      else if and (mod_encoded - 1) 63 \<noteq> expected_mods then False
                      else
                        (let (released, r4) =
                           (case r3 of
                              c # q \<Rightarrow> if c = 58 then (case parse_decimal q of (v, q') \<Rightarrow> (v = Some 3, q')) else (False, r3)
                            | [] \<Rightarrow> (False, r3))
                         in if released then False
                            else
                              (let r5 = (case r4 of
                                   c # q \<Rightarrow> if c = 59 then dropWhile (\<lambda>x. is_ascii_digit x \<or> x = 58) q else r4
                                 | [] \<Rightarrow> r4)
                               in (case r5 of [] \<Rightarrow> False | c # _ \<Rightarrow> c = 117))))))"

fun is_key_pressed :: "bytes \<Rightarrow> u32 \<Rightarrow> u32 \<Rightarrow> bool" where
  "is_key_pressed (a # b # bs) key mods =
     (a = 27 \<and> b = 91 \<and> keypress_with_mod bs key mods \<or> is_key_pressed (b # bs) key mods)"
| "is_key_pressed _ key mods = False"

definition is_ctrl_backslash_sequence :: "bytes \<Rightarrow> bool" where
  "is_ctrl_backslash_sequence data \<longleftrightarrow> 28 \<in> set data \<or> is_key_pressed data 92 4"


section \<open>The status bar\<close>

type_synonym scalar_text = "nat list"

definition scalars :: "string \<Rightarrow> scalar_text" where
  "scalars s = map of_char s"

record RenderBarOptions =
  ro_canonical_ref :: scalar_text
  ro_supports_kick_others :: bool
  ro_supports_reload :: bool
  ro_paste_cancellable :: bool
  ro_remaining_millis :: nat
  ro_unicode :: bool
  ro_color :: bool

definition styled :: "scalar_text \<Rightarrow> scalar_text \<Rightarrow> bool \<Rightarrow> scalar_text" where
  "styled text sgr color = (if color then sgr @ text @ [27, 91, 48, 109] else text)"

fun join_spaces :: "scalar_text list \<Rightarrow> scalar_text" where
  "join_spaces [] = []"
| "join_spaces [p] = p"
| "join_spaces (p # ps) = p @ [32] @ join_spaces ps"

definition bar_item :: "scalar_text \<Rightarrow> scalar_text \<Rightarrow> scalar_text \<Rightarrow> scalar_text" where
  "bar_item sep key label = sep @ [32] @ key @ [32] @ label"

definition render_bar :: "RenderBarOptions \<Rightarrow> scalar_text" where
  "render_bar opts =
     (let tenths = min ((ro_remaining_millis opts + 99) div 100) 99;
          time = scalars (decimal (tenths div 10)) @ scalars ''.'' @ scalars (decimal (tenths mod 10)) @ scalars ''s'';
          (lead, arrow, sep0) = (if ro_unicode opts then ([9612], [8250], [183]) else ([124], [62], [124]));
          send_key = [94, 92];
          prefix = styled (lead @ scalars '' Portl '' @ arrow) (27 # scalars ''[1;36m'') (ro_color opts);
          sep = styled sep0 (27 # scalars ''[2m'') (ro_color opts);
          key = (\<lambda>v. styled v (27 # scalars ''[1;33m'') (ro_color opts));
          label = (\<lambda>v. styled v (27 # scalars ''[2m'') (ro_color opts));
          timer = styled time (27 # scalars ''[2m'') (ro_color opts)
      in join_spaces (
           [prefix @ [32] @ ro_canonical_ref opts @ [32, 32] @ sep @ [32, 32] @
              key (scalars ''d'') @ [32] @ label (scalars ''detach'')] @
           (if ro_supports_kick_others opts then [bar_item sep (key (scalars ''k'')) (label (scalars ''kick''))] else []) @
           (if ro_supports_reload opts then [bar_item sep (key (scalars ''r'')) (label (scalars ''reload''))] else []) @
           [bar_item sep (key send_key) (label (scalars ''send''))] @
           (if ro_paste_cancellable opts
            then [bar_item sep (key (scalars ''c'')) (label (scalars ''cancel paste''))] else []) @
           [bar_item sep (key (scalars ''Esc'')) (label (scalars ''cancel''))] @
           [sep @ [32] @ timer]))"

fun visible_width :: "scalar_text \<Rightarrow> nat"
  and escape_width :: "scalar_text \<Rightarrow> nat" where
  "visible_width [] = 0"
| "visible_width (c # cs) = (if c = 27 then escape_width cs else Suc (visible_width cs))"
| "escape_width [] = 0"
| "escape_width (c # cs) = (if c = 109 then visible_width cs else escape_width cs)"

text \<open>
  The loop of the cut: outside an escape it counts, inside it copies up to the final letter.
\<close>

fun cut_visible :: "nat \<Rightarrow> nat \<Rightarrow> scalar_text \<Rightarrow> scalar_text"
  and cut_escape :: "nat \<Rightarrow> nat \<Rightarrow> scalar_text \<Rightarrow> scalar_text" where
  "cut_visible limit width [] = []"
| "cut_visible limit width (c # cs) =
     (if c = 27 then c # cut_escape limit width cs
      else if width \<ge> limit then []
      else c # cut_visible limit (width + 1) cs)"
| "cut_escape limit width [] = []"
| "cut_escape limit width (c # cs) =
     (if c = 109 then c # cut_visible limit width cs else c # cut_escape limit width cs)"

definition fit_visible :: "scalar_text \<Rightarrow> u16 \<Rightarrow> scalar_text" where
  "fit_visible text cols =
     (let limit = max (unat cols) 1 in
      if visible_width text \<le> limit then text
      else if limit \<le> 1 then [8230]
      else cut_visible (limit - 1) 0 text @ [8230] @ [27, 91, 48, 109])"


section \<open>Widths\<close>

lemma cut_width:
  "visible_width (cut_visible limit w cs @ [8230, 27, 91, 48, 109]) \<le> (limit - w) + 1"
  "escape_width (cut_escape limit w cs @ [8230, 27, 91, 48, 109]) \<le> (limit - w) + 1"
  by (induction limit w cs and limit w cs rule: cut_visible_cut_escape.induct) auto

lemma cut_prefix: "prefix (cut_visible limit w cs) cs" "prefix (cut_escape limit w cs) cs"
  by (induction limit w cs and limit w cs rule: cut_visible_cut_escape.induct) auto

text \<open>
  The bar fits its line.  The cut text is never wider than the terminal, escape sequences
  not counted; a text that fits is unchanged, and one that does not is a start of the text
  followed by an ellipsis and a reset.
\<close>

lemma fit_visible_fits:
  "visible_width (fit_visible t cols) \<le> max 1 (unat cols) \<and>
   (if visible_width t \<le> max 1 (unat cols) then fit_visible t cols = t
    else \<exists>start. prefix start t \<and> fit_visible t cols \<in> {[8230], start @ [8230, 27, 91, 48, 109]})"
  using cut_width(1) [of "max (unat cols) 1 - 1" 0 t] cut_prefix(1) [of "max (unat cols) 1 - 1" 0 t]
  by (auto simp: fit_visible_def Let_def max.commute)

lemma visible_plain: "27 \<notin> set t \<Longrightarrow> visible_width (t @ r) = length t + visible_width r"
  by (induction t) auto

lemma escape_skip: "109 \<notin> set b \<Longrightarrow> escape_width (b @ 109 # r) = visible_width r"
  by (induction b) auto

lemma visible_styled:
  assumes "27 \<notin> set t" and "109 \<notin> set b"
  shows "visible_width (styled t (27 # b @ [109]) color @ r) = length t + visible_width r"
  using assms by (simp add: styled_def visible_plain escape_skip)


section \<open>Key events\<close>

definition digits :: "nat \<Rightarrow> bytes" where
  "digits n = ascii (decimal n)"

lemma digits_rec: "digits n = (if n < 10 then [] else digits (n div 10)) @ [of_nat (48 + n mod 10)]"
proof -
  have "of_char (char_of (48 + k) :: char) = (48 + k :: nat)" if "k < 10" for k
    using that by (simp add: of_char_of take_bit_nat_eq_self)
  then show ?thesis by (auto simp: digits_def ascii_def decimal.simps [of n])
qed

lemma digit_ok: "k < 10 \<Longrightarrow> is_ascii_digit (of_nat (48 + k))"
  by (simp add: is_ascii_digit_def word_le_nat_alt unat_of_nat take_bit_nat_eq_self del: of_nat_add)

lemma digits_all: "list_all is_ascii_digit (digits n)"
proof (induction n rule: less_induct)
  case (less n)
  then show ?case using digits_rec [of n] digit_ok [of "n mod 10"] by (cases "n < 10") auto
qed

lemma digits_nonempty: "digits n \<noteq> []"
  using digits_rec [of n] by simp

definition next_value :: "u32 \<Rightarrow> byte \<Rightarrow> u32" where
  "next_value v b = saturating_add (saturating_mul v 10) (ucast (b - 48))"

lemma digits_value_run:
  "list_all is_ascii_digit ds \<Longrightarrow> digits_value v (ds @ r) = digits_value (foldl next_value v ds) r"
  by (induction ds arbitrary: v) (simp_all add: next_value_def)

lemma next_value_digit:
  assumes "n < 2 ^ 32" and "v = of_nat (n div 10)"
  shows "next_value v (of_nat (48 + n mod 10)) = of_nat n"
proof -
  have v: "unat v = n div 10" using assms by (simp add: unat_of_nat take_bit_nat_eq_self)
  have d: "(of_nat (48 + n mod 10) :: byte) - 48 = of_nat (n mod 10)" by simp
  have u: "unat (ucast (of_nat (n mod 10) :: byte) :: u32) = n mod 10"
    by (simp add: unsigned_ucast_eq unat_of_nat take_bit_nat_eq_self)
  have "n div 10 * 10 \<le> n" by simp
  then have m: "unat (saturating_mul v 10) = n div 10 * 10"
    using assms(1) v by (simp add: unat_saturating_mul)
  have "n div 10 * 10 + n mod 10 = n" by simp
  then have "unat (next_value v (of_nat (48 + n mod 10))) = n"
    using assms(1) unfolding next_value_def d by (simp only: unat_saturating_add m u) simp
  then show ?thesis using assms(1) by (simp add: word_unat_eq_iff unat_of_nat take_bit_nat_eq_self)
qed

lemma digits_fold: "n < 2 ^ 32 \<Longrightarrow> foldl next_value 0 (digits n) = of_nat n"
proof (induction n rule: less_induct)
  case (less n)
  show ?case
  proof (cases "n < 10")
    case True
    then show ?thesis using digits_rec [of n] next_value_digit [of n 0] less.prems by simp
  next
    case False
    then have "n div 10 < n" "n div 10 < 2 ^ 32" using less.prems by auto
    then have "foldl next_value 0 (digits (n div 10)) = of_nat (n div 10)" using less.IH by blast
    then show ?thesis using digits_rec [of n] next_value_digit [OF less.prems] False by simp
  qed
qed

lemma parse_decimal_digits:
  assumes "n < 2 ^ 32" and "case r of [] \<Rightarrow> True | b # _ \<Rightarrow> \<not> is_ascii_digit b"
  shows "parse_decimal (digits n @ r) = (Some (of_nat n), r)"
proof -
  have "digits_value (of_nat n) r = (of_nat n, r)" using assms(2) by (cases r) auto
  then show ?thesis
    using digits_value_run [OF digits_all, of 0 n r] digits_fold [OF assms(1)] digits_nonempty [of n]
    by (simp add: parse_decimal_def)
qed

text \<open>
  A key event of the kitty keyboard protocol: the key code with its alternates, the modifiers,
  and optionally the type of the event.
\<close>

definition key_event :: "nat \<Rightarrow> nat list \<Rightarrow> nat \<Rightarrow> nat option \<Rightarrow> bytes" where
  "key_event key alternates mods ev =
     [27, 91] @ digits key @ concat (map (\<lambda>a. 58 # digits a) alternates) @ [59] @ digits mods @
     (case ev of None \<Rightarrow> [] | Some e \<Rightarrow> 58 # digits e) @ [117]"

lemma skip_alternates_run:
  assumes "list_all (\<lambda>a. a < 2 ^ 32) as"
  shows "skip_alternates (concat (map (\<lambda>a. 58 # digits a) as) @ 59 # r) = 59 # r"
  using assms
proof (induction as)
  case (Cons a as)
  have "case concat (map (\<lambda>a. 58 # digits a) as) @ 59 # r of [] \<Rightarrow> True | b # _ \<Rightarrow> \<not> is_ascii_digit b"
    by (cases as) (auto simp: is_ascii_digit_def)
  with Cons show ?case by (simp add: parse_decimal_digits)
qed simp

lemma no_key_pressed: "27 \<notin> set bs \<Longrightarrow> \<not> is_key_pressed bs key mods"
  by (induction bs key mods rule: is_key_pressed.induct) auto

lemma digits_range: "b \<in> set (digits n) \<Longrightarrow> 48 \<le> b"
  using digits_all [of n] by (auto simp: list_all_iff is_ascii_digit_def)

lemma digits_free: "27 \<notin> set (digits n)" "28 \<notin> set (digits n)"
  using digits_range [of 27 n] digits_range [of 28 n] by auto

lemma key_code_eq: "n < 2 ^ 32 \<Longrightarrow> m < 2 ^ 32 \<Longrightarrow> (of_nat n :: u32) = of_nat m \<longleftrightarrow> n = m"
  by (simp add: word_unat_eq_iff unat_of_nat take_bit_nat_eq_self)

lemma mods_mask:
  assumes "1 \<le> m" and "m < 2 ^ 32"
  shows "and (of_nat m - 1 :: u32) 63 = 4 \<longleftrightarrow> (m - 1) mod 64 = 4"
proof -
  have "and (of_nat m - 1 :: u32) 63 = take_bit 6 (of_nat (m - 1))"
    using assms(1) by (simp add: take_bit_eq_mask mask_eq_exp_minus_1 of_nat_diff)
  also have "\<dots> = of_nat (take_bit 6 (m - 1))" by (simp add: take_bit_of_nat)
  finally show ?thesis using key_code_eq [of "(m - 1) mod 64" 4] by (simp add: take_bit_eq_mod)
qed

text \<open>
  The detach key is recognised exactly.  A key event, with any alternates, opens the controls
  iff its key is the backslash, its modifiers without the lock keys are control alone, and it is
  not a release.
\<close>

lemma ctrl_backslash_exact:
  assumes "key < 2 ^ 32" and "list_all (\<lambda>a. a < 2 ^ 32) alternates" and "mods < 2 ^ 32"
    and "\<And>e. ev = Some e \<Longrightarrow> e < 2 ^ 32"
  shows "is_ctrl_backslash_sequence (key_event key alternates mods ev) \<longleftrightarrow>
    key = 92 \<and> 1 \<le> mods \<and> (mods - 1) mod 64 = 4 \<and> ev \<noteq> Some 3"
proof -
  let ?tail = "(case ev of None \<Rightarrow> [] | Some e \<Rightarrow> 58 # digits e) @ [117]"
  let ?rest = "concat (map (\<lambda>a. 58 # digits a) alternates) @ 59 # digits mods @ ?tail"
  have free: "27 \<notin> set (91 # digits key @ ?rest)" "28 \<notin> set (key_event key alternates mods ev)"
    by (auto simp: key_event_def digits_free split: option.splits)
  have "parse_decimal (digits key @ ?rest) = (Some (of_nat key), ?rest)"
    by (rule parse_decimal_digits [OF assms(1)]) (cases alternates, auto simp: is_ascii_digit_def)
  moreover have "skip_alternates ?rest = 59 # digits mods @ ?tail"
    using skip_alternates_run [OF assms(2)] by simp
  moreover have "parse_decimal (digits mods @ ?tail) = (Some (of_nat mods), ?tail)"
    by (rule parse_decimal_digits [OF assms(3)]) (cases ev, auto simp: is_ascii_digit_def)
  moreover have "parse_decimal (digits e @ [117]) = (Some (of_nat e), [117])" if "ev = Some e" for e
    by (rule parse_decimal_digits) (use assms(4) that in \<open>auto simp: is_ascii_digit_def\<close>)
  moreover have "(of_nat mods :: u32) < 1 \<longleftrightarrow> \<not> 1 \<le> mods"
    using assms(3) by (auto simp: word_less_nat_alt unat_of_nat take_bit_nat_eq_self)
  moreover have "(of_nat key :: u32) = 92 \<longleftrightarrow> key = 92" using key_code_eq [OF assms(1), of 92] by simp
  moreover have "(of_nat e :: u32) = 3 \<longleftrightarrow> e = 3" if "ev = Some e" for e
    using key_code_eq [of e 3] assms(4) [OF that] by simp
  ultimately have "keypress_with_mod (digits key @ ?rest) 92 4 \<longleftrightarrow>
      key = 92 \<and> 1 \<le> mods \<and> (mods - 1) mod 64 = 4 \<and> ev \<noteq> Some 3"
    using mods_mask [OF _ assms(3)]
    by (cases ev) (auto simp: keypress_with_mod_def)
  moreover have "is_key_pressed (key_event key alternates mods ev) 92 4 \<longleftrightarrow>
      keypress_with_mod (digits key @ ?rest) 92 4"
    using no_key_pressed [OF free(1)] by (simp add: key_event_def)
  ultimately show ?thesis using free(2) by (simp add: is_ctrl_backslash_sequence_def)
qed

end
