(* ===== verification/Utf8_Lossy.thy ===== *)
theory Utf8_Lossy
  imports Prelude
begin

text \<open>
  The decoding of bytes that need not be UTF-8, as the standard library has it; the control stream
  of tmux and the history of a native session go through it.
\<close>

section \<open>Lossy decoding of UTF-8\<close>

text \<open>
  Rust's \<^verbatim>\<open>String::from_utf8_lossy\<close>: a maximal start of an ill-formed sequence
  becomes one replacement character.
\<close>

definition utf8_second :: "byte \<Rightarrow> byte \<Rightarrow> bool" where
  "utf8_second a b \<longleftrightarrow>
     (if a = 0xE0 then 0xA0 \<le> b \<and> b \<le> 0xBF
      else if a = 0xED then 0x80 \<le> b \<and> b \<le> 0x9F
      else if a = 0xF0 then 0x90 \<le> b \<and> b \<le> 0xBF
      else if a = 0xF4 then 0x80 \<le> b \<and> b \<le> 0x8F
      else utf8_cont b)"

definition utf8_unit :: "byte \<Rightarrow> bytes \<Rightarrow> bool \<times> nat" where
  "utf8_unit a bs =
     (let at = (\<lambda>i. if i < length bs then bs ! i else 0) in
      if a < 0x80 then (True, 0)
      else if a < 0xC2 \<or> 0xF4 < a then (False, 0)
      else if \<not> utf8_second a (at 0) then (False, 0)
      else if a \<le> 0xDF then (True, 1)
      else if \<not> utf8_cont (at 1) then (False, 1)
      else if a \<le> 0xEF then (True, 2)
      else if \<not> utf8_cont (at 2) then (False, 2)
      else (True, 3))"

function from_utf8_lossy :: "bytes \<Rightarrow> bytes" where
  "from_utf8_lossy [] = []"
| "from_utf8_lossy (a # bs) =
     (case utf8_unit a bs of (ok, n) \<Rightarrow>
        (if ok then a # take n bs else [0xEF, 0xBF, 0xBD]) @ from_utf8_lossy (drop n bs))"
  by pat_completeness auto
termination
  by (relation "measure length") auto

lemma utf8_unit_two:
  assumes "0xC2 \<le> a" and "a \<le> 0xDF" and "utf8_cont b"
  shows "utf8_unit a (b # cs) = (True, 1)"
proof -
  have "\<not> a < 0x80" "\<not> a < 0xC2" "\<not> 0xF4 < a" "a \<noteq> 0xE0" "a \<noteq> 0xED" "a \<noteq> 0xF0" "a \<noteq> 0xF4"
    using assms(1,2) by (auto simp: word_le_nat_alt word_less_nat_alt)
  with assms show ?thesis by (simp add: utf8_unit_def utf8_second_def)
qed

lemma utf8_unit_three:
  assumes "0xE0 \<le> a" and "a \<le> 0xEF" and "utf8_second a b" and "utf8_cont c"
  shows "utf8_unit a (b # c # ds) = (True, 2)"
proof -
  have "\<not> a < 0x80" "\<not> a < 0xC2" "\<not> 0xF4 < a" "\<not> a \<le> 0xDF"
    using assms(1,2) by (auto simp: word_le_nat_alt word_less_nat_alt)
  with assms show ?thesis by (simp add: utf8_unit_def)
qed

lemma utf8_unit_four:
  assumes "0xF0 \<le> a" and "a \<le> 0xF4" and "utf8_second a b" and "utf8_cont c" and "utf8_cont d"
  shows "utf8_unit a (b # c # d # es) = (True, 3)"
proof -
  have "\<not> a < 0x80" "\<not> a < 0xC2" "\<not> 0xF4 < a" "\<not> a \<le> 0xDF" "\<not> a \<le> 0xEF"
    using assms(1,2) by (auto simp: word_le_nat_alt word_less_nat_alt)
  with assms show ?thesis by (simp add: utf8_unit_def nth_Cons')
qed

lemma valid_utf8_unit:
  assumes "valid_utf8 (a # bs)"
  shows "\<exists>n. utf8_unit a bs = (True, n) \<and> valid_utf8 (drop n bs)"
proof -
  consider "a < 0x80" | "\<not> a < 0x80" "0xC2 \<le> a \<and> a \<le> 0xDF"
    | "\<not> a < 0x80" "\<not> (0xC2 \<le> a \<and> a \<le> 0xDF)" "0xE0 \<le> a \<and> a \<le> 0xEF"
    | "\<not> a < 0x80" "\<not> (0xC2 \<le> a \<and> a \<le> 0xDF)" "\<not> (0xE0 \<le> a \<and> a \<le> 0xEF)" by blast
  then show ?thesis
  proof cases
    case 1
    then show ?thesis using assms by (simp add: utf8_unit_def)
  next
    case 2
    with assms obtain b cs where "bs = b # cs" "utf8_cont b" "valid_utf8 cs" by (cases bs) simp_all
    then show ?thesis using utf8_unit_two 2 by fastforce
  next
    case 3
    with assms obtain b cs where bs: "bs = b # cs" by (cases bs) simp_all
    with assms 3 obtain c ds where cs: "cs = c # ds" by (cases cs) simp_all
    have "a = 0xE0 \<or> a = 0xED \<or> (a \<noteq> 0xE0 \<and> a \<noteq> 0xED \<and> 0xE1 \<le> a \<and> a \<le> 0xEF \<and> a \<noteq> 0xF0 \<and> a \<noteq> 0xF4)"
      using 3(3) by (auto simp: word_le_nat_alt word_unat_eq_iff)
    then have "utf8_second a b \<and> utf8_cont c \<and> valid_utf8 ds"
      using assms 3(1,2) bs cs by (elim disjE) (simp_all add: utf8_second_def)
    then show ?thesis using utf8_unit_three 3(3) bs cs by fastforce
  next
    case 4
    with assms obtain b cs where bs: "bs = b # cs" by (cases bs) simp_all
    with assms 4 obtain c ds where cs: "cs = c # ds" by (cases cs) simp_all
    have n: "a \<noteq> 0xE0" "a \<noteq> 0xED" "\<not> (0xE1 \<le> a \<and> a \<le> 0xEF)"
      using 4(3) by (auto simp: word_le_nat_alt)
    with assms 4 bs cs obtain d es where ds: "ds = d # es" by (cases ds) simp_all
    have "a = 0xF0 \<or> a = 0xF4 \<or> (a \<noteq> 0xF0 \<and> a \<noteq> 0xF4)" by blast
    then have "utf8_second a b \<and> utf8_cont c \<and> utf8_cont d \<and> valid_utf8 es \<and> 0xF0 \<le> a \<and> a \<le> 0xF4"
    proof (elim disjE)
      assume "a \<noteq> 0xF0 \<and> a \<noteq> 0xF4"
      then have "utf8_cont b \<and> utf8_cont c \<and> utf8_cont d \<and> valid_utf8 es \<and> 0xF1 \<le> a \<and> a \<le> 0xF3"
        using assms 4(1,2) bs cs ds n by simp
      then show ?thesis using n \<open>a \<noteq> 0xF0 \<and> a \<noteq> 0xF4\<close>
        by (simp add: utf8_second_def) (simp add: word_le_nat_alt)
    qed (use assms 4(1,2) bs cs ds n in \<open>simp_all add: utf8_second_def\<close>)
    then show ?thesis using utf8_unit_four bs cs ds by fastforce
  qed
qed

lemma from_utf8_lossy_valid: "valid_utf8 bs \<Longrightarrow> from_utf8_lossy bs = bs"
proof (induction bs rule: from_utf8_lossy.induct)
  case (2 a bs)
  from valid_utf8_unit [OF "2.prems"] obtain n where n: "utf8_unit a bs = (True, n)" "valid_utf8 (drop n bs)" by blast
  with "2.IH" [OF n(1) [symmetric] n(2)] show ?case by simp
qed simp

end
