(* ===== verification/Tmux_Control.thy ===== *)
theory Tmux_Control
  imports Pty_Task Attach_Control Utf8_Lossy
begin

text \<open>
  Sessions attached through tmux's control mode (terminal/tmux_cc.rs and
  session_handler/tmux_control.rs): the decoder of the control stream, the lines of the protocol,
  the commands sent to tmux, and the task that pumps both directions.  Text is the list of its
  UTF-8 bytes.
\<close>

section \<open>Control lines\<close>

datatype TmuxControlEvent = Output bytes | TmuxError string | Exit | Ignore

fun split_once :: "'a list \<Rightarrow> 'a list \<Rightarrow> ('a list \<times> 'a list) option" where
  "split_once sep [] = (if sep = [] then Some ([], []) else None)"
| "split_once sep (x # xs) =
     (if starts_with (x # xs) sep then Some ([], drop (length sep) (x # xs))
      else map_option (\<lambda>(a, b). (x # a, b)) (split_once sep xs))"

definition trim_line_end :: "bytes \<Rightarrow> bytes" where
  "trim_line_end line = rev (dropWhile (\<lambda>b. b = 13 \<or> b = 10) (rev line))"

definition text_of :: "bytes \<Rightarrow> string" where
  "text_of bs = map (\<lambda>b. char_of (unat b)) bs"

function unescape_tmux_bytes :: "bytes \<Rightarrow> bytes" where
  "unescape_tmux_bytes [] = []"
| "unescape_tmux_bytes (b # bs) =
     (if b = 92 \<and> 3 \<le> length bs \<and> list_all is_ascii_digit (take 3 bs) then
        ((bs ! 0 - 48) * 64 + (bs ! 1 - 48) * 8 + (bs ! 2 - 48)) # unescape_tmux_bytes (drop 3 bs)
      else if b = 92 \<and> bs \<noteq> [] then hd bs # unescape_tmux_bytes (tl bs)
      else b # unescape_tmux_bytes bs)"
  by pat_completeness auto
termination
  by (relation "measure length") auto

definition parse_control_line :: "bytes \<Rightarrow> TmuxControlEvent" where
  "parse_control_line raw =
     (let line = trim_line_end raw in
      case strip_prefix (ascii ''%output '') line of
        Some rest \<Rightarrow>
          (case split_once [32] rest of
             None \<Rightarrow> Ignore
           | Some (_, escaped) \<Rightarrow> Output (unescape_tmux_bytes escaped))
      | None \<Rightarrow>
          (case strip_prefix (ascii ''%extended-output '') line of
             Some rest \<Rightarrow>
               (case split_once (ascii '' : '') rest of
                  None \<Rightarrow> Ignore
                | Some (_, escaped) \<Rightarrow> Output (unescape_tmux_bytes escaped))
           | None \<Rightarrow>
               (case strip_prefix (ascii ''%error'') line of
                  Some rest \<Rightarrow> TmuxError (trim (text_of rest))
                | None \<Rightarrow> if starts_with line (ascii ''%exit'') then Exit else Ignore)))"


section \<open>The decoder of the control stream\<close>

datatype DecoderState = DNormal | DEscape | DDcsPrefix

definition decode_byte :: "DecoderState \<Rightarrow> byte \<Rightarrow> DecoderState \<times> bytes" where
  "decode_byte s b =
     (case s of
        DNormal \<Rightarrow> if b = 27 then (DEscape, []) else (DNormal, [b])
      | DEscape \<Rightarrow>
          if b = 80 then (DDcsPrefix, []) else if b = 92 then (DNormal, []) else (DNormal, [27, b])
      | DDcsPrefix \<Rightarrow> if b = 112 then (DNormal, []) else (DDcsPrefix, []))"

fun tmux_decode :: "DecoderState \<Rightarrow> bytes \<Rightarrow> DecoderState \<times> bytes" where
  "tmux_decode s [] = (s, [])"
| "tmux_decode s (b # bs) =
     (let (s1, o1) = decode_byte s b; (s2, o2) = tmux_decode s1 bs in (s2, o1 @ o2))"

interpretation tmux_decoder: byte_machine decode_byte tmux_decode "\<lambda>_. True"
  by unfold_locales simp_all


section \<open>Commands to tmux\<close>

definition hex_digit :: "byte \<Rightarrow> byte" where
  "hex_digit n = (if n < 10 then 48 + n else 87 + n)"

definition hex2 :: "byte \<Rightarrow> bytes" where
  "hex2 b = [hex_digit (b div 16), hex_digit (b mod 16)]"

function chunks :: "nat \<Rightarrow> 'a list \<Rightarrow> 'a list list" where
  "chunks n xs = (if n = 0 \<or> xs = [] then [] else take n xs # chunks n (drop n xs))"
  by pat_completeness auto
termination
  by (relation "measure (\<lambda>(n, xs). length xs)") auto

declare chunks.simps [simp del]

definition send_keys_line :: "bytes \<Rightarrow> bytes" where
  "send_keys_line chunk = ascii ''send-keys -H'' @ concat (map (\<lambda>b. 32 # hex2 b) chunk) @ [10]"

definition send_keys_command :: "bytes \<Rightarrow> bytes" where
  "send_keys_command data = concat (map send_keys_line (chunks 128 data))"

definition decimal_bytes :: "nat \<Rightarrow> bytes" where
  "decimal_bytes n = ascii (decimal n)"

definition resize_commands :: "u16 \<Rightarrow> u16 \<Rightarrow> bytes" where
  "resize_commands rows cols =
     ascii ''refresh-client -C '' @ decimal_bytes (unat cols) @ [44] @ decimal_bytes (unat rows) @ [10] @
     ascii ''resize-window -x '' @ decimal_bytes (unat cols) @ ascii '' -y '' @ decimal_bytes (unat rows) @ [10]"

definition render_line :: "nat \<times> bytes \<Rightarrow> bytes" where
  "render_line = (\<lambda>(index, line).
     [ESC, 91] @ decimal_bytes (index + 1) @ ascii '';1H'' @
     (case strip_suffix [13] line of Some l \<Rightarrow> l | None \<Rightarrow> line) @ [ESC, 91, 75])"

definition render_viewport_snapshot :: "bytes \<Rightarrow> u16 \<Rightarrow> u16 \<Rightarrow> bytes" where
  "render_viewport_snapshot snapshot cursor_x cursor_y =
     (let split = split_on 10 snapshot;
          lines = (if last split = [] then butlast split else split)
      in [ESC, 91, 48, 109, ESC, 91, 72, ESC, 91, 50, 74] @ concat (map render_line (enumerate 0 lines)) @
         [ESC, 91] @ decimal_bytes (unat (cursor_y + 1)) @ [59] @ decimal_bytes (unat (cursor_x + 1)) @ [72])"


section \<open>The pump\<close>

text \<open>
  What the pump sends to the viewer.
\<close>

datatype TmuxOut = ToStdout bytes | ToStderr bytes

definition on_control_line :: "bytes \<Rightarrow> TmuxOut list" where
  "on_control_line line =
     (case parse_control_line (from_utf8_lossy line) of
        Output bs \<Rightarrow> [ToStdout bs]
      | TmuxError err \<Rightarrow> [ToStderr (ascii (''tmux: '' @ err) @ [10])]
      | Exit \<Rightarrow> []
      | Ignore \<Rightarrow> [])"

fun pump_control_bytes :: "bytes \<Rightarrow> bytes \<Rightarrow> bytes \<times> TmuxOut list" where
  "pump_control_bytes line_buf [] = (line_buf, [])"
| "pump_control_bytes line_buf (b # bs) =
     (if b = 10
      then (let (lb, out) = pump_control_bytes [] bs in (lb, on_control_line (line_buf @ [b]) @ out))
      else pump_control_bytes (line_buf @ [b]) bs)"

definition TMUX_PTY_INPUT_QUEUE_BYTES :: nat where
  "TMUX_PTY_INPUT_QUEUE_BYTES = 4 * 1024 * 1024"

text \<open>
  The task.  As for the plain terminal, an event is one turn of the loop; writing a command
  directly either succeeds or fails after some of its bytes.
\<close>

datatype DirectWrite = WholeWritten | DirectFailed nat string

record TmuxPump =
  tp_stdin :: "StdinMessage list"
  tp_commands :: "PtyCommand list"
  tp_draining :: bool
  tp_initial :: "bytes list option"
  tp_pending :: PendingPtyWrite
  tp_decoder :: DecoderState
  tp_line_buf :: bytes
  tp_out :: "TmuxOut list"
  tp_written :: bytes
  tp_result :: "(string + unit) option"

definition new_pump :: "bytes list \<Rightarrow> TmuxPump" where
  "new_pump initial_commands = \<lparr>tp_stdin = [], tp_commands = [], tp_draining = False,
     tp_initial = Some initial_commands, tp_pending = new_pending TMUX_PTY_INPUT_QUEUE_BYTES,
     tp_decoder = DNormal, tp_line_buf = [], tp_out = [], tp_written = [], tp_result = None\<rparr>"

definition write_direct :: "string \<Rightarrow> DirectWrite \<Rightarrow> bytes \<Rightarrow> TmuxPump \<Rightarrow> TmuxPump" where
  "write_direct what answer bs t =
     (case answer of
        WholeWritten \<Rightarrow> t\<lparr>tp_written := tp_written t @ bs\<rparr>
      | DirectFailed n err \<Rightarrow>
          t\<lparr>tp_written := tp_written t @ take n bs, tp_result := Some (Inl (what @ '': '' @ err))\<rparr>)"

definition detach_client :: "DirectWrite \<Rightarrow> TmuxPump \<Rightarrow> TmuxPump" where
  "detach_client answer t =
     (let t1 = write_direct ''detach tmux -CC client'' answer (ascii ''detach-client'' @ [10])
                 (t\<lparr>tp_pending := pw_clear (tp_pending t)\<rparr>)
      in if tp_result t1 \<noteq> None then t1 else t1\<lparr>tp_draining := True\<rparr>)"

definition queue_command :: "string \<Rightarrow> bytes \<Rightarrow> TmuxPump \<Rightarrow> TmuxPump" where
  "queue_command what bs t =
     (case pw_push bs (tp_pending t) of
        Inl err \<Rightarrow> t\<lparr>tp_result := Some (Inl (what @ '': '' @ err))\<rparr>
      | Inr q \<Rightarrow> t\<lparr>tp_pending := q\<rparr>)"

definition tmux_on_stdin :: "DirectWrite \<Rightarrow> StdinMessage \<Rightarrow> TmuxPump \<Rightarrow> TmuxPump" where
  "tmux_on_stdin answer msg t =
     (case msg of
        Data data \<Rightarrow>
          if is_ctrl_backslash_sequence data then detach_client answer t
          else queue_command ''queue tmux -CC input'' (send_keys_command data) t
      | StdinClose \<Rightarrow> detach_client answer t)"

definition tmux_on_command :: "DirectWrite \<Rightarrow> PtyCommand \<Rightarrow> TmuxPump \<Rightarrow> TmuxPump" where
  "tmux_on_command answer cmd t =
     (case cmd of
        Resize rows cols \<Rightarrow> queue_command ''queue tmux -CC resize'' (resize_commands rows cols) t
      | PtyClose _ \<Rightarrow> detach_client answer t
      | KickOthers \<Rightarrow> queue_command ''queue tmux -CC kick-others'' (ascii ''detach-client -a'' @ [10]) t)"

fun write_initial :: "DirectWrite list \<Rightarrow> bytes list \<Rightarrow> TmuxPump \<Rightarrow> TmuxPump" where
  "write_initial answers [] t = t"
| "write_initial answers (c # cs) t =
     (let t1 = write_direct ''write initial tmux -CC command''
                 (case answers of [] \<Rightarrow> WholeWritten | a # _ \<Rightarrow> a) c t
      in if tp_result t1 \<noteq> None then t1 else write_initial (tl answers) cs t1)"

definition tmux_on_read :: "DirectWrite list \<Rightarrow> ReadAnswer \<Rightarrow> TmuxPump \<Rightarrow> TmuxPump" where
  "tmux_on_read answers answer t =
     (case answer of
        ReadEof \<Rightarrow> t\<lparr>tp_result := Some (Inr ())\<rparr>
      | ReadError err \<Rightarrow> t\<lparr>tp_result := Some (Inl (''read tmux -CC output: '' @ err))\<rparr>
      | ReadBytes chunk \<Rightarrow>
          (let (d, control) = tmux_decode (tp_decoder t) chunk;
               t1 = t\<lparr>tp_decoder := d\<rparr>;
               t2 = (if control \<noteq> [] then
                       (case tp_initial t1 of
                          None \<Rightarrow> t1
                        | Some cs \<Rightarrow> write_initial answers cs (t1\<lparr>tp_initial := None\<rparr>))
                     else t1)
           in if tp_result t2 \<noteq> None then t2
              else (let (lb, out) = pump_control_bytes (tp_line_buf t2) control
                    in t2\<lparr>tp_line_buf := lb, tp_out := tp_out t2 @ out\<rparr>)))"

definition tmux_write_pending :: "WriteAnswer \<Rightarrow> TmuxPump \<Rightarrow> TmuxPump" where
  "tmux_write_pending answer t =
     (case front_chunk (tp_pending t) of
        None \<Rightarrow> t
      | Some bs \<Rightarrow>
          (case answer of
             Wrote n \<Rightarrow>
               if n = 0 then t\<lparr>tp_result := Some (Inl ''write queued tmux -CC input: pty write returned zero bytes'')\<rparr>
               else t\<lparr>tp_pending := consume n (tp_pending t), tp_written := tp_written t @ take n bs\<rparr>
           | WouldBlock \<Rightarrow> t
           | WriteError err \<Rightarrow> t\<lparr>tp_result := Some (Inl (''write queued tmux -CC input: '' @ err))\<rparr>))"

datatype TmuxEvent =
    TStdinArrives StdinMessage
  | TCommandArrives PtyCommand
  | TRecvStdin DirectWrite
  | TRecvCommand DirectWrite
  | TWriteReady WriteAnswer
  | TDrainElapsed
  | TReadReady "DirectWrite list" ReadAnswer

fun tmux_enabled :: "TmuxPump \<Rightarrow> TmuxEvent \<Rightarrow> bool" where
  "tmux_enabled t (TStdinArrives m) = True"
| "tmux_enabled t (TCommandArrives c) = True"
| "tmux_enabled t (TRecvStdin a) = (tp_result t = None \<and> \<not> tp_draining t \<and> tp_stdin t \<noteq> [])"
| "tmux_enabled t (TRecvCommand a) =
     (tp_result t = None \<and> \<not> tp_draining t \<and> tp_stdin t = [] \<and> tp_commands t \<noteq> [])"
| "tmux_enabled t (TWriteReady a) =
     (tp_result t = None \<and> \<not> tp_draining t \<and> tp_stdin t = [] \<and> tp_commands t = [] \<and>
      \<not> pw_is_empty (tp_pending t) \<and>
      (case a of
         Wrote n \<Rightarrow> n \<le> (case front_chunk (tp_pending t) of None \<Rightarrow> 0 | Some bs \<Rightarrow> length bs)
       | _ \<Rightarrow> True))"
| "tmux_enabled t TDrainElapsed = (tp_result t = None \<and> tp_draining t)"
| "tmux_enabled t (TReadReady as a) =
     (tp_result t = None \<and> (tp_draining t \<or> tp_stdin t = [] \<and> tp_commands t = []))"

fun tmux_step :: "TmuxPump \<Rightarrow> TmuxEvent \<Rightarrow> TmuxPump" where
  "tmux_step t (TStdinArrives m) = t\<lparr>tp_stdin := tp_stdin t @ [m]\<rparr>"
| "tmux_step t (TCommandArrives c) = t\<lparr>tp_commands := tp_commands t @ [c]\<rparr>"
| "tmux_step t (TRecvStdin a) = tmux_on_stdin a (hd (tp_stdin t)) (t\<lparr>tp_stdin := tl (tp_stdin t)\<rparr>)"
| "tmux_step t (TRecvCommand a) =
     tmux_on_command a (hd (tp_commands t)) (t\<lparr>tp_commands := tl (tp_commands t)\<rparr>)"
| "tmux_step t (TWriteReady a) = tmux_write_pending a t"
| "tmux_step t TDrainElapsed = t\<lparr>tp_result := Some (Inr ())\<rparr>"
| "tmux_step t (TReadReady as a) = tmux_on_read as a t"

fun tmux_exec :: "TmuxPump \<Rightarrow> TmuxEvent list \<Rightarrow> TmuxPump option" where
  "tmux_exec t [] = Some t"
| "tmux_exec t (e # es) = (if tmux_enabled t e then tmux_exec (tmux_step t e) es else None)"


section \<open>Output reaches the viewer unchanged\<close>

text \<open>
  How tmux writes the output of a pane: a byte below 32 and the backslash as three octal digits,
  any other byte as itself; a byte may also be escaped without need.
\<close>

inductive tmux_escaped :: "bytes \<Rightarrow> bytes \<Rightarrow> bool" where
  Nil: "tmux_escaped [] []"
| plain: "b \<noteq> 92 \<Longrightarrow> 32 \<le> b \<Longrightarrow> tmux_escaped bs es \<Longrightarrow> tmux_escaped (b # bs) (b # es)"
| octal: "x \<le> 3 \<Longrightarrow> y \<le> 7 \<Longrightarrow> z \<le> 7 \<Longrightarrow> tmux_escaped bs es \<Longrightarrow>
    tmux_escaped ((x * 64 + y * 8 + z) # bs) (92 # (48 + x) # (48 + y) # (48 + z) # es)"

lemma octal_digit: "x \<le> 7 \<Longrightarrow> is_ascii_digit (48 + x) \<and> 32 \<le> 48 + x" for x :: byte
  by (auto simp: is_ascii_digit_def word_le_nat_alt unat_word_ariths)

lemma unescape_escaped: "tmux_escaped bs es \<Longrightarrow> unescape_tmux_bytes es = bs"
proof (induction rule: tmux_escaped.induct)
  case (octal x y z bs es)
  moreover have "x \<le> 7" using octal.hyps(1) by (rule order_trans) simp
  ultimately show ?case using octal_digit [of x] octal_digit [of y] octal_digit [of z]
    by (simp add: take_Cons' nth_Cons')
qed simp_all

lemma escaped_printable: "tmux_escaped bs es \<Longrightarrow> \<forall>b\<in>set es. 32 \<le> b"
proof (induction rule: tmux_escaped.induct)
  case (octal x y z bs es)
  moreover have "x \<le> 7" using octal.hyps(1) by (rule order_trans) simp
  ultimately show ?case using octal_digit [of x] octal_digit [of y] octal_digit [of z] by auto
qed simp_all

definition output_line :: "bytes \<Rightarrow> bytes \<Rightarrow> bytes" where
  "output_line pane es = ascii ''%output '' @ pane @ 32 # es @ [10]"

lemma split_once_space: "32 \<notin> set pane \<Longrightarrow> split_once [32] (pane @ 32 # es) = Some (pane, es)" for pane :: bytes
  by (induction pane) (auto simp: starts_with_def)

lemma trim_line_end_snoc:
  "b \<noteq> 13 \<Longrightarrow> b \<noteq> 10 \<Longrightarrow> trim_line_end (xs @ [b, 10]) = xs @ [b]"
  by (simp add: trim_line_end_def)

lemma trim_output_line:
  assumes "\<forall>b\<in>set es. 32 \<le> b"
  shows "trim_line_end (output_line pane es) = ascii ''%output '' @ pane @ 32 # es"
proof (cases es rule: rev_cases)
  case Nil
  then show ?thesis using trim_line_end_snoc [of 32 "ascii ''%output '' @ pane"] by (simp add: output_line_def)
next
  case (snoc ys y)
  then have "32 \<le> y" using assms by simp
  then have "y \<noteq> 13" "y \<noteq> 10" by auto
  then show ?thesis using snoc trim_line_end_snoc [of y "ascii ''%output '' @ pane @ 32 # ys"]
    by (simp add: output_line_def)
qed

lemma parse_output_line:
  assumes "tmux_escaped bs es" and "32 \<notin> set pane"
  shows "parse_control_line (output_line pane es) = Output bs"
proof -
  have "strip_prefix (ascii ''%output '') (ascii ''%output '' @ pane @ 32 # es) = Some (pane @ 32 # es)"
    by (simp only: strip_prefix_Some_iff)
  then show ?thesis
    unfolding parse_control_line_def trim_output_line [OF escaped_printable [OF assms(1)]]
    by (simp add: Let_def split_once_space [OF assms(2)] unescape_escaped [OF assms(1)])
qed

lemma pump_control_bytes_append:
  "pump_control_bytes lb (xs @ ys) =
     (let (lb1, o1) = pump_control_bytes lb xs; (lb2, o2) = pump_control_bytes lb1 ys in (lb2, o1 @ o2))"
  by (induction lb xs rule: pump_control_bytes.induct) (auto simp: case_prod_beta Let_def)

lemma pump_line:
  "10 \<notin> set l \<Longrightarrow> pump_control_bytes lb (l @ [10]) = ([], on_control_line (lb @ l @ [10]))"
  by (induction l arbitrary: lb) auto

lemma decode_plain: "27 \<notin> set bs \<Longrightarrow> tmux_decode DNormal bs = (DNormal, bs)"
  by (induction bs) (auto simp: decode_byte_def)

text \<open>
  A turn of the loop that reads, with the initial commands already written.
\<close>

lemma read_step:
  assumes "tp_result t = None" and "tp_initial t = None"
  shows "tmux_on_read as (ReadBytes chunk) t =
    (let (d, c) = tmux_decode (tp_decoder t) chunk; (lb, out) = pump_control_bytes (tp_line_buf t) c
     in t\<lparr>tp_decoder := d, tp_line_buf := lb, tp_out := tp_out t @ out\<rparr>)"
  using assms by (simp add: tmux_on_read_def case_prod_beta Let_def)

definition reading :: "TmuxPump \<Rightarrow> bool" where
  "reading t \<longleftrightarrow> tp_result t = None \<and> tp_initial t = None \<and> tp_stdin t = [] \<and> tp_commands t = []"

lemma read_chunks:
  assumes "reading t"
  shows "tmux_exec t (map (\<lambda>c. TReadReady [] (ReadBytes c)) cs) =
    (let (d, c) = tmux_decode (tp_decoder t) (concat cs); (lb, out) = pump_control_bytes (tp_line_buf t) c
     in Some (t\<lparr>tp_decoder := d, tp_line_buf := lb, tp_out := tp_out t @ out\<rparr>))"
  using assms
proof (induction cs arbitrary: t)
  case Nil
  then show ?case by simp
next
  case (Cons c cs)
  obtain d o1 where d: "tmux_decode (tp_decoder t) c = (d, o1)" by fastforce
  obtain lb out where lb: "pump_control_bytes (tp_line_buf t) o1 = (lb, out)" by fastforce
  let ?t = "t\<lparr>tp_decoder := d, tp_line_buf := lb, tp_out := tp_out t @ out\<rparr>"
  have "tmux_on_read [] (ReadBytes c) t = ?t" using Cons.prems d lb by (simp add: read_step reading_def)
  moreover have "reading ?t" using Cons.prems by (simp add: reading_def)
  ultimately show ?case using Cons.prems Cons.IH [of ?t] d lb
    by (simp add: reading_def tmux_decoder.feed_append pump_control_bytes_append case_prod_beta Let_def)
qed

definition line_ok :: "bytes \<times> bytes \<times> bytes \<Rightarrow> bool" where
  "line_ok = (\<lambda>(pane, bs, es). tmux_escaped bs es \<and> 32 \<notin> set pane \<and> 10 \<notin> set pane \<and> 27 \<notin> set pane \<and>
     valid_utf8 (output_line pane es))"

lemma output_line_free:
  assumes "line_ok (pane, bs, es)"
  shows "27 \<notin> set (output_line pane es)" and "10 \<notin> set (butlast (output_line pane es))"
    and "on_control_line (output_line pane es) = [ToStdout bs]"
proof -
  from assms have e: "tmux_escaped bs es" "32 \<notin> set pane" "10 \<notin> set pane" "27 \<notin> set pane"
      "valid_utf8 (output_line pane es)" by (auto simp: line_ok_def)
  have "27 \<notin> set es" "10 \<notin> set es" using escaped_printable [OF e(1)] by auto
  then show "27 \<notin> set (output_line pane es)" "10 \<notin> set (butlast (output_line pane es))"
    using e by (auto simp: output_line_def ascii_def butlast_append)
  show "on_control_line (output_line pane es) = [ToStdout bs]"
    using parse_output_line [OF e(1,2)] from_utf8_lossy_valid [OF e(5)] by (simp add: on_control_line_def)
qed

lemma pump_lines:
  assumes "list_all line_ok ls"
  shows "27 \<notin> set (concat (map (\<lambda>(p, bs, es). output_line p es) ls)) \<and>
    pump_control_bytes [] (concat (map (\<lambda>(p, bs, es). output_line p es) ls)) =
      ([], map (\<lambda>(p, bs, es). ToStdout bs) ls)"
  using assms
proof (induction ls)
  case (Cons l ls)
  obtain p bs es where l: "l = (p, bs, es)" by (cases l) auto
  with Cons.prems have ok: "line_ok (p, bs, es)" by simp
  note free = output_line_free [OF ok]
  have "output_line p es = butlast (output_line p es) @ [10]" by (simp add: output_line_def butlast_append)
  with pump_line [OF free(2), of "[]"] free(3) have
    "pump_control_bytes [] (output_line p es) = ([], [ToStdout bs])" by (metis append_Nil)
  with Cons l free(1) show ?case by (simp add: pump_control_bytes_append)
qed simp

text \<open>
  Output of tmux panes reaches the viewer byte for byte.  When tmux reports the output of its
  panes in control lines, escaped as its protocol describes and in well-formed UTF-8, then however
  the stream is cut into reads the pump forwards exactly the original bytes, in order, and nothing
  else.
\<close>

lemma tmux_output_exact:
  assumes "reading t" and "tp_decoder t = DNormal" and "tp_line_buf t = []" and "list_all line_ok ls"
    and "concat reads = concat (map (\<lambda>(pane, bs, es). output_line pane es) ls)"
  shows "tmux_exec t (map (\<lambda>c. TReadReady [] (ReadBytes c)) reads) =
    Some (t\<lparr>tp_out := tp_out t @ map (\<lambda>(pane, bs, es). ToStdout bs) ls\<rparr>)"
  using read_chunks [OF assms(1), of reads] pump_lines [OF assms(4)] decode_plain assms(2,3,5) by simp

section \<open>Keys reach tmux unchanged\<close>

lemma concat_chunks: "0 < n \<Longrightarrow> concat (chunks n xs) = xs"
  by (induction n xs rule: chunks.induct) (subst chunks.simps, auto)

lemma chunks_bounded: "c \<in> set (chunks n xs) \<Longrightarrow> c \<noteq> [] \<and> length c \<le> n"
proof (induction n xs rule: chunks.induct)
  case (1 n xs)
  then show ?case by (subst (asm) (2) chunks.simps) (auto split: if_splits)
qed

text \<open>
  The arguments of a line of hexadecimal keys, as tmux reads them.
\<close>

definition hex_value :: "byte \<Rightarrow> byte" where
  "hex_value h = (if h < 58 then h - 48 else h - 87)"

fun hex_arguments :: "bytes \<Rightarrow> bytes" where
  "hex_arguments (sp # h # l # rest) = (hex_value h * 16 + hex_value l) # hex_arguments rest"
| "hex_arguments _ = []"

lemma hex_digit_value:
  assumes "n < 16"
  shows "hex_value (hex_digit n) = n" and "48 \<le> hex_digit n"
proof -
  have "unat n < 16" using assms by (simp add: word_less_nat_alt)
  then have "n < 10 \<Longrightarrow> unat (48 + n) = 48 + unat n" "\<not> n < 10 \<Longrightarrow> unat (87 + n) = 87 + unat n"
    by (simp_all add: unat_word_ariths)
  with assms show "hex_value (hex_digit n) = n" "48 \<le> hex_digit n"
    by (auto simp: hex_value_def hex_digit_def word_less_nat_alt word_le_nat_alt)
qed

lemma byte_nibbles: "b div 16 < 16" "b mod 16 < 16" "(b div 16) * 16 + b mod 16 = b" for b :: byte
proof -
  have "unat b < 256" using unsigned_less [of b] by simp
  then show "b div 16 < 16" by (simp add: word_less_nat_alt unat_div)
  show "b mod 16 < 16" by (simp add: word_less_nat_alt unat_mod)
  show "(b div 16) * 16 + b mod 16 = b" by (rule div_mult_mod_eq)
qed

lemma hex_arguments_line: "hex_arguments (concat (map (\<lambda>b. 32 # hex2 b) bs)) = bs"
  by (induction bs) (simp_all add: hex2_def hex_digit_value byte_nibbles)

lemma hex2_no_newline: "10 \<notin> set (hex2 b)"
proof -
  have "48 \<le> hex_digit (b div 16)" "48 \<le> hex_digit (b mod 16)" by (simp_all add: hex_digit_value byte_nibbles)
  then show ?thesis by (auto simp: hex2_def)
qed

text \<open>
  Keys survive the command encoding.  The bytes typed become complete command lines of at most
  397 bytes whose hexadecimal arguments, read line after line, are exactly the bytes typed.
\<close>

lemma send_keys_roundtrip:
  "\<exists>lines. send_keys_command data = concat (map (\<lambda>l. ascii ''send-keys -H'' @ l @ [10]) lines) \<and>
     list_all (\<lambda>l. 10 \<notin> set l \<and> length (ascii ''send-keys -H'' @ l @ [10]) \<le> 397) lines \<and>
     concat (map hex_arguments lines) = data"
proof (intro exI conjI)
  let ?args = "\<lambda>c. concat (map (\<lambda>b. 32 # hex2 b) c)"
  show "send_keys_command data =
      concat (map (\<lambda>l. ascii ''send-keys -H'' @ l @ [10]) (map ?args (chunks 128 data)))"
    by (simp add: send_keys_command_def send_keys_line_def [abs_def] o_def)
  have "length (?args c) = 3 * length c" for c :: bytes by (induction c) (simp_all add: hex2_def)
  then show "list_all (\<lambda>l. 10 \<notin> set l \<and> length (ascii ''send-keys -H'' @ l @ [10]) \<le> 397) (map ?args (chunks 128 data))"
    using chunks_bounded [of _ 128 data] hex2_no_newline by (fastforce simp: list_all_iff ascii_def)
  show "concat (map hex_arguments (map ?args (chunks 128 data))) = data"
    by (simp add: o_def hex_arguments_line concat_chunks)
qed


section \<open>Order of the commands\<close>

definition pump_inv :: "TmuxPump \<Rightarrow> bool" where
  "pump_inv t \<longleftrightarrow> pw_inv (tp_pending t) \<and> pw_max_bytes (tp_pending t) = TMUX_PTY_INPUT_QUEUE_BYTES"

lemma new_pump_inv: "pump_inv (new_pump cs)"
  using new_pending_inv [of TMUX_PTY_INPUT_QUEUE_BYTES]
  by (simp add: pump_inv_def new_pump_def TMUX_PTY_INPUT_QUEUE_BYTES_def) (simp add: new_pending_def)

text \<open>
  The bytes a turn of the loop queues.
\<close>

fun queued_by :: "TmuxPump \<Rightarrow> TmuxEvent \<Rightarrow> bytes" where
  "queued_by t (TRecvStdin a) =
     (case hd (tp_stdin t) of
        Data data \<Rightarrow> if is_ctrl_backslash_sequence data then [] else send_keys_command data
      | StdinClose \<Rightarrow> [])"
| "queued_by t (TRecvCommand a) =
     (case hd (tp_commands t) of
        Resize rows cols \<Rightarrow> resize_commands rows cols
      | PtyClose _ \<Rightarrow> []
      | KickOthers \<Rightarrow> ascii ''detach-client -a'' @ [10])"
| "queued_by t _ = []"

fun queued_in :: "TmuxPump \<Rightarrow> TmuxEvent list \<Rightarrow> bytes" where
  "queued_in t [] = []"
| "queued_in t (e # es) = queued_by t e @ queued_in (tmux_step t e) es"

lemma write_direct_frame [simp]:
  "tp_pending (write_direct w a bs t) = tp_pending t" "tp_initial (write_direct w a bs t) = tp_initial t"
  by (simp_all add: write_direct_def split: DirectWrite.split)

lemma write_initial_frame [simp]: "tp_pending (write_initial as cs t) = tp_pending t"
  by (induction as cs t rule: write_initial.induct) (auto simp: Let_def)

lemma detach_client_drains: "tp_result (detach_client a t) \<noteq> None \<or> tp_draining (detach_client a t)"
  by (simp add: detach_client_def Let_def)

lemma detach_client_inv: "pump_inv t \<Longrightarrow> pump_inv (detach_client a t)"
  using pty_queue.clear_law [of "tp_pending t"] by (simp add: pump_inv_def detach_client_def Let_def)

lemma queue_command_inv:
  assumes "pump_inv t"
  shows "pump_inv (queue_command w bs t)"
    and "tp_result (queue_command w bs t) = None \<Longrightarrow>
      tp_written (queue_command w bs t) @ pw_content (tp_pending (queue_command w bs t)) =
      tp_written t @ pw_content (tp_pending t) @ bs"
proof -
  have "pw_inv (tp_pending t)" using assms by (simp add: pump_inv_def)
  then show "pump_inv (queue_command w bs t)" "tp_result (queue_command w bs t) = None \<Longrightarrow>
      tp_written (queue_command w bs t) @ pw_content (tp_pending (queue_command w bs t)) =
      tp_written t @ pw_content (tp_pending t) @ bs"
    using assms by (cases rule: pty_queue.push_cases [of "tp_pending t" bs];
      auto simp: queue_command_def pump_inv_def)+
qed

lemma tmux_write_inv:
  assumes "pump_inv t" and "tmux_enabled t (TWriteReady a)"
  shows "pump_inv (tmux_write_pending a t) \<and>
    tp_written (tmux_write_pending a t) @ pw_content (tp_pending (tmux_write_pending a t)) =
    tp_written t @ pw_content (tp_pending t)"
proof (cases "front_chunk (tp_pending t)")
  case (Some c)
  have inv: "pw_inv (tp_pending t)" using assms(1) by (simp add: pump_inv_def)
  show ?thesis
  proof (cases a)
    case (Wrote n)
    then have "n \<le> length c" using assms(2) Some by simp
    from pty_queue.write_front [OF inv Some this] assms(1) Some Wrote show ?thesis
      by (auto simp: pump_inv_def tmux_write_pending_def)
  qed (use assms(1) Some in \<open>auto simp: pump_inv_def tmux_write_pending_def\<close>)
qed (use assms(1) in \<open>simp add: tmux_write_pending_def\<close>)

lemma tmux_on_read_pending: "tp_pending (tmux_on_read as a t) = tp_pending t"
  by (simp add: tmux_on_read_def case_prod_beta Let_def split: ReadAnswer.split option.split)

lemma tmux_step_inv: "pump_inv t \<Longrightarrow> tmux_enabled t e \<Longrightarrow> pump_inv (tmux_step t e)"
proof (cases e)
  case (TRecvStdin a)
  assume "pump_inv t"
  then have "pump_inv (t\<lparr>tp_stdin := tl (tp_stdin t)\<rparr>)" by (simp add: pump_inv_def)
  then show ?thesis unfolding TRecvStdin
    by (auto simp: tmux_on_stdin_def detach_client_inv queue_command_inv split: StdinMessage.split)
next
  case (TRecvCommand a)
  assume "pump_inv t"
  then have "pump_inv (t\<lparr>tp_commands := tl (tp_commands t)\<rparr>)" by (simp add: pump_inv_def)
  then show ?thesis unfolding TRecvCommand
    by (auto simp: tmux_on_command_def detach_client_inv queue_command_inv split: PtyCommand.split)
qed (auto simp: tmux_write_inv, auto simp: pump_inv_def tmux_on_read_pending)

lemma tmux_step_stream:
  assumes "pump_inv t" and "tmux_enabled t e" and "tp_initial t = None"
    and "tp_result (tmux_step t e) = None" and "\<not> tp_draining (tmux_step t e)"
  shows "tp_written (tmux_step t e) @ pw_content (tp_pending (tmux_step t e)) =
    tp_written t @ pw_content (tp_pending t) @ queued_by t e"
proof (cases e)
  case (TRecvStdin a)
  have inv: "pump_inv (t\<lparr>tp_stdin := tl (tp_stdin t)\<rparr>)" using assms(1) by (simp add: pump_inv_def)
  show ?thesis
    using assms(4,5) detach_client_drains [of a "t\<lparr>tp_stdin := tl (tp_stdin t)\<rparr>"]
      queue_command_inv(2) [OF inv] unfolding TRecvStdin
    by (auto simp: tmux_on_stdin_def split: StdinMessage.splits if_splits)
next
  case (TRecvCommand a)
  have inv: "pump_inv (t\<lparr>tp_commands := tl (tp_commands t)\<rparr>)" using assms(1) by (simp add: pump_inv_def)
  show ?thesis
    using assms(4,5) detach_client_drains [of a "t\<lparr>tp_commands := tl (tp_commands t)\<rparr>"]
      queue_command_inv(2) [OF inv] unfolding TRecvCommand
    by (auto simp: tmux_on_command_def split: PtyCommand.splits)
next
  case (TWriteReady a)
  then show ?thesis using tmux_write_inv [OF assms(1)] assms(2) by simp
next
  case (TReadReady as a)
  then show ?thesis using assms(3)
    by (auto simp: tmux_on_read_def case_prod_beta Let_def split: ReadAnswer.split)
qed simp_all

lemma write_direct_draining [simp]: "tp_draining (write_direct w a bs t) = tp_draining t"
  by (simp add: write_direct_def split: DirectWrite.split)

lemma write_initial_draining [simp]:
  "tp_draining (write_initial as cs t) = tp_draining t" "tp_initial (write_initial as cs t) = tp_initial t"
  by (induction as cs t rule: write_initial.induct) (auto simp: Let_def)

lemma tmux_on_read_frame [simp]:
  "tp_draining (tmux_on_read as a t) = tp_draining t"
  "tp_initial t = None \<Longrightarrow> tp_initial (tmux_on_read as a t) = None"
  by (simp_all add: tmux_on_read_def case_prod_beta Let_def split: ReadAnswer.split option.split)

lemma detach_client_initial [simp]: "tp_initial (detach_client a t) = tp_initial t"
  by (simp add: detach_client_def Let_def)

lemma queue_command_initial [simp]: "tp_initial (queue_command w bs t) = tp_initial t"
  by (simp add: queue_command_def split: sum.split)

lemma tmux_step_initial: "tp_initial t = None \<Longrightarrow> tp_initial (tmux_step t e) = None"
  by (cases e)
     (auto simp: tmux_on_stdin_def tmux_on_command_def tmux_write_pending_def
       split: StdinMessage.split PtyCommand.split option.split WriteAnswer.split)

lemma tmux_step_stuck:
  "tmux_enabled t e \<Longrightarrow> tp_result t \<noteq> None \<or> tp_draining t \<Longrightarrow>
   tp_result (tmux_step t e) \<noteq> None \<or> tp_draining (tmux_step t e)"
  by (cases e) auto

lemma tmux_exec_stuck:
  "tmux_exec t es = Some u \<Longrightarrow> tp_result t \<noteq> None \<or> tp_draining t \<Longrightarrow> tp_result u \<noteq> None \<or> tp_draining u"
proof (induction es arbitrary: t)
  case (Cons e es)
  then have "tmux_enabled t e" "tmux_exec (tmux_step t e) es = Some u" by (simp_all split: if_splits)
  with Cons.IH tmux_step_stuck [OF this(1) Cons.prems(2)] show ?case by blast
qed simp

text \<open>
  Commands to tmux keep their order.  Once the initial commands are written and as long as
  the client is not detached, what tmux has received followed by the queue is exactly the
  sequence of the key, resize and detach-others commands in the order they were handled, whatever
  the terminal accepts per write; a resize never overtakes keys.
\<close>

lemma tmux_commands_in_order:
  assumes "pump_inv t" and "tp_initial t = None" and "tmux_exec t es = Some u"
    and "tp_result u = None" and "\<not> tp_draining u"
  shows "tp_written u @ pw_content (tp_pending u) = tp_written t @ pw_content (tp_pending t) @ queued_in t es"
  using assms
proof (induction es arbitrary: t)
  case (Cons e es)
  from Cons.prems(3) have e: "tmux_enabled t e" "tmux_exec (tmux_step t e) es = Some u"
    by (simp_all split: if_splits)
  from tmux_exec_stuck [OF e(2)] Cons.prems(4,5) have "tp_result (tmux_step t e) = None" "\<not> tp_draining (tmux_step t e)"
    by blast+
  note stream = tmux_step_stream [OF Cons.prems(1) e(1) Cons.prems(2) this]
  have "tp_written u @ pw_content (tp_pending u) =
      (tp_written (tmux_step t e) @ pw_content (tp_pending (tmux_step t e))) @ queued_in (tmux_step t e) es"
    using Cons.IH [OF tmux_step_inv [OF Cons.prems(1) e(1)] tmux_step_initial [OF Cons.prems(2)] e(2) Cons.prems(4,5)]
    by simp
  then show ?case by (simp add: stream)
qed simp

definition demo_keys :: "TmuxEvent list" where
  "demo_keys = [TStdinArrives (Data [97]), TRecvStdin WholeWritten, TWriteReady (Wrote 5)]"

lemma demo_keys_line:
  "send_keys_command [97] = [115, 101, 110, 100, 45, 107, 101, 121, 115, 32, 45, 72, 32, 54, 49, 10]"
  "\<not> is_ctrl_backslash_sequence [97]"
  by (simp add: send_keys_command_def chunks.simps send_keys_line_def, code_simp) code_simp

lemmas pump_simps = new_pump_def new_pending_def tmux_on_stdin_def queue_command_def pw_push_def
  usize_saturating_add_def TMUX_PTY_INPUT_QUEUE_BYTES_def pw_is_empty_def front_chunk_def tmux_write_pending_def
  consume_def consume_loop.simps detach_client_def write_direct_def pw_clear_def Let_def demo_keys_line

text \<open>
  A detach can be lost.  The queue is cleared but a command that was written in part is not
  completed, so the detach command is appended to its rest: after five bytes of a key command and
  the end of the input, tmux has received one line that is no command it knows, and the pump
  takes no further input.
\<close>

lemma detach_joins_partial_command:
  "\<exists>u. tmux_exec ((new_pump [])\<lparr>tp_initial := None\<rparr>)
       (demo_keys @ [TStdinArrives StdinClose, TRecvStdin WholeWritten]) = Some u \<and>
     tp_written u = ascii ''send-detach-client'' @ [10] \<and> tp_draining u \<and> tp_result u = None"
  by (simp add: demo_keys_def pump_simps) code_simp

end
