(* ===== verification/Frames.thy ===== *)
theory Frames
  imports Prelude
begin

text \<open>
  Length-prefixed frames on a byte stream: little-endian integers, the reader and writer a frame
  goes through, the contract a framing has (an interface that two protocols of portl provide) and
  the frames of the zmx control protocol, \<^verbatim>\<open>portl-core/src/terminal/zmx_control.rs\<close>.
\<close>

section \<open>Little-endian integers\<close>

fun le_value :: "bytes \<Rightarrow> nat" where
  "le_value [] = 0"
| "le_value (b # bs) = unat b + 256 * le_value bs"

fun le_bytes :: "nat \<Rightarrow> nat \<Rightarrow> bytes" where
  "le_bytes 0 n = []"
| "le_bytes (Suc k) n = of_nat (n mod 256) # le_bytes k (n div 256)"

lemma length_le_bytes [simp]: "length (le_bytes k n) = k"
  by (induction k arbitrary: n) simp_all

lemma unat_byte_mod [simp]: "unat (of_nat (n mod 256) :: byte) = n mod 256"
  by (simp add: unat_of_nat take_bit_eq_mod)

lemma unat_byte_less: "unat (b :: byte) < 256"
  using unsigned_less [of b] by simp

lemma of_nat_unat_byte: "of_nat (unat (b :: byte)) = b"
  by simp

lemma le_value_bytes: "n < 256 ^ k \<Longrightarrow> le_value (le_bytes k n) = n"
proof (induction k arbitrary: n)
  case (Suc k)
  then have "n div 256 < 256 ^ k" by (simp add: less_mult_imp_div_less mult.commute)
  with Suc.IH show ?case by simp
qed simp

lemma le_bytes_value [simp]: "le_bytes (length bs) (le_value bs) = bs"
proof (induction bs)
  case (Cons b bs)
  have "unat b mod 256 = unat b" "unat b div 256 = 0" using unat_byte_less [of b] by simp_all
  then show ?case using Cons.IH by (simp add: of_nat_unat_byte)
qed simp

lemma le_value_less: "le_value bs < 256 ^ length bs"
proof (induction bs)
  case (Cons b bs)
  then have "Suc (le_value bs) \<le> 256 ^ length bs" by simp
  then have "256 * Suc (le_value bs) \<le> 256 * 256 ^ length bs" by (rule mult_le_mono2)
  then show ?case using unat_byte_less [of b] by simp
qed simp

lemma le_bytes_eq_iff: "length bs = k \<Longrightarrow> n < 256 ^ k \<Longrightarrow> bs = le_bytes k n \<longleftrightarrow> le_value bs = n"
  using le_bytes_value [of bs] le_value_bytes [of n k] by auto

section \<open>Readers and writers\<close>

text \<open>
  A reader is the bytes still to come and how it ends: with the end of the stream or with an I/O
  error.  A writer is the bytes written and, when it fails, after how many more bytes.
\<close>

datatype IoError = IoUnexpectedEof | IoInvalidInput string | IoInvalidData string | IoOther string

record Reader =
  rd_bytes :: bytes
  rd_fault :: "string option"

record Writer =
  wr_bytes :: bytes
  wr_fault :: "(nat \<times> string) option"

definition end_of :: "Reader \<Rightarrow> IoError" where
  "end_of r = (case rd_fault r of None \<Rightarrow> IoUnexpectedEof | Some e \<Rightarrow> IoOther e)"

definition read_exact :: "nat \<Rightarrow> Reader \<Rightarrow> IoError + bytes \<times> Reader" where
  "read_exact n r =
     (if n \<le> length (rd_bytes r) then Inr (take n (rd_bytes r), r\<lparr>rd_bytes := drop n (rd_bytes r)\<rparr>)
      else Inl (end_of r))"

definition write_all :: "bytes \<Rightarrow> Writer \<Rightarrow> Writer \<times> (IoError + unit)" where
  "write_all bs w =
     (case wr_fault w of
        None \<Rightarrow> (w\<lparr>wr_bytes := wr_bytes w @ bs\<rparr>, Inr ())
      | Some (n, e) \<Rightarrow>
          if length bs \<le> n then (w\<lparr>wr_bytes := wr_bytes w @ bs, wr_fault := Some (n - length bs, e)\<rparr>, Inr ())
          else (w\<lparr>wr_bytes := wr_bytes w @ take n bs, wr_fault := Some (0, e)\<rparr>, Inl (IoOther e)))"

lemma read_exact_append [simp]:
  "length bs = n \<Longrightarrow> read_exact n (r\<lparr>rd_bytes := bs @ rest\<rparr>) = Inr (bs, r\<lparr>rd_bytes := rest\<rparr>)"
  by (simp add: read_exact_def)

lemma read_exact_ok:
  "read_exact n r = Inr (bs, r') \<longleftrightarrow>
     length bs = n \<and> rd_bytes r = bs @ rd_bytes r' \<and> r' = r\<lparr>rd_bytes := rd_bytes r'\<rparr>"
  (is "?L \<longleftrightarrow> ?R")
proof
  assume ?L
  then show ?R by (auto simp: read_exact_def split: if_splits)
next
  assume R: ?R
  then obtain rest where r': "r' = r\<lparr>rd_bytes := rest\<rparr>" by blast
  with R have "r = r\<lparr>rd_bytes := bs @ rest\<rparr>" by simp
  with R r' show ?L using read_exact_append [of bs n rest r] by metis
qed

section \<open>The contract of a framing\<close>

text \<open>
  A framing writes a frame as bytes and takes one frame off the front of a stream.  Whatever
  provides it, frames written one after the other are read back one after the other, and no frame
  is the beginning of another.
\<close>

locale framing =
  fixes fits :: "'f \<Rightarrow> bool"
    and enc :: "'f \<Rightarrow> bytes"
    and dec :: "bytes \<Rightarrow> ('f \<times> bytes) option"
  assumes frame_law: "fits f \<Longrightarrow> dec (enc f @ rest) = Some (f, rest)"
    and end_law: "dec [] = None"
begin

fun read_frames :: "nat \<Rightarrow> bytes \<Rightarrow> 'f list" where
  "read_frames 0 bs = []"
| "read_frames (Suc n) bs = (case dec bs of None \<Rightarrow> [] | Some (f, rest) \<Rightarrow> f # read_frames n rest)"

lemma read_written: "list_all fits fs \<Longrightarrow> length fs < n \<Longrightarrow> read_frames n (concat (map enc fs)) = fs"
proof (induction fs arbitrary: n)
  case Nil
  then show ?case by (cases n) (simp_all add: end_law)
next
  case (Cons f fs)
  then show ?case by (cases n) (simp_all add: frame_law)
qed

lemma frames_unique:
  assumes "fits f" and "fits g" and "enc f @ xs = enc g @ ys"
  shows "f = g \<and> xs = ys"
proof -
  have "Some (f, xs) = Some (g, ys)"
    by (simp only: frame_law [OF assms(1), of xs, symmetric] frame_law [OF assms(2), of ys, symmetric] assms(3))
  then show ?thesis by simp
qed

lemma stream_unique:
  assumes "list_all fits fs" and "list_all fits gs" and "concat (map enc fs) = concat (map enc gs)"
  shows "fs = gs"
proof -
  have "length fs < Suc (length fs + length gs)" "length gs < Suc (length fs + length gs)" by simp_all
  then show ?thesis using read_written [OF assms(1)] read_written [OF assms(2)] assms(3) by metis
qed

end

section \<open>Frames of the zmx control protocol\<close>

definition TAG_INPUT :: u8 where "TAG_INPUT = 0"
definition TAG_OUTPUT :: u8 where "TAG_OUTPUT = 1"
definition TAG_RESIZE :: u8 where "TAG_RESIZE = 2"
definition TAG_CLOSE :: u8 where "TAG_CLOSE = 3"
definition TAG_VIEWPORT_SNAPSHOT :: u8 where "TAG_VIEWPORT_SNAPSHOT = 14"
definition TAG_LIVE_OUTPUT :: u8 where "TAG_LIVE_OUTPUT = 15"

definition MAX_FRAME_BYTES :: nat where
  "MAX_FRAME_BYTES = 16 * 1024 * 1024"

definition write_frame :: "u8 \<Rightarrow> bytes \<Rightarrow> Writer \<Rightarrow> Writer \<times> (IoError + unit)" where
  "write_frame tag payload w =
     (if 2 ^ 32 \<le> length payload then (w, Inl (IoInvalidInput ''zmx-control frame too large''))
      else (case write_all (tag # le_bytes 4 (length payload)) w of
              (w1, Inl e) \<Rightarrow> (w1, Inl e)
            | (w1, Inr _) \<Rightarrow> write_all payload w1))"

definition read_frame :: "Reader \<Rightarrow> IoError + ((u8 \<times> bytes) \<times> Reader) option" where
  "read_frame r =
     (case read_exact 1 r of
        Inl IoUnexpectedEof \<Rightarrow> Inr None
      | Inl e \<Rightarrow> Inl e
      | Inr (tag, r1) \<Rightarrow>
          res_bind (read_exact 4 r1) (\<lambda>(len_bytes, r2).
            if MAX_FRAME_BYTES < le_value len_bytes
            then Inl (IoInvalidData ''zmx-control frame exceeds maximum payload size'')
            else res_bind (read_exact (le_value len_bytes) r2) (\<lambda>(payload, r3).
                   Inr (Some ((hd tag, payload), r3)))))"

definition resize_payload :: "u16 \<Rightarrow> u16 \<Rightarrow> bytes" where
  "resize_payload rows cols = le_bytes 2 (unat rows) @ le_bytes 2 (unat cols)"

text \<open>
  The bytes of one frame, and reading one frame off a stream that ends regularly.
\<close>

definition zmx_bytes :: "u8 \<times> bytes \<Rightarrow> bytes" where
  "zmx_bytes f = fst f # le_bytes 4 (length (snd f)) @ snd f"

definition zmx_fits :: "u8 \<times> bytes \<Rightarrow> bool" where
  "zmx_fits f \<longleftrightarrow> length (snd f) \<le> MAX_FRAME_BYTES"

definition zmx_next :: "bytes \<Rightarrow> ((u8 \<times> bytes) \<times> bytes) option" where
  "zmx_next bs =
     (case read_frame \<lparr>rd_bytes = bs, rd_fault = None\<rparr> of
        Inr (Some (f, r)) \<Rightarrow> Some (f, rd_bytes r)
      | _ \<Rightarrow> None)"

text \<open>
  A frame is read exactly when its bytes are at the front of the stream and its payload is not
  above the limit; nothing after it is touched.
\<close>

lemma read_frame_iff:
  "read_frame r = Inr (Some (f, r')) \<longleftrightarrow>
     zmx_fits f \<and> rd_bytes r = zmx_bytes f @ rd_bytes r' \<and> r' = r\<lparr>rd_bytes := rd_bytes r'\<rparr>"
  (is "?L \<longleftrightarrow> ?R")
proof
  assume ?L
  then obtain tag r1 lb r2 where 1: "read_exact 1 r = Inr (tag, r1)" "read_exact 4 r1 = Inr (lb, r2)"
    "\<not> MAX_FRAME_BYTES < le_value lb" "read_exact (le_value lb) r2 = Inr (snd f, r')" "fst f = hd tag"
    by (auto simp: read_frame_def res_bind_Inr_iff split: sum.splits IoError.splits if_splits)
  then have l: "length tag = 1" "length lb = 4" "le_value lb = length (snd f)" by (simp_all add: read_exact_ok)
  have "tag = [fst f]" using l(1) 1(5) by (cases tag) simp_all
  moreover have "lb = le_bytes 4 (length (snd f))" using le_bytes_value [of lb] l by simp
  ultimately show ?R using 1 l by (auto simp: read_exact_ok zmx_bytes_def zmx_fits_def)
next
  assume R: ?R
  obtain tag payload where f: "f = (tag, payload)" by (cases f)
  obtain rest where r': "r' = r\<lparr>rd_bytes := rest\<rparr>" using R by blast
  have r: "r = r\<lparr>rd_bytes := [tag] @ le_bytes 4 (length payload) @ payload @ rest\<rparr>"
    using R f r' by (simp add: zmx_bytes_def)
  have "length payload < 256 ^ 4" using R f by (simp add: zmx_fits_def MAX_FRAME_BYTES_def)
  then have v: "le_value (le_bytes 4 (length payload)) = length payload" by (rule le_value_bytes)
  show ?L
    by (subst r) (use R f r' v in \<open>simp add: read_frame_def zmx_fits_def del: append_Cons append.simps\<close>)
qed

lemma zmx_next_frame: "zmx_fits f \<Longrightarrow> zmx_next (zmx_bytes f @ rest) = Some (f, rest)"
  using read_frame_iff [of "\<lparr>rd_bytes = zmx_bytes f @ rest, rd_fault = None\<rparr>" f "\<lparr>rd_bytes = rest, rd_fault = None\<rparr>"]
  by (simp add: zmx_next_def)

lemma zmx_next_end: "zmx_next [] = None"
  by (simp add: zmx_next_def read_frame_def read_exact_def end_of_def)

interpretation zmx: framing zmx_fits zmx_bytes zmx_next
  by unfold_locales (simp_all add: zmx_next_frame zmx_next_end)

lemma write_frame_ok:
  assumes "zmx_fits f" and "wr_fault w = None"
  shows "write_frame (fst f) (snd f) w = (w\<lparr>wr_bytes := wr_bytes w @ zmx_bytes f\<rparr>, Inr ())"
  using assms by (simp add: write_frame_def zmx_fits_def MAX_FRAME_BYTES_def write_all_def zmx_bytes_def)

fun write_frames :: "(u8 \<times> bytes) list \<Rightarrow> Writer \<Rightarrow> Writer" where
  "write_frames [] w = w"
| "write_frames (f # fs) w = write_frames fs (fst (write_frame (fst f) (snd f) w))"

lemma write_frames_bytes:
  "list_all zmx_fits fs \<Longrightarrow> wr_fault w = None \<Longrightarrow>
     wr_bytes (write_frames fs w) = wr_bytes w @ concat (map zmx_bytes fs)"
  by (induction fs arbitrary: w) (simp_all add: write_frame_ok)

text \<open>
  Frames of the zmx control protocol survive the wire.  Frames with payloads of at most
  sixteen mebibytes, written one after the other to a writer that does not fail, are read back
  from those bytes as the same frames in the same order, after which the reader reports the end.
\<close>

lemma zmx_roundtrip:
  assumes "list_all zmx_fits fs" and "length fs < n"
  shows "zmx.read_frames n (wr_bytes (write_frames fs \<lparr>wr_bytes = [], wr_fault = None\<rparr>)) = fs \<and>
     read_frame \<lparr>rd_bytes = [], rd_fault = None\<rparr> = Inr None"
  using zmx.read_written [OF assms] write_frames_bytes [OF assms(1)]
  by (simp add: read_frame_def read_exact_def end_of_def)

end
