(* ===== verification/Herdr_Wire.thy ===== *)
theory Herdr_Wire
  imports Frames
begin

text \<open>
  The wire protocol between a Herdr client and server as portl forwards it,
  \<^verbatim>\<open>portl-core/src/herdr_wire.rs\<close>: the messages and the lane each travels on, the
  frames, and the reader that checks a frame's size and budget before it makes room for it.  The
  bincode library is a record of functions.  A \<open>usize\<close> is a natural number below \<open>2 ^ 64\<close>.
\<close>

section \<open>Limits, budget and errors\<close>

definition MAX_FRAME_SIZE :: nat where
  "MAX_FRAME_SIZE = 2 * 1024 * 1024"

definition MAX_GRAPHICS_FRAME_SIZE :: nat where
  "MAX_GRAPHICS_FRAME_SIZE = 32 * 1024 * 1024"

definition MAX_CLIPBOARD_IMAGE_PAYLOAD :: nat where
  "MAX_CLIPBOARD_IMAGE_PAYLOAD = 16 * 1024 * 1024"

definition LENGTH_PREFIX_BYTES :: nat where
  "LENGTH_PREFIX_BYTES = 4"

definition HERDR_NORMAL_QUEUED_BYTES :: nat where
  "HERDR_NORMAL_QUEUED_BYTES = 8 * 1024 * 1024"

definition HERDR_LARGE_QUEUED_BYTES :: nat where
  "HERDR_LARGE_QUEUED_BYTES = 64 * 1024 * 1024"

record HerdrReadLimits =
  normal_payload :: nat
  large_payload :: nat
  clipboard_image_data :: nat

definition default_limits :: HerdrReadLimits where
  "default_limits = \<lparr>normal_payload = MAX_FRAME_SIZE, large_payload = MAX_GRAPHICS_FRAME_SIZE,
     clipboard_image_data = MAX_CLIPBOARD_IMAGE_PAYLOAD\<rparr>"

text \<open>
  The budget is two semaphores; what matters of a semaphore is the number of permits available.
  A wait for permits is modelled by its end: either the permits are there, or the time is up.
\<close>

record HerdrFrameBudget =
  bg_normal :: nat
  bg_large :: nat

definition new_budget :: "nat \<Rightarrow> nat \<Rightarrow> HerdrFrameBudget" where
  "new_budget normal_bytes large_bytes = \<lparr>bg_normal = normal_bytes, bg_large = large_bytes\<rparr>"

definition default_budget :: HerdrFrameBudget where
  "default_budget = new_budget HERDR_NORMAL_QUEUED_BYTES HERDR_LARGE_QUEUED_BYTES"

datatype FrameDirection = ClientToServer | ServerToClient

datatype ClientLane = CControl | CInput | CResize | CBulk

datatype ServerLane = SControl | SRender | SBulk

datatype HerdrFrameError =
    Oversized nat nat
  | UnexpectedEof nat nat
  | Bincode string
  | TooLargeToEncode nat
  | Io string
  | InvalidTag string
  | ZeroLength
  | Allocation nat
  | SlowConsumer nat
  | ClipboardImageOversized nat nat

section \<open>Messages\<close>

datatype RenderEncoding = SemanticFrame | TerminalAnsi

datatype ClientKeybindings = ServerKeys | LocalKeys bytes

datatype ClientLaunchMode = App | TerminalAttach

datatype AttachScrollDirection = Up | Down

datatype AttachScrollSource = Wheel | PageKey bytes

datatype ClientMessage =
    Hello u32 u16 u16 u32 u32 RenderEncoding ClientKeybindings ClientLaunchMode
  | Input bytes
  | ClipboardImage bytes bytes
  | ResizeCells u16 u16 u32 u32
  | Detach
  | AttachTerminal bytes bool
  | AttachScroll AttachScrollSource AttachScrollDirection u16 "u16 option" "u16 option" u8

datatype ClientMessageV11 =
    HelloV11 u32 u16 u16 u32 u32 RenderEncoding ClientKeybindings
  | InputV11 bytes
  | ClipboardImageV11 bytes bytes
  | ResizeCellsV11 u16 u16 u32 u32
  | DetachV11
  | AttachTerminalV11 bytes bool
  | AttachScrollV11 AttachScrollSource AttachScrollDirection u16 "u16 option" "u16 option" u8

fun from_v11 :: "ClientMessageV11 \<Rightarrow> ClientMessage" where
  "from_v11 (HelloV11 version cols rows cw ch enc keys) = Hello version cols rows cw ch enc keys App"
| "from_v11 (InputV11 data) = Input data"
| "from_v11 (ClipboardImageV11 extension data) = ClipboardImage extension data"
| "from_v11 (ResizeCellsV11 cols rows cw ch) = ResizeCells cols rows cw ch"
| "from_v11 DetachV11 = Detach"
| "from_v11 (AttachTerminalV11 terminal_id takeover) = AttachTerminal terminal_id takeover"
| "from_v11 (AttachScrollV11 source direction ls column row modifiers) =
     AttachScroll source direction ls column row modifiers"

record CellData =
  symbol :: bytes
  cell_fg :: u32
  cell_bg :: u32
  modifier :: u16
  skip :: bool
  hyperlink :: "u32 option"

record CursorState =
  cursor_x :: u16
  cursor_y :: u16
  visible :: bool
  shape :: u8

record FrameData =
  cells :: "CellData list"
  fd_width :: u16
  fd_height :: u16
  cursor :: "CursorState option"
  hyperlinks :: "bytes list"
  graphics :: bytes

record TerminalFrame =
  seq :: u64
  tf_width :: u16
  tf_height :: u16
  full :: bool
  tf_bytes :: bytes

datatype NotifyKind = Sound | Toast | SystemToast

datatype ServerMessage =
    Welcome u32 RenderEncoding "bytes option"
  | Frame FrameData
  | Terminal TerminalFrame
  | Graphics bytes
  | ServerShutdown "bytes option"
  | Notify NotifyKind bytes
  | Clipboard bytes
  | ReloadSoundConfig
  | MouseCapture bool

fun client_lane :: "ClientMessage \<Rightarrow> ClientLane" where
  "client_lane (Hello _ _ _ _ _ _ _ _) = CControl"
| "client_lane Detach = CControl"
| "client_lane (AttachTerminal _ _) = CControl"
| "client_lane (Input _) = CInput"
| "client_lane (AttachScroll _ _ _ _ _ _) = CInput"
| "client_lane (ResizeCells _ _ _ _) = CResize"
| "client_lane (ClipboardImage _ _) = CBulk"

definition client_lane_from_variant_tag :: "u32 \<Rightarrow> ClientLane" where
  "client_lane_from_variant_tag tag =
     (if tag = 1 \<or> tag = 6 \<or> tag = 7 then CInput
      else if tag = 2 then CBulk
      else if tag = 3 then CResize
      else CControl)"

fun server_lane :: "ServerMessage \<Rightarrow> ServerLane" where
  "server_lane (Welcome _ _ _) = SControl"
| "server_lane (ServerShutdown _) = SControl"
| "server_lane (Notify _ _) = SControl"
| "server_lane ReloadSoundConfig = SControl"
| "server_lane (MouseCapture _) = SControl"
| "server_lane (Frame _) = SRender"
| "server_lane (Terminal _) = SRender"
| "server_lane (Graphics _) = SBulk"
| "server_lane (Clipboard _) = SBulk"

definition server_lane_from_variant_tag :: "u32 \<Rightarrow> ServerLane" where
  "server_lane_from_variant_tag tag =
     (if tag = 1 \<or> tag = 2 then SRender
      else if tag = 3 \<or> tag = 6 then SBulk
      else SControl)"

section \<open>Tags and lengths\<close>

definition is_large_frame :: "FrameDirection \<Rightarrow> u32 \<Rightarrow> bool" where
  "is_large_frame direction tag \<longleftrightarrow>
     direction = ClientToServer \<and> tag = 2 \<or> direction = ServerToClient \<and> (tag = 1 \<or> tag = 3)"

definition frame_payload_limit :: "FrameDirection \<Rightarrow> u32 \<Rightarrow> HerdrReadLimits \<Rightarrow> nat" where
  "frame_payload_limit direction tag limits =
     (if is_large_frame direction tag then large_payload limits else normal_payload limits)"

definition tag_width :: "byte \<Rightarrow> HerdrFrameError + nat" where
  "tag_width marker =
     (if marker \<le> 250 then Inr 1
      else if marker = 251 then Inr 3
      else if marker = 252 then Inr 5
      else Inl (InvalidTag ''reserved or overflowing marker''))"

definition decode_compact_u32 :: "bytes \<Rightarrow> HerdrFrameError + u32" where
  "decode_compact_u32 bs =
     (case bs of
        [v] \<Rightarrow> if v \<le> 250 then Inr (ucast v) else Inl (InvalidTag ''invalid length'')
      | [m, lo, hi] \<Rightarrow>
          if m = 251
          then (if 250 < le_value [lo, hi] then Inr (of_nat (le_value [lo, hi]))
                else Inl (InvalidTag ''non-canonical u16''))
          else Inl (InvalidTag ''invalid length'')
      | [m, a, b, c, d] \<Rightarrow>
          if m = 252
          then (if 65535 < le_value [a, b, c, d] then Inr (of_nat (le_value [a, b, c, d]))
                else Inl (InvalidTag ''non-canonical u32''))
          else Inl (InvalidTag ''invalid length'')
      | _ \<Rightarrow> Inl (InvalidTag ''invalid length''))"

definition decode_tag_prefix :: "bytes \<Rightarrow> HerdrFrameError + u32 \<times> nat" where
  "decode_tag_prefix bs =
     (case bs of
        [] \<Rightarrow> Inl (UnexpectedEof 1 0)
      | marker # _ \<Rightarrow>
          res_bind (tag_width marker) (\<lambda>width.
            if length bs < width then Inl (UnexpectedEof width (length bs))
            else res_bind (decode_compact_u32 (take width bs)) (\<lambda>tag. Inr (tag, width))))"

definition usize_checked_add :: "nat \<Rightarrow> nat \<Rightarrow> nat option" where
  "usize_checked_add a b = (if a + b < 2 ^ 64 then Some (a + b) else None)"

definition varint_width :: "byte \<Rightarrow> nat option" where
  "varint_width marker =
     (if marker \<le> 250 then Some 1
      else if marker = 251 then Some 3
      else if marker = 252 then Some 5
      else if marker = 253 then Some 9
      else None)"

definition canonical_width :: "nat \<Rightarrow> nat \<Rightarrow> bool" where
  "canonical_width width v \<longleftrightarrow>
     width = 1 \<or> width = 3 \<and> 250 < v \<or> width = 5 \<and> 65535 < v \<or> width = 9 \<and> 4294967295 < v"

definition parse_varint_usize :: "bytes \<Rightarrow> nat \<Rightarrow> HerdrFrameError + nat \<times> nat" where
  "parse_varint_usize bs offset =
     (if length bs \<le> offset then Inl (UnexpectedEof (offset + 1) (length bs))
      else (case varint_width (bs ! offset) of
              None \<Rightarrow> Inl (InvalidTag ''invalid length varint'')
            | Some width \<Rightarrow>
                res_bind (ok_or (Allocation (2 ^ 64 - 1)) (usize_checked_add offset width)) (\<lambda>end.
                  if length bs < end then Inl (UnexpectedEof end (length bs))
                  else (let raw = take width (drop offset bs);
                            v = (if width = 1 then le_value raw else le_value (tl raw))
                        in if canonical_width width v then Inr (v, end)
                           else Inl (InvalidTag ''non-canonical collection length'')))))"

definition validate_clipboard_image :: "bytes \<Rightarrow> nat \<Rightarrow> HerdrFrameError + unit" where
  "validate_clipboard_image payload limit =
     res_bind (decode_tag_prefix payload) (\<lambda>(tag, tag_len).
       if tag \<noteq> 2 then Inl (InvalidTag ''expected ClipboardImage'')
       else res_bind (parse_varint_usize payload tag_len) (\<lambda>(extension_len, offset).
         res_bind (ok_or (Allocation (2 ^ 64 - 1)) (usize_checked_add offset extension_len)) (\<lambda>extension_end.
           if length payload < extension_end then Inl (UnexpectedEof extension_end (length payload))
           else if \<not> valid_utf8 (take extension_len (drop offset payload))
           then Inl (Bincode ''ClipboardImage extension is not UTF-8'')
           else res_bind (parse_varint_usize payload extension_end) (\<lambda>(data_len, offset2).
             if limit < data_len then Inl (ClipboardImageOversized data_len limit)
             else res_bind (ok_or (Allocation (2 ^ 64 - 1)) (usize_checked_add offset2 data_len)) (\<lambda>end.
               if end \<noteq> length payload then Inl (Bincode ''malformed ClipboardImage payload'')
               else Inr ())))))"

text \<open>
  The encoding these parsers are for: bincode's variable-length integers.
\<close>

definition varint :: "nat \<Rightarrow> bytes" where
  "varint v =
     (if v \<le> 250 then [of_nat v]
      else if v < 2 ^ 16 then 251 # le_bytes 2 v
      else if v < 2 ^ 32 then 252 # le_bytes 4 v
      else 253 # le_bytes 8 v)"

abbreviation compact :: "u32 \<Rightarrow> bytes" where
  "compact tag \<equiv> varint (unat tag)"

lemma unat_small_byte: "v \<le> 250 \<Longrightarrow> unat (of_nat v :: byte) = v"
  by (simp add: unat_of_nat take_bit_eq_mod)

lemma unat_ucast_small_byte: "v \<le> 250 \<Longrightarrow> unat (ucast (of_nat v :: byte) :: u32) = v"
  by (simp add: unsigned_ucast_eq unat_small_byte take_bit_nat_eq_self)

lemma small_byte_le: "v \<le> 250 \<Longrightarrow> (of_nat v :: byte) \<le> 250"
  by (simp add: word_le_nat_alt unat_small_byte)

lemma unat_u32_less: "unat (t :: u32) < 2 ^ 32"
  using unsigned_less [of t] by simp

lemma unat_u32_of_nat: "n < 2 ^ 32 \<Longrightarrow> unat (of_nat n :: u32) = n"
  by (simp add: unat_of_nat take_bit_eq_mod)

lemma varint_shape:
  obtains (one) "v \<le> 250" "varint v = [of_nat v]" "varint_width (hd (varint v)) = Some 1"
  | (two) "250 < v" "v < 2 ^ 16" "varint v = 251 # le_bytes 2 v" "varint_width (hd (varint v)) = Some 3"
  | (four) "2 ^ 16 \<le> v" "v < 2 ^ 32" "varint v = 252 # le_bytes 4 v" "varint_width (hd (varint v)) = Some 5"
  | (eight) "2 ^ 32 \<le> v" "varint v = 253 # le_bytes 8 v" "varint_width (hd (varint v)) = Some 9"
  by (cases "v \<le> 250"; cases "v < 2 ^ 16"; cases "v < 2 ^ 32")
     (simp_all add: varint_def varint_width_def small_byte_le)

lemma varint_nonempty [simp]: "varint v \<noteq> []"
  by (simp add: varint_def)

lemma length_varint: "length (varint v) = the (varint_width (hd (varint v)))"
  by (cases rule: varint_shape [of v]) simp_all

lemma decode_compact_iff: "decode_compact_u32 bs = Inr t \<longleftrightarrow> bs = compact t"
proof
  assume "decode_compact_u32 bs = Inr t"
  then consider (one) v where "bs = [v]" "v \<le> 250" "t = ucast v"
    | (two) xs where "bs = 251 # xs" "length xs = 2" "250 < le_value xs" "t = of_nat (le_value xs)"
    | (four) xs where "bs = 252 # xs" "length xs = 4" "65535 < le_value xs" "t = of_nat (le_value xs)"
    by (auto simp: decode_compact_u32_def split: list.splits if_splits simp del: le_value.simps)
  then show "bs = compact t"
  proof cases
    case one
    then have "unat t = unat v" "unat v \<le> 250" by (simp_all add: unsigned_ucast_eq word_le_nat_alt take_bit_nat_eq_self unat_byte_less)
    with one show ?thesis by (simp add: varint_def)
  next
    case two
    have "le_value xs < 2 ^ 16" using le_value_less [of xs] two(2) by simp
    then have "unat t = le_value xs" using two(4) by (simp add: unat_u32_of_nat)
    then show ?thesis using two le_bytes_value [of xs] \<open>le_value xs < 2 ^ 16\<close> by (simp add: varint_def)
  next
    case four
    have "le_value xs < 2 ^ 32" using le_value_less [of xs] four(2) by simp
    then have "unat t = le_value xs" using four(4) by (simp add: unat_u32_of_nat)
    then show ?thesis using four le_bytes_value [of xs] \<open>le_value xs < 2 ^ 32\<close> by (simp add: varint_def)
  qed
next
  assume bs: "bs = compact t"
  have len: "length xs = 2 \<Longrightarrow> \<exists>a b. xs = [a, b]" "length xs = 4 \<Longrightarrow> \<exists>a b c d. xs = [a, b, c, d]" for xs :: bytes
    by (auto simp: numeral_eq_Suc length_Suc_conv)
  show "decode_compact_u32 bs = Inr t"
  proof (cases rule: varint_shape [of "unat t"])
    case one
    have "unat (ucast (of_nat (unat t) :: byte) :: u32) = unat t" by (rule unat_ucast_small_byte) (rule one(1))
    then have "ucast (of_nat (unat t) :: byte) = t" by (simp only: word_unat_eq_iff)
    with one bs small_byte_le [OF one(1)] show ?thesis by (simp add: decode_compact_u32_def)
  next
    case two
    obtain a b where ab: "le_bytes 2 (unat t) = [a, b]" using len(1) [of "le_bytes 2 (unat t)"] by auto
    have "le_value [a, b] = unat t" using le_value_bytes [of "unat t" 2] two(2) unfolding ab by simp
    with two ab bs show ?thesis by (simp add: decode_compact_u32_def del: le_value.simps)
  next
    case four
    obtain a b c d where abcd: "le_bytes 4 (unat t) = [a, b, c, d]" using len(2) [of "le_bytes 4 (unat t)"] by auto
    have "le_value [a, b, c, d] = unat t" using le_value_bytes [of "unat t" 4] four(2) unfolding abcd by simp
    with four abcd bs show ?thesis by (simp add: decode_compact_u32_def del: le_value.simps)
  next
    case eight
    then show ?thesis using unat_u32_less [of t] by simp
  qed
qed

lemma tag_width_compact: "tag_width (hd (compact t)) = Inr (length (compact t))"
  by (cases rule: varint_shape [of "unat t"])
     (use unat_u32_less [of t] small_byte_le [of "unat t"] in \<open>simp_all add: tag_width_def\<close>)

lemma decode_tag_prefix_iff:
  "decode_tag_prefix bs = Inr (t, w) \<longleftrightarrow> w = length (compact t) \<and> (\<exists>rest. bs = compact t @ rest)"
  (is "?L \<longleftrightarrow> ?R")
proof
  assume ?L
  then have "w \<le> length bs" "take w bs = compact t"
    by (auto simp: decode_tag_prefix_def res_bind_Inr_iff decode_compact_iff split: list.splits if_splits)
  then show ?R by (metis append_take_drop_id length_take min.absorb2)
next
  assume ?R
  then obtain rest where bs: "bs = compact t @ rest" "w = length (compact t)" by blast
  obtain m ms where m: "compact t = m # ms" using varint_nonempty by (cases "compact t") auto
  then have "tag_width m = Inr w" using tag_width_compact [of t] bs(2) by simp
  moreover have "decode_compact_u32 (take w bs) = Inr t" by (simp add: bs decode_compact_iff)
  ultimately show ?L using bs m by (simp add: decode_tag_prefix_def)
qed

lemma varint_width_cases:
  assumes "varint_width m = Some w"
  obtains "m \<le> 250" "w = 1" | "m = 251" "w = 3" | "m = 252" "w = 5" | "m = 253" "w = 9"
  using assms by (auto simp: varint_width_def split: if_splits)

text \<open>
  The value of the bytes of one integer, and when they are the canonical form of it.
\<close>

definition raw_value :: "bytes \<Rightarrow> nat" where
  "raw_value raw = (if length raw = 1 then le_value raw else le_value (tl raw))"

lemma raw_canonical:
  assumes "raw \<noteq> []" and "varint_width (hd raw) = Some (length raw)"
  shows "canonical_width (length raw) (raw_value raw) \<longleftrightarrow> raw = varint (raw_value raw)"
proof -
  obtain m xs where raw: "raw = m # xs" using assms(1) by (cases raw) auto
  have "varint_width m = Some (length raw)" using assms(2) raw by simp
  then show ?thesis
  proof (cases rule: varint_width_cases)
    case 1
    then have "xs = []" "unat m \<le> 250" using raw by (simp_all add: word_le_nat_alt)
    then show ?thesis using raw by (simp add: raw_value_def canonical_width_def varint_def)
  next
    case 2
    then have l: "length xs = 2" using raw by simp
    then have "le_value xs < 2 ^ 16" using le_value_less [of xs] by simp
    then show ?thesis using 2 raw l le_bytes_value [of xs]
      by (auto simp: raw_value_def canonical_width_def varint_def)
  next
    case 3
    then have l: "length xs = 4" using raw by simp
    then have "le_value xs < 2 ^ 32" using le_value_less [of xs] by simp
    then show ?thesis using 3 raw l le_bytes_value [of xs]
      by (auto simp: raw_value_def canonical_width_def varint_def)
  next
    case 4
    then have "length xs = 8" using raw by simp
    then show ?thesis using 4 raw le_bytes_value [of xs]
      by (auto simp: raw_value_def canonical_width_def varint_def)
  qed
qed

lemma raw_value_varint: "v < 2 ^ 64 \<Longrightarrow> raw_value (varint v) = v"
  by (cases rule: varint_shape [of v]) (simp_all add: raw_value_def unat_small_byte le_value_bytes)

lemma varint_width_length: "varint_width (hd (varint v)) = Some (length (varint v))"
  by (cases rule: varint_shape [of v]) simp_all

lemma raw_value_less:
  assumes "raw \<noteq> []" and "varint_width (hd raw) = Some (length raw)"
  shows "raw_value raw < 2 ^ 64"
proof -
  have "length raw = 1 \<or> length raw = 3 \<or> length raw = 5 \<or> length raw = 9"
    using assms(2) by (auto elim: varint_width_cases)
  then show ?thesis using le_value_less [of raw] le_value_less [of "tl raw"] by (auto simp: raw_value_def)
qed

lemma parse_varint_iff:
  assumes "length bs + 9 < 2 ^ 64"
  shows "parse_varint_usize bs off = Inr (v, e) \<longleftrightarrow>
     v < 2 ^ 64 \<and> e = off + length (varint v) \<and> off < length bs \<and> (\<exists>rest. drop off bs = varint v @ rest)"
  (is "?L \<longleftrightarrow> ?R")
proof
  assume ?L
  then obtain w where w: "off < length bs" "varint_width (bs ! off) = Some w" "e = off + w" "e \<le> length bs"
      "canonical_width w v" "v = (if w = 1 then le_value (take w (drop off bs)) else le_value (tl (take w (drop off bs))))"
    by (auto simp: parse_varint_usize_def res_bind_Inr_iff ok_or_Inr_iff usize_checked_add_def Let_def
        split: if_splits option.splits)
  let ?raw = "take w (drop off bs)"
  have "0 < w" using w(2) by (auto elim: varint_width_cases)
  then have raw: "?raw \<noteq> []" "length ?raw = w" "hd ?raw = bs ! off" using w(1,3,4) by (simp_all add: hd_drop_conv_nth)
  have v: "v = raw_value ?raw" using w(6) raw(2) by (simp add: raw_value_def)
  have vw: "varint_width (hd ?raw) = Some (length ?raw)" using w(2) raw by simp
  have "?raw = varint v" using raw_canonical [OF raw(1) vw] w(5) raw(2) v by simp
  moreover have "v < 2 ^ 64" using raw_value_less [OF raw(1) vw] v by simp
  ultimately show ?R using w(1,3) raw(2) by (metis append_take_drop_id)
next
  assume ?R
  then obtain rest where R: "v < 2 ^ 64" "e = off + length (varint v)" "off < length bs" "drop off bs = varint v @ rest"
    by blast
  let ?w = "length (varint v)"
  have hd: "bs ! off = hd (varint v)" using R(3,4) by (metis hd_append2 hd_drop_conv_nth varint_nonempty)
  have e: "e \<le> length bs" using R(2,3) arg_cong [OF R(4), of length] by simp
  have raw: "take ?w (drop off bs) = varint v" using R(4) by simp
  have c: "canonical_width ?w v"
    using raw_canonical [OF varint_nonempty varint_width_length, of v] raw_value_varint [OF R(1)] by simp
  have val: "(if ?w = 1 then le_value (varint v) else le_value (tl (varint v))) = v"
    using raw_value_varint [OF R(1)] by (simp add: raw_value_def)
  show ?L
    using R(2,3) e c val assms
    by (simp add: parse_varint_usize_def hd varint_width_length usize_checked_add_def ok_or_def Let_def raw)
qed

text \<open>
  The payload of a clipboard image: the tag, the extension and the data, each with its length.
\<close>

definition clipboard_payload :: "bytes \<Rightarrow> bytes \<Rightarrow> bytes" where
  "clipboard_payload ext data = compact 2 @ varint (length ext) @ ext @ varint (length data) @ data"

lemma validate_clipboard_ok:
  "validate_clipboard_image p limit = Inr () \<longleftrightarrow>
     (\<exists>tl el off dl off2. decode_tag_prefix p = Inr (2, tl) \<and> parse_varint_usize p tl = Inr (el, off) \<and>
        off + el < 2 ^ 64 \<and> off + el \<le> length p \<and> valid_utf8 (take el (drop off p)) \<and>
        parse_varint_usize p (off + el) = Inr (dl, off2) \<and> dl \<le> limit \<and> off2 + dl < 2 ^ 64 \<and> off2 + dl = length p)"
  (is "?L \<longleftrightarrow> ?R")
proof
  assume ?L
  then show ?R
    by (auto simp: validate_clipboard_image_def res_bind_Inr_iff ok_or_Inr_iff usize_checked_add_def split: if_splits)
next
  assume ?R
  then show ?L by (auto simp: validate_clipboard_image_def ok_or_def usize_checked_add_def)
qed

lemma validate_clipboard_iff:
  assumes "length p + 9 < 2 ^ 64"
  shows "validate_clipboard_image p limit = Inr () \<longleftrightarrow>
     (\<exists>ext data. valid_utf8 ext \<and> length data \<le> limit \<and> p = clipboard_payload ext data)"
  (is "_ \<longleftrightarrow> ?R")
proof
  assume "validate_clipboard_image p limit = Inr ()"
  then obtain tl el off dl off2 where v: "decode_tag_prefix p = Inr (2, tl)" "parse_varint_usize p tl = Inr (el, off)"
      "off + el \<le> length p" "valid_utf8 (take el (drop off p))"
      "parse_varint_usize p (off + el) = Inr (dl, off2)" "dl \<le> limit" "off2 + dl = length p"
    unfolding validate_clipboard_ok by blast
  obtain r1 where 1: "p = compact 2 @ r1" "tl = length (compact 2)" using v(1) by (auto simp: decode_tag_prefix_iff)
  obtain r2 where 2: "r1 = varint el @ r2" "off = tl + length (varint el)"
    using v(2) [unfolded parse_varint_iff [OF assms]] 1 by auto
  have off: "drop off p = r2" using 1 2 by simp
  obtain r3 where 3: "drop (off + el) p = varint dl @ r3" "off2 = off + el + length (varint dl)"
    using v(5) [unfolded parse_varint_iff [OF assms]] by auto
  have r2: "drop el r2 = varint dl @ r3" using 3(1) off [symmetric] by (simp add: add.commute)
  have p: "length p = off + length r2" using 1 2 by simp
  then have el: "length (take el r2) = el" using v(3) by simp
  have "length r2 = el + length (drop el r2)" using p v(3) by simp
  then have dl: "length r3 = dl" using p v(7) 3(2) r2 by simp
  have "p = compact 2 @ varint el @ take el r2 @ drop el r2" using 1(1) 2(1) by simp
  then have "p = clipboard_payload (take el r2) r3" by (simp only: clipboard_payload_def el dl r2)
  then show ?R using v(4,6) off dl by auto
next
  assume ?R
  then obtain ext data where R: "valid_utf8 ext" "length data \<le> limit" "p = clipboard_payload ext data" by blast
  let ?off = "length (compact 2) + length (varint (length ext))"
  have small: "length ext < 2 ^ 64" "length data < 2 ^ 64" "length p < 2 ^ 64"
    using assms R(3) by (simp_all add: clipboard_payload_def)
  have t: "decode_tag_prefix p = Inr (2, length (compact 2))"
    using R(3) by (simp add: decode_tag_prefix_iff clipboard_payload_def)
  have x: "parse_varint_usize p (length (compact 2)) = Inr (length ext, ?off)"
    unfolding parse_varint_iff [OF assms] using R(3) small by (simp add: clipboard_payload_def)
  have d: "parse_varint_usize p (?off + length ext) = Inr (length data, ?off + length ext + length (varint (length data)))"
    unfolding parse_varint_iff [OF assms] using R(3) small by (simp add: clipboard_payload_def)
  have l: "?off + length ext \<le> length p" "?off + length ext + length (varint (length data)) + length data = length p"
    using R(3) by (simp_all add: clipboard_payload_def)
  have e: "take (length ext) (drop ?off p) = ext" using R(3) by (simp add: clipboard_payload_def)
  show "validate_clipboard_image p limit = Inr ()"
    unfolding validate_clipboard_ok
    by (intro exI conjI, rule t, rule x) (use d l e R(1,2) small(3) in auto)
qed

section \<open>Frames\<close>

text \<open>
  A frame is shared by reference and gives its permits back when the last reference goes.
\<close>

record RawHerdrFrame =
  fr_direction :: FrameDirection
  fr_framed :: bytes
  fr_budget :: "(bool \<times> nat) option"

record Bincode =
  bc_encode_client :: "ClientMessage \<Rightarrow> string + bytes"
  bc_encode_server :: "ServerMessage \<Rightarrow> string + bytes"
  bc_decode_client :: "bytes \<Rightarrow> string + ClientMessage \<times> nat"
  bc_decode_client_v11 :: "bytes \<Rightarrow> string + ClientMessageV11 \<times> nat"
  bc_decode_server :: "bytes \<Rightarrow> string + ServerMessage \<times> nat"
  bc_decode_u32 :: "bytes \<Rightarrow> string + u32 \<times> nat"

definition encode_frame :: "FrameDirection \<Rightarrow> ('m \<Rightarrow> string + bytes) \<Rightarrow> 'm \<Rightarrow> HerdrFrameError + RawHerdrFrame" where
  "encode_frame direction encode_to_vec message =
     res_bind (map_err Bincode (encode_to_vec message)) (\<lambda>payload.
       if 2 ^ 32 \<le> length payload then Inl (TooLargeToEncode (length payload))
       else Inr \<lparr>fr_direction = direction, fr_framed = le_bytes 4 (length payload) @ payload, fr_budget = None\<rparr>)"

definition frame_payload :: "bytes \<Rightarrow> HerdrFrameError + bytes" where
  "frame_payload bs =
     (if length bs < LENGTH_PREFIX_BYTES then Inl (UnexpectedEof LENGTH_PREFIX_BYTES (length bs))
      else (let claimed = le_value (take LENGTH_PREFIX_BYTES bs); needed = LENGTH_PREFIX_BYTES + claimed
            in if MAX_GRAPHICS_FRAME_SIZE < claimed then Inl (Oversized claimed MAX_GRAPHICS_FRAME_SIZE)
               else if length bs < needed then Inl (UnexpectedEof needed (length bs))
               else if needed < length bs
               then Inl (Bincode (''frame contains '' @ decimal (length bs - needed) @ '' trailing bytes''))
               else Inr (drop LENGTH_PREFIX_BYTES bs)))"

definition decode_payload :: "(bytes \<Rightarrow> string + 'm \<times> nat) \<Rightarrow> bytes \<Rightarrow> HerdrFrameError + 'm" where
  "decode_payload decode_from_slice bs =
     res_bind (frame_payload bs) (\<lambda>payload.
       res_bind (map_err Bincode (decode_from_slice payload)) (\<lambda>(message, consumed).
         if consumed \<noteq> length payload
         then Inl (Bincode (''decoded '' @ decimal consumed @ '' bytes but payload length was '' @
                            decimal (length payload)))
         else Inr message))"

definition frame_variant_tag :: "Bincode \<Rightarrow> bytes \<Rightarrow> HerdrFrameError + u32" where
  "frame_variant_tag bc bs =
     res_bind (frame_payload bs) (\<lambda>payload.
       res_bind (map_err Bincode (bc_decode_u32 bc payload)) (\<lambda>(tag, consumed).
         if consumed = 0 then Inl (Bincode ''decoded empty Herdr variant tag'') else Inr tag))"

definition validate_raw_frame :: "Bincode \<Rightarrow> bytes \<Rightarrow> FrameDirection \<Rightarrow> HerdrFrameError + unit" where
  "validate_raw_frame bc bs direction =
     (if length bs < LENGTH_PREFIX_BYTES then Inl (UnexpectedEof LENGTH_PREFIX_BYTES (length bs))
      else (let claimed = le_value (take LENGTH_PREFIX_BYTES bs)
            in if claimed = 0 then Inl ZeroLength
               else res_bind (decode_tag_prefix (drop LENGTH_PREFIX_BYTES bs)) (\<lambda>(tag, _).
                      let limit = frame_payload_limit direction tag default_limits
                      in if limit < claimed then Inl (Oversized claimed limit)
                         else res_bind (frame_variant_tag bc bs) (\<lambda>_. Inr ()))))"

fun show_direction :: "FrameDirection \<Rightarrow> string" where
  "show_direction ClientToServer = ''ClientToServer''"
| "show_direction ServerToClient = ''ServerToClient''"

definition ensure_direction :: "FrameDirection \<Rightarrow> FrameDirection \<Rightarrow> HerdrFrameError + unit" where
  "ensure_direction actual expected =
     (if actual = expected then Inr ()
      else Inl (Bincode (''wrong Herdr frame direction: expected '' @ show_direction expected @
                         '', got '' @ show_direction actual)))"

definition encode_client :: "Bincode \<Rightarrow> ClientMessage \<Rightarrow> HerdrFrameError + RawHerdrFrame" where
  "encode_client bc message = encode_frame ClientToServer (bc_encode_client bc) message"

definition encode_server :: "Bincode \<Rightarrow> ServerMessage \<Rightarrow> HerdrFrameError + RawHerdrFrame" where
  "encode_server bc message = encode_frame ServerToClient (bc_encode_server bc) message"

definition decode_client_from_bytes :: "Bincode \<Rightarrow> bytes \<Rightarrow> HerdrFrameError + RawHerdrFrame" where
  "decode_client_from_bytes bc bs =
     res_bind (validate_raw_frame bc bs ClientToServer) (\<lambda>_.
       Inr \<lparr>fr_direction = ClientToServer, fr_framed = bs, fr_budget = None\<rparr>)"

definition decode_server_from_bytes :: "Bincode \<Rightarrow> bytes \<Rightarrow> HerdrFrameError + RawHerdrFrame" where
  "decode_server_from_bytes bc bs =
     res_bind (validate_raw_frame bc bs ServerToClient) (\<lambda>_.
       Inr \<lparr>fr_direction = ServerToClient, fr_framed = bs, fr_budget = None\<rparr>)"

definition decode_client_payload :: "Bincode \<Rightarrow> bytes \<Rightarrow> HerdrFrameError + ClientMessage" where
  "decode_client_payload bc bs =
     (case decode_payload (bc_decode_client bc) bs of
        Inr message \<Rightarrow> Inr message
      | Inl latest_err \<Rightarrow>
          (case decode_payload (bc_decode_client_v11 bc) bs of
             Inr message \<Rightarrow> Inr (from_v11 message)
           | Inl _ \<Rightarrow> Inl latest_err))"

definition decode_client :: "Bincode \<Rightarrow> RawHerdrFrame \<Rightarrow> HerdrFrameError + ClientMessage" where
  "decode_client bc f =
     res_bind (ensure_direction (fr_direction f) ClientToServer) (\<lambda>_. decode_client_payload bc (fr_framed f))"

definition decode_server :: "Bincode \<Rightarrow> RawHerdrFrame \<Rightarrow> HerdrFrameError + ServerMessage" where
  "decode_server bc f =
     res_bind (ensure_direction (fr_direction f) ServerToClient) (\<lambda>_. decode_payload (bc_decode_server bc) (fr_framed f))"

definition client_variant_tag :: "Bincode \<Rightarrow> RawHerdrFrame \<Rightarrow> HerdrFrameError + u32" where
  "client_variant_tag bc f =
     res_bind (ensure_direction (fr_direction f) ClientToServer) (\<lambda>_. frame_variant_tag bc (fr_framed f))"

definition server_variant_tag :: "Bincode \<Rightarrow> RawHerdrFrame \<Rightarrow> HerdrFrameError + u32" where
  "server_variant_tag bc f =
     res_bind (ensure_direction (fr_direction f) ServerToClient) (\<lambda>_. frame_variant_tag bc (fr_framed f))"

definition is_client_hello :: "Bincode \<Rightarrow> RawHerdrFrame \<Rightarrow> HerdrFrameError + bool" where
  "is_client_hello bc f = res_bind (client_variant_tag bc f) (\<lambda>tag. Inr (tag = 0))"

definition is_server_welcome :: "Bincode \<Rightarrow> RawHerdrFrame \<Rightarrow> HerdrFrameError + bool" where
  "is_server_welcome bc f = res_bind (server_variant_tag bc f) (\<lambda>tag. Inr (tag = 0))"

definition frame_client_lane :: "Bincode \<Rightarrow> RawHerdrFrame \<Rightarrow> HerdrFrameError + ClientLane" where
  "frame_client_lane bc f = res_bind (client_variant_tag bc f) (\<lambda>tag. Inr (client_lane_from_variant_tag tag))"

definition frame_server_lane :: "Bincode \<Rightarrow> RawHerdrFrame \<Rightarrow> HerdrFrameError + ServerLane" where
  "frame_server_lane bc f = res_bind (server_variant_tag bc f) (\<lambda>tag. Inr (server_lane_from_variant_tag tag))"

section \<open>Reading a frame\<close>

definition read_exact_counted :: "nat \<Rightarrow> nat \<Rightarrow> nat \<Rightarrow> Reader \<Rightarrow> HerdrFrameError + bytes \<times> Reader" where
  "read_exact_counted n needed already r =
     (case read_exact n r of
        Inr x \<Rightarrow> Inr x
      | Inl (IoOther e) \<Rightarrow> Inl (Io e)
      | Inl _ \<Rightarrow> Inl (UnexpectedEof needed (already + length (rd_bytes r))))"

text \<open>
  The reader up to the point where it knows the size and the tag; \<open>b0\<close> is the first byte.
\<close>

definition read_header ::
  "byte \<Rightarrow> FrameDirection \<Rightarrow> HerdrReadLimits \<Rightarrow> Reader \<Rightarrow> HerdrFrameError + (bytes \<times> bytes \<times> u32) \<times> Reader" where
  "read_header b0 direction limits r =
     res_bind (read_exact_counted 3 LENGTH_PREFIX_BYTES 1 r) (\<lambda>(len_rest, r1).
       let len_buf = b0 # len_rest; claimed = le_value len_buf
       in if claimed = 0 then Inl ZeroLength
          else res_bind (read_exact_counted 1 1 0 r1) (\<lambda>(marker, r2).
            res_bind (tag_width (hd marker)) (\<lambda>tag_len.
              if claimed < tag_len then Inl (UnexpectedEof tag_len claimed)
              else res_bind (if 1 < tag_len then read_exact_counted (tag_len - 1) tag_len 1 r2 else Inr ([], r2))
                (\<lambda>(tag_rest, r3).
                   res_bind (decode_compact_u32 (marker @ tag_rest)) (\<lambda>tag.
                     let limit = frame_payload_limit direction tag limits
                     in if limit < claimed then Inl (Oversized claimed limit)
                        else Inr ((len_buf, marker @ tag_rest, tag), r3))))))"

definition pool :: "bool \<Rightarrow> HerdrFrameBudget \<Rightarrow> nat" where
  "pool large b = (if large then bg_large b else bg_normal b)"

definition set_pool :: "bool \<Rightarrow> nat \<Rightarrow> HerdrFrameBudget \<Rightarrow> HerdrFrameBudget" where
  "set_pool large n b = (if large then b\<lparr>bg_large := n\<rparr> else b\<lparr>bg_normal := n\<rparr>)"

text \<open>
  The whole reader.  \<open>alloc_ok\<close> says whether the allocator can reserve so many bytes.  A permit
  taken for a frame that is then refused is given back.
\<close>

definition read_herdr_frame ::
  "(nat \<Rightarrow> bool) \<Rightarrow> FrameDirection \<Rightarrow> HerdrReadLimits \<Rightarrow> Reader \<Rightarrow> HerdrFrameBudget \<Rightarrow>
   (HerdrFrameError + (RawHerdrFrame \<times> Reader) option) \<times> HerdrFrameBudget" where
  "read_herdr_frame alloc_ok direction limits r budget =
     (case rd_bytes r of
        [] \<Rightarrow> (case rd_fault r of None \<Rightarrow> Inr None | Some e \<Rightarrow> Inl (Io e), budget)
      | b0 # rest \<Rightarrow>
          (case read_header b0 direction limits (r\<lparr>rd_bytes := rest\<rparr>) of
             Inl e \<Rightarrow> (Inl e, budget)
           | Inr ((len_buf, tag_bytes, tag), r1) \<Rightarrow>
               (let claimed = le_value len_buf;
                    large = is_large_frame direction tag;
                    total = LENGTH_PREFIX_BYTES + claimed
                in if 2 ^ 64 \<le> total then (Inl (Allocation claimed), budget)
                   else if 2 ^ 32 \<le> total then (Inl (Allocation total), budget)
                   else if pool large budget < total then (Inl (SlowConsumer total), budget)
                   else if \<not> alloc_ok total then (Inl (Allocation total), budget)
                   else (case read_exact_counted (claimed - length tag_bytes) claimed (length tag_bytes) r1 of
                           Inl e \<Rightarrow> (Inl e, budget)
                         | Inr (body, r2) \<Rightarrow>
                             (case (if direction = ClientToServer \<and> tag = 2
                                    then validate_clipboard_image (tag_bytes @ body) (clipboard_image_data limits)
                                    else Inr ()) of
                                Inl e \<Rightarrow> (Inl e, budget)
                              | Inr _ \<Rightarrow>
                                  (Inr (Some (\<lparr>fr_direction = direction, fr_framed = len_buf @ tag_bytes @ body,
                                               fr_budget = Some (large, total)\<rparr>, r2)),
                                   set_pool large (pool large budget - total) budget))))))"

definition drop_frame :: "RawHerdrFrame \<Rightarrow> HerdrFrameBudget \<Rightarrow> HerdrFrameBudget" where
  "drop_frame f budget =
     (case fr_budget f of
        None \<Rightarrow> budget
      | Some (large, n) \<Rightarrow> set_pool large (pool large budget + n) budget)"

section \<open>What the reader accepts\<close>

text \<open>
  A payload of a given tag as the protocol defines it: the tag in its canonical form, a size
  within the limit of the tag, and for a clipboard image an extension in UTF-8 and data that
  fill the payload.
\<close>

definition payload_ok :: "FrameDirection \<Rightarrow> HerdrReadLimits \<Rightarrow> u32 \<Rightarrow> bytes \<Rightarrow> bool" where
  "payload_ok direction limits tag p \<longleftrightarrow>
     (\<exists>rest. p = compact tag @ rest) \<and> length p \<le> frame_payload_limit direction tag limits \<and>
     (direction = ClientToServer \<and> tag = 2 \<longrightarrow>
        (\<exists>ext data. valid_utf8 ext \<and> length data \<le> clipboard_image_data limits \<and> p = clipboard_payload ext data))"

definition frame_bytes :: "bytes \<Rightarrow> bytes" where
  "frame_bytes p = le_bytes 4 (length p) @ p"

lemma read_exact_counted_ok:
  "read_exact_counted n needed already r = Inr (bs, r') \<longleftrightarrow> read_exact n r = Inr (bs, r')"
  by (auto simp: read_exact_counted_def split: sum.splits IoError.splits)

lemma read_counted_append [simp]:
  "length bs = n \<Longrightarrow>
     read_exact_counted n needed already (r\<lparr>rd_bytes := bs @ rest\<rparr>) = Inr (bs, r\<lparr>rd_bytes := rest\<rparr>)"
  by (simp add: read_exact_counted_def)

lemma compact_split:
  obtains m ms where "compact t = m # ms" "tag_width m = Inr (Suc (length ms))"
  using tag_width_compact [of t] by (cases "compact t") auto

lemma read_header_sound:
  assumes "read_header b0 direction limits r = Inr ((lb, tb, tag), r3)"
  shows "length lb = 4 \<and> tb = compact tag \<and> length tb \<le> le_value lb \<and>
     le_value lb \<le> frame_payload_limit direction tag limits \<and>
     b0 # rd_bytes r = lb @ tb @ rd_bytes r3 \<and> r3 = r\<lparr>rd_bytes := rd_bytes r3\<rparr>"
proof -
  from assms obtain lr r1 m r2 w ts where 1: "read_exact 3 r = Inr (lr, r1)" "lb = b0 # lr"
      "read_exact 1 r1 = Inr (m, r2)" "tag_width (hd m) = Inr w" "\<not> le_value lb < w"
      "(if 1 < w then read_exact_counted (w - 1) w 1 r2 else Inr ([], r2)) = Inr (ts, r3)" "tb = m @ ts"
      "decode_compact_u32 (m @ ts) = Inr tag" "le_value lb \<le> frame_payload_limit direction tag limits"
    by (auto simp: read_header_def res_bind_Inr_iff read_exact_counted_ok Let_def simp del: le_value.simps
        split: if_splits)
  have tb: "tb = compact tag" using 1(7,8) by (simp add: decode_compact_iff)
  have m: "length m = 1" using 1(3) by (simp add: read_exact_ok)
  have ts: "rd_bytes r2 = ts @ rd_bytes r3" "r3 = r2\<lparr>rd_bytes := rd_bytes r3\<rparr>" "length m + length ts \<le> max w 1"
    using 1(6) m by (auto simp: read_exact_counted_ok read_exact_ok split: if_splits)
  have "hd m = hd (compact tag)" using tb 1(7) m by (cases m) (auto dest: sym)
  then have "w = length tb" using 1(4) tag_width_compact [of tag] tb by simp
  then show ?thesis using 1 tb ts by (auto simp: read_exact_ok)
qed

lemma read_header_complete:
  assumes "length lb = 4" and "length (compact tag) \<le> le_value lb"
    and "le_value lb \<le> frame_payload_limit direction tag limits"
    and "b0 # bs = lb @ compact tag @ rest"
  shows "read_header b0 direction limits (r\<lparr>rd_bytes := bs\<rparr>) = Inr ((lb, compact tag, tag), r\<lparr>rd_bytes := rest\<rparr>)"
proof -
  obtain lr where lr: "lb = b0 # lr" "length lr = 3" using assms(1,4) by (cases lb) simp_all
  obtain m ms where m: "compact tag = m # ms" "tag_width m = Inr (Suc (length ms))" by (rule compact_split)
  have bs: "bs = lr @ [m] @ ms @ rest" using assms(4) lr m by simp
  have "decode_compact_u32 (m # ms) = Inr tag" using m(1) by (simp add: decode_compact_iff)
  moreover have "(if 1 < Suc (length ms)
      then read_exact_counted (Suc (length ms) - 1) (Suc (length ms)) 1 (r\<lparr>rd_bytes := ms @ rest\<rparr>)
      else Inr ([], r\<lparr>rd_bytes := ms @ rest\<rparr>)) = Inr (ms, r\<lparr>rd_bytes := rest\<rparr>)"
    by (cases ms) (simp_all del: append_Cons append.simps)
  ultimately show ?thesis
    using assms(2,3) lr m
    by (simp add: read_header_def bs Let_def del: append_Cons append.simps le_value.simps) simp
qed

lemma le_bytes_length:
  "length lb = 4 \<Longrightarrow> le_value lb = length p \<Longrightarrow> lb @ p = frame_bytes p"
  using le_bytes_value [of lb] by (simp add: frame_bytes_def)

lemma pool_budget:
  "pool large (set_pool large n b) = n" "large \<noteq> other \<Longrightarrow> pool other (set_pool large n b) = pool other b"
  by (auto simp: pool_def set_pool_def)

lemma read_herdr_sound:
  assumes "read_herdr_frame alloc_ok direction limits r b = (Inr (Some (f, r')), b')"
  shows "\<exists>tag p. payload_ok direction limits tag p \<and> rd_bytes r = frame_bytes p @ rd_bytes r' \<and>
     r' = r\<lparr>rd_bytes := rd_bytes r'\<rparr> \<and> 4 + length p < 2 ^ 32 \<and> alloc_ok (4 + length p) \<and>
     4 + length p \<le> pool (is_large_frame direction tag) b \<and>
     f = \<lparr>fr_direction = direction, fr_framed = frame_bytes p,
          fr_budget = Some (is_large_frame direction tag, 4 + length p)\<rparr> \<and>
     b' = set_pool (is_large_frame direction tag) (pool (is_large_frame direction tag) b - (4 + length p)) b"
proof -
  obtain b0 rest where r: "rd_bytes r = b0 # rest"
    using assms by (cases "rd_bytes r") (auto simp: read_herdr_frame_def split: option.splits)
  let ?l = "is_large_frame direction" and ?clip = "clipboard_image_data limits"
  obtain lb tb tag r1 body where h: "read_header b0 direction limits (r\<lparr>rd_bytes := rest\<rparr>) = Inr ((lb, tb, tag), r1)"
      "4 + le_value lb < 2 ^ 32" "\<not> pool (?l tag) b < 4 + le_value lb" "alloc_ok (4 + le_value lb)"
      "read_exact (le_value lb - length tb) r1 = Inr (body, r')"
      "direction = ClientToServer \<and> tag = 2 \<longrightarrow> validate_clipboard_image (tb @ body) ?clip = Inr ()"
      "f = \<lparr>fr_direction = direction, fr_framed = lb @ tb @ body, fr_budget = Some (?l tag, 4 + le_value lb)\<rparr>"
      "b' = set_pool (?l tag) (pool (?l tag) b - (4 + le_value lb)) b"
    using assms r
    by (auto simp: read_herdr_frame_def Let_def LENGTH_PREFIX_BYTES_def read_exact_counted_ok
        split: sum.splits if_splits prod.splits)
  note hd = read_header_sound [OF h(1)]
  let ?p = "tb @ body"
  have len: "le_value lb = length ?p" using hd h(5) by (auto simp: read_exact_ok)
  have bytes: "rd_bytes r = frame_bytes ?p @ rd_bytes r'"
    using hd h(5) r le_bytes_length [of lb ?p] len by (auto simp: read_exact_ok)
  have r': "r' = r\<lparr>rd_bytes := rd_bytes r'\<rparr>" using hd h(5) by (auto simp: read_exact_ok)
  have framed: "lb @ tb @ body = frame_bytes ?p" using hd len by (simp add: le_bytes_length)
  have "length ?p + 9 < 2 ^ 64" using h(2) len by simp
  then have "payload_ok direction limits tag ?p"
    using hd h(6) len by (auto simp: payload_ok_def validate_clipboard_iff)
  moreover have "\<not> pool (?l tag) b < 4 + length ?p" "alloc_ok (4 + length ?p)" "4 + length ?p < 2 ^ 32"
    using h(2,3,4) len by simp_all
  ultimately show ?thesis using bytes r' h(7,8) framed unfolding len
    by (intro exI [of _ tag] exI [of _ ?p]) (simp only: not_less simp_thms)
qed

lemma read_herdr_complete:
  assumes "payload_ok direction limits tag p" and "4 + length p < 2 ^ 32" and "alloc_ok (4 + length p)"
    and "4 + length p \<le> pool (is_large_frame direction tag) b"
  shows "read_herdr_frame alloc_ok direction limits (r\<lparr>rd_bytes := frame_bytes p @ rest\<rparr>) b =
    (Inr (Some (\<lparr>fr_direction = direction, fr_framed = frame_bytes p,
                 fr_budget = Some (is_large_frame direction tag, 4 + length p)\<rparr>, r\<lparr>rd_bytes := rest\<rparr>)),
     set_pool (is_large_frame direction tag) (pool (is_large_frame direction tag) b - (4 + length p)) b)"
proof -
  obtain body where p: "p = compact tag @ body" using assms(1) by (auto simp: payload_ok_def)
  define lb where "lb = le_bytes 4 (length p)"
  have lb: "length lb = 4" "le_value lb = length p" using assms(2) by (simp_all add: lb_def le_value_bytes)
  obtain b0 ls where l: "lb = b0 # ls" using lb(1) by (cases lb) auto
  let ?bs = "ls @ compact tag @ body @ rest"
  have fb: "frame_bytes p @ rest = b0 # ?bs" unfolding frame_bytes_def lb_def [symmetric] using l p by simp
  have "read_header b0 direction limits (r\<lparr>rd_bytes := ?bs\<rparr>) = Inr ((lb, compact tag, tag), r\<lparr>rd_bytes := body @ rest\<rparr>)"
    by (rule read_header_complete) (use assms(1) lb l p in \<open>auto simp: payload_ok_def\<close>)
  moreover have "direction = ClientToServer \<and> tag = 2 \<longrightarrow> validate_clipboard_image p (clipboard_image_data limits) = Inr ()"
    using assms(1,2) validate_clipboard_iff [of p] by (simp add: payload_ok_def)
  moreover have "lb @ compact tag @ body = frame_bytes p" unfolding frame_bytes_def lb_def [symmetric] using p by simp
  moreover have "length p - length (compact tag) = length body" using p by simp
  ultimately show ?thesis
    using assms(2,3,4) lb p [symmetric]
    by (cases "direction = ClientToServer \<and> tag = 2") (auto simp: read_herdr_frame_def fb Let_def LENGTH_PREFIX_BYTES_def del: le_value.simps)
qed

text \<open>
  C23.  The frame reader accepts exactly the frames of the protocol.  It returns a frame if and
  only if the stream begins with the length and the bytes of a payload that is well formed for
  its direction and tag, whose size is within the limit of the tag and the budget, and for which
  memory could be reserved; the frame is those bytes, the stream goes on right behind them, and
  the budget is smaller by the size of the frame.
\<close>

theorem herdr_read_exact:
  "read_herdr_frame alloc_ok direction limits r b = (Inr (Some (f, r')), b') \<longleftrightarrow>
     (\<exists>tag p. payload_ok direction limits tag p \<and> rd_bytes r = frame_bytes p @ rd_bytes r' \<and>
        r' = r\<lparr>rd_bytes := rd_bytes r'\<rparr> \<and> 4 + length p < 2 ^ 32 \<and> alloc_ok (4 + length p) \<and>
        4 + length p \<le> pool (is_large_frame direction tag) b \<and>
        f = \<lparr>fr_direction = direction, fr_framed = frame_bytes p,
             fr_budget = Some (is_large_frame direction tag, 4 + length p)\<rparr> \<and>
        b' = set_pool (is_large_frame direction tag) (pool (is_large_frame direction tag) b - (4 + length p)) b)"
  (is "?L \<longleftrightarrow> ?R")
proof
  assume ?L
  then show ?R by (rule read_herdr_sound)
next
  assume ?R
  then obtain tag p where R: "payload_ok direction limits tag p" "4 + length p < 2 ^ 32" "alloc_ok (4 + length p)"
      "4 + length p \<le> pool (is_large_frame direction tag) b"
    and r: "rd_bytes r = frame_bytes p @ rd_bytes r'" "r' = r\<lparr>rd_bytes := rd_bytes r'\<rparr>"
    and f: "f = \<lparr>fr_direction = direction, fr_framed = frame_bytes p,
             fr_budget = Some (is_large_frame direction tag, 4 + length p)\<rparr>"
      "b' = set_pool (is_large_frame direction tag) (pool (is_large_frame direction tag) b - (4 + length p)) b"
    by blast
  obtain rest where rest: "r' = r\<lparr>rd_bytes := rest\<rparr>" using r(2) by blast
  then have "r\<lparr>rd_bytes := frame_bytes p @ rest\<rparr> = r" using r(1) by simp
  then show ?L using read_herdr_complete [where alloc_ok = alloc_ok, OF R, of rest r] f rest by simp
qed

section \<open>Streams of frames\<close>

text \<open>
  With the default limits and a free budget every well-formed payload is read, so the frames of
  either direction are a framing.
\<close>

definition herdr_fits :: "FrameDirection \<Rightarrow> bytes \<Rightarrow> bool" where
  "herdr_fits direction p \<longleftrightarrow> (\<exists>tag. payload_ok direction default_limits tag p)"

definition herdr_next :: "FrameDirection \<Rightarrow> bytes \<Rightarrow> (bytes \<times> bytes) option" where
  "herdr_next direction bs =
     (case fst (read_herdr_frame (\<lambda>_. True) direction default_limits \<lparr>rd_bytes = bs, rd_fault = None\<rparr> default_budget) of
        Inr (Some (f, r)) \<Rightarrow> Some (drop 4 (fr_framed f), rd_bytes r)
      | _ \<Rightarrow> None)"

lemmas default_defs = default_limits_def default_budget_def new_budget_def MAX_FRAME_SIZE_def
  MAX_GRAPHICS_FRAME_SIZE_def MAX_CLIPBOARD_IMAGE_PAYLOAD_def HERDR_NORMAL_QUEUED_BYTES_def HERDR_LARGE_QUEUED_BYTES_def

lemma default_room:
  assumes "payload_ok direction default_limits tag p"
  shows "4 + length p < 2 ^ 32" and "4 + length p \<le> pool (is_large_frame direction tag) default_budget"
  using assms by (auto simp: payload_ok_def frame_payload_limit_def pool_def default_defs split: if_splits)

lemma herdr_next_frame: "herdr_fits direction p \<Longrightarrow> herdr_next direction (frame_bytes p @ rest) = Some (p, rest)"
proof -
  assume "herdr_fits direction p"
  then obtain tag where p: "payload_ok direction default_limits tag p" by (auto simp: herdr_fits_def)
  show ?thesis
    using read_herdr_complete [where alloc_ok = "\<lambda>_. True", OF p default_room(1) [OF p] TrueI default_room(2) [OF p],
        of rest "\<lparr>rd_bytes = [], rd_fault = None\<rparr>"]
    by (simp add: herdr_next_def frame_bytes_def)
qed

lemma herdr_next_end: "herdr_next direction [] = None"
  by (simp add: herdr_next_def read_herdr_frame_def)

interpretation herdr: framing "herdr_fits direction" frame_bytes "herdr_next direction" for direction
  by unfold_locales (simp_all add: herdr_next_frame herdr_next_end)

section \<open>The budget\<close>

text \<open>
  Frames read and not yet dropped, with every attempt to read that failed in between.
\<close>

inductive herdr_reach :: "nat \<Rightarrow> nat \<Rightarrow> HerdrFrameBudget \<Rightarrow> RawHerdrFrame list \<Rightarrow> bool" where
  start: "herdr_reach normal large (new_budget normal large) []"
| read: "herdr_reach normal large b held \<Longrightarrow>
    read_herdr_frame alloc_ok direction limits r b = (Inr (Some (f, r')), b') \<Longrightarrow>
    herdr_reach normal large b' (f # held)"
| refused: "herdr_reach normal large b held \<Longrightarrow>
    read_herdr_frame alloc_ok direction limits r b = (Inl e, b') \<Longrightarrow> herdr_reach normal large b' held"
| ended: "herdr_reach normal large b held \<Longrightarrow>
    read_herdr_frame alloc_ok direction limits r b = (Inr None, b') \<Longrightarrow> herdr_reach normal large b' held"
| dropped: "herdr_reach normal large b (fs @ f # gs) \<Longrightarrow> herdr_reach normal large (drop_frame f b) (fs @ gs)"

definition held_bytes :: "bool \<Rightarrow> RawHerdrFrame list \<Rightarrow> nat" where
  "held_bytes large held =
     sum_list (map (\<lambda>f. length (fr_framed f)) (filter (\<lambda>f. map_option fst (fr_budget f) = Some large) held))"

definition permits_match :: "RawHerdrFrame \<Rightarrow> bool" where
  "permits_match f \<longleftrightarrow> (\<exists>large. fr_budget f = Some (large, length (fr_framed f)))"

lemma failed_read_budget:
  "read_herdr_frame alloc_ok direction limits r b = (Inl e, b') \<Longrightarrow> b' = b"
  "read_herdr_frame alloc_ok direction limits r b = (Inr None, b') \<Longrightarrow> b' = b"
  by (auto simp: read_herdr_frame_def Let_def split: list.splits option.splits sum.splits prod.splits if_splits)

lemma held_bytes_simps [simp]:
  "held_bytes large [] = 0"
  "held_bytes large (f # fs) = (if map_option fst (fr_budget f) = Some large then length (fr_framed f) else 0) + held_bytes large fs"
  "held_bytes large (fs @ gs) = held_bytes large fs + held_bytes large gs"
  by (simp_all add: held_bytes_def)

lemma herdr_reach_inv:
  "herdr_reach normal large b held \<Longrightarrow>
     list_all permits_match held \<and> pool False b + held_bytes False held = normal \<and> pool True b + held_bytes True held = large"
proof (induction rule: herdr_reach.induct)
  case (start normal large)
  then show ?case by (simp add: new_budget_def pool_def)
next
  case (read normal large b held alloc_ok direction limits r f r' b')
  from read_herdr_sound [OF read.hyps(2)] obtain l p where
    f: "fr_budget f = Some (l, 4 + length p)" "fr_framed f = frame_bytes p" "4 + length p \<le> pool l b"
      "b' = set_pool l (pool l b - (4 + length p)) b" by auto
  then show ?case using read.IH by (cases l) (auto simp: permits_match_def frame_bytes_def pool_budget)
next
  case (dropped normal large b fs f gs)
  then obtain l where f: "fr_budget f = Some (l, length (fr_framed f))" by (auto simp: permits_match_def)
  then show ?case using dropped.IH by (cases l) (auto simp: drop_frame_def pool_budget)
qed (auto dest: failed_read_budget)

text \<open>
  The budget bounds the memory of queued frames and never leaks.  Whatever frames are read,
  refused and dropped, the bytes of the frames alive in a pool and the permits left in it add up
  to the size of the pool: the frames alive never exceed it, and when all are dropped the whole
  budget is available again.
\<close>

lemma herdr_budget_exact:
  assumes "herdr_reach normal large b held"
  shows "bg_normal b + held_bytes False held = normal \<and> bg_large b + held_bytes True held = large \<and>
     sum_list (map (\<lambda>f. length (fr_framed f)) held) = held_bytes False held + held_bytes True held"
proof -
  have "list_all permits_match fs \<Longrightarrow>
      sum_list (map (\<lambda>f. length (fr_framed f)) fs) = held_bytes False fs + held_bytes True fs" for fs
    by (induction fs) (auto simp: permits_match_def)
  then show ?thesis using herdr_reach_inv [OF assms] by (simp add: pool_def)
qed

definition demo_frame :: bytes where
  "demo_frame = [2, 0, 0, 0, 1, 0]"

lemma demo_frame_read:
  "read_herdr_frame (\<lambda>_. True) ClientToServer default_limits \<lparr>rd_bytes = demo_frame, rd_fault = None\<rparr> default_budget =
     (Inr (Some (\<lparr>fr_direction = ClientToServer, fr_framed = demo_frame, fr_budget = Some (False, 6)\<rparr>,
                 \<lparr>rd_bytes = [], rd_fault = None\<rparr>)), \<lparr>bg_normal = 8388602, bg_large = 67108864\<rparr>)"
proof -
  have p: "payload_ok ClientToServer default_limits 1 [1, 0]"
    by (simp add: payload_ok_def varint_def frame_payload_limit_def is_large_frame_def default_defs)
  have f: "frame_bytes [1, 0] = demo_frame" by code_simp
  show ?thesis
    using read_herdr_complete [where alloc_ok = "\<lambda>_. True", OF p default_room(1) [OF p] TrueI default_room(2) [OF p],
        of "[]" "\<lparr>rd_bytes = [], rd_fault = None\<rparr>"]
    by (simp add: f is_large_frame_def set_pool_def pool_def default_defs)
qed

section \<open>Messages on the wire\<close>

text \<open>
  The index of each variant, which bincode writes first, and what else is used of bincode: a
  message that was written is read back with all its bytes used, and an integer with just its own.
\<close>

fun client_tag :: "ClientMessage \<Rightarrow> u32" where
  "client_tag (Hello _ _ _ _ _ _ _ _) = 0"
| "client_tag (Input _) = 1"
| "client_tag (ClipboardImage _ _) = 2"
| "client_tag (ResizeCells _ _ _ _) = 3"
| "client_tag Detach = 4"
| "client_tag (AttachTerminal _ _) = 5"
| "client_tag (AttachScroll _ _ _ _ _ _) = 6"

fun server_tag :: "ServerMessage \<Rightarrow> u32" where
  "server_tag (Welcome _ _ _) = 0"
| "server_tag (Frame _) = 1"
| "server_tag (Terminal _) = 2"
| "server_tag (Graphics _) = 3"
| "server_tag (ServerShutdown _) = 4"
| "server_tag (Notify _ _) = 5"
| "server_tag (Clipboard _) = 6"
| "server_tag ReloadSoundConfig = 7"
| "server_tag (MouseCapture _) = 8"

definition bincode_ok :: "Bincode \<Rightarrow> bool" where
  "bincode_ok bc \<longleftrightarrow>
     (\<forall>m bs. bc_encode_client bc m = Inr bs \<longrightarrow>
        (\<exists>rest. bs = compact (client_tag m) @ rest) \<and> bc_decode_client bc bs = Inr (m, length bs)) \<and>
     (\<forall>m bs. bc_encode_server bc m = Inr bs \<longrightarrow>
        (\<exists>rest. bs = compact (server_tag m) @ rest) \<and> bc_decode_server bc bs = Inr (m, length bs)) \<and>
     (\<forall>ext data bs. bc_encode_client bc (ClipboardImage ext data) = Inr bs \<longrightarrow> bs = clipboard_payload ext data) \<and>
     (\<forall>tag rest. bc_decode_u32 bc (compact tag @ rest) = Inr (tag, length (compact tag)))"

text \<open>
  A string is UTF-8 in Rust; the data of a clipboard image has a limit of its own.
\<close>

fun client_message_ok :: "ClientMessage \<Rightarrow> bool" where
  "client_message_ok (ClipboardImage ext data) = (valid_utf8 ext \<and> length data \<le> MAX_CLIPBOARD_IMAGE_PAYLOAD)"
| "client_message_ok _ = True"

lemma client_lane_by_tag: "client_lane_from_variant_tag (client_tag m) = client_lane m"
  by (cases m) (simp_all add: client_lane_from_variant_tag_def)

lemma server_lane_by_tag: "server_lane_from_variant_tag (server_tag m) = server_lane m"
  by (cases m) (simp_all add: server_lane_from_variant_tag_def)

lemma encode_frame_ok:
  "encode_frame direction enc m = Inr f \<longleftrightarrow>
     (\<exists>p. enc m = Inr p \<and> length p < 2 ^ 32 \<and> f = \<lparr>fr_direction = direction, fr_framed = frame_bytes p, fr_budget = None\<rparr>)"
  by (cases "enc m") (auto simp: encode_frame_def frame_bytes_def)

lemma frame_payload_bytes: "length p \<le> MAX_GRAPHICS_FRAME_SIZE \<Longrightarrow> frame_payload (frame_bytes p) = Inr p"
  by (simp add: frame_payload_def frame_bytes_def LENGTH_PREFIX_BYTES_def le_value_bytes MAX_GRAPHICS_FRAME_SIZE_def)

lemma variant_tag_bytes:
  assumes "bincode_ok bc" and "length (compact tag @ rest) \<le> MAX_GRAPHICS_FRAME_SIZE"
  shows "frame_variant_tag bc (frame_bytes (compact tag @ rest)) = Inr tag"
  using assms by (simp add: frame_variant_tag_def frame_payload_bytes bincode_ok_def)

lemma limit_default: "frame_payload_limit direction tag default_limits \<le> MAX_GRAPHICS_FRAME_SIZE"
  by (simp add: frame_payload_limit_def default_defs)

text \<open>
  A frame the reader returned is one that the constructor from bytes accepts.
\<close>

lemma read_frame_validates:
  assumes "bincode_ok bc" and "payload_ok direction default_limits tag p"
  shows "validate_raw_frame bc (frame_bytes p) direction = Inr ()"
proof -
  obtain rest where p: "p = compact tag @ rest" using assms(2) by (auto simp: payload_ok_def)
  have l: "length p \<le> frame_payload_limit direction tag default_limits" using assms(2) by (simp add: payload_ok_def)
  have "decode_tag_prefix p = Inr (tag, length (compact tag))" using p by (simp add: decode_tag_prefix_iff)
  moreover have "frame_variant_tag bc (frame_bytes p) = Inr tag"
    using variant_tag_bytes [OF assms(1), of tag rest] l limit_default [of direction tag] p by simp
  moreover have "le_value (le_bytes 4 (length p)) = length p" using default_room(1) [OF assms(2)] by (simp add: le_value_bytes)
  moreover have "0 < length p" using p by simp
  ultimately show ?thesis using l
    by (simp add: validate_raw_frame_def LENGTH_PREFIX_BYTES_def Let_def) (simp add: frame_bytes_def)
qed

lemma client_payload_ok:
  assumes "bincode_ok bc" and "bc_encode_client bc m = Inr p" and "client_message_ok m"
    and "length p \<le> frame_payload_limit ClientToServer (client_tag m) default_limits"
  shows "payload_ok ClientToServer default_limits (client_tag m) p"
proof -
  have "\<exists>rest. p = compact (client_tag m) @ rest" using assms(1,2) unfolding bincode_ok_def by blast
  moreover have "p = clipboard_payload ext data" if "m = ClipboardImage ext data" for ext data
    using assms(1,2) that unfolding bincode_ok_def by blast
  then have "client_tag m = 2 \<longrightarrow> (\<exists>ext data. valid_utf8 ext \<and> length data \<le> MAX_CLIPBOARD_IMAGE_PAYLOAD \<and>
      p = clipboard_payload ext data)" using assms(3) by (cases m) auto
  ultimately show ?thesis using assms(4) by (simp add: payload_ok_def) (simp add: default_limits_def)
qed

text \<open>
  A client message arrives as it was sent, on its lane.  A message that was encoded and
  whose payload is within the limits is read from the stream by the other side, byte for byte as
  encoded; it decodes to the same message, and the lane chosen from its tag alone is the lane of
  the message.
\<close>

lemma client_message_delivered:
  assumes "bincode_ok bc" and "encode_client bc m = Inr f" and "client_message_ok m"
    and "length (fr_framed f) \<le> 4 + frame_payload_limit ClientToServer (client_tag m) default_limits"
  shows "\<exists>g r' b'. read_herdr_frame (\<lambda>_. True) ClientToServer default_limits
        \<lparr>rd_bytes = fr_framed f @ rest, rd_fault = fault\<rparr> default_budget = (Inr (Some (g, r')), b') \<and>
     rd_bytes r' = rest \<and> fr_framed g = fr_framed f \<and> decode_client bc g = Inr m \<and>
     frame_client_lane bc g = Inr (client_lane m)"
proof -
  obtain p where p: "bc_encode_client bc m = Inr p" "fr_framed f = frame_bytes p"
    using assms(2) by (auto simp: encode_client_def encode_frame_ok)
  have l: "length p \<le> frame_payload_limit ClientToServer (client_tag m) default_limits"
    using assms(4) p(2) by (simp add: frame_bytes_def)
  have ok: "payload_ok ClientToServer default_limits (client_tag m) p"
    by (rule client_payload_ok [OF assms(1) p(1) assms(3) l])
  have g: "length p \<le> MAX_GRAPHICS_FRAME_SIZE" using l limit_default [of ClientToServer "client_tag m"] by simp
  obtain q where q: "p = compact (client_tag m) @ q" using assms(1) p(1) unfolding bincode_ok_def by blast
  have "decode_payload (bc_decode_client bc) (frame_bytes p) = Inr m"
    using assms(1) p(1) g by (simp add: decode_payload_def frame_payload_bytes bincode_ok_def)
  moreover have "frame_variant_tag bc (frame_bytes p) = Inr (client_tag m)"
    using variant_tag_bytes [OF assms(1), of "client_tag m" q] g q by simp
  ultimately show ?thesis
    using read_herdr_complete [where alloc_ok = "\<lambda>_. True", OF ok default_room(1) [OF ok] TrueI default_room(2) [OF ok],
        of rest "\<lparr>rd_bytes = [], rd_fault = fault\<rparr>"] p(2)
    by (simp add: decode_client_def decode_client_payload_def frame_client_lane_def client_variant_tag_def
        ensure_direction_def client_lane_by_tag)
qed

definition demo_bincode :: Bincode where
  "demo_bincode = \<lparr>
     bc_encode_client = (\<lambda>m. case m of
        Input data \<Rightarrow> if length data \<le> 250 then Inr (1 # of_nat (length data) # data) else Inl ''too long''
      | Detach \<Rightarrow> Inr [4]
      | _ \<Rightarrow> Inl ''unsupported''),
     bc_encode_server = (\<lambda>m. Inl ''unsupported''),
     bc_decode_client = (\<lambda>bs. case bs of
        [m] \<Rightarrow> if m = 4 then Inr (Detach, 1) else Inl ''unexpected''
      | m # n # data \<Rightarrow> if m = 1 \<and> unat n = length data then Inr (Input data, 2 + length data) else Inl ''unexpected''
      | _ \<Rightarrow> Inl ''unexpected''),
     bc_decode_client_v11 = (\<lambda>bs. Inl ''unexpected''),
     bc_decode_server = (\<lambda>bs. Inl ''unexpected''),
     bc_decode_u32 = (\<lambda>bs. map_err (\<lambda>_. ''unexpected'') (decode_tag_prefix bs))\<rparr>"

lemma demo_client_law:
  assumes "bc_encode_client demo_bincode m = Inr bs"
  shows "(\<exists>rest. bs = compact (client_tag m) @ rest) \<and> bc_decode_client demo_bincode bs = Inr (m, length bs)"
proof -
  have v: "varint 1 = [1]" "varint 4 = [4]" by (simp_all add: varint_def)
  from assms consider (input) data where "m = Input data" "length data \<le> 250" "bs = 1 # of_nat (length data) # data"
    | (detach) "m = Detach" "bs = [4]"
    by (cases m) (simp_all add: demo_bincode_def split: if_splits)
  then show ?thesis
    by cases (use v in \<open>simp_all add: demo_bincode_def unat_small_byte\<close>)
qed

lemma demo_bincode_ok: "bincode_ok demo_bincode"
proof -
  have "decode_tag_prefix (compact tag @ rest) = Inr (tag, length (compact tag))" for tag rest
    by (simp add: decode_tag_prefix_iff)
  then have "bc_decode_u32 demo_bincode (compact tag @ rest) = Inr (tag, length (compact tag))" for tag rest
    by (simp add: demo_bincode_def)
  moreover have "bc_encode_server demo_bincode m \<noteq> Inr bs" "bc_encode_client demo_bincode (ClipboardImage ext data) \<noteq> Inr bs"
    for m ext data bs by (simp_all add: demo_bincode_def)
  ultimately show ?thesis using demo_client_law unfolding bincode_ok_def by blast
qed

end
