(* ===== verification/Watchdog.thy ===== *)
theory Watchdog
  imports Prelude
begin

text \<open>
  The network watchdog of the agent, \<^verbatim>\<open>portl-agent/src/network_watchdog.rs\<close>, and
  the arm of the accept loop that serves its requests, \<^verbatim>\<open>portl-agent/src/lib.rs\<close>.
  The watchdog probes the agent's own endpoint and asks for a new endpoint after repeated
  failures.  A system time is a number of seconds from the epoch, which may lie before it; a
  duration is a number of nanoseconds.
\<close>

section \<open>Configuration and health\<close>

datatype WatchdogState = Disabled | Ok | Degraded | Refreshing | Failed

definition RECENT_INBOUND_SKIP_MULTIPLIER :: nat where
  "RECENT_INBOUND_SKIP_MULTIPLIER = 2"

definition nanos :: nat where
  "nanos = 1000000000"

definition duration_max :: nat where
  "duration_max = 2 ^ 64 * nanos - 1"

definition duration_mul :: "nat \<Rightarrow> nat \<Rightarrow> nat" where
  "duration_mul d k = min duration_max (d * k)"

definition as_secs :: "nat \<Rightarrow> u64" where
  "as_secs d = of_nat (d div nanos)"

definition unix_secs :: "int \<Rightarrow> u64" where
  "unix_secs now = (if now < 0 then 0 else of_int now)"

record WatchdogConfig =
  cfg_enabled :: bool
  cfg_interval :: nat
  cfg_timeout :: nat
  failures_before_refresh :: u32

definition default_config :: WatchdogConfig where
  "default_config = \<lparr>cfg_enabled = True, cfg_interval = 300 * nanos, cfg_timeout = 5 * nanos,
     failures_before_refresh = 3\<rparr>"

record Inner =
  state :: WatchdogState
  endpoint_generation :: u64
  endpoint_started_at :: u64
  last_inbound_handshake_at :: "u64 option"
  last_self_probe_ok_at :: "u64 option"
  last_self_probe_failed_at :: "u64 option"
  consecutive_self_probe_failures :: u32
  endpoint_refresh_count :: u64
  consecutive_endpoint_refresh_failures :: u32
  last_endpoint_refresh_at :: "u64 option"
  next_endpoint_refresh_not_before :: "u64 option"
  last_endpoint_refresh_error :: "string option"

definition new_health :: "int \<Rightarrow> Inner" where
  "new_health now = \<lparr>state = Ok, endpoint_generation = 1, endpoint_started_at = unix_secs now,
     last_inbound_handshake_at = None, last_self_probe_ok_at = None, last_self_probe_failed_at = None,
     consecutive_self_probe_failures = 0, endpoint_refresh_count = 0,
     consecutive_endpoint_refresh_failures = 0, last_endpoint_refresh_at = None,
     next_endpoint_refresh_not_before = None, last_endpoint_refresh_error = None\<rparr>"

definition set_disabled :: "Inner \<Rightarrow> Inner" where
  "set_disabled h = h\<lparr>state := Disabled\<rparr>"

definition disabled_health :: "int \<Rightarrow> Inner" where
  "disabled_health now = set_disabled (new_health now)"

definition record_inbound_handshake :: "int \<Rightarrow> Inner \<Rightarrow> Inner" where
  "record_inbound_handshake now h = h\<lparr>last_inbound_handshake_at := Some (unix_secs now),
     consecutive_self_probe_failures := 0, consecutive_endpoint_refresh_failures := 0,
     next_endpoint_refresh_not_before := None, last_endpoint_refresh_error := None, state := Ok\<rparr>"

definition record_probe_success :: "int \<Rightarrow> Inner \<Rightarrow> Inner" where
  "record_probe_success now h = h\<lparr>last_self_probe_ok_at := Some (unix_secs now),
     consecutive_self_probe_failures := 0, consecutive_endpoint_refresh_failures := 0,
     next_endpoint_refresh_not_before := None, last_endpoint_refresh_error := None, state := Ok\<rparr>"

definition record_probe_failure :: "int \<Rightarrow> Inner \<Rightarrow> Inner" where
  "record_probe_failure now h = h\<lparr>last_self_probe_failed_at := Some (unix_secs now),
     consecutive_self_probe_failures := saturating_add (consecutive_self_probe_failures h) 1,
     state := (if state h \<noteq> Failed then Degraded else state h)\<rparr>"

definition should_refresh :: "WatchdogConfig \<Rightarrow> u32 \<Rightarrow> bool" where
  "should_refresh config failures \<longleftrightarrow> cfg_enabled config \<and> max (failures_before_refresh config) 1 \<le> failures"

definition record_endpoint_refresh_started :: "Inner \<Rightarrow> Inner" where
  "record_endpoint_refresh_started h = h\<lparr>consecutive_self_probe_failures := 0, state := Refreshing\<rparr>"

definition record_endpoint_refresh_success :: "int \<Rightarrow> Inner \<Rightarrow> Inner" where
  "record_endpoint_refresh_success now h = h\<lparr>
     endpoint_generation := saturating_add (endpoint_generation h) 1,
     endpoint_started_at := unix_secs now,
     endpoint_refresh_count := saturating_add (endpoint_refresh_count h) 1,
     last_endpoint_refresh_at := Some (unix_secs now),
     last_inbound_handshake_at := None, last_endpoint_refresh_error := None,
     consecutive_self_probe_failures := 0, consecutive_endpoint_refresh_failures := 0,
     next_endpoint_refresh_not_before := None, state := Ok\<rparr>"

definition refresh_backoff :: "u32 \<Rightarrow> nat" where
  "refresh_backoff consecutive_failures =
     (if consecutive_failures = 0 \<or> consecutive_failures = 1 then 300 * nanos
      else if consecutive_failures = 2 then 600 * nanos
      else if consecutive_failures = 3 then 1200 * nanos
      else 3600 * nanos)"

definition record_endpoint_refresh_failure :: "int \<Rightarrow> string \<Rightarrow> Inner \<Rightarrow> Inner" where
  "record_endpoint_refresh_failure now error h =
     (let failures = saturating_add (consecutive_endpoint_refresh_failures h) 1
      in h\<lparr>last_endpoint_refresh_at := Some (unix_secs now),
           consecutive_endpoint_refresh_failures := failures,
           next_endpoint_refresh_not_before :=
             Some (saturating_add (unix_secs now) (as_secs (refresh_backoff failures))),
           last_endpoint_refresh_error := Some error, state := Failed\<rparr>)"

definition refresh_allowed :: "int \<Rightarrow> Inner \<Rightarrow> bool" where
  "refresh_allowed now h =
     (case next_endpoint_refresh_not_before h of
        None \<Rightarrow> True
      | Some not_before \<Rightarrow> not_before \<le> unix_secs now)"

datatype ProbeOutcome = Success | Failure string

definition apply_probe_outcome :: "WatchdogConfig \<Rightarrow> int \<Rightarrow> ProbeOutcome \<Rightarrow> Inner \<Rightarrow> Inner \<times> bool" where
  "apply_probe_outcome config now outcome h =
     (case outcome of
        Success \<Rightarrow> (record_probe_success now h, False)
      | Failure _ \<Rightarrow>
          (let h1 = record_probe_failure now h
           in (h1, should_refresh config (consecutive_self_probe_failures h1))))"

definition should_skip_probe_after_recent_inbound :: "WatchdogConfig \<Rightarrow> int \<Rightarrow> Inner \<Rightarrow> bool" where
  "should_skip_probe_after_recent_inbound config now h =
     (case last_inbound_handshake_at h of
        None \<Rightarrow> False
      | Some at \<Rightarrow>
          saturating_sub (unix_secs now) at
            \<le> as_secs (duration_mul (cfg_interval config) RECENT_INBOUND_SKIP_MULTIPLIER))"

definition jittered_interval :: "nat \<Rightarrow> nat \<Rightarrow> nat" where
  "jittered_interval process_id interval =
     (if interval \<le> nanos then interval
      else (let jitter_window = max (interval div 10) nanos;
                window_ms = jitter_window div 1000000;
                jitter = (process_id mod (if window_ms < 2 ^ 64 then window_ms else 1)) * 1000000
            in min duration_max (interval + jitter)))"

lemma jitter_bounds:
  assumes "interval \<le> duration_max"
  shows "interval \<le> jittered_interval pid interval \<and>
     jittered_interval pid interval \<le> interval + max (interval div 10) nanos"
proof (cases "interval \<le> nanos")
  case False
  let ?w = "max (interval div 10) nanos"
  let ?m = "if ?w div 1000000 < 2 ^ 64 then ?w div 1000000 else 1"
  have "nanos div 1000000 \<le> ?w div 1000000" by (intro div_le_mono) simp
  then have w: "0 < ?w div 1000000" by (simp add: nanos_def)
  then have "0 < ?m" "?m \<le> ?w div 1000000" by auto
  then have "pid mod ?m \<le> ?w div 1000000" using mod_less_divisor [of ?m pid] by linarith
  then have "pid mod ?m * 1000000 \<le> ?w div 1000000 * 1000000" by (rule mult_le_mono1)
  also have "\<dots> \<le> ?w" by (rule div_times_less_eq_dividend)
  finally have "pid mod ?m * 1000000 \<le> ?w" .
  moreover have "jittered_interval pid interval = min duration_max (interval + pid mod ?m * 1000000)"
    using False by (simp only: jittered_interval_def Let_def if_False)
  ultimately show ?thesis using assms by linarith
qed (simp add: jittered_interval_def)

section \<open>The task and the accept loop\<close>

text \<open>
  The task waits for a tick, probes, and records the outcome; handshakes are recorded by the
  connection handlers at any time; the accept loop serves one request after the other.  The
  times are those at which the code looks at the clock.
\<close>

datatype RefreshResult = FixedAddress | Bound | BindFailed string

datatype WdEvent =
    Tick int
  | ProbeDone int int int ProbeOutcome bool
  | Handshake int
  | ServeRefresh int RefreshResult

record WatchdogSys =
  wd_health :: Inner
  wd_running :: bool
  wd_probing :: bool
  wd_commands :: nat
  wd_fatal :: "string option"

definition start_watchdog :: "WatchdogConfig \<Rightarrow> Inner \<Rightarrow> WatchdogSys" where
  "start_watchdog config h =
     (if \<not> cfg_enabled config
      then \<lparr>wd_health = set_disabled h, wd_running = False, wd_probing = False, wd_commands = 0, wd_fatal = None\<rparr>
      else \<lparr>wd_health = h, wd_running = True, wd_probing = False, wd_commands = 0, wd_fatal = None\<rparr>)"

definition wd_tick :: "WatchdogConfig \<Rightarrow> int \<Rightarrow> WatchdogSys \<Rightarrow> WatchdogSys" where
  "wd_tick config now s =
     (if state (wd_health s) = Refreshing then s
      else if should_skip_probe_after_recent_inbound config now (wd_health s) then s
      else s\<lparr>wd_probing := True\<rparr>)"

definition probe_done ::
  "WatchdogConfig \<Rightarrow> int \<Rightarrow> int \<Rightarrow> int \<Rightarrow> ProbeOutcome \<Rightarrow> bool \<Rightarrow> WatchdogSys \<Rightarrow> WatchdogSys" where
  "probe_done config now1 now2 now3 outcome loop_alive s =
     (let (h1, refresh) = apply_probe_outcome config now1 outcome (wd_health s);
          s1 = s\<lparr>wd_health := h1, wd_probing := False\<rparr>
      in if refresh \<and> \<not> refresh_allowed now2 h1 then s1
         else if refresh then
           (let h2 = record_endpoint_refresh_started h1
            in if loop_alive then s1\<lparr>wd_health := h2, wd_commands := wd_commands s1 + 1\<rparr>
               else s1\<lparr>wd_health := record_endpoint_refresh_failure now3 ''agent accept loop is unavailable'' h2,
                       wd_running := False\<rparr>)
         else s1)"

definition serve_refresh :: "int \<Rightarrow> RefreshResult \<Rightarrow> WatchdogSys \<Rightarrow> WatchdogSys" where
  "serve_refresh now result s =
     (let s1 = s\<lparr>wd_commands := wd_commands s - 1\<rparr>
      in case result of
           FixedAddress \<Rightarrow>
             s1\<lparr>wd_health := record_endpoint_refresh_failure now
                    ''fixed listen address requires service-manager restart for endpoint refresh'' (wd_health s),
                wd_fatal := Some ''watchdog endpoint refresh requested for fixed listen address; exiting for service-manager restart''\<rparr>
         | Bound \<Rightarrow> s1\<lparr>wd_health := record_endpoint_refresh_success now (wd_health s)\<rparr>
         | BindFailed err \<Rightarrow> s1\<lparr>wd_health := record_endpoint_refresh_failure now err (wd_health s)\<rparr>)"

fun wd_enabled :: "WatchdogSys \<Rightarrow> WdEvent \<Rightarrow> bool" where
  "wd_enabled s (Tick now) = (wd_running s \<and> \<not> wd_probing s)"
| "wd_enabled s (ProbeDone now1 now2 now3 outcome loop_alive) =
     (wd_running s \<and> wd_probing s \<and> loop_alive = (wd_fatal s = None))"
| "wd_enabled s (Handshake now) = True"
| "wd_enabled s (ServeRefresh now result) = (0 < wd_commands s \<and> wd_fatal s = None)"

fun wd_step :: "WatchdogConfig \<Rightarrow> WatchdogSys \<Rightarrow> WdEvent \<Rightarrow> WatchdogSys" where
  "wd_step config s (Tick now) = wd_tick config now s"
| "wd_step config s (ProbeDone now1 now2 now3 outcome loop_alive) = probe_done config now1 now2 now3 outcome loop_alive s"
| "wd_step config s (Handshake now) = s\<lparr>wd_health := record_inbound_handshake now (wd_health s)\<rparr>"
| "wd_step config s (ServeRefresh now result) = serve_refresh now result s"

text \<open>
  What happened, latest first, told without the counters: probes that failed or succeeded,
  handshakes from outside, requests for a refresh and how a refresh ended.
\<close>

datatype WdFact = ProbeFailed | ProbeOk | InboundSeen | Requested | RefreshOk | RefreshFailedAt int

definition wants_refresh :: "WatchdogConfig \<Rightarrow> WatchdogSys \<Rightarrow> int \<Rightarrow> int \<Rightarrow> bool" where
  "wants_refresh config s now1 now2 \<longleftrightarrow>
     should_refresh config (consecutive_self_probe_failures (record_probe_failure now1 (wd_health s))) \<and>
     refresh_allowed now2 (record_probe_failure now1 (wd_health s))"

fun facts_of :: "WatchdogConfig \<Rightarrow> WatchdogSys \<Rightarrow> WdEvent \<Rightarrow> WdFact list" where
  "facts_of config s (Tick now) = []"
| "facts_of config s (ProbeDone now1 now2 now3 Success loop_alive) = [ProbeOk]"
| "facts_of config s (ProbeDone now1 now2 now3 (Failure e) loop_alive) =
     (if \<not> wants_refresh config s now1 now2 then [ProbeFailed]
      else if loop_alive then [Requested, ProbeFailed]
      else [RefreshFailedAt now3, Requested, ProbeFailed])"
| "facts_of config s (Handshake now) = [InboundSeen]"
| "facts_of config s (ServeRefresh now Bound) = [RefreshOk]"
| "facts_of config s (ServeRefresh now _) = [RefreshFailedAt now]"

inductive wd_run :: "WatchdogConfig \<Rightarrow> WdFact list \<Rightarrow> WatchdogSys \<Rightarrow> bool" for config where
  start: "wd_run config [] (start_watchdog config (new_health now))"
| step: "wd_run config h s \<Longrightarrow> wd_enabled s e \<Longrightarrow> wd_run config (facts_of config s e @ h) (wd_step config s e)"

fun probe_failures :: "WdFact list \<Rightarrow> nat" where
  "probe_failures (ProbeFailed # h) = Suc (probe_failures h)"
| "probe_failures (RefreshFailedAt t # h) = probe_failures h"
| "probe_failures _ = 0"

fun refresh_failures :: "WdFact list \<Rightarrow> int list" where
  "refresh_failures (RefreshFailedAt t # h) = t # refresh_failures h"
| "refresh_failures (ProbeFailed # h) = refresh_failures h"
| "refresh_failures (Requested # h) = refresh_failures h"
| "refresh_failures _ = []"

text \<open>
  The time before which no further refresh may start: five, ten and twenty minutes after the
  first, second and third failed refresh in a row, and an hour after each later one.
\<close>

definition backoff_secs :: "nat \<Rightarrow> nat" where
  "backoff_secs n = (if n \<le> 1 then 300 else if n = 2 then 600 else if n = 3 then 1200 else 3600)"

fun not_before :: "int list \<Rightarrow> nat" where
  "not_before [] = 0"
| "not_before (t # ts) = min (2 ^ 64 - 1) (unat (unix_secs t) + backoff_secs (Suc (length ts)))"

definition count_ok :: "u32 \<Rightarrow> nat \<Rightarrow> bool" where
  "count_ok w n \<longleftrightarrow> unat w = min (2 ^ 32 - 1) n"

definition wd_inv :: "WdFact list \<Rightarrow> Inner \<Rightarrow> bool" where
  "wd_inv h x \<longleftrightarrow> count_ok (consecutive_self_probe_failures x) (probe_failures h) \<and>
     count_ok (consecutive_endpoint_refresh_failures x) (length (refresh_failures h)) \<and>
     (case next_endpoint_refresh_not_before x of
        None \<Rightarrow> refresh_failures h = []
      | Some t \<Rightarrow> refresh_failures h \<noteq> [] \<and> unat t = not_before (refresh_failures h))"

lemma count_ok_zero: "count_ok 0 0"
  by (simp add: count_ok_def)

lemma count_ok_Suc:
  assumes "count_ok w n"
  shows "count_ok (saturating_add w 1) (Suc n)"
proof -
  have "unat (saturating_add w 1) = min (2 ^ 32 - 1) (unat w + 1)"
    using unat_saturating_add [of w 1] by simp
  then show ?thesis using assms by (simp add: count_ok_def)
qed

lemma count_ok_eq:
  assumes "count_ok w n" and "unat k < 2 ^ 32 - 1"
  shows "w = k \<longleftrightarrow> n = unat k"
proof -
  have "w = k \<longleftrightarrow> unat w = unat k" by (simp only: word_unat_eq_iff)
  then show ?thesis using assms by (auto simp: count_ok_def min_def)
qed

lemma count_ok_le:
  assumes "count_ok w n"
  shows "k \<le> w \<longleftrightarrow> unat k \<le> n"
proof -
  have "unat k < 2 ^ 32" using unsigned_less [of k] by simp
  then show ?thesis using assms by (auto simp: count_ok_def word_le_nat_alt)
qed

lemma as_secs_nanos: "n < 2 ^ 64 \<Longrightarrow> unat (as_secs (n * nanos)) = n"
  by (simp add: as_secs_def nanos_def unat_of_nat take_bit_nat_eq_self)

lemma backoff_value:
  assumes "count_ok w n"
  shows "unat (as_secs (refresh_backoff w)) = backoff_secs n"
proof -
  have "w = 0 \<longleftrightarrow> n = 0" "w = 1 \<longleftrightarrow> n = 1" "w = 2 \<longleftrightarrow> n = 2" "w = 3 \<longleftrightarrow> n = 3"
    using count_ok_eq [OF assms, of 0] count_ok_eq [OF assms, of 1] count_ok_eq [OF assms, of 2]
      count_ok_eq [OF assms, of 3] by simp_all
  then show ?thesis by (auto simp: refresh_backoff_def backoff_secs_def as_secs_nanos)
qed

lemma wd_inv_reset:
  assumes "refresh_failures h = []" and "probe_failures h = 0"
    and "consecutive_self_probe_failures x = 0" and "consecutive_endpoint_refresh_failures x = 0"
    and "next_endpoint_refresh_not_before x = None"
  shows "wd_inv h x"
  using assms count_ok_zero by (simp add: wd_inv_def)

lemma wd_inv_failure:
  assumes "wd_inv h x"
  shows "wd_inv (ProbeFailed # h) (record_probe_failure now x)"
  using assms by (simp add: wd_inv_def record_probe_failure_def count_ok_Suc split: option.splits)

lemma wd_inv_started:
  assumes "wd_inv h x"
  shows "wd_inv (Requested # h) (record_endpoint_refresh_started x)"
  using assms by (simp add: wd_inv_def record_endpoint_refresh_started_def count_ok_zero split: option.splits)

lemma wd_inv_refresh_failure:
  assumes "wd_inv h x"
  shows "wd_inv (RefreshFailedAt now # h) (record_endpoint_refresh_failure now err x)"
proof -
  have c: "count_ok (saturating_add (consecutive_endpoint_refresh_failures x) 1) (Suc (length (refresh_failures h)))"
    using assms by (simp add: wd_inv_def count_ok_Suc)
  have "unat (saturating_add (unix_secs now)
      (as_secs (refresh_backoff (saturating_add (consecutive_endpoint_refresh_failures x) 1)))) =
      min (2 ^ 64 - 1) (unat (unix_secs now) + backoff_secs (Suc (length (refresh_failures h))))"
    by (simp only: unat_saturating_add backoff_value [OF c]) simp
  then show ?thesis using assms c by (simp add: wd_inv_def record_endpoint_refresh_failure_def Let_def)
qed

lemma probe_done_failure:
  "probe_done config now1 now2 now3 (Failure err) alive s =
     (let h1 = record_probe_failure now1 (wd_health s); s1 = s\<lparr>wd_health := h1, wd_probing := False\<rparr>
      in if \<not> wants_refresh config s now1 now2 then s1
         else if alive then s1\<lparr>wd_health := record_endpoint_refresh_started h1, wd_commands := wd_commands s + 1\<rparr>
         else s1\<lparr>wd_health := record_endpoint_refresh_failure now3 ''agent accept loop is unavailable''
                   (record_endpoint_refresh_started h1), wd_running := False\<rparr>)"
  by (auto simp: probe_done_def apply_probe_outcome_def wants_refresh_def Let_def)

lemma wd_step_inv:
  assumes "wd_inv h (wd_health s)"
  shows "wd_inv (facts_of config s e @ h) (wd_health (wd_step config s e))"
proof (cases e)
  case (ProbeDone now1 now2 now3 outcome alive)
  show ?thesis
  proof (cases outcome)
    case Success
    with ProbeDone show ?thesis
      by (simp add: probe_done_def apply_probe_outcome_def record_probe_success_def wd_inv_reset)
  next
    case (Failure err)
    note f = wd_inv_failure [OF assms, of now1]
    from ProbeDone Failure show ?thesis
      using f wd_inv_started [OF f] wd_inv_refresh_failure [OF wd_inv_started [OF f]]
      by (simp add: probe_done_failure Let_def)
  qed
next
  case (ServeRefresh now result)
  then show ?thesis
    using wd_inv_refresh_failure [OF assms]
    by (cases result) (simp_all add: serve_refresh_def Let_def record_endpoint_refresh_success_def wd_inv_reset)
next
  case (Tick now)
  with assms show ?thesis by (simp add: wd_tick_def)
qed (simp add: record_inbound_handshake_def wd_inv_reset)

lemma wd_run_inv: "wd_run config h s \<Longrightarrow> wd_inv h (wd_health s) \<and> (wd_running s \<longrightarrow> cfg_enabled config)"
proof (induction rule: wd_run.induct)
  case (start now)
  then show ?case by (simp add: start_watchdog_def new_health_def set_disabled_def wd_inv_reset)
next
  case (step h s e)
  have "wd_running (wd_step config s e) \<longrightarrow> wd_running s"
    by (cases e) (auto simp: wd_tick_def probe_done_def serve_refresh_def Let_def
        split: prod.splits RefreshResult.splits)
  then show ?case using step.IH wd_step_inv by blast
qed

lemma refresh_allowed_iff:
  assumes "wd_inv h x"
  shows "refresh_allowed now x \<longleftrightarrow> not_before (refresh_failures h) \<le> unat (unix_secs now)"
  using assms by (auto simp: refresh_allowed_def wd_inv_def word_le_nat_alt split: option.splits)

lemma wants_refresh_iff:
  assumes "wd_inv h (wd_health s)" and "cfg_enabled config"
  shows "wants_refresh config s now1 now2 \<longleftrightarrow>
     max 1 (unat (failures_before_refresh config)) \<le> Suc (probe_failures h) \<and>
     not_before (refresh_failures h) \<le> unat (unix_secs now2)"
proof -
  note f = wd_inv_failure [OF assms(1), of now1]
  have c: "count_ok (consecutive_self_probe_failures (record_probe_failure now1 (wd_health s))) (Suc (probe_failures h))"
    using f by (simp add: wd_inv_def)
  have "refresh_allowed now2 (record_probe_failure now1 (wd_health s)) \<longleftrightarrow>
      not_before (refresh_failures h) \<le> unat (unix_secs now2)"
    using refresh_allowed_iff [OF f] by simp
  then show ?thesis
    using assms(2) count_ok_le [OF c, of 1] count_ok_le [OF c, of "failures_before_refresh config"]
    by (simp add: wants_refresh_def should_refresh_def)
qed

text \<open>
  C24.  When the watchdog asks for a new endpoint.  After any history of probes, handshakes and
  refreshes, a failed probe makes it ask exactly when the probes that failed since the last
  success, handshake or refresh, this one included, are at least the configured number, and the
  waiting time after the refreshes that failed in a row is over.  It then asks once.
\<close>

theorem watchdog_requests_exact:
  assumes "wd_run config h s" and "wd_enabled s (ProbeDone now1 now2 now3 (Failure err) True)"
  shows "wd_commands (wd_step config s (ProbeDone now1 now2 now3 (Failure err) True)) =
     wd_commands s +
     (if max 1 (unat (failures_before_refresh config)) \<le> Suc (probe_failures h) \<and>
         not_before (refresh_failures h) \<le> unat (unix_secs now2) then 1 else 0)"
proof -
  have "wd_inv h (wd_health s)" "cfg_enabled config" using wd_run_inv [OF assms(1)] assms(2) by simp_all
  then show ?thesis by (simp add: probe_done_failure Let_def wants_refresh_iff)
qed

definition demo_watchdog :: WatchdogConfig where
  "demo_watchdog = default_config\<lparr>failures_before_refresh := 2\<rparr>"

definition demo_probing :: WatchdogSys where
  "demo_probing = wd_step demo_watchdog (wd_step demo_watchdog
     (wd_step demo_watchdog (start_watchdog demo_watchdog (new_health 0)) (Tick 300))
     (ProbeDone 301 301 301 (Failure ''timeout'') True)) (Tick 600)"

lemmas demo_simps = demo_watchdog_def default_config_def start_watchdog_def new_health_def wd_tick_def
  should_skip_probe_after_recent_inbound_def probe_done_failure wants_refresh_def should_refresh_def
  record_probe_failure_def saturating_add_def refresh_allowed_def Let_def word_le_nat_alt

lemma demo_watchdog_run: "wd_run demo_watchdog [ProbeFailed] demo_probing"
proof -
  let ?s0 = "start_watchdog demo_watchdog (new_health 0)"
  let ?s1 = "wd_step demo_watchdog ?s0 (Tick 300)"
  let ?e = "ProbeDone 301 301 301 (Failure ''timeout'') True"
  have 1: "wd_run demo_watchdog (facts_of demo_watchdog ?s0 (Tick 300) @ []) ?s1"
    by (rule wd_run.step [OF wd_run.start]) (simp add: demo_simps)
  have 2: "wd_run demo_watchdog (facts_of demo_watchdog ?s1 ?e @ facts_of demo_watchdog ?s0 (Tick 300) @ [])
      (wd_step demo_watchdog ?s1 ?e)"
    by (rule wd_run.step [OF 1]) (simp add: demo_simps)
  have "facts_of demo_watchdog ?s1 ?e = [ProbeFailed]" by (simp add: demo_simps)
  with wd_run.step [OF 2, of "Tick 600"] show ?thesis
    unfolding demo_probing_def by (simp add: demo_simps)
qed

theorem watchdog_requests_exact_witness:
  "wd_commands (wd_step demo_watchdog demo_probing (ProbeDone 601 601 601 (Failure ''timeout'') True)) = 1"
proof -
  have "wd_enabled demo_probing (ProbeDone 601 601 601 (Failure ''timeout'') True)" "wd_commands demo_probing = 0"
    by (simp_all add: demo_probing_def demo_simps)
  then show ?thesis
    using watchdog_requests_exact [OF demo_watchdog_run, of 601 601 601 "''timeout''"]
    by (simp add: demo_watchdog_def default_config_def)
qed

text \<open>
  A watchdog that is configured off does not stay reported as off: the first handshake of a peer
  overwrites the state, because the connection handlers record it whatever the state is.
\<close>

lemma disabled_state_overwritten:
  "\<not> cfg_enabled config \<Longrightarrow>
     state (wd_health (start_watchdog config h)) = Disabled \<and>
     state (wd_health (wd_step config (start_watchdog config h) (Handshake now))) = Ok"
  by (simp add: start_watchdog_def set_disabled_def record_inbound_handshake_def)

text \<open>
  No probe is started while a handshake of a peer is recent or a refresh is under way.
\<close>

lemma tick_skips:
  "wd_probing (wd_tick config now s) \<longleftrightarrow>
     wd_probing s \<or> state (wd_health s) \<noteq> Refreshing \<and>
       \<not> should_skip_probe_after_recent_inbound config now (wd_health s)"
  by (auto simp: wd_tick_def)

end
