(* ===== verification/Peer_Store.thy ===== *)
theory Peer_Store
  imports Ticket_Schema "HOL-Library.AList"
begin

text \<open>
  What a portl installation remembers about others: the peers it trusts
  (\<^verbatim>\<open>portl-core/src/peer_store.rs\<close>), the tickets issued to it
  (\<^verbatim>\<open>ticket_store.rs\<close>, \<^verbatim>\<open>ticket_save.rs\<close>), the labels both go by
  (\<^verbatim>\<open>labels.rs\<close>) and the check across the two (\<^verbatim>\<open>store_index.rs\<close>).  A hash
  map is an association list in its order of iteration.  A file is its content, if it exists; the
  JSON and hex libraries and the ticket parser are the functions of a record.
\<close>

section \<open>Records\<close>

datatype PeerOrigin = Zelf | Paired | AcceptedOrigin | Raw

record PeerEntry =
  pe_label :: string
  pe_endpoint_id_hex :: string
  accepts_from_them :: bool
  they_accept_from_me :: bool
  pe_since :: u64
  pe_origin :: PeerOrigin
  last_hold_at :: "u64 option"
  is_self :: bool
  relay_hint :: "string option"
  schema_version :: u8

record PeerStore =
  ps_schema :: u32
  ps_entries :: "(string \<times> PeerEntry) list"

record SessionShareMetadata =
  friendly_name :: string
  provider_session :: string
  provider :: "string option"
  origin_label_hint :: "string option"
  target_label_hint :: "string option"

record TicketEntry =
  te_endpoint_id_hex :: string
  te_ticket_string :: string
  te_expires_at :: u64
  te_saved_at :: u64
  te_session_share :: "SessionShareMetadata option"

record TicketStore =
  ts_schema :: u32
  ts_entries :: "(string \<times> TicketEntry) list"

record store_externs =
  sx_hex :: "bytes \<Rightarrow> string"
  sx_unhex :: "string \<Rightarrow> bytes option"
  sx_peers_json :: "PeerStore \<Rightarrow> string option"
  sx_peers_parse :: "string \<Rightarrow> PeerStore option"
  sx_tickets_json :: "TicketStore \<Rightarrow> string option"
  sx_tickets_parse :: "string \<Rightarrow> TicketStore option"
  sx_decode_ticket :: "string \<Rightarrow> string + PortlTicket"

text \<open>
  What the code relies on: hex is read back and has two lower-case digits per byte, and JSON is
  read back.
\<close>

definition hex_digit_char :: "char \<Rightarrow> bool" where
  "hex_digit_char c \<longleftrightarrow> c \<in> set ''0123456789abcdef''"

definition store_laws :: "store_externs \<Rightarrow> bool" where
  "store_laws X \<longleftrightarrow>
     (\<forall>bs. sx_unhex X (sx_hex X bs) = Some bs \<and> length (sx_hex X bs) = 2 * length bs \<and>
        list_all hex_digit_char (sx_hex X bs)) \<and>
     (\<forall>s content. sx_peers_json X s = Some content \<longrightarrow> sx_peers_parse X content = Some s) \<and>
     (\<forall>s content. sx_tickets_json X s = Some content \<longrightarrow> sx_tickets_parse X content = Some s)"

lemma store_laws_hex_eq: "store_laws X \<Longrightarrow> sx_hex X a = sx_hex X b \<longleftrightarrow> a = b"
  by (metis option.inject store_laws_def)

definition quoted :: "string \<Rightarrow> string" where
  "quoted s = CHR 0x27 # s @ [CHR 0x27]"

section \<open>Peer entries\<close>

definition default_schema_version :: u8 where
  "default_schema_version = 1"

definition endpoint_id_bytes :: "store_externs \<Rightarrow> PeerEntry \<Rightarrow> string + key32" where
  "endpoint_id_bytes X e =
     (case sx_unhex X (pe_endpoint_id_hex e) of
        None \<Rightarrow> Inl (''decode endpoint_id_hex for peer '' @ pe_label e)
      | Some bs \<Rightarrow>
          if length bs = 32 then Inr bs
          else Inl (''peer '' @ pe_label e @ '': endpoint_id_hex is not 32 bytes''))"

definition relationship :: "PeerEntry \<Rightarrow> string" where
  "relationship e =
     (if last_hold_at e \<noteq> None then ''held''
      else if is_self e then ''self''
      else if accepts_from_them e then (if they_accept_from_me e then ''mutual'' else ''inbound'')
      else (if they_accept_from_me e then ''outbound'' else ''none''))"

fun origin_str :: "PeerOrigin \<Rightarrow> string" where
  "origin_str Zelf = ''self''"
| "origin_str Paired = ''paired''"
| "origin_str AcceptedOrigin = ''accepted''"
| "origin_str Raw = ''raw''"

section \<open>The peer store\<close>

definition CURRENT_SCHEMA :: u32 where
  "CURRENT_SCHEMA = 1"

definition new_peers :: PeerStore where
  "new_peers = \<lparr>ps_schema = CURRENT_SCHEMA, ps_entries = []\<rparr>"

text \<open>
  Loading: a missing file is an empty store, anything unreadable is an error.  The flag says
  whether the file could be read.
\<close>

definition load_peers :: "store_externs \<Rightarrow> bool \<Rightarrow> string \<Rightarrow> string option \<Rightarrow> string + PeerStore" where
  "load_peers X read_ok path content =
     (case content of
        None \<Rightarrow> Inr new_peers
      | Some raw \<Rightarrow>
          if \<not> read_ok then Inl (''read peer store at '' @ path)
          else (case sx_peers_parse X raw of
                  None \<Rightarrow> Inl (''parse peer store at '' @ path)
                | Some store \<Rightarrow>
                    if ps_schema store \<noteq> CURRENT_SCHEMA
                    then Inl (''peer store at '' @ path @ '' has schema v'' @ decimal (unat (ps_schema store)) @
                              '' but v'' @ decimal (unat CURRENT_SCHEMA) @ '' is required'')
                    else Inr store))"

text \<open>
  Saving is atomic: the new content is there as a whole or the old one stays.
\<close>

definition save_peers :: "store_externs \<Rightarrow> bool \<Rightarrow> PeerStore \<Rightarrow> string + string" where
  "save_peers X write_ok store =
     (case sx_peers_json X store of
        None \<Rightarrow> Inl ''encode peer store''
      | Some encoded \<Rightarrow> if write_ok then Inr encoded else Inl ''write peer store'')"

definition insert_or_update :: "PeerEntry \<Rightarrow> PeerStore \<Rightarrow> string + PeerStore" where
  "insert_or_update entry store =
     (case find (\<lambda>(key, existing). pe_label existing = pe_label entry \<and> key \<noteq> pe_endpoint_id_hex entry)
             (ps_entries store) of
        Some (_, existing) \<Rightarrow>
          Inl (''label '' @ quoted (pe_label entry) @ '' is already in use by a different peer ('' @
               take 16 (pe_endpoint_id_hex existing) @ '')'')
      | None \<Rightarrow> Inr (store\<lparr>ps_entries := AList.update (pe_endpoint_id_hex entry) entry (ps_entries store)\<rparr>))"

definition remove_by_label :: "string \<Rightarrow> PeerStore \<Rightarrow> PeerEntry option \<times> PeerStore" where
  "remove_by_label label store =
     (case find (\<lambda>(_, v). pe_label v = label) (ps_entries store) of
        None \<Rightarrow> (None, store)
      | Some (key, _) \<Rightarrow>
          (map_of (ps_entries store) key, store\<lparr>ps_entries := AList.delete key (ps_entries store)\<rparr>))"

definition remove_by_endpoint :: "store_externs \<Rightarrow> key32 \<Rightarrow> PeerStore \<Rightarrow> PeerEntry option \<times> PeerStore" where
  "remove_by_endpoint X eid store =
     (let key = sx_hex X eid
      in (map_of (ps_entries store) key, store\<lparr>ps_entries := AList.delete key (ps_entries store)\<rparr>))"

definition get_by_label :: "string \<Rightarrow> PeerStore \<Rightarrow> PeerEntry option" where
  "get_by_label label store = find (\<lambda>e. pe_label e = label) (map snd (ps_entries store))"

definition get_by_endpoint :: "store_externs \<Rightarrow> key32 \<Rightarrow> PeerStore \<Rightarrow> PeerEntry option" where
  "get_by_endpoint X eid store = map_of (ps_entries store) (sx_hex X eid)"

definition trust_roots :: "store_externs \<Rightarrow> PeerStore \<Rightarrow> key32 set" where
  "trust_roots X store =
     set (List.map_filter (\<lambda>e. case endpoint_id_bytes X e of Inl _ \<Rightarrow> None | Inr eid \<Rightarrow> Some eid)
       (filter (\<lambda>e. accepts_from_them e \<and> last_hold_at e = None) (map snd (ps_entries store))))"

definition auto_label :: "store_externs \<Rightarrow> key32 \<Rightarrow> string" where
  "auto_label X eid = sx_hex X (take 4 eid)"

section \<open>Labels\<close>

definition ascii_lower :: "char \<Rightarrow> char" where
  "ascii_lower c = (if of_char c \<in> {65..90 :: nat} then char_of (of_char c + 32 :: nat) else c)"

definition ascii_alnum :: "char \<Rightarrow> bool" where
  "ascii_alnum c \<longleftrightarrow> of_char c \<in> {48..57 :: nat} \<union> {65..90} \<union> {97..122}"

definition endpoint_suffix :: "string \<Rightarrow> nat \<Rightarrow> string" where
  "endpoint_suffix endpoint_id_hex n =
     (let hex = map ascii_lower (trim endpoint_id_hex) in drop (length hex - n) hex)"

text \<open>
  The characters of a string in lower case, as a label sees them: a letter or digit, or a
  separator.  Outside ASCII only the Kelvin sign and the capital I with a dot have an ASCII letter
  in their lower case.  Adjacent separators act as one, so a character of several bytes may count
  as several.
\<close>

fun label_units :: "string \<Rightarrow> char option list" where
  "label_units [] = []"
| "label_units (c # cs) =
     (if c = CHR 0xE2 \<and> take 2 cs = [CHR 0x84, CHR 0xAA] then Some (CHR ''k'') # label_units (drop 2 cs)
      else if c = CHR 0xC4 \<and> take 1 cs = [CHR 0xB0] then Some (CHR ''i'') # None # label_units (drop 1 cs)
      else (if ascii_alnum c then Some (ascii_lower c) else None) # label_units cs)"

fun label_dashes :: "string \<Rightarrow> bool \<Rightarrow> char option list \<Rightarrow> string" where
  "label_dashes out last_dash [] = out"
| "label_dashes out last_dash (Some c # us) = label_dashes (out @ [c]) False us"
| "label_dashes out last_dash (None # us) =
     (if \<not> last_dash \<and> out \<noteq> [] then label_dashes (out @ ''-'') True us
      else label_dashes out last_dash us)"

definition trim_end_dashes :: "string \<Rightarrow> string" where
  "trim_end_dashes s = rev (dropWhile (\<lambda>c. c = CHR ''-'') (rev s))"

definition trim_dashes :: "string \<Rightarrow> string" where
  "trim_dashes s = trim_end_dashes (dropWhile (\<lambda>c. c = CHR ''-'') s)"

definition sanitize_label_component :: "string \<Rightarrow> string option" where
  "sanitize_label_component raw =
     (let out = trim_end_dashes (label_dashes [] False (label_units (trim raw)))
      in if out = [] then None else Some out)"

definition machine_label_from_hint :: "string option \<Rightarrow> string \<Rightarrow> string" where
  "machine_label_from_hint hint endpoint_id_hex =
     (let base = (case Option.bind hint sanitize_label_component of None \<Rightarrow> ''host'' | Some b \<Rightarrow> b);
          suffix = endpoint_suffix endpoint_id_hex 4
      in if ends_with base (''-'' @ suffix) then base else base @ ''-'' @ suffix)"

definition machine_label :: "string option \<Rightarrow> string \<Rightarrow> string" where
  "machine_label hostname endpoint_id_hex =
     machine_label_from_hint (map_option (\<lambda>h. hd (split_on (CHR ''.'') h)) hostname) endpoint_id_hex"

definition session_share_label :: "string \<Rightarrow> string \<Rightarrow> string" where
  "session_share_label machine name =
     trim_dashes machine @ ''/'' @ (case sanitize_label_component name of None \<Rightarrow> ''session'' | Some f \<Rightarrow> f)"

definition ticket_label :: "string \<Rightarrow> string \<Rightarrow> string" where
  "ticket_label machine purpose =
     trim_dashes machine @ ''-ticket-'' @ (case sanitize_label_component purpose of None \<Rightarrow> ''access'' | Some p \<Rightarrow> p)"

text \<open>
  Endpoint ids as they are shown to the user (\<^verbatim>\<open>portl-cli/src/eid.rs\<close>).
\<close>

definition ELLIPSIS :: string where
  "ELLIPSIS = [CHR 0xE2, CHR 0x80, CHR 0xA6]"

definition format_short :: "string \<Rightarrow> string" where
  "format_short eid_hex =
     (if length eid_hex \<le> 8 + 4 then eid_hex
      else take 8 eid_hex @ ELLIPSIS @ drop (length eid_hex - 4) eid_hex)"

section \<open>The ticket store\<close>

definition new_tickets :: TicketStore where
  "new_tickets = \<lparr>ts_schema = CURRENT_SCHEMA, ts_entries = []\<rparr>"

definition load_tickets :: "store_externs \<Rightarrow> bool \<Rightarrow> string \<Rightarrow> string option \<Rightarrow> string + TicketStore" where
  "load_tickets X read_ok path content =
     (case content of
        None \<Rightarrow> Inr new_tickets
      | Some raw \<Rightarrow>
          if \<not> read_ok then Inl (''read ticket store at '' @ path)
          else (case sx_tickets_parse X raw of
                  None \<Rightarrow> Inl (''parse ticket store at '' @ path)
                | Some store \<Rightarrow>
                    if ts_schema store \<noteq> CURRENT_SCHEMA
                    then Inl (''ticket store at '' @ path @ '' has schema v'' @ decimal (unat (ts_schema store)) @
                              '' but v'' @ decimal (unat CURRENT_SCHEMA) @ '' is required'')
                    else Inr store))"

definition save_tickets :: "store_externs \<Rightarrow> bool \<Rightarrow> TicketStore \<Rightarrow> string + string" where
  "save_tickets X write_ok store =
     (case sx_tickets_json X store of
        None \<Rightarrow> Inl ''encode ticket store''
      | Some encoded \<Rightarrow> if write_ok then Inr encoded else Inl ''write ticket store'')"

definition get_ticket :: "string \<Rightarrow> TicketStore \<Rightarrow> TicketEntry option" where
  "get_ticket label store = map_of (ts_entries store) label"

definition insert_ticket :: "string \<Rightarrow> TicketEntry \<Rightarrow> TicketStore \<Rightarrow> string + TicketStore" where
  "insert_ticket label entry store =
     (if label \<in> fst ` set (ts_entries store)
      then Inl (''ticket label '' @ quoted label @ '' already exists; remove it first with `portl ticket rm '' @ label @ ''`'')
      else Inr (store\<lparr>ts_entries := AList.update label entry (ts_entries store)\<rparr>))"

definition remove_ticket :: "string \<Rightarrow> TicketStore \<Rightarrow> TicketEntry option \<times> TicketStore" where
  "remove_ticket label store =
     (get_ticket label store, store\<lparr>ts_entries := AList.delete label (ts_entries store)\<rparr>)"

definition prune_expired_tickets :: "u64 \<Rightarrow> TicketStore \<Rightarrow> string list \<times> TicketStore" where
  "prune_expired_tickets now store =
     (let removed = map fst (filter (\<lambda>(_, e). te_expires_at e \<le> now) (ts_entries store))
      in (removed, store\<lparr>ts_entries := fold AList.delete removed (ts_entries store)\<rparr>))"

definition soonest_expiry :: "u64 \<Rightarrow> TicketStore \<Rightarrow> u64 option" where
  "soonest_expiry now store =
     (case map (\<lambda>(_, e). te_expires_at e - now) (filter (\<lambda>(_, e). now < te_expires_at e) (ts_entries store)) of
        [] \<Rightarrow> None
      | t # ts \<Rightarrow> Some (fold min ts t))"

definition label_in_use :: "string \<Rightarrow> PeerStore \<Rightarrow> TicketStore \<Rightarrow> string option" where
  "label_in_use label peers tickets =
     (if get_by_label label peers \<noteq> None then Some ''peer''
      else if get_ticket label tickets \<noteq> None then Some ''ticket''
      else None)"

section \<open>Saving a ticket\<close>

record SavedTicket =
  sv_label :: string
  sv_endpoint_id_hex :: string
  sv_expires_at :: u64
  sv_saved_at :: u64

definition cap_summary :: "Capabilities \<Rightarrow> string" where
  "cap_summary caps =
     (let parts =
        (case cp_shell caps of None \<Rightarrow> [] | Some shell \<Rightarrow> [if sh_pty_allowed shell then ''shell'' else ''exec'']) @
        (case cp_tcp caps of None \<Rightarrow> [] | Some rules \<Rightarrow> if rules = [] then [] else [''tcp'']) @
        (case cp_udp caps of None \<Rightarrow> [] | Some rules \<Rightarrow> if rules = [] then [] else [''udp'']) @
        (case cp_meta caps of None \<Rightarrow> [] | Some _ \<Rightarrow> [''meta''])
      in case parts of
           [a] \<Rightarrow> a
         | [a, b] \<Rightarrow> a @ ''-'' @ b
         | _ \<Rightarrow> ''access'')"

definition eq_ignore_ascii_case :: "string \<Rightarrow> string \<Rightarrow> bool" where
  "eq_ignore_ascii_case a b \<longleftrightarrow> map ascii_lower a = map ascii_lower b"

definition auto_ticket_label :: "string \<Rightarrow> Capabilities \<Rightarrow> PeerStore \<Rightarrow> string" where
  "auto_ticket_label endpoint_id_hex caps peers =
     (let machine = (case find (\<lambda>p. eq_ignore_ascii_case (pe_endpoint_id_hex p) endpoint_id_hex)
                            (map snd (ps_entries peers)) of
                       Some p \<Rightarrow> pe_label p
                     | None \<Rightarrow> machine_label None endpoint_id_hex)
      in ticket_label machine (cap_summary caps))"

text \<open>
  The two files with the outcome of reading and writing them.
\<close>

record StoreFiles =
  sf_peers_path :: string
  sf_peers :: "string option"
  sf_tickets_path :: string
  sf_tickets :: "string option"
  sf_read_ok :: bool
  sf_write_ok :: bool

definition place_ticket :: "string \<Rightarrow> string \<Rightarrow> u64 \<Rightarrow> PeerStore \<Rightarrow> TicketStore \<Rightarrow> string + TicketStore" where
  "place_ticket label endpoint_id_hex expires_at peers tickets =
     (if label = [] then Inl ''ticket label is empty''
      else if get_by_label label peers \<noteq> None
      then Inl (''label '' @ quoted label @ '' is already in use by a peer; pick another label or remove the existing one first'')
      else (case get_ticket label tickets of
              None \<Rightarrow> Inr tickets
            | Some existing \<Rightarrow>
                if \<not> eq_ignore_ascii_case (te_endpoint_id_hex existing) endpoint_id_hex
                then Inl (''label '' @ quoted label @ '' is already in use by a ticket for a different endpoint; pick another label or remove it first'')
                else if expires_at \<le> te_expires_at existing
                then Inl (''ticket '' @ quoted label @ '' already exists for this endpoint and expires later or at the same time; keeping the existing ticket'')
                else Inr (snd (remove_ticket label tickets))))"

definition save_ticket_at ::
  "store_externs \<Rightarrow> string option \<Rightarrow> string \<Rightarrow> u64 \<Rightarrow> StoreFiles \<Rightarrow> (string + SavedTicket) \<times> StoreFiles" where
  "save_ticket_at X label ticket_string now fs =
     (let attempt =
        res_bind (map_err (\<lambda>err. ''parse ticket: '' @ err) (sx_decode_ticket X ticket_string)) (\<lambda>ticket.
          let endpoint_id_hex = sx_hex X (ea_id (tk_addr ticket)); expires_at = bd_not_after (tk_body ticket)
          in if expires_at \<le> now then Inl (''ticket expired '' @ decimal (unat (now - expires_at)) @ ''s ago; refusing to save (run `portl ticket issue '' @
                     [CHR 0xE2, CHR 0x80, CHR 0xA6] @ ''` to mint a fresh one)'')
             else
               res_bind (load_peers X (sf_read_ok fs) (sf_peers_path fs) (sf_peers fs)) (\<lambda>peers.
               res_bind (load_tickets X (sf_read_ok fs) (sf_tickets_path fs) (sf_tickets fs)) (\<lambda>tickets.
                 let name = (case label of None \<Rightarrow> auto_ticket_label endpoint_id_hex (bd_caps (tk_body ticket)) peers
                             | Some l \<Rightarrow> trim l)
                 in res_bind (place_ticket name endpoint_id_hex expires_at peers tickets) (\<lambda>room.
                    res_bind (insert_ticket name \<lparr>te_endpoint_id_hex = endpoint_id_hex, te_ticket_string = ticket_string,
                        te_expires_at = expires_at, te_saved_at = now, te_session_share = None\<rparr> room) (\<lambda>updated.
                    res_bind (save_tickets X (sf_write_ok fs) updated) (\<lambda>content.
                      Inr (\<lparr>sv_label = name, sv_endpoint_id_hex = endpoint_id_hex, sv_expires_at = expires_at,
                            sv_saved_at = now\<rparr>, content)))))))
      in case attempt of
           Inl e \<Rightarrow> (Inl e, fs)
         | Inr (saved, content) \<Rightarrow> (Inr saved, fs\<lparr>sf_tickets := Some content\<rparr>))"

section \<open>Invariants and lookups\<close>

text \<open>
  A store kept by these operations: an entry is filed under its endpoint, and a label names one
  endpoint.
\<close>

definition peers_inv :: "PeerStore \<Rightarrow> bool" where
  "peers_inv s \<longleftrightarrow> distinct (map fst (ps_entries s)) \<and>
     (\<forall>k e. map_of (ps_entries s) k = Some e \<longrightarrow> k = pe_endpoint_id_hex e) \<and>
     (\<forall>k k' e e'. map_of (ps_entries s) k = Some e \<and> map_of (ps_entries s) k' = Some e' \<and>
        pe_label e = pe_label e' \<longrightarrow> k = k')"

lemma peers_invD:
  assumes "peers_inv s"
  shows "distinct (map fst (ps_entries s))"
    and "map_of (ps_entries s) k = Some e \<Longrightarrow> k = pe_endpoint_id_hex e"
    and "map_of (ps_entries s) k = Some e \<Longrightarrow> map_of (ps_entries s) k' = Some e' \<Longrightarrow> pe_label e = pe_label e' \<Longrightarrow> k = k'"
  using assms unfolding peers_inv_def by blast+

lemma entries_map_of: "peers_inv s \<Longrightarrow> (k, e) \<in> set (ps_entries s) \<longleftrightarrow> map_of (ps_entries s) k = Some e"
  by (simp add: peers_inv_def)

lemma new_peers_inv: "peers_inv new_peers"
  by (simp add: peers_inv_def new_peers_def)

lemma find_None_iff_all: "find P xs = None \<longleftrightarrow> (\<forall>x\<in>set xs. \<not> P x)"
  by (auto simp: find_None_iff)

lemma insert_or_update_ok:
  assumes "peers_inv s" and "insert_or_update entry s = Inr s'"
  shows "\<forall>k e. map_of (ps_entries s) k = Some e \<and> pe_label e = pe_label entry \<longrightarrow> k = pe_endpoint_id_hex entry"
    and "map_of (ps_entries s') = (map_of (ps_entries s))(pe_endpoint_id_hex entry \<mapsto> entry)"
    and "ps_schema s' = ps_schema s" and "distinct (map fst (ps_entries s'))"
proof -
  have f: "find (\<lambda>(key, existing). pe_label existing = pe_label entry \<and> key \<noteq> pe_endpoint_id_hex entry) (ps_entries s) = None"
    and s': "s' = s\<lparr>ps_entries := AList.update (pe_endpoint_id_hex entry) entry (ps_entries s)\<rparr>"
    using assms(2) by (auto simp: insert_or_update_def split: option.splits)
  from f show "\<forall>k e. map_of (ps_entries s) k = Some e \<and> pe_label e = pe_label entry \<longrightarrow> k = pe_endpoint_id_hex entry"
    by (auto simp: find_None_iff_all dest: map_of_SomeD)
  from s' show "map_of (ps_entries s') = (map_of (ps_entries s))(pe_endpoint_id_hex entry \<mapsto> entry)"
    "ps_schema s' = ps_schema s" by (simp_all add: update_conv')
  show "distinct (map fst (ps_entries s'))"
    using s' peers_invD(1) [OF assms(1)] by (simp add: distinct_update)
qed

lemma insert_or_update_inv:
  assumes "peers_inv s" and "insert_or_update entry s = Inr s'"
  shows "peers_inv s'"
  unfolding peers_inv_def insert_or_update_ok(2) [OF assms]
  using insert_or_update_ok(1,4) [OF assms] peers_invD(2,3) [OF assms(1)]
  by (auto split: if_splits)

lemma remove_entries_inv:
  assumes "peers_inv s"
  shows "peers_inv (s\<lparr>ps_entries := AList.delete key (ps_entries s)\<rparr>)"
  using assms by (simp add: peers_inv_def delete_conv' distinct_delete restrict_map_def)

lemma remove_by_label_inv: "peers_inv s \<Longrightarrow> peers_inv (snd (remove_by_label label s))"
  by (auto simp: remove_by_label_def remove_entries_inv split: option.splits)

lemma remove_by_endpoint_inv: "peers_inv s \<Longrightarrow> peers_inv (snd (remove_by_endpoint X eid s))"
  by (simp add: remove_by_endpoint_def remove_entries_inv Let_def)

lemma find_SomeD: "find P xs = Some x \<Longrightarrow> P x \<and> x \<in> set xs"
  by (induction xs) (auto split: if_splits)

lemma get_by_label_SomeD: "get_by_label label s = Some e \<Longrightarrow> pe_label e = label \<and> (\<exists>k. (k, e) \<in> set (ps_entries s))"
  unfolding get_by_label_def by (drule find_SomeD) auto

lemma get_by_label_iff:
  assumes "peers_inv s"
  shows "get_by_label label s = Some e \<longleftrightarrow> map_of (ps_entries s) (pe_endpoint_id_hex e) = Some e \<and> pe_label e = label"
proof
  assume "get_by_label label s = Some e"
  then obtain k where "pe_label e = label" "map_of (ps_entries s) k = Some e"
    using get_by_label_SomeD entries_map_of [OF assms] by blast
  then show "map_of (ps_entries s) (pe_endpoint_id_hex e) = Some e \<and> pe_label e = label"
    using peers_invD(2) [OF assms] by blast
next
  assume R: "map_of (ps_entries s) (pe_endpoint_id_hex e) = Some e \<and> pe_label e = label"
  then have "e \<in> set (map snd (ps_entries s))" by (force dest: map_of_SomeD)
  with R have "get_by_label label s \<noteq> None" unfolding get_by_label_def find_None_iff_all by blast
  then obtain e' where e': "get_by_label label s = Some e'" by blast
  then obtain k' where k': "pe_label e' = label" "map_of (ps_entries s) k' = Some e'"
    using get_by_label_SomeD entries_map_of [OF assms] by blast
  then have "k' = pe_endpoint_id_hex e" using peers_invD(3) [OF assms k'(2), of _ e] R by simp
  then show "get_by_label label s = Some e" using R e' k'(2) by simp
qed

lemma trust_roots_iff:
  "eid \<in> trust_roots X s \<longleftrightarrow>
     (\<exists>k e. (k, e) \<in> set (ps_entries s) \<and> accepts_from_them e \<and> last_hold_at e = None \<and>
        sx_unhex X (pe_endpoint_id_hex e) = Some eid \<and> length eid = 32)"
proof -
  have "(case endpoint_id_bytes X e of Inl _ \<Rightarrow> None | Inr eid \<Rightarrow> Some eid) = Some eid \<longleftrightarrow>
      sx_unhex X (pe_endpoint_id_hex e) = Some eid \<and> length eid = 32" for e
    by (auto simp: endpoint_id_bytes_def split: option.splits if_splits)
  then show ?thesis unfolding trust_roots_def by (force simp: map_filter_def image_iff)
qed

section \<open>An instance of the libraries\<close>

definition nibble :: "nat \<Rightarrow> char" where
  "nibble n = char_of (if n < 10 then 48 + n else 87 + n)"

definition nibble_value :: "char \<Rightarrow> nat option" where
  "nibble_value c =
     (let n = of_char c in if 48 \<le> n \<and> n \<le> 57 then Some (n - 48) else if 97 \<le> n \<and> n \<le> 102 then Some (n - 87) else None)"

fun hex_of :: "bytes \<Rightarrow> string" where
  "hex_of [] = []"
| "hex_of (b # bs) = nibble (unat b div 16) # nibble (unat b mod 16) # hex_of bs"

fun unhex_of :: "string \<Rightarrow> bytes option" where
  "unhex_of [] = Some []"
| "unhex_of [c] = None"
| "unhex_of (c # d # cs) =
     (case (nibble_value c, nibble_value d, unhex_of cs) of
        (Some a, Some b, Some bs) \<Rightarrow> Some (of_nat (16 * a + b) # bs)
      | _ \<Rightarrow> None)"

lemma nibble_value_nibble: "n < 16 \<Longrightarrow> nibble_value (nibble n) = Some n"
  by (simp add: nibble_def nibble_value_def Let_def)

lemma nibble_digit: "n < 16 \<Longrightarrow> hex_digit_char (nibble n)"
proof -
  have "list_all (\<lambda>n. hex_digit_char (nibble n)) [0..<16]" by code_simp
  then show "n < 16 \<Longrightarrow> hex_digit_char (nibble n)" by (simp add: list_all_iff)
qed

lemma byte_nibbles_less: "unat (b :: byte) div 16 < 16"
proof -
  have "unat b < 256" using unsigned_less [of b] by simp
  then show ?thesis by simp
qed

lemma hex_of_laws: "unhex_of (hex_of bs) = Some bs \<and> length (hex_of bs) = 2 * length bs \<and> list_all hex_digit_char (hex_of bs)"
proof (induction bs)
  case (Cons b bs)
  have "of_nat (16 * (unat b div 16) + unat b mod 16) = b" by (simp only: mult_div_mod_eq) simp
  with Cons byte_nibbles_less [of b] show ?case by (simp add: nibble_value_nibble nibble_digit)
qed simp

text \<open>
  With JSON for chosen stores only, and one ticket.
\<close>

definition demo_stores :: "PeerStore list \<Rightarrow> TicketStore list \<Rightarrow> PortlTicket \<Rightarrow> store_externs" where
  "demo_stores ps ts ticket =
     \<lparr>sx_hex = hex_of, sx_unhex = unhex_of,
      sx_peers_json = (\<lambda>s. map_of (zip ps (map (\<lambda>n. replicate n CHR ''p'') [0..<length ps])) s),
      sx_peers_parse = (\<lambda>c. if length c < length ps \<and> c = replicate (length c) CHR ''p'' then Some (ps ! length c) else None),
      sx_tickets_json = (\<lambda>s. map_of (zip ts (map (\<lambda>n. replicate n CHR ''t'') [0..<length ts])) s),
      sx_tickets_parse = (\<lambda>c. if length c < length ts \<and> c = replicate (length c) CHR ''t'' then Some (ts ! length c) else None),
      sx_decode_ticket = (\<lambda>s. if s = ''ticket'' then Inr ticket else Inl ''malformed'')\<rparr>"

lemma map_of_zip_index:
  assumes "map_of (zip xs (map f [0..<length xs])) x = Some y"
  shows "\<exists>n<length xs. xs ! n = x \<and> y = f n"
  using map_of_SomeD [OF assms] by (auto simp: set_zip)

lemma demo_stores_laws: "store_laws (demo_stores ps ts ticket)"
  unfolding store_laws_def demo_stores_def using hex_of_laws by (auto dest!: map_of_zip_index)

section \<open>Properties\<close>

lemma load_tickets_ok:
  "load_tickets X ok path content = Inr s \<Longrightarrow> ts_schema s = CURRENT_SCHEMA"
  by (auto simp: load_tickets_def new_tickets_def split: option.splits if_splits)

lemma place_ticket_ok:
  "place_ticket label hex expires peers tickets = Inr room \<longleftrightarrow>
     label \<noteq> [] \<and> get_by_label label peers = None \<and>
     (case get_ticket label tickets of
        None \<Rightarrow> room = tickets
      | Some old \<Rightarrow> eq_ignore_ascii_case (te_endpoint_id_hex old) hex \<and> te_expires_at old < expires \<and>
          room = tickets\<lparr>ts_entries := AList.delete label (ts_entries tickets)\<rparr>)"
  by (auto simp: place_ticket_def remove_ticket_def split: option.splits)

lemma insert_ticket_ok:
  "insert_ticket label entry s = Inr s' \<longleftrightarrow>
     get_ticket label s = None \<and> s' = s\<lparr>ts_entries := AList.update label entry (ts_entries s)\<rparr>"
  by (auto simp: insert_ticket_def get_ticket_def map_of_eq_None_iff)

lemma get_ticket_update [simp]:
  "get_ticket l (s\<lparr>ts_entries := AList.update label entry es\<rparr>) = (if l = label then Some entry else map_of es l)"
  "get_ticket l (s\<lparr>ts_entries := AList.delete label es\<rparr>) = (if l = label then None else map_of es l)"
  by (auto simp: get_ticket_def update_conv' delete_conv' restrict_map_def)

lemma save_ticket_cases:
  assumes "save_ticket_at X label ticket_string now fs = (Inr sv, fs')"
  obtains ticket peers tickets room updated content where
    "sx_decode_ticket X ticket_string = Inr ticket" "now < bd_not_after (tk_body ticket)"
    "load_peers X (sf_read_ok fs) (sf_peers_path fs) (sf_peers fs) = Inr peers"
    "load_tickets X (sf_read_ok fs) (sf_tickets_path fs) (sf_tickets fs) = Inr tickets"
    "place_ticket (sv_label sv) (sx_hex X (ea_id (tk_addr ticket))) (bd_not_after (tk_body ticket)) peers tickets = Inr room"
    "insert_ticket (sv_label sv) \<lparr>te_endpoint_id_hex = sx_hex X (ea_id (tk_addr ticket)), te_ticket_string = ticket_string,
        te_expires_at = bd_not_after (tk_body ticket), te_saved_at = now, te_session_share = None\<rparr> room = Inr updated"
    "sx_tickets_json X updated = Some content" "fs' = fs\<lparr>sf_tickets := Some content\<rparr>"
  using assms
  by (auto simp: save_ticket_at_def Let_def save_tickets_def res_bind_Inr_iff map_err_Inr_iff
      split: sum.splits if_splits option.splits prod.splits)

text \<open>
  C25.  A saved ticket never takes over a name.  If saving fails, the file is as before.  If it
  succeeds, the ticket was not expired, its label is not that of a peer, reading the file back
  gives the ticket under that label and every other ticket unchanged, and a ticket it replaced was
  for the same endpoint and expired earlier.
\<close>

theorem save_ticket_safe:
  assumes "store_laws X" and "save_ticket_at X label ticket_string now fs = (res, fs')"
  shows "case res of
     Inl e \<Rightarrow> fs' = fs
   | Inr sv \<Rightarrow> (\<exists>ticket peers tickets tickets'.
       sx_decode_ticket X ticket_string = Inr ticket \<and> now < bd_not_after (tk_body ticket) \<and>
       load_peers X (sf_read_ok fs) (sf_peers_path fs) (sf_peers fs) = Inr peers \<and>
       load_tickets X (sf_read_ok fs) (sf_tickets_path fs) (sf_tickets fs) = Inr tickets \<and>
       load_tickets X True (sf_tickets_path fs) (sf_tickets fs') = Inr tickets' \<and>
       get_by_label (sv_label sv) peers = None \<and>
       get_ticket (sv_label sv) tickets' =
         Some \<lparr>te_endpoint_id_hex = sx_hex X (ea_id (tk_addr ticket)), te_ticket_string = ticket_string,
               te_expires_at = bd_not_after (tk_body ticket), te_saved_at = now, te_session_share = None\<rparr> \<and>
       (\<forall>l. l \<noteq> sv_label sv \<longrightarrow> get_ticket l tickets' = get_ticket l tickets) \<and>
       (\<forall>old. get_ticket (sv_label sv) tickets = Some old \<longrightarrow>
          eq_ignore_ascii_case (te_endpoint_id_hex old) (sx_hex X (ea_id (tk_addr ticket))) \<and>
          te_expires_at old < bd_not_after (tk_body ticket)))"
proof (cases res)
  case (Inl e)
  then show ?thesis using assms(2) by (auto simp: save_ticket_at_def Let_def split: sum.splits)
next
  case (Inr sv)
  with assms(2) have "save_ticket_at X label ticket_string now fs = (Inr sv, fs')" by simp
  then show ?thesis
  proof (cases rule: save_ticket_cases)
    case (1 ticket peers tickets room updated content)
    have "sx_tickets_parse X content = Some updated" using assms(1) 1(7) by (simp add: store_laws_def)
    moreover have "ts_schema updated = CURRENT_SCHEMA"
      using 1(5,6) load_tickets_ok [OF 1(4)] by (auto simp: place_ticket_ok insert_ticket_ok split: option.splits)
    ultimately have "load_tickets X True (sf_tickets_path fs) (sf_tickets fs') = Inr updated"
      using 1(8) by (simp add: load_tickets_def)
    moreover have "\<forall>l. l \<noteq> sv_label sv \<longrightarrow> get_ticket l updated = get_ticket l tickets"
      using 1(5,6) by (auto simp: place_ticket_ok insert_ticket_ok split: option.splits) (simp add: get_ticket_def)+
    ultimately show ?thesis using Inr 1 by (auto simp: place_ticket_ok insert_ticket_ok split: option.splits)
  qed
qed

definition demo_saved_ticket :: PortlTicket where
  "demo_saved_ticket = \<lparr>tk_v = 1, tk_addr = \<lparr>ea_id = replicate 32 171, ea_transport = []\<rparr>,
     tk_body = \<lparr>bd_caps = \<lparr>cp_presence = 0, cp_shell = None, cp_tcp = None, cp_udp = None, cp_fs = None,
       cp_vpn = None, cp_meta = None, cp_unix = None\<rparr>, bd_target = replicate 32 171, bd_alpns_extra = [],
       bd_not_before = 0, bd_not_after = 1000, bd_issuer = None, bd_parent = None, bd_nonce = [],
       bd_bearer = None, bd_to = None\<rparr>, tk_sig = []\<rparr>"

definition demo_ticket_entry :: TicketEntry where
  "demo_ticket_entry = \<lparr>te_endpoint_id_hex = hex_of (replicate 32 171), te_ticket_string = ''ticket'',
     te_expires_at = 1000, te_saved_at = 5, te_session_share = None\<rparr>"

definition demo_tickets :: TicketStore where
  "demo_tickets = \<lparr>ts_schema = CURRENT_SCHEMA, ts_entries = [(''box'', demo_ticket_entry)]\<rparr>"

definition demo_files :: StoreFiles where
  "demo_files = \<lparr>sf_peers_path = ''peers.json'', sf_peers = None, sf_tickets_path = ''tickets.json'',
     sf_tickets = None, sf_read_ok = True, sf_write_ok = True\<rparr>"

lemma demo_save:
  "save_ticket_at (demo_stores [] [demo_tickets] demo_saved_ticket) (Some ''box'') ''ticket'' 5 demo_files =
     (Inr \<lparr>sv_label = ''box'', sv_endpoint_id_hex = hex_of (replicate 32 171), sv_expires_at = 1000, sv_saved_at = 5\<rparr>,
      demo_files\<lparr>sf_tickets := Some ''''\<rparr>)"
proof -
  have "trim ''box'' = ''box''" by code_simp
  then show ?thesis
    by (simp add: save_ticket_at_def demo_stores_def demo_files_def demo_saved_ticket_def load_peers_def load_tickets_def
        new_peers_def new_tickets_def place_ticket_def get_by_label_def get_ticket_def insert_ticket_def save_tickets_def
        demo_tickets_def demo_ticket_entry_def)
qed

theorem save_ticket_safe_witness:
  "\<exists>tickets'. load_tickets (demo_stores [] [demo_tickets] demo_saved_ticket) True ''tickets.json'' (Some '''') = Inr tickets' \<and>
     get_ticket ''box'' tickets' = Some demo_ticket_entry"
  using save_ticket_safe [OF demo_stores_laws demo_save]
  by (auto simp: demo_files_def demo_ticket_entry_def) (auto simp: demo_stores_def demo_saved_ticket_def)

end
