(* ===== verification/Pairing.thy ===== *)
theory Pairing
  imports Peer_Store Frames
begin

text \<open>
  How two installations come to trust each other: invite codes
  (\<^verbatim>\<open>portl-core/src/pair_code.rs\<close>), the invites that are open
  (\<^verbatim>\<open>pair_store.rs\<close>), the agent's side of the pairing protocol
  (\<^verbatim>\<open>portl-agent/src/pair_handler.rs\<close>, \<^verbatim>\<open>portl-proto/src/pair_v1.rs\<close>) and
  the side of the one who accepts (\<^verbatim>\<open>portl-core/src/pair_accept.rs\<close>).
\<close>

section \<open>Invite codes\<close>

definition INVITE_PREFIX :: string where
  "INVITE_PREFIX = ''PORTLINV-''"

definition INVITE_VERSION :: u8 where
  "INVITE_VERSION = 1"

definition MAX_RELAY_HINT_LEN :: nat where
  "MAX_RELAY_HINT_LEN = 255"

datatype InitiatorMode = Mutual | Me | Them

fun to_wire_byte :: "InitiatorMode \<Rightarrow> byte" where
  "to_wire_byte Mutual = 0"
| "to_wire_byte Me = 1"
| "to_wire_byte Them = 2"

definition from_wire_byte :: "byte \<Rightarrow> string + InitiatorMode" where
  "from_wire_byte b =
     (if b = 0 then Inr Mutual
      else if b = 1 then Inr Me
      else if b = 2 then Inr Them
      else Inl (''reserved initiator byte 0x'' @ hex_of [b]))"

record PairRelationship =
  inviter_accepts_from_acceptor :: bool
  acceptor_accepts_from_inviter :: bool

fun mode_relationship :: "InitiatorMode \<Rightarrow> PairRelationship" where
  "mode_relationship Mutual = \<lparr>inviter_accepts_from_acceptor = True, acceptor_accepts_from_inviter = True\<rparr>"
| "mode_relationship Me = \<lparr>inviter_accepts_from_acceptor = False, acceptor_accepts_from_inviter = True\<rparr>"
| "mode_relationship Them = \<lparr>inviter_accepts_from_acceptor = True, acceptor_accepts_from_inviter = False\<rparr>"

definition inviter_peer_flags :: "PairRelationship \<Rightarrow> bool \<times> bool" where
  "inviter_peer_flags r = (inviter_accepts_from_acceptor r, acceptor_accepts_from_inviter r)"

definition acceptor_peer_flags :: "PairRelationship \<Rightarrow> bool \<times> bool" where
  "acceptor_peer_flags r = (acceptor_accepts_from_inviter r, inviter_accepts_from_acceptor r)"

record InviteCode =
  ic_version :: u8
  ic_inviter_eid :: key32
  ic_nonce :: bytes
  ic_not_after_unix :: u64
  ic_initiator :: InitiatorMode
  ic_relay_hint :: "string option"

definition new_invite_code :: "key32 \<Rightarrow> bytes \<Rightarrow> u64 \<Rightarrow> InitiatorMode \<Rightarrow> string option \<Rightarrow> InviteCode" where
  "new_invite_code inviter_eid nonce not_after_unix initiator hint =
     \<lparr>ic_version = INVITE_VERSION, ic_inviter_eid = inviter_eid, ic_nonce = nonce,
      ic_not_after_unix = not_after_unix, ic_initiator = initiator, ic_relay_hint = hint\<rparr>"

text \<open>
  The bytes of a Rust string and back; the base32 library is a pair of functions.
\<close>

definition string_of :: "bytes \<Rightarrow> string" where
  "string_of bs = map (\<lambda>b. char_of (unat b)) bs"

definition encode_invite :: "(bytes \<Rightarrow> string) \<Rightarrow> InviteCode \<Rightarrow> string + string" where
  "encode_invite base32_encode code =
     (let hint = (case ic_relay_hint code of None \<Rightarrow> [] | Some h \<Rightarrow> ascii h)
      in if MAX_RELAY_HINT_LEN < length hint
         then Inl (''relay hint length '' @ decimal (length hint) @ '' exceeds cap '' @ decimal MAX_RELAY_HINT_LEN)
         else Inr (INVITE_PREFIX @ base32_encode
                ([ic_version code] @ ic_inviter_eid code @ ic_nonce code @ le_bytes 8 (unat (ic_not_after_unix code)) @
                 [to_wire_byte (ic_initiator code)] @ [of_nat (length hint)] @ hint)))"

definition decode_invite_bytes :: "bytes \<Rightarrow> string + InviteCode" where
  "decode_invite_bytes bs =
     (if length bs < 1 + 32 + 16 + 8 + 1 + 1 then Inl (''invite code too short ('' @ decimal (length bs) @ '' bytes)'')
      else if bs ! 0 \<noteq> INVITE_VERSION
      then Inl (''unsupported invite version '' @ decimal (unat (bs ! 0)) @ '' (this build speaks '' @
                decimal (unat INVITE_VERSION) @ '')'')
      else res_bind (from_wire_byte (bs ! 57)) (\<lambda>initiator.
        let hint_len = unat (bs ! 58); hint_end = 59 + hint_len
        in if length bs < hint_end
           then Inl (''invite code truncated: want '' @ decimal hint_end @ '' bytes, have '' @ decimal (length bs))
           else res_bind
             (if hint_len = 0 then Inr None
              else if valid_utf8 (take hint_len (drop 59 bs)) then Inr (Some (string_of (take hint_len (drop 59 bs))))
              else Inl ''relay hint is not valid UTF-8'') (\<lambda>hint.
             Inr \<lparr>ic_version = bs ! 0, ic_inviter_eid = take 32 (drop 1 bs), ic_nonce = take 16 (drop 33 bs),
                  ic_not_after_unix = of_nat (le_value (take 8 (drop 49 bs))), ic_initiator = initiator,
                  ic_relay_hint = hint\<rparr>)))"

definition decode_invite :: "(string \<Rightarrow> bytes option) \<Rightarrow> string \<Rightarrow> string + InviteCode" where
  "decode_invite base32_decode s =
     (case strip_prefix INVITE_PREFIX (trim s) of
        None \<Rightarrow> Inl (''invite codes must start with '' @ INVITE_PREFIX)
      | Some body \<Rightarrow>
          res_bind (ok_or ''invite body is not valid base32'' (base32_decode body)) decode_invite_bytes)"

section \<open>Open invites\<close>

record PendingInvite =
  pi_nonce_hex :: string
  pi_issued_at_unix :: u64
  pi_not_after_unix :: u64
  pi_initiator :: InitiatorMode
  pi_for_label_hint :: "string option"

definition invite_expired :: "u64 \<Rightarrow> PendingInvite \<Rightarrow> bool" where
  "invite_expired now_unix invite \<longleftrightarrow> pi_not_after_unix invite \<le> now_unix"

record PairStoreFile =
  pf_schema :: u32
  pf_invites :: "PendingInvite list"

definition empty_invites :: PairStoreFile where
  "empty_invites = \<lparr>pf_schema = 0, pf_invites = []\<rparr>"

record pair_externs =
  px_store :: store_externs
  px_invites_json :: "PairStoreFile \<Rightarrow> string option"
  px_invites_parse :: "string \<Rightarrow> PairStoreFile option"

definition pair_laws :: "pair_externs \<Rightarrow> bool" where
  "pair_laws X \<longleftrightarrow> store_laws (px_store X) \<and>
     (\<forall>s content. px_invites_json X s = Some content \<longrightarrow> px_invites_parse X content = Some s)"

definition load_invites :: "pair_externs \<Rightarrow> bool \<Rightarrow> string \<Rightarrow> string option \<Rightarrow> string + PairStoreFile" where
  "load_invites X read_ok path content =
     (case content of
        None \<Rightarrow> Inr empty_invites
      | Some raw \<Rightarrow>
          if \<not> read_ok then Inl (''read pair store at '' @ path)
          else ok_or (''parse pair store at '' @ path) (px_invites_parse X raw))"

definition find_by_nonce :: "string \<Rightarrow> PairStoreFile \<Rightarrow> PendingInvite option" where
  "find_by_nonce nonce_hex s = find (\<lambda>i. eq_ignore_ascii_case (pi_nonce_hex i) nonce_hex) (pf_invites s)"

definition find_by_nonce_prefix :: "string \<Rightarrow> PairStoreFile \<Rightarrow> string + PendingInvite option" where
  "find_by_nonce_prefix pre s =
     (let wanted = map ascii_lower pre
      in case filter (\<lambda>i. starts_with (map ascii_lower (pi_nonce_hex i)) wanted) (pf_invites s) of
           [] \<Rightarrow> Inr None
         | [i] \<Rightarrow> Inr (Some i)
         | _ \<Rightarrow> Inl (''nonce prefix '' @ [CHR 0x22] @ wanted @ [CHR 0x22] @ '' matches multiple invites; use more characters''))"

definition insert_invite :: "PendingInvite \<Rightarrow> PairStoreFile \<Rightarrow> PairStoreFile" where
  "insert_invite invite s =
     (if list_ex (\<lambda>i. eq_ignore_ascii_case (pi_nonce_hex i) (pi_nonce_hex invite)) (pf_invites s) then s
      else s\<lparr>pf_invites := pf_invites s @ [invite]\<rparr>)"

definition remove_invite :: "string \<Rightarrow> PairStoreFile \<Rightarrow> bool \<times> PairStoreFile" where
  "remove_invite nonce_hex s =
     (let kept = filter (\<lambda>i. \<not> eq_ignore_ascii_case (pi_nonce_hex i) nonce_hex) (pf_invites s)
      in (length (pf_invites s) \<noteq> length kept, s\<lparr>pf_invites := kept\<rparr>))"

definition prune_expired :: "u64 \<Rightarrow> PairStoreFile \<Rightarrow> nat \<times> PairStoreFile" where
  "prune_expired now_unix s =
     (let kept = filter (\<lambda>i. \<not> invite_expired now_unix i) (pf_invites s)
      in (length (pf_invites s) - length kept, s\<lparr>pf_invites := kept\<rparr>))"

definition save_invites :: "pair_externs \<Rightarrow> bool \<Rightarrow> PairStoreFile \<Rightarrow> string + string" where
  "save_invites X write_ok s =
     (case px_invites_json X s of
        None \<Rightarrow> Inl ''serialize pair store''
      | Some serialized \<Rightarrow> if write_ok then Inr serialized else Inl ''write pair store'')"

section \<open>The pairing protocol\<close>

record PairRequest =
  rq_version :: u8
  rq_nonce :: bytes
  rq_initiator :: InitiatorMode
  rq_caller_relay_hint :: "string option"
  rq_caller_label :: "string option"

datatype PairResult =
    PairOk
  | NonceExpired
  | NonceUnknown
  | AlreadyPaired string
  | PolicyRejected string

record PairResponse =
  rs_version :: u8
  rs_result :: PairResult
  rs_responder_relay_hint :: "string option"
  rs_responder_chosen_label :: "string option"
  rs_responder_self_label :: "string option"

text \<open>
  What the handler reads of the agent's state, and the two names the machine may give for itself.
\<close>

record RelayStatus =
  rl_enabled :: bool
  rl_hostname :: "string option"
  rl_https_addr :: "string option"
  rl_http_addr :: "string option"

record PairAgent =
  pa_peers_path :: "string option"
  pa_default_peers_path :: string
  pa_invites_path :: string
  pa_relays :: "string list"
  pa_relay_status :: "RelayStatus option"
  pa_env_hostname :: "string option"
  pa_cmd_hostname :: "string option"

record PairFiles =
  fl_peers :: "string option"
  fl_invites :: "string option"

record PairIo =
  io_read_peers :: bool
  io_read_invites :: bool
  io_write_peers :: bool
  io_write_invites :: bool

definition relay_hint_for_response :: "PairAgent \<Rightarrow> string option" where
  "relay_hint_for_response a =
     (case pa_relays a of
        url # _ \<Rightarrow> Some url
      | [] \<Rightarrow>
          (case pa_relay_status a of
             None \<Rightarrow> None
           | Some st \<Rightarrow>
               if \<not> rl_enabled st then None
               else (case rl_hostname st of
                       Some h \<Rightarrow> Some (''https://'' @ h @ ''/'')
                     | None \<Rightarrow>
                         (case rl_https_addr st of
                            Some x \<Rightarrow> Some (''https://'' @ x @ ''/'')
                          | None \<Rightarrow> map_option (\<lambda>x. ''http://'' @ x @ ''/'') (rl_http_addr st)))))"

definition local_hostname :: "PairAgent \<Rightarrow> string option" where
  "local_hostname a =
     (case pa_env_hostname a of
        Some h \<Rightarrow> if trim h \<noteq> [] then Some h
                  else Option.bind (pa_cmd_hostname a) (\<lambda>c. if trim c \<noteq> [] then Some (trim c) else None)
      | None \<Rightarrow> Option.bind (pa_cmd_hostname a) (\<lambda>c. if trim c \<noteq> [] then Some (trim c) else None))"

definition responder_self_label :: "pair_externs \<Rightarrow> PairAgent \<Rightarrow> PairIo \<Rightarrow> PairFiles \<Rightarrow> string option" where
  "responder_self_label X a io fs =
     Option.bind (pa_peers_path a) (\<lambda>path.
       case load_peers (px_store X) (io_read_peers io) path (fl_peers fs) of
         Inl _ \<Rightarrow> None
       | Inr store \<Rightarrow>
           map_option (\<lambda>e. machine_label (local_hostname a) (pe_endpoint_id_hex e))
             (find is_self (map snd (ps_entries store))))"

definition peer_label_in_use :: "PeerStore \<Rightarrow> string \<Rightarrow> bool" where
  "peer_label_in_use peers label = list_ex (\<lambda>(_, e). pe_label e = label) (ps_entries peers)"

definition rsplit_dash :: "string \<Rightarrow> string option" where
  "rsplit_dash s =
     (if CHR ''-'' \<in> set s then Some (rev (tl (dropWhile (\<lambda>c. c \<noteq> CHR ''-'') (rev s)))) else None)"

definition extend_machine_label_until_unique :: "PeerStore \<Rightarrow> string \<Rightarrow> string \<Rightarrow> string" where
  "extend_machine_label_until_unique peers candidate endpoint_id_hex =
     (case rsplit_dash candidate of
        None \<Rightarrow> candidate @ ''-'' @ endpoint_suffix endpoint_id_hex 6
      | Some base \<Rightarrow>
          (case find (\<lambda>label. \<not> peer_label_in_use peers label)
                  (map (\<lambda>len. base @ ''-'' @ endpoint_suffix endpoint_id_hex len) [6, 8, 12, 16, 64]) of
             Some label \<Rightarrow> label
           | None \<Rightarrow> candidate))"

definition choose_label :: "PeerStore \<Rightarrow> string option \<Rightarrow> string option \<Rightarrow> string \<Rightarrow> string" where
  "choose_label peers caller_label for_label_hint caller_eid_hex =
     (let candidate = machine_label_from_hint
            (case for_label_hint of Some h \<Rightarrow> Some h | None \<Rightarrow> caller_label) caller_eid_hex
      in if \<not> peer_label_in_use peers candidate then candidate
         else extend_machine_label_until_unique peers candidate caller_eid_hex)"

text \<open>
  The handler in the steps in which it touches the two files: it reads the invites, reads the
  peers, writes the peers, writes the invites.  Nothing keeps another request from being handled
  in between.
\<close>

datatype PairPhase =
    PStart
  | PFound PairStoreFile PendingInvite
  | PInsert PairStoreFile PeerStore string
  | PSaved PairStoreFile string
  | PKnown PairStoreFile string
  | PDone "string + PairResponse"

definition respond :: "pair_externs \<Rightarrow> PairAgent \<Rightarrow> PairIo \<Rightarrow> PairFiles \<Rightarrow> PairResult \<Rightarrow> string option \<Rightarrow> PairPhase" where
  "respond X a io fs result chosen =
     PDone (Inr \<lparr>rs_version = 1, rs_result = result, rs_responder_relay_hint = relay_hint_for_response a,
       rs_responder_chosen_label = chosen, rs_responder_self_label = responder_self_label X a io fs\<rparr>)"

definition read_invites_step ::
  "pair_externs \<Rightarrow> PairAgent \<Rightarrow> PairIo \<Rightarrow> u64 \<Rightarrow> PairRequest \<Rightarrow> PairFiles \<Rightarrow> PairPhase" where
  "read_invites_step X a io now request fs =
     (if rq_version request \<noteq> 1
      then PDone (Inr \<lparr>rs_version = 1,
             rs_result = PolicyRejected (''unsupported pair protocol version '' @ decimal (unat (rq_version request))),
             rs_responder_relay_hint = None, rs_responder_chosen_label = None, rs_responder_self_label = None\<rparr>)
      else (case load_invites X (io_read_invites io) (pa_invites_path a) (fl_invites fs) of
              Inl e \<Rightarrow> PDone (Inl (''load pair store at '' @ pa_invites_path a @ '': '' @ e))
            | Inr pair_store \<Rightarrow>
                (case find_by_nonce (sx_hex (px_store X) (rq_nonce request)) pair_store of
                   None \<Rightarrow> respond X a io fs NonceUnknown None
                 | Some invite \<Rightarrow>
                     if invite_expired now invite then respond X a io fs NonceExpired None
                     else if rq_initiator request \<noteq> pi_initiator invite
                     then respond X a io fs (PolicyRejected ''invite initiator mismatch'') None
                     else PFound pair_store invite)))"

definition peers_path :: "PairAgent \<Rightarrow> string" where
  "peers_path a = (case pa_peers_path a of Some p \<Rightarrow> p | None \<Rightarrow> pa_default_peers_path a)"

definition paired_entry :: "string \<Rightarrow> string \<Rightarrow> bool \<times> bool \<Rightarrow> u64 \<Rightarrow> string option \<Rightarrow> PeerEntry" where
  "paired_entry label eid_hex flags now hint =
     \<lparr>pe_label = label, pe_endpoint_id_hex = eid_hex, accepts_from_them = fst flags, they_accept_from_me = snd flags,
      pe_since = now, pe_origin = Paired, last_hold_at = None, is_self = False, relay_hint = hint, schema_version = 2\<rparr>"

definition read_peers_step ::
  "pair_externs \<Rightarrow> PairAgent \<Rightarrow> PairIo \<Rightarrow> u64 \<Rightarrow> key32 \<Rightarrow> PairRequest \<Rightarrow> PairStoreFile \<Rightarrow> PendingInvite \<Rightarrow> PairFiles \<Rightarrow> PairPhase" where
  "read_peers_step X a io now caller_eid request pair_store invite fs =
     (case load_peers (px_store X) (io_read_peers io) (peers_path a) (fl_peers fs) of
        Inl e \<Rightarrow> PDone (Inl (''load peer store at '' @ peers_path a @ '': '' @ e))
      | Inr peers \<Rightarrow>
          (let caller_eid_hex = sx_hex (px_store X) caller_eid
           in case find (\<lambda>e. pe_endpoint_id_hex e = caller_eid_hex) (map snd (ps_entries peers)) of
                Some existing \<Rightarrow> PKnown pair_store (pe_label existing)
              | None \<Rightarrow>
                  (let chosen = choose_label peers (rq_caller_label request) (pi_for_label_hint invite) caller_eid_hex
                   in case insert_or_update (paired_entry chosen caller_eid_hex
                             (inviter_peer_flags (mode_relationship (pi_initiator invite))) now
                             (rq_caller_relay_hint request)) peers of
                        Inl e \<Rightarrow> PDone (Inl (''insert paired peer: '' @ e))
                      | Inr peers' \<Rightarrow> PInsert pair_store peers' chosen)))"

fun pair_step ::
  "pair_externs \<Rightarrow> PairAgent \<Rightarrow> PairIo \<Rightarrow> u64 \<Rightarrow> key32 \<Rightarrow> PairRequest \<Rightarrow> PairPhase \<times> PairFiles \<Rightarrow> PairPhase \<times> PairFiles" where
  "pair_step X a io now caller_eid request (PStart, fs) = (read_invites_step X a io now request fs, fs)"
| "pair_step X a io now caller_eid request (PFound pair_store invite, fs) =
     (read_peers_step X a io now caller_eid request pair_store invite fs, fs)"
| "pair_step X a io now caller_eid request (PInsert pair_store peers chosen, fs) =
     (case save_peers (px_store X) (io_write_peers io) peers of
        Inl e \<Rightarrow> (PDone (Inl (''save peer store: '' @ e)), fs)
      | Inr content \<Rightarrow> (PSaved pair_store chosen, fs\<lparr>fl_peers := Some content\<rparr>))"
| "pair_step X a io now caller_eid request (PSaved pair_store chosen, fs) =
     (case save_invites X (io_write_invites io) (snd (remove_invite (sx_hex (px_store X) (rq_nonce request)) pair_store)) of
        Inl e \<Rightarrow> (PDone (Inl (''save pair store after consume: '' @ e)), fs)
      | Inr content \<Rightarrow>
          (let fs' = fs\<lparr>fl_invites := Some content\<rparr> in (respond X a io fs' PairOk (Some chosen), fs')))"
| "pair_step X a io now caller_eid request (PKnown pair_store label, fs) =
     (let fs' = (case save_invites X (io_write_invites io)
                        (snd (remove_invite (sx_hex (px_store X) (rq_nonce request)) pair_store)) of
                   Inl _ \<Rightarrow> fs
                 | Inr content \<Rightarrow> fs\<lparr>fl_invites := Some content\<rparr>)
      in (respond X a io fs' (AlreadyPaired label) (Some label), fs'))"
| "pair_step X a io now caller_eid request (PDone r, fs) = (PDone r, fs)"

text \<open>
  A request handled without interruption.  Four steps are enough for every way through.
\<close>

definition handle_pair ::
  "pair_externs \<Rightarrow> PairAgent \<Rightarrow> PairIo \<Rightarrow> u64 \<Rightarrow> key32 \<Rightarrow> PairRequest \<Rightarrow> PairFiles \<Rightarrow>
   ((string + PairResponse) \<times> PairFiles) option" where
  "handle_pair X a io now caller_eid request fs =
     (case ((pair_step X a io now caller_eid request) ^^ 4) (PStart, fs) of
        (PDone r, fs') \<Rightarrow> Some (r, fs')
      | _ \<Rightarrow> None)"

text \<open>
  The connection around the handler: one request frame with a cap on its length, the note that a
  handshake came in, and one response frame.  The postcard codec is a pair of functions; the
  stream is what the caller sent.
\<close>

definition MAX_PAIR_REQ_BYTES :: nat where
  "MAX_PAIR_REQ_BYTES = 8 * 1024"

definition read_pair_request_frame :: "(bytes \<Rightarrow> PairRequest option) \<Rightarrow> bytes \<Rightarrow> string + PairRequest" where
  "read_pair_request_frame from_bytes recv =
     (if length recv < 4 then Inl ''read PairRequest length prefix''
      else let req_len = le_value (take 4 recv); rest = drop 4 recv
           in if MAX_PAIR_REQ_BYTES < req_len
              then Inl (''PairRequest size '' @ decimal req_len @ '' exceeds cap '' @ decimal MAX_PAIR_REQ_BYTES)
              else if length rest < req_len then Inl ''read PairRequest body''
              else ok_or ''decode PairRequest'' (from_bytes (take req_len rest)))"

record PairServed =
  pv_reply :: "string + bytes"
  pv_handshake :: bool
  pv_files :: PairFiles

definition pair_serve_connection ::
  "pair_externs \<Rightarrow> (bytes \<Rightarrow> PairRequest option) \<Rightarrow> (PairResponse \<Rightarrow> bytes option) \<Rightarrow> PairAgent \<Rightarrow> key32 \<Rightarrow> key32 option \<Rightarrow>
   PairIo \<Rightarrow> u64 \<Rightarrow> key32 \<Rightarrow> bytes \<Rightarrow> PairFiles \<Rightarrow> PairServed option" where
  "pair_serve_connection X from_bytes to_stdvec a self_eid probe_eid io now caller_eid recv fs =
     (case read_pair_request_frame from_bytes recv of
        Inl e \<Rightarrow> Some \<lparr>pv_reply = Inl (''read PairRequest: '' @ e), pv_handshake = False, pv_files = fs\<rparr>
      | Inr request \<Rightarrow>
          (case handle_pair X a io now caller_eid request fs of
             None \<Rightarrow> None
           | Some (Inl e, fs') \<Rightarrow> Some \<lparr>pv_reply = Inl e, pv_handshake = False, pv_files = fs'\<rparr>
           | Some (Inr response, fs') \<Rightarrow>
               (let handshake = ((case rs_result response of PolicyRejected _ \<Rightarrow> False | _ \<Rightarrow> True) \<and>
                      caller_eid \<noteq> self_eid \<and> Some caller_eid \<noteq> probe_eid)
                in Some \<lparr>pv_reply =
                           (case to_stdvec response of
                              None \<Rightarrow> Inl ''encode PairResponse''
                            | Some bs \<Rightarrow>
                                if length bs < 2 ^ 32 then Inr (le_bytes 4 (length bs) @ bs)
                                else Inl ''pair response length overflow u32''),
                         pv_handshake = handshake, pv_files = fs'\<rparr>)))"

section \<open>Accepting an invite\<close>

record AcceptedPeer =
  ap_label :: string
  ap_endpoint_id_hex :: string
  ap_relationship :: string

definition choose_local_label :: "PeerStore \<Rightarrow> string option \<Rightarrow> string \<Rightarrow> string" where
  "choose_local_label peers responder_self inviter_eid_hex =
     (let candidate = (case responder_self of Some l \<Rightarrow> l | None \<Rightarrow> take 8 inviter_eid_hex)
      in if \<not> peer_label_in_use peers candidate then candidate
         else candidate @ ''-'' @ take 4 inviter_eid_hex)"

definition acceptor_relationship_sentence :: "string option \<Rightarrow> InviteCode \<Rightarrow> string" where
  "acceptor_relationship_sentence responder_self code =
     (let label = (case responder_self of Some l \<Rightarrow> l | None \<Rightarrow> ''peer'')
      in case ic_initiator code of
           Mutual \<Rightarrow> label @ '' and you can reach each other.''
         | Me \<Rightarrow> label @ '' can reach you; you cannot reach '' @ label @ ''.''
         | Them \<Rightarrow> ''you can reach '' @ label @ ''; '' @ label @ '' cannot reach you.'')"

definition save_accepted_peer ::
  "store_externs \<Rightarrow> bool \<Rightarrow> bool \<Rightarrow> string \<Rightarrow> InviteCode \<Rightarrow> string option \<Rightarrow> string option \<Rightarrow> u64 \<Rightarrow> string option \<Rightarrow>
   (string + AcceptedPeer) \<times> string option" where
  "save_accepted_peer X read_ok write_ok path code responder_self hint now content =
     (let inviter_eid_hex = sx_hex X (ic_inviter_eid code);
          attempt =
            res_bind (load_peers X read_ok path content) (\<lambda>peers.
              let label = choose_local_label peers responder_self inviter_eid_hex
              in res_bind (map_err (\<lambda>e. ''insert paired peer locally: '' @ e)
                   (insert_or_update (paired_entry label inviter_eid_hex
                      (acceptor_peer_flags (mode_relationship (ic_initiator code))) now hint) peers)) (\<lambda>peers'.
                 res_bind (map_err (\<lambda>e. ''save peer store: '' @ e) (save_peers X write_ok peers')) (\<lambda>encoded.
                   Inr (\<lparr>ap_label = label, ap_endpoint_id_hex = inviter_eid_hex,
                         ap_relationship = acceptor_relationship_sentence responder_self code\<rparr>, encoded))))
      in case attempt of
           Inl e \<Rightarrow> (Inl e, content)
         | Inr (accepted, encoded) \<Rightarrow> (Inr accepted, Some encoded))"

section \<open>How a request ends\<close>

lemma find_by_nonce_removed: "find_by_nonce n (snd (remove_invite n s)) = None"
  by (simp add: find_by_nonce_def remove_invite_def Let_def find_None_iff)

lemma respond_PDone: "\<exists>resp. respond X a io fs result chosen = PDone (Inr resp) \<and> rs_result resp = result"
  by (simp add: respond_def)

lemma read_invites_step_cases:
  obtains (ended) r where "read_invites_step X a io now request fs = PDone r" "\<forall>resp. r = Inr resp \<longrightarrow> rs_result resp \<noteq> PairOk"
  | (found) ps invite where "read_invites_step X a io now request fs = PFound ps invite" "rq_version request = 1"
      "load_invites X (io_read_invites io) (pa_invites_path a) (fl_invites fs) = Inr ps"
      "find_by_nonce (sx_hex (px_store X) (rq_nonce request)) ps = Some invite"
      "\<not> invite_expired now invite" "rq_initiator request = pi_initiator invite"
proof -
  have "case read_invites_step X a io now request fs of
      PDone r \<Rightarrow> \<forall>resp. r = Inr resp \<longrightarrow> rs_result resp \<noteq> PairOk
    | PFound ps invite \<Rightarrow> rq_version request = 1 \<and>
        load_invites X (io_read_invites io) (pa_invites_path a) (fl_invites fs) = Inr ps \<and>
        find_by_nonce (sx_hex (px_store X) (rq_nonce request)) ps = Some invite \<and>
        \<not> invite_expired now invite \<and> rq_initiator request = pi_initiator invite
    | _ \<Rightarrow> False"
    by (auto simp: read_invites_step_def respond_def split: sum.split option.split)
  then show ?thesis by (cases "read_invites_step X a io now request fs") (auto intro: that)
qed

lemma read_peers_step_cases:
  obtains (ended) e where "read_peers_step X a io now caller request ps invite fs = PDone (Inl e)"
  | (known) label where "read_peers_step X a io now caller request ps invite fs = PKnown ps label"
  | (ready) peers peers' chosen where "read_peers_step X a io now caller request ps invite fs = PInsert ps peers' chosen"
      "load_peers (px_store X) (io_read_peers io) (peers_path a) (fl_peers fs) = Inr peers"
      "\<forall>e\<in>snd ` set (ps_entries peers). pe_endpoint_id_hex e \<noteq> sx_hex (px_store X) caller"
      "insert_or_update (paired_entry chosen (sx_hex (px_store X) caller)
         (inviter_peer_flags (mode_relationship (pi_initiator invite))) now (rq_caller_relay_hint request)) peers = Inr peers'"
proof -
  have "case read_peers_step X a io now caller request ps invite fs of
      PDone r \<Rightarrow> \<exists>e. r = Inl e
    | PKnown ps' label \<Rightarrow> ps' = ps
    | PInsert ps' peers' chosen \<Rightarrow> ps' = ps \<and> (\<exists>peers.
        load_peers (px_store X) (io_read_peers io) (peers_path a) (fl_peers fs) = Inr peers \<and>
        (\<forall>e\<in>snd ` set (ps_entries peers). pe_endpoint_id_hex e \<noteq> sx_hex (px_store X) caller) \<and>
        insert_or_update (paired_entry chosen (sx_hex (px_store X) caller)
          (inviter_peer_flags (mode_relationship (pi_initiator invite))) now (rq_caller_relay_hint request)) peers = Inr peers')
    | _ \<Rightarrow> False"
    by (auto simp: read_peers_step_def Let_def find_None_iff_all split: sum.split option.split)
  then show ?thesis by (cases "read_peers_step X a io now caller request ps invite fs") (auto intro: that)
qed

text \<open>
  The ways through the handler: refused without a change, known already, granted, or granted
  with an error because the used invite could not be written back.
\<close>

lemma handle_pair_cases:
  obtains (refused) r where "handle_pair X a io now caller request fs = Some (r, fs)"
      "\<forall>resp. r = Inr resp \<longrightarrow> rs_result resp \<noteq> PairOk"
  | (known) resp label fs' where "handle_pair X a io now caller request fs = Some (Inr resp, fs')"
      "rs_result resp = AlreadyPaired label" "fl_peers fs' = fl_peers fs"
  | (granted) r fs' ps invite peers peers' chosen content where
      "handle_pair X a io now caller request fs = Some (r, fs')" "rq_version request = 1"
      "load_invites X (io_read_invites io) (pa_invites_path a) (fl_invites fs) = Inr ps"
      "find_by_nonce (sx_hex (px_store X) (rq_nonce request)) ps = Some invite"
      "\<not> invite_expired now invite" "rq_initiator request = pi_initiator invite"
      "load_peers (px_store X) (io_read_peers io) (peers_path a) (fl_peers fs) = Inr peers"
      "\<forall>e\<in>snd ` set (ps_entries peers). pe_endpoint_id_hex e \<noteq> sx_hex (px_store X) caller"
      "insert_or_update (paired_entry chosen (sx_hex (px_store X) caller)
         (inviter_peer_flags (mode_relationship (pi_initiator invite))) now (rq_caller_relay_hint request)) peers = Inr peers'"
      "sx_peers_json (px_store X) peers' = Some content" "fl_peers fs' = Some content"
      "\<forall>resp. r = Inr resp \<longrightarrow> rs_result resp = PairOk \<and> (\<exists>c. fl_invites fs' = Some c \<and>
         px_invites_json X (snd (remove_invite (sx_hex (px_store X) (rq_nonce request)) ps)) = Some c)"
proof (cases rule: read_invites_step_cases [of X a io now request fs])
  case (ended r)
  then show ?thesis by (intro refused [of r]) (simp_all add: handle_pair_def numeral_eq_Suc)
next
  case (found ps invite)
  show ?thesis
  proof (cases rule: read_peers_step_cases [of X a io now caller request ps invite fs])
    case (ended e)
    then show ?thesis by (intro refused [of "Inl e"]) (simp_all add: handle_pair_def numeral_eq_Suc found)
  next
    case (known label)
    define fs' where "fs' = (case save_invites X (io_write_invites io)
        (snd (remove_invite (sx_hex (px_store X) (rq_nonce request)) ps)) of
        Inl _ \<Rightarrow> fs | Inr content \<Rightarrow> fs\<lparr>fl_invites := Some content\<rparr>)"
    obtain resp where resp: "respond X a io fs' (AlreadyPaired label) (Some label) = PDone (Inr resp)"
      "rs_result resp = AlreadyPaired label" using respond_PDone by blast
    have "fl_peers fs' = fl_peers fs" by (simp add: fs'_def split: sum.split)
    moreover have "handle_pair X a io now caller request fs = Some (Inr resp, fs')"
      using known resp(1) by (simp add: handle_pair_def numeral_eq_Suc found Let_def fs'_def [symmetric])
    ultimately show ?thesis using that(2) resp(2) by blast
  next
    case (ready peers peers' chosen)
    show ?thesis
    proof (cases "save_peers (px_store X) (io_write_peers io) peers'")
      case (Inl e)
      then show ?thesis
        by (intro refused [of "Inl (''save peer store: '' @ e)"]) (simp_all add: handle_pair_def numeral_eq_Suc found ready)
    next
      case (Inr content)
      then have "sx_peers_json (px_store X) peers' = Some content"
        by (auto simp: save_peers_def split: option.splits if_splits)
      then show ?thesis
        using granted [OF _ found(2-6) ready(2-4)] Inr
        by (cases "save_invites X (io_write_invites io) (snd (remove_invite (sx_hex (px_store X) (rq_nonce request)) ps))")
           (auto simp: handle_pair_def numeral_eq_Suc found ready respond_def save_invites_def Let_def
             split: option.splits if_splits)
    qed
  qed
qed

lemma reload_peers:
  assumes "store_laws X" and "sx_peers_json X s = Some content" and "ps_schema s = CURRENT_SCHEMA"
  shows "load_peers X True path (Some content) = Inr s"
  using assms by (simp add: load_peers_def store_laws_def)

lemma load_peers_schema: "load_peers X ok path content = Inr s \<Longrightarrow> ps_schema s = CURRENT_SCHEMA"
  by (auto simp: load_peers_def new_peers_def split: option.splits if_splits)

lemma trust_roots_insert:
  assumes "store_laws X" and "peers_inv peers" and "insert_or_update entry peers = Inr peers'"
    and "pe_endpoint_id_hex entry = sx_hex X eid" and "length eid = 32" and "last_hold_at entry = None"
    and "\<forall>e\<in>snd ` set (ps_entries peers). pe_endpoint_id_hex e \<noteq> sx_hex X eid"
  shows "trust_roots X peers' = trust_roots X peers \<union> (if accepts_from_them entry then {eid} else {})"
proof -
  note upd = insert_or_update_ok(2) [OF assms(2,3)]
  have inv': "peers_inv peers'" by (rule insert_or_update_inv [OF assms(2,3)])
  have new: "map_of (ps_entries peers) (sx_hex X eid) = None"
    using assms(7) peers_invD(2) [OF assms(2)] by (metis image_eqI map_of_SomeD option.exhaust snd_conv)
  have un: "sx_unhex X (sx_hex X eid) = Some eid" using assms(1) by (simp add: store_laws_def)
  have mem: "(k, e) \<in> set (ps_entries peers') \<longleftrightarrow> (k, e) \<in> set (ps_entries peers) \<or> k = sx_hex X eid \<and> e = entry" for k e
    using new by (auto simp: entries_map_of [OF inv'] entries_map_of [OF assms(2)] upd assms(4))
  have "x \<in> trust_roots X peers' \<longleftrightarrow> x \<in> trust_roots X peers \<or>
      accepts_from_them entry \<and> last_hold_at entry = None \<and> sx_unhex X (pe_endpoint_id_hex entry) = Some x \<and> length x = 32" for x
    unfolding trust_roots_iff mem by blast
  then show ?thesis using un assms(4,5,6) by (intro set_eqI) auto
qed

section \<open>Properties\<close>

lemma handle_pair_total: "\<exists>r fs'. handle_pair X a io now caller request fs = Some (r, fs')"
  by (cases rule: handle_pair_cases [of X a io now caller request fs]) blast+


text \<open>
  What a granted request amounts to: it named an open invite that had not expired and was made
  for the same direction, its sender was no peer yet, and the peers read back afterwards trust, in
  addition to the old ones, the sender, if the invite lets the acceptor reach the inviter.
\<close>

definition pair_granted ::
  "pair_externs \<Rightarrow> PairAgent \<Rightarrow> PairIo \<Rightarrow> u64 \<Rightarrow> key32 \<Rightarrow> PairRequest \<Rightarrow> PeerStore \<Rightarrow> PairFiles \<Rightarrow> PairFiles \<Rightarrow> bool" where
  "pair_granted X a io now caller request peers fs fs' \<longleftrightarrow>
     (\<exists>ps invite peers'.
        load_invites X (io_read_invites io) (pa_invites_path a) (fl_invites fs) = Inr ps \<and>
        find_by_nonce (sx_hex (px_store X) (rq_nonce request)) ps = Some invite \<and>
        now < pi_not_after_unix invite \<and> rq_initiator request = pi_initiator invite \<and>
        get_by_endpoint (px_store X) caller peers = None \<and>
        load_peers (px_store X) True (peers_path a) (fl_peers fs') = Inr peers' \<and> peers_inv peers' \<and>
        trust_roots (px_store X) peers' =
          trust_roots (px_store X) peers \<union> (if pi_initiator invite \<in> {Mutual, Them} then {caller} else {}))"

lemma inviter_accepts: "fst (inviter_peer_flags (mode_relationship m)) \<longleftrightarrow> m \<in> {Mutual, Them}"
  by (cases m) (simp_all add: inviter_peer_flags_def)

lemma insert_granted:
  assumes "pair_laws X" and "length caller = 32" and "peers_inv peers"
    and "load_peers (px_store X) ok (peers_path a) content0 = Inr peers"
    and "load_invites X (io_read_invites io) (pa_invites_path a) (fl_invites fs) = Inr ps"
    and "find_by_nonce (sx_hex (px_store X) (rq_nonce request)) ps = Some invite"
    and "\<not> invite_expired now invite" and "rq_initiator request = pi_initiator invite"
    and "\<forall>e\<in>snd ` set (ps_entries peers). pe_endpoint_id_hex e \<noteq> sx_hex (px_store X) caller"
    and "insert_or_update (paired_entry chosen (sx_hex (px_store X) caller)
         (inviter_peer_flags (mode_relationship (pi_initiator invite))) now hint) peers = Inr peers'"
    and "sx_peers_json (px_store X) peers' = Some content" and "fl_peers fs' = Some content"
  shows "pair_granted X a io now caller request peers fs fs'"
proof -
  have laws: "store_laws (px_store X)" using assms(1) by (simp add: pair_laws_def)
  have "ps_schema peers' = CURRENT_SCHEMA"
    using insert_or_update_ok(3) [OF assms(3,10)] load_peers_schema [OF assms(4)] by simp
  then have "load_peers (px_store X) True (peers_path a) (fl_peers fs') = Inr peers'"
    using reload_peers [OF laws assms(11)] assms(12) by simp
  moreover have "peers_inv peers'" by (rule insert_or_update_inv [OF assms(3,10)])
  moreover have "trust_roots (px_store X) peers' =
      trust_roots (px_store X) peers \<union> (if pi_initiator invite \<in> {Mutual, Them} then {caller} else {})"
    using trust_roots_insert [OF laws assms(3,10) _ assms(2) _ assms(9)]
    by (simp add: paired_entry_def inviter_accepts)
  moreover have "get_by_endpoint (px_store X) caller peers = None"
    using assms(9) peers_invD(2) [OF assms(3)] unfolding get_by_endpoint_def
    by (metis image_eqI map_of_SomeD option.exhaust snd_conv)
  ultimately show ?thesis
    using assms(5-8) unfolding pair_granted_def invite_expired_def not_le by blast
qed

text \<open>
  C26.  Pairing grants exactly what the invite says.  Either the peers are unchanged, or the
  request was granted: it named an open invite that had not expired and was made for the same
  direction, its sender, whom the connection authenticated, was no peer yet, and the peers read
  back trust the old ones and the sender if the invite lets the acceptor reach the inviter, and
  nobody else.  A positive answer is only given to a request that was granted.
\<close>

theorem pairing_grants_exactly:
  assumes "pair_laws X" and "length caller = 32"
    and "load_peers (px_store X) (io_read_peers io) (peers_path a) (fl_peers fs) = Inr peers" and "peers_inv peers"
    and "handle_pair X a io now caller request fs = Some (r, fs')"
  shows "(fl_peers fs' = fl_peers fs \<or> pair_granted X a io now caller request peers fs fs') \<and>
    (\<forall>resp. r = Inr resp \<and> rs_result resp = PairOk \<longrightarrow> pair_granted X a io now caller request peers fs fs')"
proof (cases rule: handle_pair_cases [of X a io now caller request fs])
  case (granted r' fs'' ps invite p peers' chosen content)
  have "p = peers" "r' = r" "fs'' = fs'" using granted(1,7) assms(3,5) by simp_all
  then have "pair_granted X a io now caller request peers fs fs'"
    using insert_granted [OF assms(1,2,4,3) granted(3-6) _ _ granted(10)] granted(8,9,11) by simp
  then show ?thesis by blast
qed (use assms(5) in auto)


section \<open>Two requests at once\<close>

text \<open>
  Two requests handled by two tasks, with the steps of either in any order.
\<close>

fun race ::
  "pair_externs \<Rightarrow> PairAgent \<Rightarrow> PairIo \<Rightarrow> u64 \<Rightarrow> key32 \<times> PairRequest \<Rightarrow> key32 \<times> PairRequest \<Rightarrow> bool list \<Rightarrow>
   PairPhase \<times> PairPhase \<times> PairFiles \<Rightarrow> PairPhase \<times> PairPhase \<times> PairFiles" where
  "race X a io now one two [] s = s"
| "race X a io now one two (True # sched) (p, q, fs) =
     (case pair_step X a io now (fst one) (snd one) (p, fs) of (p', fs') \<Rightarrow> race X a io now one two sched (p', q, fs'))"
| "race X a io now one two (False # sched) (p, q, fs) =
     (case pair_step X a io now (fst two) (snd two) (q, fs) of (q', fs') \<Rightarrow> race X a io now one two sched (p, q', fs'))"

definition demo_caller :: "byte \<Rightarrow> key32" where
  "demo_caller b = replicate 32 b"

definition demo_peer :: "string \<Rightarrow> byte \<Rightarrow> string \<times> PeerEntry" where
  "demo_peer label b = (hex_of (demo_caller b), paired_entry label (hex_of (demo_caller b)) (True, True) 100 None)"

definition demo_peers1 :: PeerStore where
  "demo_peers1 = new_peers\<lparr>ps_entries := [demo_peer ''host-1111'' 17]\<rparr>"

definition demo_peers2 :: PeerStore where
  "demo_peers2 = new_peers\<lparr>ps_entries := [demo_peer ''host-1111'' 17, demo_peer ''host-2222'' 34]\<rparr>"

definition demo_open :: PairStoreFile where
  "demo_open = \<lparr>pf_schema = 1, pf_invites = [\<lparr>pi_nonce_hex = ''07'', pi_issued_at_unix = 50, pi_not_after_unix = 500,
     pi_initiator = Mutual, pi_for_label_hint = None\<rparr>]\<rparr>"

definition demo_pair :: pair_externs where
  "demo_pair = \<lparr>px_store = demo_stores [demo_peers1, demo_peers2] [] demo_saved_ticket,
     px_invites_json = (\<lambda>s. if s = demo_open then Some ''open''
       else if s = demo_open\<lparr>pf_invites := []\<rparr> then Some ''used'' else None),
     px_invites_parse = (\<lambda>c. if c = ''open'' then Some demo_open
       else if c = ''used'' then Some (demo_open\<lparr>pf_invites := []\<rparr>) else None)\<rparr>"

definition demo_agent :: PairAgent where
  "demo_agent = \<lparr>pa_peers_path = None, pa_default_peers_path = ''peers.json'', pa_invites_path = ''invites.json'',
     pa_relays = [], pa_relay_status = None, pa_env_hostname = None, pa_cmd_hostname = None\<rparr>"

definition demo_io :: PairIo where
  "demo_io = \<lparr>io_read_peers = True, io_read_invites = True, io_write_peers = True, io_write_invites = True\<rparr>"

definition demo_request :: PairRequest where
  "demo_request = \<lparr>rq_version = 1, rq_nonce = [7], rq_initiator = Mutual, rq_caller_relay_hint = None,
     rq_caller_label = None\<rparr>"

definition demo_fs :: PairFiles where
  "demo_fs = \<lparr>fl_peers = None, fl_invites = Some ''open''\<rparr>"

lemma demo_pair_laws: "pair_laws demo_pair"
  by (auto simp: pair_laws_def demo_pair_def demo_stores_laws split: if_splits)

lemma demo_labels:
  "choose_label new_peers None None (hex_of (demo_caller 17)) = ''host-1111''"
  "choose_label demo_peers1 None None (hex_of (demo_caller 34)) = ''host-2222''"
  by code_simp+

lemma demo_pair_hex: "hex_of [7] = ''07''" "hex_of (demo_caller 17) \<noteq> hex_of (demo_caller 34)"
  by code_simp+

lemma demo_store_fields:
  "sx_hex (px_store demo_pair) = hex_of"
  "sx_peers_json (px_store demo_pair) demo_peers1 = Some ''''"
  "sx_peers_json (px_store demo_pair) demo_peers2 = Some ''p''"
  "sx_peers_parse (px_store demo_pair) '''' = Some demo_peers1"
  "sx_peers_parse (px_store demo_pair) ''p'' = Some demo_peers2"
  by (simp_all add: demo_pair_def demo_stores_def demo_peers1_def demo_peers2_def new_peers_def)

lemma demo_read_invites:
  "read_invites_step demo_pair demo_agent demo_io 100 demo_request (demo_fs\<lparr>fl_peers := c\<rparr>) =
     PFound demo_open (hd (pf_invites demo_open))"
proof -
  have "find_by_nonce ''07'' demo_open = Some (hd (pf_invites demo_open))" "\<not> invite_expired 100 (hd (pf_invites demo_open))"
    "rq_initiator demo_request = pi_initiator (hd (pf_invites demo_open))" "rq_version demo_request = 1" "rq_nonce demo_request = [7]"
    by (simp_all add: find_by_nonce_def demo_open_def eq_ignore_ascii_case_def invite_expired_def demo_request_def)
  moreover have "load_invites demo_pair (io_read_invites demo_io) path (fl_invites (demo_fs\<lparr>fl_peers := c\<rparr>)) = Inr demo_open" for path
    by (simp add: load_invites_def demo_fs_def demo_io_def demo_pair_def ok_or_def)
  ultimately show ?thesis
    by (simp add: read_invites_step_def demo_store_fields demo_pair_hex(1) del: hex_of.simps)
qed

lemma demo_peers_loaded:
  "load_peers (px_store demo_pair) True path None = Inr new_peers"
  "load_peers (px_store demo_pair) True path (Some '''') = Inr demo_peers1"
  "load_peers (px_store demo_pair) True path (Some ''p'') = Inr demo_peers2"
  by (simp_all add: load_peers_def demo_store_fields) (simp_all add: demo_peers1_def demo_peers2_def new_peers_def)

lemma demo_read_peers:
  "fl_peers fs = None \<Longrightarrow> read_peers_step demo_pair demo_agent demo_io 100 (demo_caller 17) demo_request demo_open
     (hd (pf_invites demo_open)) fs = PInsert demo_open demo_peers1 ''host-1111''"
  "fl_peers fs = Some [] \<Longrightarrow> read_peers_step demo_pair demo_agent demo_io 100 (demo_caller 34) demo_request demo_open
     (hd (pf_invites demo_open)) fs = PInsert demo_open demo_peers2 ''host-2222''"
proof -
  have io: "io_read_peers demo_io" by (simp add: demo_io_def)
  have inv: "pi_initiator (hd (pf_invites demo_open)) = Mutual" "pi_for_label_hint (hd (pf_invites demo_open)) = None"
    "rq_caller_label demo_request = None" "rq_caller_relay_hint demo_request = None"
    by (simp_all add: demo_open_def demo_request_def)
  show "read_peers_step demo_pair demo_agent demo_io 100 (demo_caller 17) demo_request demo_open
     (hd (pf_invites demo_open)) fs = PInsert demo_open demo_peers1 ''host-1111''" if "fl_peers fs = None"
  proof -
    have "insert_or_update (paired_entry ''host-1111'' (hex_of (demo_caller 17)) (True, True) 100 None) new_peers = Inr demo_peers1"
      "ps_entries new_peers = []"
      by (simp_all add: new_peers_def insert_or_update_def demo_peers1_def demo_peer_def paired_entry_def)
    then show ?thesis using that
      by (simp add: read_peers_step_def io inv demo_peers_loaded demo_store_fields demo_labels inviter_peer_flags_def)
  qed
  have "find (\<lambda>e. pe_endpoint_id_hex e = hex_of (demo_caller 34)) (map snd (ps_entries demo_peers1)) = None"
    using demo_pair_hex(2) by (simp add: demo_peers1_def demo_peer_def paired_entry_def)
  moreover have "insert_or_update (paired_entry ''host-2222'' (hex_of (demo_caller 34)) (True, True) 100 None) demo_peers1 =
      Inr demo_peers2"
    using demo_pair_hex(2)
    by (simp add: insert_or_update_def demo_peers1_def demo_peers2_def demo_peer_def paired_entry_def)
  ultimately show "read_peers_step demo_pair demo_agent demo_io 100 (demo_caller 34) demo_request demo_open
     (hd (pf_invites demo_open)) fs = PInsert demo_open demo_peers2 ''host-2222''"
    if "fl_peers fs = Some ''''" using that
    by (simp add: read_peers_step_def io inv demo_peers_loaded demo_store_fields demo_labels inviter_peer_flags_def)
qed

lemma demo_used: "save_invites demo_pair True (snd (remove_invite ''07'' demo_open)) = Inr ''used''"
  by (simp add: save_invites_def remove_invite_def demo_pair_def demo_open_def eq_ignore_ascii_case_def)

lemma demo_unhex: "sx_unhex (px_store demo_pair) = unhex_of"
  by (simp add: demo_pair_def demo_stores_def)

lemma demo_trust: "trust_roots (px_store demo_pair) demo_peers2 = {demo_caller 17, demo_caller 34}"
proof (rule set_eqI)
  fix x
  have un: "sx_unhex (px_store demo_pair) (hex_of bs) = Some bs" for bs
    using hex_of_laws [of bs] by (simp add: demo_unhex)
  have len: "length (demo_caller b) = 32" for b by (simp add: demo_caller_def)
  have each: "accepts_from_them (snd (demo_peer l b)) \<and> last_hold_at (snd (demo_peer l b)) = None \<and>
      sx_unhex (px_store demo_pair) (pe_endpoint_id_hex (snd (demo_peer l b))) = Some x \<and> length x = 32 \<longleftrightarrow> x = demo_caller b" for l b
    using len by (auto simp: demo_peer_def paired_entry_def un)
  have "set (ps_entries demo_peers2) = {demo_peer ''host-1111'' 17, demo_peer ''host-2222'' 34}"
    by (simp add: demo_peers2_def)
  then have "x \<in> trust_roots (px_store demo_pair) demo_peers2 \<longleftrightarrow>
      (\<exists>p\<in>{demo_peer ''host-1111'' 17, demo_peer ''host-2222'' 34}. accepts_from_them (snd p) \<and> last_hold_at (snd p) = None \<and>
        sx_unhex (px_store demo_pair) (pe_endpoint_id_hex (snd p)) = Some x \<and> length x = 32)"
    unfolding trust_roots_iff by (metis prod.collapse snd_conv)
  then show "x \<in> trust_roots (px_store demo_pair) demo_peers2 \<longleftrightarrow> x \<in> {demo_caller 17, demo_caller 34}"
    by (simp only: each bex_simps) blast
qed

lemma funpow_four: "(f ^^ 4) x = f (f (f (f x)))"
  by (simp add: numeral_eq_Suc)

lemma demo_files_None: "demo_fs = demo_fs\<lparr>fl_peers := None\<rparr>"
  by (simp add: demo_fs_def)

lemma demo_io_fields: "io_write_peers demo_io" "io_write_invites demo_io" "rq_nonce demo_request = [7]"
  by (simp_all add: demo_io_def demo_request_def)

lemmas demo_steps = demo_read_invites demo_read_peers demo_used demo_io_fields demo_store_fields demo_pair_hex(1)
  save_peers_def respond_def

lemma demo_pair_result:
  "\<exists>resp fs'. handle_pair demo_pair demo_agent demo_io 100 (demo_caller 17) demo_request demo_fs = Some (Inr resp, fs') \<and>
     rs_result resp = PairOk \<and> fl_peers fs' = Some ''''"
  by (subst demo_files_None) (simp add: handle_pair_def funpow_four demo_steps Let_def del: hex_of.simps)


theorem pairing_grants_exactly_witness:
  "\<exists>resp fs'. handle_pair demo_pair demo_agent demo_io 100 (demo_caller 17) demo_request demo_fs = Some (Inr resp, fs') \<and>
     rs_result resp = PairOk \<and> pair_granted demo_pair demo_agent demo_io 100 (demo_caller 17) demo_request new_peers demo_fs fs'"
proof -
  obtain resp fs' where r: "handle_pair demo_pair demo_agent demo_io 100 (demo_caller 17) demo_request demo_fs = Some (Inr resp, fs')"
    "rs_result resp = PairOk" using demo_pair_result by blast
  have "load_peers (px_store demo_pair) (io_read_peers demo_io) (peers_path demo_agent) (fl_peers demo_fs) = Inr new_peers"
    by (simp add: demo_io_def demo_fs_def demo_peers_loaded)
  moreover have "length (demo_caller 17) = 32" by (simp add: demo_caller_def)
  ultimately show ?thesis
    using pairing_grants_exactly [OF demo_pair_laws _ _ new_peers_inv r(1)] r by blast
qed



section \<open>Invite codes come back\<close>

text \<open>
  What is relied on of the base32 library: a body is decoded to the bytes it was made from, and is
  made of letters and digits.
\<close>

definition base32_chars :: string where
  "base32_chars = ''ABCDEFGHIJKLMNOPQRSTUVWXYZabcdefghijklmnopqrstuvwxyz0123456789''"

definition base32_laws :: "(bytes \<Rightarrow> string) \<Rightarrow> (string \<Rightarrow> bytes option) \<Rightarrow> bool" where
  "base32_laws enc dec \<longleftrightarrow> (\<forall>bs. dec (enc bs) = Some bs \<and>
     list_all (\<lambda>c. c \<in> set base32_chars) (enc bs))"

definition invite_wf :: "InviteCode \<Rightarrow> bool" where
  "invite_wf code \<longleftrightarrow> ic_version code = INVITE_VERSION \<and> length (ic_inviter_eid code) = 32 \<and> length (ic_nonce code) = 16 \<and>
     (case ic_relay_hint code of
        None \<Rightarrow> True
      | Some h \<Rightarrow> h \<noteq> [] \<and> length h \<le> MAX_RELAY_HINT_LEN \<and> valid_utf8 (ascii h))"

lemma length_ascii [simp]: "length (ascii s) = length s"
  by (simp add: ascii_def)

lemma ascii_Nil_iff [simp]: "ascii s = [] \<longleftrightarrow> s = []"
  by (simp add: ascii_def)

lemma string_of_ascii [simp]: "string_of (ascii s) = s"
  by (induction s) (simp_all add: string_of_def ascii_def unat_of_nat take_bit_nat_eq_self)

lemma from_to_wire_byte [simp]: "from_wire_byte (to_wire_byte m) = Inr m"
  by (cases m) (simp_all add: from_wire_byte_def)

lemma trim_word:
  assumes "s \<noteq> []" and "hd s \<in> set ok" and "last s \<in> set ok"
    and "\<forall>c\<in>set ok. \<forall>w\<in>set white_space. hd w \<noteq> c \<and> last w \<noteq> c"
  shows "trim s = s"
proof -
  have ne: "w \<noteq> []" if "w \<in> set white_space" for w using that by (auto simp: white_space_def)
  have "\<not> starts_with s w" if "w \<in> set white_space" for w
    using ne [OF that] assms(1,2) assms(4) [rule_format, OF assms(2) that] starts_with_hd [of s "hd w" "tl w"] by auto
  moreover have "\<not> starts_with (rev s) (rev w)" if "w \<in> set white_space" for w
    using ne [OF that] assms(1,3) assms(4) [rule_format, OF assms(3) that] starts_with_hd [of "rev s" "last w" "rev (butlast w)"]
    by (cases w rule: rev_cases) (auto simp: hd_rev)
  ultimately show ?thesis by (simp add: trim_def trim_leading_id)
qed


lemma base32_chars_black:
  "\<forall>c\<in>set (CHR ''-'' # base32_chars). \<forall>w\<in>set white_space. hd w \<noteq> c \<and> last w \<noteq> c"
  by (simp add: base32_chars_def white_space_def)

lemma trim_code:
  assumes "list_all (\<lambda>c. c \<in> set base32_chars) body"
  shows "trim (INVITE_PREFIX @ body) = INVITE_PREFIX @ body"
proof (rule trim_word [OF _ _ _ base32_chars_black])
  show "last (INVITE_PREFIX @ body) \<in> set (CHR ''-'' # base32_chars)"
  proof (cases "body = []")
    case False
    then have "last (INVITE_PREFIX @ body) \<in> set body" by simp
    then show ?thesis using assms by (auto simp: list_all_iff)
  qed (simp add: INVITE_PREFIX_def)
qed (simp_all add: INVITE_PREFIX_def base32_chars_def)

lemma decode_built:
  assumes "length eid = 32" and "length nonce = 16" and "length hint \<le> 255" and "hint \<noteq> [] \<Longrightarrow> valid_utf8 hint"
  shows "decode_invite_bytes ([INVITE_VERSION] @ eid @ nonce @ le_bytes 8 (unat t) @ [to_wire_byte m] @ [of_nat (length hint)] @ hint) =
    Inr (new_invite_code eid nonce t m (if hint = [] then None else Some (string_of hint)))"
    (is "decode_invite_bytes ?bs = _")
proof -
  have parts: "?bs ! 0 = INVITE_VERSION" "take 32 (drop 1 ?bs) = eid" "take 16 (drop 33 ?bs) = nonce"
    "take 8 (drop 49 ?bs) = le_bytes 8 (unat t)" "?bs ! 57 = to_wire_byte m" "?bs ! 58 = of_nat (length hint)"
    "drop 59 ?bs = hint" "length ?bs = 59 + length hint"
    using assms(1,2) by (simp_all add: nth_append drop_Cons' nth_Cons')
  have "unat (of_nat (length hint) :: byte) = length hint"
    using assms(3) by (simp add: unat_of_nat take_bit_nat_eq_self)
  moreover have "unat t < 2 ^ 64" using unsigned_less [of t] by simp
  then have "of_nat (le_value (le_bytes 8 (unat t))) = t" by (simp add: le_value_bytes)
  ultimately show ?thesis
    unfolding decode_invite_bytes_def parts Let_def new_invite_code_def using assms(4) by simp
qed


text \<open>
  An invite code comes back as it was written: the text of a code with a 32-byte endpoint, a
  16-byte nonce and a relay hint of at most 255 bytes, pasted with any white space around it, is
  decoded to the same code.
\<close>

lemma invite_roundtrip:
  assumes "base32_laws base32_encode base32_decode" and "invite_wf code"
  shows "\<exists>s. encode_invite base32_encode code = Inr s \<and> (\<forall>pasted. trim pasted = trim s \<longrightarrow> decode_invite base32_decode pasted = Inr code)"
proof -
  define hint where "hint = (case ic_relay_hint code of None \<Rightarrow> [] | Some h \<Rightarrow> ascii h)"
  define bs where "bs = [ic_version code] @ ic_inviter_eid code @ ic_nonce code @ le_bytes 8 (unat (ic_not_after_unix code)) @
    [to_wire_byte (ic_initiator code)] @ [of_nat (length hint)] @ hint"
  have wf: "ic_version code = INVITE_VERSION" "length (ic_inviter_eid code) = 32" "length (ic_nonce code) = 16"
    using assms(2) by (simp_all add: invite_wf_def)
  have hint: "length hint \<le> MAX_RELAY_HINT_LEN" "hint \<noteq> [] \<Longrightarrow> valid_utf8 hint"
    "(if hint = [] then None else Some (string_of hint)) = ic_relay_hint code"
    using assms(2) by (auto simp: invite_wf_def hint_def split: option.splits)
  have "encode_invite base32_encode code = Inr (INVITE_PREFIX @ base32_encode bs)"
    using hint(1) by (simp add: encode_invite_def hint_def [symmetric] bs_def Let_def)
  moreover have "trim (INVITE_PREFIX @ base32_encode bs) = INVITE_PREFIX @ base32_encode bs"
    using assms(1) by (intro trim_code) (simp add: base32_laws_def)
  moreover have "decode_invite_bytes bs = Inr code"
    using decode_built [OF wf(2,3) _ hint(2), of "ic_not_after_unix code" "ic_initiator code"] hint(1) wf(1)
    unfolding bs_def hint(3) by (simp add: new_invite_code_def MAX_RELAY_HINT_LEN_def)
  ultimately show ?thesis
    using assms(1) by (simp add: decode_invite_def strip_prefix_def starts_with_iff base32_laws_def ok_or_def)
qed

definition demo_code :: InviteCode where
  "demo_code = new_invite_code (demo_caller 17) (replicate 16 7) 500 Them (Some ''relay'')"

end
