(* ===== verification/Target_Resolve.thy ===== *)
theory Target_Resolve
  imports Ticket_Verify Peer_Store
begin

text \<open>
  From what the user types to a ticket (\<^verbatim>\<open>portl-core/src/target_resolve.rs\<close>): a ticket
  itself, the label of a peer, the label of a saved ticket, or an endpoint id, in this order.  The
  text form of a ticket and the parser of relay addresses are parameters.  The end of a minted
  ticket is computed in 64 bits as in a release build.
\<close>

datatype TargetSource = InlineTicket | PeerStoreSource | TicketStoreSource | RawEndpointId

record resolve_externs =
  rx_crypto :: externs
  rx_store :: store_externs
  rx_encode_ticket :: "PortlTicket \<Rightarrow> string"
  rx_relay_url :: "string \<Rightarrow> bytes option"

record ResolveTargetOptions =
  ro_identity :: signing_key
  ro_caps :: Capabilities
  ro_now_unix :: u64
  ro_ephemeral_ttl_secs :: u64

record ResolvedTarget =
  rt_ticket :: PortlTicket
  rt_ticket_string :: string
  rt_source :: TargetSource
  rt_expires_at :: u64

definition interactive_shell_caps :: Capabilities where
  "interactive_shell_caps =
     \<lparr>cp_presence = 1,
      cp_shell = Some \<lparr>sh_user_allowlist = None, sh_pty_allowed = True, sh_exec_allowed = True,
        sh_command_allowlist = None, sh_env_policy = Merge None\<rparr>,
      cp_tcp = None, cp_udp = None, cp_fs = None, cp_vpn = None, cp_meta = None, cp_unix = None\<rparr>"

definition resolved_ticket :: "PortlTicket \<Rightarrow> string \<Rightarrow> TargetSource \<Rightarrow> ResolvedTarget" where
  "resolved_ticket ticket ticket_string source =
     \<lparr>rt_ticket = ticket, rt_ticket_string = ticket_string, rt_source = source,
      rt_expires_at = bd_not_after (tk_body ticket)\<rparr>"

definition reject_expired :: "string \<Rightarrow> u64 \<Rightarrow> u64 \<Rightarrow> string + unit" where
  "reject_expired label expires_at now_unix =
     (if expires_at \<le> now_unix
      then Inl (''Portl target '' @ quoted label @ '' expired '' @ decimal (unat (now_unix - expires_at)) @ ''s ago'')
      else Inr ())"

definition ascii_hexdigit :: "char \<Rightarrow> bool" where
  "ascii_hexdigit c \<longleftrightarrow> of_char c \<in> {48..57 :: nat} \<union> {65..70} \<union> {97..102}"

definition endpoint_id_from_hex :: "resolve_externs \<Rightarrow> string \<Rightarrow> string + key32" where
  "endpoint_id_from_hex R value =
     (case sx_unhex (rx_store R) value of
        None \<Rightarrow> Inl ''decode endpoint id''
      | Some bytes \<Rightarrow>
          if length bytes \<noteq> 32 then Inl ''endpoint id is not 32 bytes''
          else if ex_key_valid (rx_crypto R) bytes then Inr bytes
          else Inl ''endpoint id is not a valid iroh id'')"

definition parse_endpoint_id :: "resolve_externs \<Rightarrow> string \<Rightarrow> string + key32 option" where
  "parse_endpoint_id R target =
     (if length target \<noteq> 64 \<or> \<not> list_all ascii_hexdigit target then Inr None
      else res_bind (endpoint_id_from_hex R target) (\<lambda>id. Inr (Some id)))"

definition mint_for ::
  "resolve_externs \<Rightarrow> bytes list \<Rightarrow> ResolveTargetOptions \<Rightarrow> EndpointAddr \<Rightarrow> string \<Rightarrow> (string + PortlTicket) option" where
  "mint_for R draws options addr context =
     map_option (map_err (\<lambda>_. context))
       (mint_root (rx_crypto R) draws (ro_identity options) addr (ro_caps options) (ro_now_unix options)
          (ro_now_unix options + ro_ephemeral_ttl_secs options)
          (Some (ex_verifying_key (rx_crypto R) (ro_identity options))))"

definition mint_peer_ticket ::
  "resolve_externs \<Rightarrow> bytes list \<Rightarrow> PeerEntry \<Rightarrow> ResolveTargetOptions \<Rightarrow> (string + PortlTicket) option" where
  "mint_peer_ticket R draws entry options =
     (case endpoint_id_from_hex R (pe_endpoint_id_hex entry) of
        Inl e \<Rightarrow> Some (Inl (''peer '' @ quoted (pe_label entry) @ '' endpoint_id is invalid''))
      | Inr endpoint_id \<Rightarrow>
          (case relay_hint entry of
             None \<Rightarrow> mint_for R draws options \<lparr>ea_id = endpoint_id, ea_transport = []\<rparr> ''mint peer ticket''
           | Some hint \<Rightarrow>
               (case rx_relay_url R hint of
                  None \<Rightarrow> Some (Inl (''peer '' @ quoted (pe_label entry) @ '' relay hint is invalid''))
                | Some relay_url \<Rightarrow>
                    mint_for R draws options \<lparr>ea_id = endpoint_id, ea_transport = [relay_url]\<rparr> ''mint peer ticket'')))"

definition minted :: "resolve_externs \<Rightarrow> TargetSource \<Rightarrow> (string + PortlTicket) option \<Rightarrow> (string + ResolvedTarget) option" where
  "minted R source = map_option (\<lambda>r. res_bind r (\<lambda>ticket. Inr (resolved_ticket ticket (rx_encode_ticket R ticket) source)))"

definition saved_target :: "resolve_externs \<Rightarrow> ResolveTargetOptions \<Rightarrow> string \<Rightarrow> TicketEntry \<Rightarrow> string + ResolvedTarget" where
  "saved_target R options target entry =
     res_bind (reject_expired target (te_expires_at entry) (ro_now_unix options)) (\<lambda>_.
     res_bind (map_err (\<lambda>err. ''stored ticket '' @ quoted target @ '' is malformed: '' @ err)
                 (sx_decode_ticket (rx_store R) (te_ticket_string entry))) (\<lambda>ticket.
     res_bind (reject_expired target (bd_not_after (tk_body ticket)) (ro_now_unix options)) (\<lambda>_.
       Inr (resolved_ticket ticket (te_ticket_string entry) TicketStoreSource))))"

definition resolve_label ::
  "resolve_externs \<Rightarrow> bytes list \<Rightarrow> ResolveTargetOptions \<Rightarrow> PeerStore \<Rightarrow> TicketStore \<Rightarrow> string \<Rightarrow>
   (string + ResolvedTarget) option" where
  "resolve_label R draws options peers tickets target =
     (let peer_entry = get_by_label target peers;
          rest =
            (case get_ticket target tickets of
               Some entry \<Rightarrow> Some (saved_target R options target entry)
             | None \<Rightarrow>
                 if peer_entry \<noteq> None
                 then Some (Inl (''peer '' @ quoted target @
                        '' is inbound-only; ask the peer to accept an outbound invite or issue a ticket''))
                 else (case parse_endpoint_id R target of
                         Inl e \<Rightarrow> Some (Inl e)
                       | Inr (Some endpoint_id) \<Rightarrow>
                           minted R RawEndpointId
                             (mint_for R draws options \<lparr>ea_id = endpoint_id, ea_transport = []\<rparr> ''mint endpoint ticket'')
                       | Inr None \<Rightarrow>
                           Some (Inl (''unknown Portl target '' @ quoted target @
                             ''; use an accepted peer label, saved ticket label, raw ticket, or endpoint id''))))
      in case peer_entry of
           None \<Rightarrow> rest
         | Some entry \<Rightarrow>
             if last_hold_at entry \<noteq> None
             then Some (Inl (''peer '' @ quoted target @ '' is currently held; resume it before dialing''))
             else if they_accept_from_me entry
             then minted R PeerStoreSource (mint_peer_ticket R draws entry options)
             else rest)"

definition resolve_target ::
  "resolve_externs \<Rightarrow> bytes list \<Rightarrow> ResolveTargetOptions \<Rightarrow> StoreFiles \<Rightarrow> string \<Rightarrow> (string + ResolvedTarget) option" where
  "resolve_target R draws options fs text =
     (let target = trim text
      in if target = [] then Some (Inl ''Portl target is empty'')
         else (case sx_decode_ticket (rx_store R) target of
                 Inr ticket \<Rightarrow>
                   Some (res_bind (reject_expired target (bd_not_after (tk_body ticket)) (ro_now_unix options)) (\<lambda>_.
                     Inr (resolved_ticket ticket target InlineTicket)))
               | Inl _ \<Rightarrow>
                   (case load_peers (rx_store R) (sf_read_ok fs) (sf_peers_path fs) (sf_peers fs) of
                      Inl e \<Rightarrow> Some (Inl (''load peer store: '' @ e))
                    | Inr peers \<Rightarrow>
                        (case load_tickets (rx_store R) (sf_read_ok fs) (sf_tickets_path fs) (sf_tickets fs) of
                           Inl e \<Rightarrow> Some (Inl (''load ticket store: '' @ e))
                         | Inr tickets \<Rightarrow> resolve_label R draws options peers tickets target))))"


section \<open>What a resolved target is\<close>

text \<open>
  A ticket this installation mints for itself: for the endpoint, bound to its own key, with the
  capabilities and the window asked for, and accepted by whoever trusts the key.
\<close>

definition own_ticket :: "resolve_externs \<Rightarrow> ResolveTargetOptions \<Rightarrow> key32 \<Rightarrow> PortlTicket \<Rightarrow> bool" where
  "own_ticket R options endpoint t \<longleftrightarrow>
     (let me = ex_verifying_key (rx_crypto R) (ro_identity options)
      in ea_id (tk_addr t) = endpoint \<and> bd_to (tk_body t) = Some me \<and> bd_bearer (tk_body t) = None \<and>
         bd_not_before (tk_body t) = ro_now_unix options \<and>
         bd_not_after (tk_body t) = ro_now_unix options + ro_ephemeral_ttl_secs options \<and>
         ro_now_unix options < bd_not_after (tk_body t) \<and>
         (\<forall>roots now. me \<in> roots \<and> ro_now_unix options \<le> now \<and> now < bd_not_after (tk_body t) \<longrightarrow>
            verify_chain (rx_crypto R) t [] roots now = Inr (ro_caps options)))"

definition target_reached ::
  "resolve_externs \<Rightarrow> ResolveTargetOptions \<Rightarrow> PeerStore \<Rightarrow> TicketStore \<Rightarrow> string \<Rightarrow> ResolvedTarget \<Rightarrow> bool" where
  "target_reached R options peers tickets target r \<longleftrightarrow>
     (case rt_source r of
        InlineTicket \<Rightarrow> sx_decode_ticket (rx_store R) target = Inr (rt_ticket r) \<and> rt_ticket_string r = target
      | PeerStoreSource \<Rightarrow>
          (\<exists>e endpoint. get_by_label target peers = Some e \<and> last_hold_at e = None \<and> they_accept_from_me e \<and>
             endpoint_id_from_hex R (pe_endpoint_id_hex e) = Inr endpoint \<and> own_ticket R options endpoint (rt_ticket r))
      | TicketStoreSource \<Rightarrow>
          (\<exists>e. get_ticket target tickets = Some e \<and> sx_decode_ticket (rx_store R) (te_ticket_string e) = Inr (rt_ticket r) \<and>
             rt_ticket_string r = te_ticket_string e) \<and>
          (\<forall>e. get_by_label target peers = Some e \<longrightarrow> last_hold_at e = None \<and> \<not> they_accept_from_me e)
      | RawEndpointId \<Rightarrow>
          label_in_use target peers tickets = None \<and>
          (\<exists>endpoint. endpoint_id_from_hex R target = Inr endpoint \<and> own_ticket R options endpoint (rt_ticket r)))"

lemma mint_root_address:
  assumes "mint_root X draws sk addr caps nb na to = Some (Inr t)"
  shows "tk_addr t = addr \<and> bd_to (tk_body t) = to \<and> nb < na"
  using assms by (auto simp: mint_root_def seal_ok canonical_ticket_def canonical_body_def)

lemma mint_root_verified:
  assumes "ed25519_correct X" and "mint_root X draws sk addr caps nb na to = Some (Inr t)"
    and "ex_verifying_key X sk \<in> roots" and "nb \<le> now" and "now < na"
  shows "verify_chain X t [] roots now = Inr caps"
proof -
  have "nb \<le> saturating_add now 60" using assms(4) le_saturating_add by (rule order_trans)
  then show ?thesis
    using mint_root_sound [OF assms(1-3)] assms(5) by (auto simp: verify_chain_ok in_window_def)
qed

lemma mint_for_own:
  assumes "ed25519_correct (rx_crypto R)" and "mint_for R draws options addr context = Some (Inr t)"
  shows "own_ticket R options (ea_id addr) t"
proof -
  let ?me = "ex_verifying_key (rx_crypto R) (ro_identity options)"
  have t: "mint_root (rx_crypto R) draws (ro_identity options) addr (ro_caps options) (ro_now_unix options)
      (ro_now_unix options + ro_ephemeral_ttl_secs options) (Some ?me) = Some (Inr t)"
    using assms(2) by (auto simp: mint_for_def map_err_Inr_iff)
  show ?thesis
    using mint_root_address [OF t] mint_root_sound [OF assms(1) t, of "{?me}"] mint_root_verified [OF assms(1) t]
    by (auto simp: own_ticket_def Let_def)
qed

lemma mint_peer_own:
  assumes "ed25519_correct (rx_crypto R)" and "mint_peer_ticket R draws e options = Some (Inr t)"
  shows "\<exists>endpoint. endpoint_id_from_hex R (pe_endpoint_id_hex e) = Inr endpoint \<and> own_ticket R options endpoint t"
  using assms(2) mint_for_own [OF assms(1)]
  by (auto simp: mint_peer_ticket_def split: sum.splits option.splits) fastforce+

lemma saved_target_ok:
  "saved_target R options target e = Inr r \<Longrightarrow>
     ro_now_unix options < te_expires_at e \<and> sx_decode_ticket (rx_store R) (te_ticket_string e) = Inr (rt_ticket r) \<and>
     ro_now_unix options < bd_not_after (tk_body (rt_ticket r)) \<and>
     r = resolved_ticket (rt_ticket r) (te_ticket_string e) TicketStoreSource"
  by (auto simp: saved_target_def reject_expired_def res_bind_Inr_iff map_err_Inr_iff resolved_ticket_def split: if_splits)

lemma minted_ok:
  "minted R source m = Some (Inr r) \<longleftrightarrow>
     (\<exists>t. m = Some (Inr t) \<and> r = resolved_ticket t (rx_encode_ticket R t) source)"
  by (auto simp: minted_def res_bind_Inr_iff)

lemma resolve_label_reached:
  assumes "ed25519_correct (rx_crypto R)" and "resolve_label R draws options peers tickets target = Some (Inr r)"
  shows "target_reached R options peers tickets target r \<and> ro_now_unix options < rt_expires_at r \<and>
    rt_expires_at r = bd_not_after (tk_body (rt_ticket r)) \<and> rt_source r \<noteq> InlineTicket"
proof -
  note own = mint_for_own [OF assms(1)]
  have live: "own_ticket R options endpoint t \<Longrightarrow> ro_now_unix options < bd_not_after (tk_body t)" for endpoint t
    unfolding own_ticket_def Let_def by blast
  consider (peer) e where "get_by_label target peers = Some e" "last_hold_at e = None" "they_accept_from_me e"
      "minted R PeerStoreSource (mint_peer_ticket R draws e options) = Some (Inr r)"
    | (saved) e where "get_ticket target tickets = Some e" "saved_target R options target e = Inr r"
      "\<forall>e. get_by_label target peers = Some e \<longrightarrow> last_hold_at e = None \<and> \<not> they_accept_from_me e"
    | (raw) endpoint where "get_ticket target tickets = None" "get_by_label target peers = None"
      "parse_endpoint_id R target = Inr (Some endpoint)"
      "minted R RawEndpointId (mint_for R draws options \<lparr>ea_id = endpoint, ea_transport = []\<rparr> ''mint endpoint ticket'') = Some (Inr r)"
    using assms(2) by (auto simp: resolve_label_def Let_def split: option.splits if_splits sum.splits)
  then show ?thesis
  proof cases
    case (peer e)
    then show ?thesis
      using mint_peer_own [OF assms(1)] live
      by (fastforce simp: minted_ok target_reached_def resolved_ticket_def)
  next
    case (saved e)
    then show ?thesis using saved_target_ok [OF saved(2)]
      by (cases r) (auto simp: target_reached_def resolved_ticket_def)
  next
    case (raw endpoint)
    then have "endpoint_id_from_hex R target = Inr endpoint"
      by (auto simp: parse_endpoint_id_def res_bind_Inr_iff split: if_splits)
    then show ?thesis using raw own live
      by (fastforce simp: minted_ok target_reached_def resolved_ticket_def label_in_use_def)
  qed
qed


text \<open>
  A target resolves to the ticket it names.  A ticket that was typed in is used as it is; a
  label reaches the peer of that label if it is not held and accepts connections, and otherwise
  the saved ticket of that label; an endpoint id is only taken as such if no peer and no ticket has
  it as a label.  A minted ticket is for the endpoint that was named, bound to the own key, with
  the capabilities asked for, and is accepted during its whole life by everyone who trusts the
  key.  Nothing that has expired is returned.
\<close>

lemma resolve_target_sound:
  assumes "ed25519_correct (rx_crypto R)" and "resolve_target R draws options fs text = Some (Inr r)"
  shows "ro_now_unix options < rt_expires_at r \<and> rt_expires_at r = bd_not_after (tk_body (rt_ticket r)) \<and>
    (rt_source r = InlineTicket \<and> sx_decode_ticket (rx_store R) (trim text) = Inr (rt_ticket r) \<and> rt_ticket_string r = trim text \<or>
     (\<exists>peers tickets. load_peers (rx_store R) (sf_read_ok fs) (sf_peers_path fs) (sf_peers fs) = Inr peers \<and>
        load_tickets (rx_store R) (sf_read_ok fs) (sf_tickets_path fs) (sf_tickets fs) = Inr tickets \<and>
        rt_source r \<noteq> InlineTicket \<and> target_reached R options peers tickets (trim text) r))"
proof -
  consider (inline) ticket where "sx_decode_ticket (rx_store R) (trim text) = Inr ticket"
      "reject_expired (trim text) (bd_not_after (tk_body ticket)) (ro_now_unix options) = Inr ()"
      "r = resolved_ticket ticket (trim text) InlineTicket"
    | (label) peers tickets where "load_peers (rx_store R) (sf_read_ok fs) (sf_peers_path fs) (sf_peers fs) = Inr peers"
      "load_tickets (rx_store R) (sf_read_ok fs) (sf_tickets_path fs) (sf_tickets fs) = Inr tickets"
      "resolve_label R draws options peers tickets (trim text) = Some (Inr r)"
    using assms(2) by (auto simp: resolve_target_def Let_def res_bind_Inr_iff split: sum.splits if_splits)
  then show ?thesis
  proof cases
    case inline
    then show ?thesis by (auto simp: reject_expired_def resolved_ticket_def split: if_splits)
  next
    case label
    then show ?thesis using resolve_label_reached [OF assms(1) label(3)] by blast
  qed
qed


section \<open>When a peer can be reached\<close>

text \<open>
  What minting relies on: a draw that is not all zero, capabilities in canonical form and a life of
  at most a year that ends before the clock does.
\<close>

definition can_mint :: "resolve_externs \<Rightarrow> bytes list \<Rightarrow> ResolveTargetOptions \<Rightarrow> bool" where
  "can_mint R draws options \<longleftrightarrow> postcard_total (rx_crypto R) \<and> (\<exists>d\<in>set draws. d \<noteq> replicate 8 0) \<and>
     canonical_caps (ro_caps options) \<and> 0 < ro_ephemeral_ttl_secs options \<and>
     unat (ro_ephemeral_ttl_secs options) \<le> 365 * 86400 \<and>
     unat (ro_now_unix options) + unat (ro_ephemeral_ttl_secs options) < 2 ^ 64"

lemma mint_for_total:
  assumes "can_mint R draws options"
  shows "\<exists>t. mint_for R draws options addr context = Some (Inr t)"
proof -
  let ?now = "ro_now_unix options" and ?ttl = "ro_ephemeral_ttl_secs options"
  obtain nonce where nonce: "fresh_nonce draws = Some nonce"
    using assms fresh_nonce_total unfolding can_mint_def by blast
  have sum: "unat (?now + ?ttl) = unat ?now + unat ?ttl"
    using assms by (simp add: can_mint_def unat_word_ariths)
  have "0 < unat ?ttl" using assms by (simp add: can_mint_def word_less_nat_alt)
  then have "?now < ?now + ?ttl" using sum by (simp add: word_less_nat_alt)
  moreover have "unat (?now + ?ttl) - unat ?now \<le> 365 * 86400" using assms sum by (simp add: can_mint_def)
  ultimately have "\<exists>t. mint_root (rx_crypto R) draws (ro_identity options) addr (ro_caps options) ?now (?now + ?ttl)
      (Some (ex_verifying_key (rx_crypto R) (ro_identity options))) = Some (Inr t)"
    using assms fresh_nonce_nonzero [OF nonce] nonce
    by (auto simp: mint_root_def canonical_body_def can_mint_def intro!: seal_total)
  then show ?thesis by (auto simp: mint_for_def)
qed

definition reachable_peer :: "resolve_externs \<Rightarrow> PeerEntry \<Rightarrow> bool" where
  "reachable_peer R e \<longleftrightarrow> last_hold_at e = None \<and> they_accept_from_me e \<and>
     (\<exists>endpoint. endpoint_id_from_hex R (pe_endpoint_id_hex e) = Inr endpoint) \<and>
     (\<forall>hint. relay_hint e = Some hint \<longrightarrow> rx_relay_url R hint \<noteq> None)"

lemma resolve_peer:
  assumes "can_mint R draws options" and "trim text \<noteq> []" and "sx_decode_ticket (rx_store R) (trim text) = Inl err"
    and "load_peers (rx_store R) (sf_read_ok fs) (sf_peers_path fs) (sf_peers fs) = Inr peers"
    and "load_tickets (rx_store R) (sf_read_ok fs) (sf_tickets_path fs) (sf_tickets fs) = Inr tickets"
    and "get_by_label (trim text) peers = Some e" and "reachable_peer R e"
  shows "\<exists>r. resolve_target R draws options fs text = Some (Inr r) \<and> rt_source r = PeerStoreSource"
proof -
  have "\<exists>t. mint_peer_ticket R draws e options = Some (Inr t)"
    using assms(7) mint_for_total [OF assms(1)]
    by (fastforce simp: mint_peer_ticket_def reachable_peer_def split: option.split)
  then obtain t where "mint_peer_ticket R draws e options = Some (Inr t)" by blast
  then show ?thesis
    using assms(2-7) by (auto simp: resolve_target_def resolve_label_def reachable_peer_def minted_def resolved_ticket_def Let_def)
qed

lemma interactive_shell_caps_canonical: "canonical_caps interactive_shell_caps"
proof -
  have "check_presence_bitmap interactive_shell_caps = Inr ()"
    by (simp add: check_presence_bitmap_def interactive_shell_caps_def TCP_LISTEN_CAP_BIT_def)
  then show ?thesis
    by (simp add: canonical_caps_def check_presence_bitmap_ok) (simp add: interactive_shell_caps_def canonical_env_def)
qed


definition demo_resolve :: resolve_externs where
  "demo_resolve = \<lparr>rx_crypto = demo_externs, rx_store = demo_stores [] [demo_tickets] demo_saved_ticket,
     rx_encode_ticket = (\<lambda>_. ''minted''), rx_relay_url = (\<lambda>_. None)\<rparr>"

definition demo_options :: ResolveTargetOptions where
  "demo_options = \<lparr>ro_identity = replicate 32 17, ro_caps = interactive_shell_caps, ro_now_unix = 200,
     ro_ephemeral_ttl_secs = 300\<rparr>"

lemma demo_can_mint: "rx_crypto R = demo_externs \<Longrightarrow> can_mint R [replicate 8 9] demo_options"
  by (simp add: can_mint_def demo_options_def demo_laws interactive_shell_caps_canonical)

lemma demo_resolve_eq:
  "resolve_target demo_resolve [] demo_options (demo_files\<lparr>sf_tickets := Some ''''\<rparr>) ''box'' =
     Some (Inr (resolved_ticket demo_saved_ticket ''ticket'' TicketStoreSource))"
proof -
  have "trim ''box'' = ''box''" by code_simp
  then show ?thesis
    by (simp add: resolve_target_def resolve_label_def demo_resolve_def demo_stores_def demo_options_def demo_files_def
        load_peers_def load_tickets_def new_peers_def get_by_label_def get_ticket_def saved_target_def reject_expired_def
        demo_tickets_def demo_ticket_entry_def)
       (simp add: demo_saved_ticket_def)
qed

end
