(* ===== verification/Stream_Io.thy ===== *)
theory Stream_Io
  imports Prelude
begin

text \<open>
  Reading messages from a QUIC stream (\<^verbatim>\<open>portl-core/src/io.rs\<close>).  The stream is the list of
  the pieces it will deliver, followed by its end or a reset; \<^verbatim>\<open>postcard::take_from_bytes\<close> is a
  function that takes a message off the front, asks for more, or fails.
\<close>

datatype 'a taken = Taken 'a bytes | UnexpectedEnd | Undecodable

record BufferedRecv =
  br_prefix :: bytes
  br_recv :: "bytes list"
  br_reset :: bool

definition READ_CHUNK :: nat where
  "READ_CHUNK = 1024"

definition new_buffered :: "bytes list \<Rightarrow> bool \<Rightarrow> bytes \<Rightarrow> BufferedRecv" where
  "new_buffered recv reset prefix0 = \<lparr>br_prefix = prefix0, br_recv = recv, br_reset = reset\<rparr>"

definition push_front :: "bytes \<Rightarrow> BufferedRecv \<Rightarrow> BufferedRecv" where
  "push_front bytes b = b\<lparr>br_prefix := bytes @ br_prefix b\<rparr>"

text \<open>
  One read of at most \<open>n\<close> bytes, and what the stream still holds afterwards.
\<close>

fun rest_after :: "nat \<Rightarrow> bytes \<Rightarrow> bytes list \<Rightarrow> bytes list" where
  "rest_after n c cs = (if n < length c then drop n c # cs else cs)"

function recv_read_frame :: "(bytes \<Rightarrow> 'a taken) \<Rightarrow> nat \<Rightarrow> BufferedRecv \<Rightarrow> (string + 'a option) \<times> BufferedRecv" where
  "recv_read_frame take_from_bytes max_bytes b =
     (case take_from_bytes (br_prefix b) of
        Taken value rest \<Rightarrow> (Inr (Some value), b\<lparr>br_prefix := rest\<rparr>)
      | UnexpectedEnd \<Rightarrow>
          if length (br_prefix b) \<ge> max_bytes
          then (Inl (''postcard frame exceeds '' @ decimal max_bytes @ '' bytes''), b)
          else (let n = min READ_CHUNK (max_bytes - length (br_prefix b))
                in case br_recv b of
                     c # cs \<Rightarrow>
                       recv_read_frame take_from_bytes max_bytes
                         (b\<lparr>br_prefix := br_prefix b @ take n c, br_recv := rest_after n c cs\<rparr>)
                   | [] \<Rightarrow>
                       if br_reset b then (Inl ''read framed stream'', b)
                       else if br_prefix b = [] then (Inr None, b)
                       else (Inl ''truncated postcard frame'', b))
      | Undecodable \<Rightarrow> (Inl ''decode postcard frame'', b))"
  by pat_completeness auto

termination
  by (relation "measure (\<lambda>(_, _, b). sum_list (map (Suc \<circ> length) (br_recv b)))") (auto simp: READ_CHUNK_def)

declare recv_read_frame.simps [simp del] rest_after.simps [simp del]

definition read_postcard_prefix ::
  "(bytes \<Rightarrow> 'a taken) \<Rightarrow> nat \<Rightarrow> bytes list \<Rightarrow> bool \<Rightarrow> string + 'a \<times> BufferedRecv" where
  "read_postcard_prefix take_from_bytes max_bytes recv reset =
     (case recv_read_frame take_from_bytes max_bytes (new_buffered recv reset []) of
        (Inl e, _) \<Rightarrow> Inl e
      | (Inr None, _) \<Rightarrow> Inl ''missing postcard frame''
      | (Inr (Some frame), buffered) \<Rightarrow> Inr (frame, buffered))"

text \<open>
  Reading raw bytes: what was read ahead comes first.
\<close>

definition poll_read :: "nat \<Rightarrow> BufferedRecv \<Rightarrow> (string + bytes) \<times> BufferedRecv" where
  "poll_read remaining b =
     (if br_prefix b \<noteq> []
      then (Inr (take remaining (br_prefix b)), b\<lparr>br_prefix := drop remaining (br_prefix b)\<rparr>)
      else (case br_recv b of
              c # cs \<Rightarrow> (Inr (take remaining c), b\<lparr>br_recv := rest_after remaining c cs\<rparr>)
            | [] \<Rightarrow> if br_reset b then (Inl ''reset'', b) else (Inr [], b)))"

definition buffered_bytes :: "BufferedRecv \<Rightarrow> bytes" where
  "buffered_bytes b = br_prefix b @ concat (br_recv b)"

section \<open>Facts\<close>

text \<open>
  The behaviour of postcard that is relied on: a message is taken off the front of any bytes that
  start with its encoding, and a proper prefix of an encoding asks for more.
\<close>

definition postcard_laws :: "(bytes \<Rightarrow> 'a taken) \<Rightarrow> ('a \<Rightarrow> bytes) \<Rightarrow> bool" where
  "postcard_laws take_from_bytes encode_msg \<longleftrightarrow>
     (\<forall>v rest. take_from_bytes (encode_msg v @ rest) = Taken v rest) \<and>
     (\<forall>v p q. encode_msg v = p @ q \<and> q \<noteq> [] \<longrightarrow> take_from_bytes p = UnexpectedEnd)"

lemma rest_after_bytes [simp]: "take n c @ concat (rest_after n c cs) = c @ concat cs"
  by (simp add: rest_after.simps)

lemma recv_read_frame_complete:
  assumes "postcard_laws tk enc" and "length (enc v) \<le> max_bytes" and "buffered_bytes b = enc v @ rest"
  shows "\<exists>b'. recv_read_frame tk max_bytes b = (Inr (Some v), b') \<and> buffered_bytes b' = rest \<and> br_reset b' = br_reset b"
  using assms
proof (induction tk max_bytes b rule: recv_read_frame.induct)
  case (1 tk max_bytes b)
  note laws = 1(2) and fits = 1(3) and all = 1(4)
  show ?case
  proof (cases "length (enc v) \<le> length (br_prefix b)")
    case True
    have "take (length (enc v)) (br_prefix b @ concat (br_recv b)) = enc v"
      using all by (simp add: buffered_bytes_def)
    then obtain more where "br_prefix b = enc v @ more"
      using True by (metis append_take_drop_id diff_is_0_eq' take_0 append_Nil2 take_append)
    moreover from this have "more @ concat (br_recv b) = rest" using all by (simp add: buffered_bytes_def)
    ultimately obtain more where more: "br_prefix b = enc v @ more" "more @ concat (br_recv b) = rest" by blast
    then show ?thesis
      using laws by (subst recv_read_frame.simps) (simp add: postcard_laws_def buffered_bytes_def)
  next
    case False
    have "take (length (br_prefix b)) (enc v @ rest) = br_prefix b"
      using all by (simp add: buffered_bytes_def flip: all)
    then obtain q where q1: "enc v = br_prefix b @ q"
      using False by (metis append_take_drop_id diff_is_0_eq' linear take_0 append_Nil2 take_append)
    then have q: "enc v = br_prefix b @ q" "q \<noteq> []" "concat (br_recv b) = q @ rest"
      using all False by (auto simp: buffered_bytes_def)
    then have more: "tk (br_prefix b) = UnexpectedEnd" using laws unfolding postcard_laws_def by blast
    obtain c cs where recv: "br_recv b = c # cs" using q(2,3) by (cases "br_recv b") auto
    define n where "n = min READ_CHUNK (max_bytes - length (br_prefix b))"
    define b' where "b' = b\<lparr>br_prefix := br_prefix b @ take n c, br_recv := rest_after n c cs\<rparr>"
    have "buffered_bytes b' = enc v @ rest"
      using all recv by (simp add: b'_def buffered_bytes_def)
    moreover have short: "\<not> length (br_prefix b) \<ge> max_bytes" using False fits by simp
    ultimately obtain b'' where "recv_read_frame tk max_bytes b' = (Inr (Some v), b'')" "buffered_bytes b'' = rest"
        "br_reset b'' = br_reset b'"
      using 1(1) [OF more short n_def recv] laws fits unfolding b'_def by blast
    moreover have "recv_read_frame tk max_bytes b = recv_read_frame tk max_bytes b'"
      using more short recv by (subst recv_read_frame.simps) (simp add: b'_def n_def Let_def)
    ultimately show ?thesis by (simp add: b'_def)
  qed
qed


text \<open>
  At no time is more read ahead than the limit, and what is not returned is not lost.
\<close>

lemma recv_read_frame_bound:
  "length (br_prefix (snd (recv_read_frame tk max_bytes b))) \<le> max (length (br_prefix b)) max_bytes"
  if "\<forall>bs v rest. tk bs = Taken v rest \<longrightarrow> length rest \<le> length bs"
  using that
proof (induction tk max_bytes b rule: recv_read_frame.induct)
  case (1 tk max_bytes b)
  show ?case
  proof (cases "tk (br_prefix b)")
    case (Taken v rest)
    then show ?thesis using 1(2) by (subst recv_read_frame.simps) (fastforce intro: le_trans)
  next
    case UnexpectedEnd
    show ?thesis
    proof (cases "max_bytes \<le> length (br_prefix b) \<or> br_recv b = []")
      case True
      then show ?thesis using UnexpectedEnd by (subst recv_read_frame.simps) (auto simp: Let_def)
    next
      case False
      then obtain c cs where recv: "br_recv b = c # cs" by (cases "br_recv b") auto
      have short: "\<not> length (br_prefix b) \<ge> max_bytes" using False by simp
      let ?n = "min READ_CHUNK (max_bytes - length (br_prefix b))"
      have "length (br_prefix b @ take ?n c) \<le> max_bytes" using short by simp
      then show ?thesis
        using 1(1) [OF UnexpectedEnd short refl recv 1(2)] UnexpectedEnd short recv
        by (subst recv_read_frame.simps) (simp add: Let_def)
    qed
  next
    case Undecodable
    then show ?thesis by (subst recv_read_frame.simps) simp
  qed
qed

text \<open>
  The ways a stream ends without a message: at a boundary, inside a message, or with a message
  that is too long.
\<close>

lemma recv_read_frame_incomplete:
  assumes "\<forall>p q. buffered_bytes b = p @ q \<and> length p \<le> max_bytes \<longrightarrow> tk p = UnexpectedEnd"
    and "length (br_prefix b) \<le> max_bytes" and "\<not> br_reset b"
  shows "fst (recv_read_frame tk max_bytes b) =
    (if max_bytes \<le> length (buffered_bytes b) then Inl (''postcard frame exceeds '' @ decimal max_bytes @ '' bytes'')
     else if buffered_bytes b = [] then Inr None else Inl ''truncated postcard frame'')"
  using assms
proof (induction tk max_bytes b rule: recv_read_frame.induct)
  case (1 tk max_bytes b)
  have more: "tk (br_prefix b) = UnexpectedEnd"
    using 1(2,3) by (simp add: buffered_bytes_def)
  show ?case
  proof (cases "max_bytes \<le> length (br_prefix b) \<or> br_recv b = []")
    case True
    then show ?thesis using more 1(4) by (subst recv_read_frame.simps) (auto simp: Let_def buffered_bytes_def)
  next
    case False
    then obtain c cs where recv: "br_recv b = c # cs" by (cases "br_recv b") auto
    have short: "\<not> length (br_prefix b) \<ge> max_bytes" using False by simp
    define n where "n = min READ_CHUNK (max_bytes - length (br_prefix b))"
    define b' where "b' = b\<lparr>br_prefix := br_prefix b @ take n c, br_recv := rest_after n c cs\<rparr>"
    have same: "buffered_bytes b' = buffered_bytes b" using recv by (simp add: b'_def buffered_bytes_def)
    have "length (br_prefix b') \<le> max_bytes" "\<not> br_reset b'" using short 1(4) by (simp_all add: b'_def n_def)
    then have "fst (recv_read_frame tk max_bytes b') =
        (if max_bytes \<le> length (buffered_bytes b) then Inl (''postcard frame exceeds '' @ decimal max_bytes @ '' bytes'')
         else if buffered_bytes b = [] then Inr None else Inl ''truncated postcard frame'')"
      using 1(1) [OF more short n_def recv] 1(2) unfolding b'_def [symmetric] same by blast
    moreover have "recv_read_frame tk max_bytes b = recv_read_frame tk max_bytes b'"
      using more short recv by (subst recv_read_frame.simps) (simp add: b'_def n_def Let_def)
    ultimately show ?thesis by simp
  qed
qed

section \<open>Properties\<close>

fun read_frames :: "(bytes \<Rightarrow> 'a taken) \<Rightarrow> nat \<Rightarrow> nat \<Rightarrow> BufferedRecv \<Rightarrow> (string + 'a option) list \<times> BufferedRecv" where
  "read_frames tk max_bytes 0 b = ([], b)"
| "read_frames tk max_bytes (Suc n) b =
     (case recv_read_frame tk max_bytes b of
        (r, b') \<Rightarrow> (case read_frames tk max_bytes n b' of (rs, b'') \<Rightarrow> (r # rs, b'')))"

text \<open>
  The messages of a stream are read back one by one, however the network cuts the stream into
  pieces, and the bytes after them are left for whoever reads the stream next.
\<close>

lemma stream_messages:
  assumes "postcard_laws tk enc" and "\<forall>v\<in>set vs. length (enc v) \<le> max_bytes"
    and "buffered_bytes b = concat (map enc vs) @ rest"
  shows "\<exists>b'. read_frames tk max_bytes (length vs) b = (map (\<lambda>v. Inr (Some v)) vs, b') \<and> buffered_bytes b' = rest"
  using assms(2,3)
proof (induction vs arbitrary: b)
  case (Cons v vs)
  then have "buffered_bytes b = enc v @ (concat (map enc vs) @ rest)" by simp
  then obtain b' where b': "recv_read_frame tk max_bytes b = (Inr (Some v), b')"
      "buffered_bytes b' = concat (map enc vs) @ rest"
    using recv_read_frame_complete [OF assms(1)] Cons.prems(1) by (metis list.set_intros(1))
  then obtain b'' where "read_frames tk max_bytes (length vs) b' = (map (\<lambda>v. Inr (Some v)) vs, b'')"
      "buffered_bytes b'' = rest"
    using Cons.IH Cons.prems(1) by (metis list.set_intros(2))
  with b' show ?case by simp
qed simp

definition demo_take :: "bytes \<Rightarrow> byte taken" where
  "demo_take bs = (case bs of [] \<Rightarrow> UnexpectedEnd | b # rest \<Rightarrow> Taken b rest)"

text \<open>
  A small codec with these laws, for strings with a number of 16 bits: a string is sent as a one
  before each character and a zero at its end.
\<close>

fun enc_str :: "string \<Rightarrow> bytes" where
  "enc_str [] = [0]"
| "enc_str (c # s) = 1 # of_nat (of_char c) # enc_str s"

fun take_str :: "bytes \<Rightarrow> string taken" where
  "take_str [] = UnexpectedEnd"
| "take_str [t] = (if t = 0 then Taken [] [] else UnexpectedEnd)"
| "take_str (t # c # bs) =
     (if t = 0 then Taken [] (c # bs)
      else (case take_str bs of Taken s rest \<Rightarrow> Taken (char_of (unat c) # s) rest | r \<Rightarrow> r))"

definition enc_str16 :: "string \<times> u16 \<Rightarrow> bytes" where
  "enc_str16 v = enc_str (fst v) @ [of_nat (unat (snd v) div 256), of_nat (unat (snd v) mod 256)]"

definition take_str16 :: "bytes \<Rightarrow> (string \<times> u16) taken" where
  "take_str16 bs =
     (case take_str bs of
        Taken s (hi # lo # rest) \<Rightarrow> Taken (s, of_nat (256 * unat hi + unat lo)) rest
      | Taken s _ \<Rightarrow> UnexpectedEnd
      | UnexpectedEnd \<Rightarrow> UnexpectedEnd
      | Undecodable \<Rightarrow> Undecodable)"

lemma take_str_enc [simp]: "take_str (enc_str s @ rest) = Taken s rest"
proof (induction s)
  case Nil
  then show ?case by (cases rest) simp_all
qed (simp add: unat_of_nat take_bit_nat_eq_self)

lemma take_str_short: "enc_str s = p @ q \<Longrightarrow> q \<noteq> [] \<Longrightarrow> take_str p = UnexpectedEnd"
proof (induction s arbitrary: p)
  case Nil
  then show ?case by (cases p) auto
next
  case (Cons c s)
  then show ?case by (cases p rule: take_str.cases) (auto split: if_splits)
qed

lemma u16_halves: "of_nat (256 * unat (of_nat (unat n div 256) :: byte) + unat (of_nat (unat n mod 256) :: byte)) = (n :: u16)"
proof -
  have "unat n < 65536" using unsigned_less [of n] by simp
  then have "unat n div 256 < 256" by simp
  then show ?thesis by (simp add: unat_of_nat take_bit_nat_eq_self)
qed

lemma str16_laws: "postcard_laws take_str16 enc_str16"
proof -
  have "take_str16 p = UnexpectedEnd" if enc: "enc_str16 v = p @ q" and ne: "q \<noteq> []" for v p q
  proof (cases "length p < length (enc_str (fst v))")
    case True
    then obtain q' where "enc_str (fst v) = p @ q'" "q' \<noteq> []"
      using enc unfolding enc_str16_def by (auto simp: append_eq_append_conv2)
    then show ?thesis using take_str_short by (simp add: take_str16_def)
  next
    case False
    then obtain r where "p = enc_str (fst v) @ r"
      using enc unfolding enc_str16_def by (auto simp: append_eq_append_conv2)
    moreover from this have "length r < 2" using enc ne unfolding enc_str16_def
      by (cases q) (auto simp: Cons_eq_append_conv)
    ultimately show ?thesis by (cases r; cases "tl r") (auto simp: take_str16_def take_str_enc [of _ "[]", simplified])
  qed
  moreover have "take_str16 (enc_str16 v @ rest) = Taken v rest" for v rest
    using u16_halves [of "snd v"] by (cases v) (simp add: take_str16_def enc_str16_def)
  ultimately show ?thesis unfolding postcard_laws_def by blast
qed

end
