(* ===== verification/Tcp_Handler.thy ===== *)
theory Tcp_Handler
  imports Stream_Io Caps_Enforce
begin

text \<open>
  TCP forwarding on the agent (\<^verbatim>\<open>portl-agent/src/tcp_handler.rs\<close>): the request on a stream,
  the decision, the socket, and the copying between socket and stream.  What the operating system
  answers to connect and bind is given by a record of functions, the message decoder as in the
  previous theory.  \<open>None\<close> for the message of an acknowledgement stands for a plain yes.
\<close>

section \<open>Copying in both directions\<close>

text \<open>
  A pair of connected byte streams as the copier sees it: what is still to come from the QUIC
  stream and from the socket, what has been read and not yet written, and what was written.
\<close>

record Copying =
  cy_recv :: BufferedRecv
  cy_up :: bytes
  cy_sock_out :: bytes
  cy_sock_shut :: bool
  cy_sock_in :: bytes
  cy_down :: bytes
  cy_send :: bytes
  cy_send_fin :: bool

definition start_copy :: "BufferedRecv \<Rightarrow> bytes \<Rightarrow> Copying" where
  "start_copy recv sock_in =
     \<lparr>cy_recv = recv, cy_up = [], cy_sock_out = [], cy_sock_shut = False, cy_sock_in = sock_in, cy_down = [],
      cy_send = [], cy_send_fin = False\<rparr>"

inductive copy_step :: "Copying \<Rightarrow> Copying \<Rightarrow> bool" where
  up_read: "\<not> cy_sock_shut s \<Longrightarrow> cy_up s = [] \<Longrightarrow> poll_read n (cy_recv s) = (Inr bs, recv') \<Longrightarrow> bs \<noteq> [] \<Longrightarrow>
    copy_step s (s\<lparr>cy_up := bs, cy_recv := recv'\<rparr>)"
| up_write: "0 < n \<Longrightarrow> cy_up s \<noteq> [] \<Longrightarrow>
    copy_step s (s\<lparr>cy_sock_out := cy_sock_out s @ take n (cy_up s), cy_up := drop n (cy_up s)\<rparr>)"
| up_end: "\<not> cy_sock_shut s \<Longrightarrow> cy_up s = [] \<Longrightarrow> buffered_bytes (cy_recv s) = [] \<Longrightarrow> \<not> br_reset (cy_recv s) \<Longrightarrow>
    copy_step s (s\<lparr>cy_sock_shut := True\<rparr>)"
| down_read: "\<not> cy_send_fin s \<Longrightarrow> cy_down s = [] \<Longrightarrow> 0 < n \<Longrightarrow> cy_sock_in s \<noteq> [] \<Longrightarrow>
    copy_step s (s\<lparr>cy_down := take n (cy_sock_in s), cy_sock_in := drop n (cy_sock_in s)\<rparr>)"
| down_write: "0 < n \<Longrightarrow> cy_down s \<noteq> [] \<Longrightarrow>
    copy_step s (s\<lparr>cy_send := cy_send s @ take n (cy_down s), cy_down := drop n (cy_down s)\<rparr>)"
| down_end: "\<not> cy_send_fin s \<Longrightarrow> cy_down s = [] \<Longrightarrow> cy_sock_in s = [] \<Longrightarrow> copy_step s (s\<lparr>cy_send_fin := True\<rparr>)"

section \<open>Requests\<close>

record TcpReqBody =
  tb_host :: string
  tb_port :: u16

record TcpAck =
  ta_ok :: bool
  ta_error :: "string option"

record TcpListenAck =
  tl_ok :: bool
  tl_error :: "string option"
  tl_bound_port :: "u16 option"

definition MAX_TCP_REQ_BYTES :: nat where
  "MAX_TCP_REQ_BYTES = 64 * 1024"

record tcp_externs =
  tx_take_v1 :: "bytes \<Rightarrow> TcpReqBody taken"
  tx_take_v2 :: "bytes \<Rightarrow> TcpOp taken"
  tx_take_ack :: "bytes \<Rightarrow> TcpAck taken"
  tx_connect :: "string \<Rightarrow> u16 \<Rightarrow> string + unit"
  tx_bind :: "string \<Rightarrow> u16 \<Rightarrow> string + u16"

text \<open>
  What serving a stream comes to: an error, a refusal that ends the stream, a connected socket, or
  a listening one.
\<close>

datatype TcpServed =
    TcpBail string
  | TcpRefused TcpAck
  | TcpListenRefused TcpListenAck
  | TcpForwarding string u16 BufferedRecv TcpAck
  | TcpListening string u16 u16 BufferedRecv TcpListenAck

definition tcp_serve_connect ::
  "tcp_externs \<Rightarrow> Session \<Rightarrow> BufferedRecv \<Rightarrow> StreamPreamble \<Rightarrow> string \<Rightarrow> u16 \<Rightarrow> TcpServed" where
  "tcp_serve_connect X session recv preamble host port =
     (case tcp_permits (ss_caps session) \<lparr>tr_preamble = preamble, tr_host = host, tr_port = port\<rparr> of
        Inl error \<Rightarrow> TcpRefused \<lparr>ta_ok = False, ta_error = Some error\<rparr>
      | Inr _ \<Rightarrow>
          (case tx_connect X host port of
             Inl err \<Rightarrow> TcpRefused \<lparr>ta_ok = False, ta_error = Some err\<rparr>
           | Inr _ \<Rightarrow> TcpForwarding host port recv \<lparr>ta_ok = True, ta_error = None\<rparr>))"

definition tcp_serve_listen :: "tcp_externs \<Rightarrow> Session \<Rightarrow> BufferedRecv \<Rightarrow> string \<Rightarrow> u16 \<Rightarrow> TcpServed" where
  "tcp_serve_listen X session recv bind_host bind_port =
     (case tcp_listen_permits (ss_caps session) bind_host bind_port of
        Inl error \<Rightarrow> TcpListenRefused \<lparr>tl_ok = False, tl_error = Some error, tl_bound_port = None\<rparr>
      | Inr _ \<Rightarrow>
          (case tx_bind X bind_host bind_port of
             Inl err \<Rightarrow> TcpListenRefused \<lparr>tl_ok = False, tl_error = Some err, tl_bound_port = None\<rparr>
           | Inr bound_port \<Rightarrow>
               TcpListening bind_host bind_port bound_port recv
                 \<lparr>tl_ok = True, tl_error = None, tl_bound_port = Some bound_port\<rparr>))"

definition serve_v1_connect :: "tcp_externs \<Rightarrow> Session \<Rightarrow> BufferedRecv \<Rightarrow> StreamPreamble \<Rightarrow> TcpServed" where
  "serve_v1_connect X session recv preamble =
     (case recv_read_frame (tx_take_v1 X) MAX_TCP_REQ_BYTES recv of
        (Inl e, _) \<Rightarrow> TcpBail e
      | (Inr None, _) \<Rightarrow> TcpBail ''missing tcp request''
      | (Inr (Some body), recv') \<Rightarrow> tcp_serve_connect X session recv' preamble (tb_host body) (tb_port body))"

definition serve_v2 :: "tcp_externs \<Rightarrow> Session \<Rightarrow> BufferedRecv \<Rightarrow> StreamPreamble \<Rightarrow> TcpServed" where
  "serve_v2 X session recv preamble =
     (case recv_read_frame (tx_take_v2 X) MAX_TCP_REQ_BYTES recv of
        (Inl e, _) \<Rightarrow> TcpBail e
      | (Inr None, _) \<Rightarrow> TcpBail ''missing tcp v2 request''
      | (Inr (Some op), recv') \<Rightarrow>
          (case op of
             TcpConnect host port \<Rightarrow> tcp_serve_connect X session recv' preamble host port
           | TcpListen bind_host bind_port \<Rightarrow> tcp_serve_listen X session recv' bind_host bind_port
           | TcpAccepted _ _ _ _ \<Rightarrow>
               TcpRefused \<lparr>ta_ok = False, ta_error = Some ''client may not send tcp accepted requests''\<rparr>))"

definition tcp_serve_stream :: "tcp_externs \<Rightarrow> Session \<Rightarrow> BufferedRecv \<Rightarrow> StreamPreamble \<Rightarrow> TcpServed" where
  "tcp_serve_stream X session recv preamble =
     (if sp_peer_token preamble \<noteq> ss_peer_token session then TcpBail ''invalid tcp preamble''
      else if sp_alpn preamble = ALPN_TCP_V1 then serve_v1_connect X session recv preamble
      else if sp_alpn preamble = ALPN_TCP_V2 then serve_v2 X session recv preamble
      else TcpBail ''invalid tcp preamble'')"

section \<open>Reverse forwarding\<close>

text \<open>
  The loop of a listening stream: connections are accepted until the client closes the stream, and
  each becomes a stream of its own, opened with a request the client has to acknowledge.
\<close>

record Listening =
  ls_host :: string
  ls_port :: u16
  ls_open :: bool
  ls_requests :: "TcpReqV2 list"

datatype ListenEvent = Incoming string u16 | AcceptFailed | ControlData | ControlClosed

definition reverse_request :: "Session \<Rightarrow> string \<Rightarrow> u16 \<Rightarrow> string \<Rightarrow> u16 \<Rightarrow> TcpReqV2" where
  "reverse_request session bind_host bind_port originator_host originator_port =
     \<lparr>t2_preamble = \<lparr>sp_peer_token = ss_peer_token session, sp_alpn = ALPN_TCP_V2\<rparr>,
      t2_op = TcpAccepted bind_host bind_port originator_host originator_port\<rparr>"

definition listen_step :: "Session \<Rightarrow> ListenEvent \<Rightarrow> Listening \<Rightarrow> Listening" where
  "listen_step session ev l =
     (if \<not> ls_open l then l
      else case ev of
        Incoming host port \<Rightarrow>
          l\<lparr>ls_requests := ls_requests l @ [reverse_request session (ls_host l) (ls_port l) host port]\<rparr>
      | AcceptFailed \<Rightarrow> l\<lparr>ls_open := False\<rparr>
      | ControlData \<Rightarrow> l
      | ControlClosed \<Rightarrow> l\<lparr>ls_open := False\<rparr>)"

definition forward_accepted :: "tcp_externs \<Rightarrow> BufferedRecv \<Rightarrow> bytes \<Rightarrow> string + Copying" where
  "forward_accepted X recv sock_in =
     (case recv_read_frame (tx_take_ack X) MAX_TCP_REQ_BYTES recv of
        (Inl e, _) \<Rightarrow> Inl e
      | (Inr None, _) \<Rightarrow> Inl ''missing reverse tcp ack''
      | (Inr (Some ack), recv') \<Rightarrow>
          if \<not> ta_ok ack
          then Inl (''reverse tcp request rejected: '' @ (case ta_error ack of Some e \<Rightarrow> e | None \<Rightarrow> ''unknown error''))
          else Inr (start_copy recv' sock_in))"


section \<open>What the copier delivers\<close>

lemma poll_read_bytes:
  assumes "poll_read n b = (Inr bs, b')"
  shows "bs @ buffered_bytes b' = buffered_bytes b \<and> br_reset b' = br_reset b"
  using assms by (auto simp: poll_read_def buffered_bytes_def split: if_splits list.splits)

definition copy_inv :: "bytes \<Rightarrow> bytes \<Rightarrow> Copying \<Rightarrow> bool" where
  "copy_inv up down s \<longleftrightarrow>
     cy_sock_out s @ cy_up s @ buffered_bytes (cy_recv s) = up \<and> cy_send s @ cy_down s @ cy_sock_in s = down \<and>
     (cy_sock_shut s \<longrightarrow> cy_sock_out s = up) \<and> (cy_send_fin s \<longrightarrow> cy_send s = down)"

lemma start_copy_inv: "copy_inv (buffered_bytes recv) down (start_copy recv down)"
  by (simp add: copy_inv_def start_copy_def)

lemma take_drop_append: "take n xs @ drop n xs @ ys = xs @ ys"
  by (metis append.assoc append_take_drop_id)

lemma copy_step_inv: "copy_step s s' \<Longrightarrow> copy_inv up down s \<Longrightarrow> copy_inv up down s'"
  by (induction rule: copy_step.induct)
     (auto simp: copy_inv_def take_drop_append dest!: poll_read_bytes)

definition copy_done :: "Copying \<Rightarrow> bool" where
  "copy_done s \<longleftrightarrow> cy_sock_shut s \<and> cy_send_fin s"

text \<open>
  The work that is left: a byte counts twice until it is read and once until it is written, and
  each direction has its end to signal.
\<close>

definition copy_work :: "Copying \<Rightarrow> nat" where
  "copy_work s = 2 * length (buffered_bytes (cy_recv s)) + length (cy_up s) + of_bool (\<not> cy_sock_shut s) +
     2 * length (cy_sock_in s) + length (cy_down s) + of_bool (\<not> cy_send_fin s)"

lemma copy_step_work: "copy_step s s' \<Longrightarrow> copy_work s' < copy_work s"
proof (induction rule: copy_step.induct)
  case (up_read s n bs recv')
  have "bs @ buffered_bytes recv' = buffered_bytes (cy_recv s)" using poll_read_bytes [OF up_read(3)] by blast
  then have "length (buffered_bytes (cy_recv s)) = length bs + length (buffered_bytes recv')" by (metis length_append)
  then show ?case using up_read(2,4) by (simp add: copy_work_def)
next
  case (up_write n s)
  then show ?case by (cases "cy_up s") (auto simp: copy_work_def)
next
  case (down_read s n)
  then show ?case by (cases "cy_sock_in s") (auto simp: copy_work_def)
next
  case (down_write n s)
  then show ?case by (cases "cy_down s") (auto simp: copy_work_def)
qed (simp_all add: copy_work_def)

definition copy_ready :: "Copying \<Rightarrow> bool" where
  "copy_ready s \<longleftrightarrow> \<not> br_reset (cy_recv s) \<and> [] \<notin> set (br_recv (cy_recv s)) \<and>
     (cy_sock_shut s \<longrightarrow> cy_up s = []) \<and> (cy_send_fin s \<longrightarrow> cy_down s = [])"

lemma poll_read_ready:
  assumes "[] \<notin> set (br_recv b)" and "buffered_bytes b \<noteq> []"
  shows "\<exists>bs b'. poll_read 1 b = (Inr bs, b') \<and> bs \<noteq> []"
  using assms by (auto simp: poll_read_def buffered_bytes_def split: list.split)

lemma copy_progress:
  assumes "copy_ready s" and "\<not> copy_done s"
  shows "\<exists>s'. copy_step s s'"
proof -
  consider "cy_up s \<noteq> []" | "cy_down s \<noteq> []"
    | "cy_up s = []" "\<not> cy_sock_shut s" "buffered_bytes (cy_recv s) = []"
    | "cy_up s = []" "\<not> cy_sock_shut s" "buffered_bytes (cy_recv s) \<noteq> []"
    | "cy_down s = []" "\<not> cy_send_fin s" "cy_sock_in s = []"
    | "cy_down s = []" "\<not> cy_send_fin s" "cy_sock_in s \<noteq> []"
    using assms(2) unfolding copy_done_def by blast
  then show ?thesis
  proof cases
    case 1
    then show ?thesis using up_write [OF zero_less_one] by blast
  next
    case 2
    then show ?thesis using down_write [OF zero_less_one] by blast
  next
    case 3
    then show ?thesis using up_end assms(1) unfolding copy_ready_def by blast
  next
    case 4
    then obtain bs b' where "poll_read 1 (cy_recv s) = (Inr bs, b')" "bs \<noteq> []"
      using poll_read_ready assms(1) unfolding copy_ready_def by blast
    from up_read [OF 4(2,1) this] show ?thesis by blast
  next
    case 5
    then show ?thesis using down_end by blast
  next
    case 6
    then show ?thesis using down_read [OF _ _ zero_less_one] by blast
  qed
qed


lemma copy_step_ready:
  assumes "copy_step s s'" and "copy_ready s"
  shows "copy_ready s'"
  using assms
proof (induction rule: copy_step.induct)
  case (up_read s n bs recv')
  have "[] \<notin> set (br_recv recv')"
    using up_read(3,5) by (auto simp: copy_ready_def poll_read_def rest_after.simps split: if_splits list.splits)
  then show ?case using up_read poll_read_bytes [OF up_read(3)] by (simp add: copy_ready_def)
qed (auto simp: copy_ready_def)

lemma copy_finishes: "copy_ready s \<Longrightarrow> \<exists>s'. copy_step\<^sup>*\<^sup>* s s' \<and> copy_done s'"
proof (induction "copy_work s" arbitrary: s rule: less_induct)
  case less
  show ?case
  proof (cases "copy_done s")
    case False
    then obtain s1 where step: "copy_step s s1" using copy_progress less.prems by blast
    then obtain s2 where "copy_step\<^sup>*\<^sup>* s1 s2" "copy_done s2"
      using less.hyps copy_step_work copy_step_ready less.prems by blast
    then show ?thesis using step by (meson converse_rtranclp_into_rtranclp)
  qed blast
qed

lemma copy_run_ready: "copy_step\<^sup>*\<^sup>* s s' \<Longrightarrow> copy_ready s \<Longrightarrow> copy_ready s'"
  by (induction rule: rtranclp_induct) (auto intro: copy_step_ready)

lemma copy_run_inv: "copy_step\<^sup>*\<^sup>* s s' \<Longrightarrow> copy_inv up down s \<Longrightarrow> copy_inv up down s'"
  by (induction rule: rtranclp_induct) (auto intro: copy_step_inv)

section \<open>Properties\<close>




definition demo_tcp :: tcp_externs where
  "demo_tcp = \<lparr>tx_take_v1 = (\<lambda>bs. case take_str16 bs of
       Taken v rest \<Rightarrow> Taken \<lparr>tb_host = fst v, tb_port = snd v\<rparr> rest
     | UnexpectedEnd \<Rightarrow> UnexpectedEnd | Undecodable \<Rightarrow> Undecodable),
     tx_take_v2 = (\<lambda>_. Undecodable), tx_take_ack = (\<lambda>_. Undecodable),
     tx_connect = (\<lambda>_ _. Inr ()), tx_bind = (\<lambda>_ p. Inr p)\<rparr>"

definition demo_enc :: "TcpReqBody \<Rightarrow> bytes" where
  "demo_enc body = enc_str16 (tb_host body, tb_port body)"

lemma demo_tcp_laws: "postcard_laws (tx_take_v1 demo_tcp) demo_enc"
  using str16_laws by (auto simp: postcard_laws_def demo_tcp_def demo_enc_def)

definition demo_tcp_session :: Session where
  "demo_tcp_session = \<lparr>ss_peer_token = [1], ss_caps = \<lparr>cp_presence = 2, cp_shell = None,
       cp_tcp = Some [\<lparr>pr_host_glob = ''*'', pr_port_min = 1, pr_port_max = 9\<rparr>], cp_udp = None, cp_fs = None,
       cp_vpn = None, cp_meta = None, cp_unix = None\<rparr>,
     ss_ticket_id = [], ss_ticket_chain_ids = [], ss_caller_endpoint_id = [], ss_ticket_issuer_id = [],
     ss_ticket_holder_id = None, ss_bearer = None\<rparr>"

definition demo_tcp_preamble :: StreamPreamble where
  "demo_tcp_preamble = \<lparr>sp_peer_token = [1], sp_alpn = ALPN_TCP_V1\<rparr>"

lemma demo_tcp_permits:
  "tcp_permits (ss_caps demo_tcp_session) \<lparr>tr_preamble = demo_tcp_preamble, tr_host = ''db'', tr_port = 5\<rparr> = Inr ()"
  by (simp add: demo_tcp_session_def tcp_permits_def host_matches_def word_le_nat_alt)

lemma demo_tcp_matches:
  "sp_peer_token demo_tcp_preamble = ss_peer_token demo_tcp_session" "sp_alpn demo_tcp_preamble = ALPN_TCP_V1"
  "tx_connect demo_tcp h p = Inr ()"
  by (simp_all add: demo_tcp_preamble_def demo_tcp_session_def demo_tcp_def)



end
