(* ===== verification/Unix_Handler.thy ===== *)
theory Unix_Handler
  imports Tcp_Handler "HOL-Library.AList"
begin

text \<open>
  Forwarding of Unix sockets on the agent (\<^verbatim>\<open>portl-agent/src/unix_handler.rs\<close>).  The file
  system is an association list from paths to what is there, a path being the list of its
  components, which is how the standard library compares paths.  A link is not followed.  Whether
  the operating system lets an operation through is given by a record of functions; what a
  successful operation does is modelled.
\<close>

section \<open>Files\<close>

datatype Node = Dir u32 | Sock bool | Plain | Link

type_synonym upath = "component list"
type_synonym ufiles = "(upath \<times> Node) list"

record unix_os =
  uo_stat :: "upath \<Rightarrow> bool"
  uo_mkdir :: "upath \<Rightarrow> bool"
  uo_chmod :: "upath \<Rightarrow> bool"
  uo_unlink :: "upath \<Rightarrow> bool"
  uo_rmdir :: "upath \<Rightarrow> bool"
  uo_bind :: "upath \<Rightarrow> string option"
  uo_connect :: "upath \<Rightarrow> string option"

definition path_parent :: "upath \<Rightarrow> upath option" where
  "path_parent p = (if p = [] \<or> last p = RootDir then None else Some (butlast p))"

definition path_file_name :: "upath \<Rightarrow> string option" where
  "path_file_name p = (if p = [] then None else case last p of Normal n \<Rightarrow> Some n | _ \<Rightarrow> None)"

definition tmp_path :: upath where
  "tmp_path = [RootDir, Normal ''tmp'']"

definition is_dir :: "upath \<Rightarrow> ufiles \<Rightarrow> bool" where
  "is_dir d fs = (case map_of fs d of Some (Dir _) \<Rightarrow> True | _ \<Rightarrow> False)"

definition parent_is_dir :: "upath \<Rightarrow> ufiles \<Rightarrow> bool" where
  "parent_is_dir p fs = (case path_parent p of None \<Rightarrow> True | Some d \<Rightarrow> is_dir d fs)"

definition is_empty_dir :: "upath \<Rightarrow> ufiles \<Rightarrow> bool" where
  "is_empty_dir d fs \<longleftrightarrow> is_dir d fs \<and> list_all (\<lambda>(p, _). path_parent p \<noteq> Some d) fs"

definition make_dir :: "unix_os \<Rightarrow> upath \<Rightarrow> u32 \<Rightarrow> ufiles \<Rightarrow> ufiles option" where
  "make_dir os d mode fs =
     (if uo_mkdir os d \<and> map_of fs d = None \<and> parent_is_dir d fs then Some (AList.update d (Dir mode) fs) else None)"

definition remove_dir :: "unix_os \<Rightarrow> upath \<Rightarrow> ufiles \<Rightarrow> ufiles" where
  "remove_dir os d fs = (if uo_rmdir os d \<and> is_empty_dir d fs then AList.delete d fs else fs)"

section \<open>Private directories\<close>

definition PRIVATE_MODE :: u32 where
  "PRIVATE_MODE = 7 * 64"

definition validate_agent_parent :: "upath \<Rightarrow> string + unit" where
  "validate_agent_parent parent =
     (case path_file_name parent of
        None \<Rightarrow> Inl ''ssh-agent forwarding parent must have a utf-8 name''
      | Some name \<Rightarrow>
          if path_parent parent \<noteq> Some tmp_path \<or> \<not> starts_with name ''portl-agent-''
          then Inl ''ssh-agent forwarding parent must be /tmp/portl-agent-*''
          else (let suffix = drop (length ''portl-agent-'') name
                in if suffix = [] \<or> \<not> list_all (\<lambda>c. of_char c \<in> {48..57 :: nat} \<union> {65..70} \<union> {97..102}) suffix
                   then Inl ''ssh-agent forwarding parent suffix must be hex''
                   else Inr ()))"

definition is_generated_forward_parent :: "upath \<Rightarrow> bool" where
  "is_generated_forward_parent parent \<longleftrightarrow>
     (case path_file_name parent of
        None \<Rightarrow> False
      | Some name \<Rightarrow> path_parent parent = Some tmp_path \<and> starts_with name ''portl-from-'')"

text \<open>
  Both return the error, or the directory to remove at the end, with the files as they are then.
\<close>

definition create_private_agent_parent :: "unix_os \<Rightarrow> upath \<Rightarrow> ufiles \<Rightarrow> (string + upath) \<times> ufiles" where
  "create_private_agent_parent os path fs =
     (case path_parent path of
        None \<Rightarrow> (Inl ''ssh-agent socket path must include a parent directory'', fs)
      | Some parent \<Rightarrow>
          (case validate_agent_parent parent of
             Inl e \<Rightarrow> (Inl e, fs)
           | Inr _ \<Rightarrow>
               (case make_dir os parent PRIVATE_MODE fs of
                  None \<Rightarrow> (Inl ''create ssh-agent forwarding directory'', fs)
                | Some made \<Rightarrow>
                    if \<not> uo_chmod os parent then (Inl ''chmod ssh-agent forwarding directory'', made)
                    else if \<not> uo_stat os parent then (Inl ''stat ssh-agent forwarding directory'', made)
                    else (Inr parent, made))))"

definition ensure_generated_forward_parent :: "unix_os \<Rightarrow> upath \<Rightarrow> ufiles \<Rightarrow> (string + upath option) \<times> ufiles" where
  "ensure_generated_forward_parent os path fs =
     (case path_parent path of
        None \<Rightarrow> (Inr None, fs)
      | Some parent \<Rightarrow>
          if \<not> is_generated_forward_parent parent then (Inr None, fs)
          else if \<not> uo_stat os parent then (Inl ''stat generated unix forwarding directory'', fs)
          else (let finish = (\<lambda>fs'.
                      if \<not> uo_chmod os parent then (Inl ''chmod generated unix forwarding directory'', fs')
                      else (Inr (Some parent), AList.update parent (Dir PRIVATE_MODE) fs'))
                in case map_of fs parent of
                     Some (Dir _) \<Rightarrow> finish fs
                   | Some _ \<Rightarrow> (Inl ''generated unix forwarding parent is not a directory'', fs)
                   | None \<Rightarrow>
                       (case make_dir os parent PRIVATE_MODE fs of
                          None \<Rightarrow> (Inl ''create generated unix forwarding directory'', fs)
                        | Some made \<Rightarrow> finish made)))"

section \<open>The socket\<close>

definition remove_existing_socket_for_bind :: "unix_os \<Rightarrow> upath \<Rightarrow> ufiles \<Rightarrow> (string + unit) \<times> ufiles" where
  "remove_existing_socket_for_bind os path fs =
     (if \<not> uo_stat os path then (Inl ''stat unix socket path'', fs)
      else case map_of fs path of
        None \<Rightarrow> (Inr (), fs)
      | Some (Sock active) \<Rightarrow>
          if active then (Inl ''unix socket is already active'', fs)
          else if uo_unlink os path then (Inr (), AList.delete path fs)
          else (Inl ''remove stale unix socket'', fs)
      | Some _ \<Rightarrow> (Inl ''refusing to remove non-socket path'', fs))"

definition remove_socket_if_present :: "unix_os \<Rightarrow> upath \<Rightarrow> ufiles \<Rightarrow> ufiles" where
  "remove_socket_if_present os path fs =
     (case map_of fs path of
        Some (Sock _) \<Rightarrow> if uo_stat os path \<and> uo_unlink os path then AList.delete path fs else fs
      | _ \<Rightarrow> fs)"

definition unix_bind :: "unix_os \<Rightarrow> upath \<Rightarrow> ufiles \<Rightarrow> (string + unit) \<times> ufiles" where
  "unix_bind os path fs =
     (case uo_bind os path of
        Some err \<Rightarrow> (Inl err, fs)
      | None \<Rightarrow>
          if map_of fs path \<noteq> None then (Inl ''Address already in use'', fs)
          else if \<not> parent_is_dir path fs then (Inl ''No such file or directory'', fs)
          else (Inr (), AList.update path (Sock True) fs))"


section \<open>Streams\<close>

record UnixAck =
  ua_ok :: bool
  ua_error :: "string option"

definition MAX_UNIX_REQ_BYTES :: nat where
  "MAX_UNIX_REQ_BYTES = 64 * 1024"

text \<open>
  A stream ends with an error, with a refusal, as a copied connection, or as a listening socket,
  which keeps the path, whether the socket is removed at the end, and the directory to remove.
\<close>

datatype UnixServed =
    UnixBail string
  | UnixRefused UnixAck
  | UnixForwarding upath BufferedRecv UnixAck
  | UnixListening upath bool "upath option" BufferedRecv UnixAck

definition unix_refuse :: "string \<Rightarrow> UnixServed" where
  "unix_refuse error = UnixRefused \<lparr>ua_ok = False, ua_error = Some error\<rparr>"

definition drop_parent :: "unix_os \<Rightarrow> upath option \<Rightarrow> ufiles \<Rightarrow> ufiles" where
  "drop_parent os parent_cleanup fs = (case parent_cleanup of None \<Rightarrow> fs | Some d \<Rightarrow> remove_dir os d fs)"

definition unix_serve_connect :: "unix_os \<Rightarrow> BufferedRecv \<Rightarrow> string \<Rightarrow> UnixServed" where
  "unix_serve_connect os recv path =
     (case uo_connect os (path_components path) of
        Some err \<Rightarrow> unix_refuse err
      | None \<Rightarrow> UnixForwarding (path_components path) recv \<lparr>ua_ok = True, ua_error = None\<rparr>)"

definition open_listener ::
  "unix_os \<Rightarrow> BufferedRecv \<Rightarrow> upath \<Rightarrow> bool \<Rightarrow> upath option \<Rightarrow> ufiles \<Rightarrow> UnixServed \<times> ufiles" where
  "open_listener os recv path cleanup parent_cleanup fs =
     (case (if cleanup then remove_existing_socket_for_bind os path fs else (Inr (), fs)) of
        (Inl err, fs1) \<Rightarrow> (unix_refuse err, drop_parent os parent_cleanup fs1)
      | (Inr _, fs1) \<Rightarrow>
          (case unix_bind os path fs1 of
             (Inl err, fs2) \<Rightarrow> (unix_refuse err, drop_parent os parent_cleanup fs2)
           | (Inr _, fs2) \<Rightarrow>
               (UnixListening path cleanup parent_cleanup recv \<lparr>ua_ok = True, ua_error = None\<rparr>, fs2)))"

definition unix_serve_listen ::
  "unix_os \<Rightarrow> BufferedRecv \<Rightarrow> string \<Rightarrow> bool \<Rightarrow> bool \<Rightarrow> ufiles \<Rightarrow> UnixServed \<times> ufiles" where
  "unix_serve_listen os recv path cleanup ssh_agent fs =
     (let path_buf = path_components path
      in if ssh_agent \<and> \<not> cleanup then (unix_refuse ''ssh-agent forwarding listen requires cleanup'', fs)
         else if ssh_agent
         then (case create_private_agent_parent os path_buf fs of
                 (Inl err, fs1) \<Rightarrow> (unix_refuse err, fs1)
               | (Inr d, fs1) \<Rightarrow> open_listener os recv path_buf cleanup (Some d) fs1)
         else (case ensure_generated_forward_parent os path_buf fs of
                 (Inl err, fs1) \<Rightarrow> (unix_refuse err, fs1)
               | (Inr d, fs1) \<Rightarrow> open_listener os recv path_buf cleanup d fs1))"

definition unix_serve_stream ::
  "unix_os \<Rightarrow> (bytes \<Rightarrow> UnixOp taken) \<Rightarrow> Session \<Rightarrow> BufferedRecv \<Rightarrow> StreamPreamble \<Rightarrow> ufiles \<Rightarrow> UnixServed \<times> ufiles" where
  "unix_serve_stream os take_op session recv preamble fs =
     (case recv_read_frame take_op MAX_UNIX_REQ_BYTES recv of
        (Inl e, _) \<Rightarrow> (UnixBail e, fs)
      | (Inr None, _) \<Rightarrow> (UnixBail ''missing unix request'', fs)
      | (Inr (Some op), recv') \<Rightarrow>
          if sp_peer_token preamble \<noteq> ss_peer_token session \<or> sp_alpn preamble \<noteq> ALPN_UNIX_V1
          then (UnixBail ''invalid unix preamble'', fs)
          else (case unix_permits (ss_caps session) \<lparr>un_preamble = preamble, un_op = op\<rparr> of
                  Inl error \<Rightarrow> (unix_refuse error, fs)
                | Inr _ \<Rightarrow>
                    (case op of
                       UnixConnect path \<Rightarrow> (unix_serve_connect os recv' path, fs)
                     | UnixListen path cleanup ssh_agent \<Rightarrow> unix_serve_listen os recv' path cleanup ssh_agent fs)))"

text \<open>
  The end of a listening stream: the socket is removed first, then the directory.
\<close>

definition end_listening :: "unix_os \<Rightarrow> upath \<Rightarrow> bool \<Rightarrow> upath option \<Rightarrow> ufiles \<Rightarrow> ufiles" where
  "end_listening os path cleanup parent_cleanup fs =
     drop_parent os parent_cleanup (if cleanup then remove_socket_if_present os path fs else fs)"


section \<open>Files stay well-formed\<close>

text \<open>
  A file system: no path twice, and everything in a directory that is there.
\<close>

definition files_wf :: "ufiles \<Rightarrow> bool" where
  "files_wf fs \<longleftrightarrow> distinct (map fst fs) \<and> (\<forall>p n. map_of fs p = Some n \<longrightarrow> parent_is_dir p fs)"

lemma is_dir_iff: "is_dir d fs \<longleftrightarrow> (\<exists>m. map_of fs d = Some (Dir m))"
  by (auto simp: is_dir_def split: option.split Node.split)

lemma path_parent_neq: "path_parent p = Some d \<Longrightarrow> d \<noteq> p"
  by (metis append_butlast_last_id not_Cons_self2 option.inject option.simps(3) path_parent_def self_append_conv)

lemma parent_is_dir_update:
  assumes "parent_is_dir p fs" and "map_of fs d = None \<or> (\<exists>m. n = Dir m)"
  shows "parent_is_dir p (AList.update d n fs)"
  using assms by (auto simp: parent_is_dir_def is_dir_iff update_conv split: option.splits)

lemma files_wf_update:
  assumes "files_wf fs" and "parent_is_dir d fs" and "map_of fs d = None \<or> (\<exists>m. n = Dir m)"
  shows "files_wf (AList.update d n fs)"
  using assms parent_is_dir_update [OF _ assms(3)]
  by (auto simp: files_wf_def distinct_update update_conv split: if_splits)

lemma files_wf_delete:
  assumes "files_wf fs" and "\<not> is_dir d fs \<or> is_empty_dir d fs"
  shows "files_wf (AList.delete d fs)"
proof -
  have "parent_is_dir p (AList.delete d fs)" if "map_of fs p = Some n" "p \<noteq> d" for p n
  proof (cases "path_parent p")
    case (Some e)
    have "parent_is_dir p fs" using assms(1) that(1) unfolding files_wf_def by blast
    then have "is_dir e fs" using Some by (simp add: parent_is_dir_def)
    moreover have "e \<noteq> d"
      using assms(2) Some that(1) \<open>is_dir e fs\<close> by (auto simp: is_empty_dir_def list_all_iff dest: map_of_SomeD)
    ultimately show ?thesis using Some by (simp add: parent_is_dir_def is_dir_iff delete_conv')
  qed (simp add: parent_is_dir_def)
  then show ?thesis using assms(1) by (auto simp: files_wf_def distinct_delete delete_conv' split: if_splits)
qed


section \<open>What a stream may do to files\<close>

definition private_dir :: "upath \<Rightarrow> bool" where
  "private_dir d \<longleftrightarrow> validate_agent_parent d = Inr () \<or> is_generated_forward_parent d"

text \<open>
  The effect a stream for a path may have: nothing changes but the path and its directory, if
  that is one of the private ones, and at the path only a socket nobody listens on is removed.
\<close>

definition unix_effect :: "upath \<Rightarrow> ufiles \<Rightarrow> ufiles \<Rightarrow> bool" where
  "unix_effect path fs fs' \<longleftrightarrow> (files_wf fs \<longrightarrow> files_wf fs') \<and>
     (\<forall>p. p \<noteq> path \<and> (path_parent path = Some p \<longrightarrow> \<not> private_dir p) \<longrightarrow> map_of fs' p = map_of fs p) \<and>
     (\<forall>n. map_of fs path = Some n \<and> n \<noteq> Sock False \<longrightarrow> map_of fs' path = Some n)"

lemma unix_effect_refl: "unix_effect path fs fs"
  by (simp add: unix_effect_def)

lemma unix_effect_trans: "unix_effect path fs fs1 \<Longrightarrow> unix_effect path fs1 fs2 \<Longrightarrow> unix_effect path fs fs2"
  unfolding unix_effect_def by metis

lemma unix_effect_mkdir:
  assumes "make_dir os d mode fs = Some fs'" and "path_parent path = Some d" and "private_dir d"
  shows "unix_effect path fs fs'"
  using assms path_parent_neq [OF assms(2)]
  by (auto simp: unix_effect_def make_dir_def update_conv intro: files_wf_update split: if_splits)

lemma unix_effect_chmod:
  assumes "is_dir d fs" and "path_parent path = Some d" and "private_dir d"
  shows "unix_effect path fs (AList.update d (Dir mode) fs)"
proof -
  have "files_wf fs \<Longrightarrow> parent_is_dir d fs" using assms(1) unfolding files_wf_def is_dir_iff by blast
  then show ?thesis
    using assms path_parent_neq [OF assms(2)] by (auto simp: unix_effect_def update_conv intro: files_wf_update)
qed

lemma unix_effect_rmdir:
  assumes "path_parent path = Some d" and "private_dir d"
  shows "unix_effect path fs (remove_dir os d fs)"
  using assms path_parent_neq [OF assms(1)]
  by (auto simp: unix_effect_def remove_dir_def delete_conv' intro: files_wf_delete)

lemma create_agent_parent_effect:
  assumes "create_private_agent_parent os path fs = (r, fs')"
  shows "unix_effect path fs fs' \<and> (\<forall>d. r = Inr d \<longrightarrow> path_parent path = Some d \<and> private_dir d)"
proof (cases "path_parent path")
  case (Some d)
  show ?thesis
  proof (cases "validate_agent_parent d")
    case (Inr u)
    then have "private_dir d" by (simp add: private_dir_def)
    then show ?thesis
      using assms Some Inr unix_effect_mkdir [OF _ Some]
      by (auto simp: create_private_agent_parent_def intro: unix_effect_refl split: option.splits if_splits)
  qed (use assms Some in \<open>auto simp: create_private_agent_parent_def intro: unix_effect_refl\<close>)
qed (use assms in \<open>auto simp: create_private_agent_parent_def intro: unix_effect_refl\<close>)

lemma make_dir_is_dir: "make_dir os d mode fs = Some fs' \<Longrightarrow> is_dir d fs'"
  by (auto simp: make_dir_def is_dir_iff update_conv split: if_splits)

lemma ensure_parent_effect:
  assumes "ensure_generated_forward_parent os path fs = (r, fs')"
  shows "unix_effect path fs fs' \<and> (\<forall>d. r = Inr (Some d) \<longrightarrow> path_parent path = Some d \<and> private_dir d)"
proof (cases "path_parent path")
  case (Some d)
  show ?thesis
  proof (cases "is_generated_forward_parent d")
    case True
    then have priv: "private_dir d" by (simp add: private_dir_def)
    note chmod = unix_effect_chmod [OF _ Some priv] and mkdir = unix_effect_mkdir [OF _ Some priv]
    have made: "make_dir os d PRIVATE_MODE fs = Some m \<Longrightarrow> unix_effect path fs (AList.update d (Dir PRIVATE_MODE) m)" for m
      using mkdir chmod make_dir_is_dir unix_effect_trans by blast
    show ?thesis
      using assms Some True chmod mkdir made priv
      by (auto simp: ensure_generated_forward_parent_def Let_def is_dir_def intro: unix_effect_refl
          split: option.splits if_splits Node.splits)
  qed (use assms Some in \<open>auto simp: ensure_generated_forward_parent_def intro: unix_effect_refl\<close>)
qed (use assms in \<open>auto simp: ensure_generated_forward_parent_def intro: unix_effect_refl\<close>)


lemma remove_existing_effect:
  assumes "remove_existing_socket_for_bind os path fs = (r, fs')"
  shows "unix_effect path fs fs'"
proof -
  have "\<not> is_dir path fs" if "map_of fs path = Some (Sock False)" using that by (simp add: is_dir_def)
  then show ?thesis
    using assms
    by (auto simp: remove_existing_socket_for_bind_def unix_effect_def delete_conv' intro: files_wf_delete
        split: if_splits option.splits Node.splits)
qed

lemma unix_bind_effect:
  assumes "unix_bind os path fs = (r, fs')"
  shows "unix_effect path fs fs' \<and> (r = Inr () \<longrightarrow> map_of fs' path = Some (Sock True) \<and> map_of fs path = None)"
  using assms
  by (auto simp: unix_bind_def unix_effect_def update_conv intro: files_wf_update split: option.splits if_splits)

lemma drop_parent_effect:
  assumes "\<forall>d. parent_cleanup = Some d \<longrightarrow> path_parent path = Some d \<and> private_dir d"
  shows "unix_effect path fs (drop_parent os parent_cleanup fs)"
  using assms by (cases parent_cleanup) (auto simp: drop_parent_def intro: unix_effect_refl unix_effect_rmdir)

lemma open_listener_effect:
  assumes "open_listener os recv path cleanup pc fs = (served, fs')"
    and "\<forall>d. pc = Some d \<longrightarrow> path_parent path = Some d \<and> private_dir d"
  shows "unix_effect path fs fs'"
proof -
  obtain r fs1 where first: "(if cleanup then remove_existing_socket_for_bind os path fs else (Inr (), fs)) = (r, fs1)"
    by (cases "if cleanup then remove_existing_socket_for_bind os path fs else (Inr (), fs)")
  have eff1: "unix_effect path fs fs1"
    using first remove_existing_effect unix_effect_refl by (auto split: if_splits)
  obtain q fs2 where second: "unix_bind os path fs1 = (q, fs2)" by (cases "unix_bind os path fs1")
  have eff2: "unix_effect path fs fs2" using unix_effect_trans [OF eff1] unix_bind_effect [OF second] by blast
  show ?thesis
    using assms(1) eff1 eff2 unix_effect_trans [OF eff1 drop_parent_effect [OF assms(2)]]
      unix_effect_trans [OF eff2 drop_parent_effect [OF assms(2)]]
    unfolding open_listener_def first prod.case second by (auto split: sum.splits)
qed

lemma serve_listen_effect:
  assumes "unix_serve_listen os recv path cleanup ssh_agent fs = (served, fs')"
  shows "unix_effect (path_components path) fs fs'"
proof -
  let ?p = "path_components path"
  obtain r fs1 where agent: "create_private_agent_parent os ?p fs = (r, fs1)"
    by (cases "create_private_agent_parent os ?p fs")
  obtain q fs2 where gen: "ensure_generated_forward_parent os ?p fs = (q, fs2)"
    by (cases "ensure_generated_forward_parent os ?p fs")
  note e1 = create_agent_parent_effect [OF agent] and e2 = ensure_parent_effect [OF gen]
  consider "fs' = fs" | "fs' = fs1" | "fs' = fs2"
    | d where "r = Inr d" "open_listener os recv ?p cleanup (Some d) fs1 = (served, fs')"
    | d where "q = Inr d" "open_listener os recv ?p cleanup d fs2 = (served, fs')"
    using assms unfolding unix_serve_listen_def Let_def agent gen prod.case
    by (auto split: if_splits sum.splits)
  then show ?thesis
  proof cases
    case (4 d)
    then show ?thesis using unix_effect_trans [OF conjunct1 [OF e1] open_listener_effect [OF 4(2)]] e1 by simp
  next
    case (5 d)
    then show ?thesis using unix_effect_trans [OF conjunct1 [OF e2] open_listener_effect [OF 5(2)]] e2 by simp
  qed (simp_all add: unix_effect_refl e1 e2)
qed

section \<open>Properties\<close>



lemma no_child_of_missing:
  assumes "files_wf fs" and "map_of fs d = None"
  shows "\<forall>p n. (p, n) \<in> set fs \<longrightarrow> path_parent p \<noteq> Some d"
proof (intro allI impI notI)
  fix p n assume in_fs: "(p, n) \<in> set fs" and child: "path_parent p = Some d"
  have "map_of fs p = Some n" using in_fs assms(1) by (simp add: files_wf_def)
  then have "parent_is_dir p fs" using assms(1) unfolding files_wf_def by blast
  then show False using child assms(2) by (simp add: parent_is_dir_def is_dir_def)
qed

lemma agent_listen_files:
  assumes "files_wf fs" and "unix_serve_listen os recv path True True fs = (UnixListening p c pc recv' ack, fs1)"
  shows "\<exists>d. p = path_components path \<and> c \<and> pc = Some d \<and> path_parent p = Some d \<and> map_of fs d = None \<and> map_of fs p = None \<and>
    fs1 = AList.update p (Sock True) (AList.update d (Dir PRIVATE_MODE) fs)"
proof -
  let ?p = "path_components path"
  obtain d fs0 where made: "create_private_agent_parent os ?p fs = (Inr d, fs0)"
    and listen: "open_listener os recv ?p True (Some d) fs0 = (UnixListening p c pc recv' ack, fs1)"
    using assms(2) by (auto simp: unix_serve_listen_def Let_def unix_refuse_def split: prod.splits sum.splits)
  have d: "path_parent ?p = Some d" "map_of fs d = None" "fs0 = AList.update d (Dir PRIVATE_MODE) fs"
    using made by (auto simp: create_private_agent_parent_def make_dir_def split: option.splits sum.splits if_splits)
  have fresh: "map_of fs ?p = None"
    using no_child_of_missing [OF assms(1) d(2)] d(1) by (metis map_of_SomeD option.exhaust)
  then have "map_of fs0 ?p = None" using d path_parent_neq [OF d(1)] by (simp add: update_conv)
  then show ?thesis
    using listen d fresh
    by (intro exI [of _ d]) (auto simp: open_listener_def remove_existing_socket_for_bind_def unix_bind_def unix_refuse_def
        split: if_splits option.splits prod.splits)
qed

text \<open>
  Forwarding an ssh agent leaves no trace.  While the stream listens, the socket is in a
  directory that did not exist before and that only its owner can enter; when the stream has ended
  the files are what they were before it.
\<close>

lemma agent_socket_restored:
  assumes "files_wf fs" and "unix_serve_listen os recv path True True fs = (UnixListening p c pc recv' ack, fs1)"
    and "\<forall>q. uo_stat os q \<and> uo_unlink os q \<and> uo_rmdir os q"
  shows "(\<exists>d. path_parent p = Some d \<and> map_of fs d = None \<and> map_of fs1 d = Some (Dir PRIVATE_MODE) \<and> map_of fs1 p = Some (Sock True)) \<and>
    map_of (end_listening os p c pc fs1) = map_of fs"
proof -
  obtain d where d: "c" "pc = Some d" "path_parent p = Some d" "map_of fs d = None" "map_of fs p = None"
      "fs1 = AList.update p (Sock True) (AList.update d (Dir PRIVATE_MODE) fs)"
    using agent_listen_files [OF assms(1,2)] by blast
  have neq: "d \<noteq> p" by (rule path_parent_neq [OF d(3)])
  define fs2 where "fs2 = AList.delete p fs1"
  have get2: "map_of fs2 = (map_of fs)(d \<mapsto> Dir PRIVATE_MODE)"
    using d(5,6) neq by (auto simp: fs2_def delete_conv' update_conv' fun_eq_iff)
  have "path_parent q \<noteq> Some d" if "(q, n) \<in> set fs2" for q n
  proof -
    have "distinct (map fst fs2)" using assms(1) d(6) by (simp add: fs2_def files_wf_def distinct_delete distinct_update)
    then have "map_of fs2 q = Some n" using that by simp
    then show ?thesis
      using get2 no_child_of_missing [OF assms(1) d(4)] path_parent_neq [of q d] by (auto split: if_splits dest: map_of_SomeD)
  qed
  then have "is_empty_dir d fs2" using get2 by (auto simp: is_empty_dir_def is_dir_def list_all_iff)
  then have "map_of (remove_dir os d fs2) = map_of fs"
    using assms(3) d(4) get2 by (auto simp: remove_dir_def delete_conv' fun_eq_iff)
  moreover have "map_of fs1 p = Some (Sock True)" "map_of fs1 d = Some (Dir PRIVATE_MODE)"
    using d(6) neq by (simp_all add: update_conv)
  ultimately show ?thesis
    using d assms(3) by (simp add: end_listening_def drop_parent_def remove_socket_if_present_def fs2_def)
qed


definition demo_os :: unix_os where
  "demo_os = \<lparr>uo_stat = (\<lambda>_. True), uo_mkdir = (\<lambda>_. True), uo_chmod = (\<lambda>_. True), uo_unlink = (\<lambda>_. True),
     uo_rmdir = (\<lambda>_. True), uo_bind = (\<lambda>_. None), uo_connect = (\<lambda>_. None)\<rparr>"

definition demo_tree :: ufiles where
  "demo_tree = [([RootDir], Dir 493), (tmp_path, Dir 511)]"

definition demo_sock :: string where
  "demo_sock = ''/tmp/portl-agent-a1/agent.sock''"

definition demo_sock_path :: upath where
  "demo_sock_path = [RootDir, Normal ''tmp'', Normal ''portl-agent-a1'', Normal ''agent.sock'']"

definition demo_listening :: ufiles where
  "demo_listening = demo_tree @ [(butlast demo_sock_path, Dir PRIVATE_MODE), (demo_sock_path, Sock True)]"

lemma demo_tree_wf: "files_wf demo_tree"
  by (auto simp: files_wf_def demo_tree_def tmp_path_def parent_is_dir_def path_parent_def is_dir_def split: if_splits)

lemma demo_sock_components: "path_components demo_sock = demo_sock_path"
  by code_simp

lemma demo_agent_parent: "validate_agent_parent (butlast demo_sock_path) = Inr ()"
  by code_simp

lemma demo_listen:
  "unix_serve_listen demo_os recv demo_sock True True demo_tree =
     (UnixListening demo_sock_path True (Some (butlast demo_sock_path)) recv \<lparr>ua_ok = True, ua_error = None\<rparr>, demo_listening)"
proof -
  have "make_dir demo_os (butlast demo_sock_path) PRIVATE_MODE demo_tree = Some (demo_tree @ [(butlast demo_sock_path, Dir PRIVATE_MODE)])"
    by (simp add: make_dir_def demo_os_def demo_tree_def demo_sock_path_def parent_is_dir_def path_parent_def is_dir_def tmp_path_def)
  moreover have "path_parent demo_sock_path = Some (butlast demo_sock_path)"
    by (simp add: demo_sock_path_def path_parent_def)
  ultimately have "create_private_agent_parent demo_os demo_sock_path demo_tree =
      (Inr (butlast demo_sock_path), demo_tree @ [(butlast demo_sock_path, Dir PRIVATE_MODE)])"
    using demo_agent_parent by (simp add: create_private_agent_parent_def demo_os_def)
  moreover have "open_listener demo_os recv demo_sock_path True (Some (butlast demo_sock_path)) (demo_tree @ [(butlast demo_sock_path, Dir PRIVATE_MODE)]) =
      (UnixListening demo_sock_path True (Some (butlast demo_sock_path)) recv \<lparr>ua_ok = True, ua_error = None\<rparr>, demo_listening)"
    by (simp add: open_listener_def remove_existing_socket_for_bind_def unix_bind_def demo_os_def demo_listening_def
        demo_tree_def demo_sock_path_def tmp_path_def parent_is_dir_def path_parent_def is_dir_def)
  ultimately show ?thesis by (simp add: unix_serve_listen_def demo_sock_components)
qed

definition demo_unix_session :: Session where
  "demo_unix_session = demo_tcp_session\<lparr>ss_caps := (ss_caps demo_tcp_session)\<lparr>cp_unix := Some
     \<lparr>ux_connect = [], ux_listen = [\<lparr>up_path = ''/tmp/portl-agent-*''\<rparr>]\<rparr>\<rparr>\<rparr>"

lemma demo_unix_stream:
  "unix_serve_stream demo_os (\<lambda>bs. Taken (UnixListen demo_sock True True) bs) demo_unix_session (new_buffered [] False [])
     \<lparr>sp_peer_token = [1], sp_alpn = ALPN_UNIX_V1\<rparr> demo_tree =
     (UnixListening demo_sock_path True (Some (butlast demo_sock_path)) (new_buffered [] False []) \<lparr>ua_ok = True, ua_error = None\<rparr>, demo_listening)"
proof -
  have "matches_path \<lparr>up_path = ''/tmp/portl-agent-*''\<rparr> demo_sock" by code_simp
  then show ?thesis
    by (simp add: unix_serve_stream_def demo_listen recv_read_frame.simps unix_permits_def demo_unix_session_def)
       (simp add: new_buffered_def demo_tcp_session_def demo_listen)
qed


end
