(* ===== verification/Ticket_Handler.thy ===== *)
theory Ticket_Handler
  imports Pipeline Watchdog Stream_Io
begin

text \<open>
  A connection that brings a ticket (\<^verbatim>\<open>portl-agent/src/ticket_handler.rs\<close>): the offer is
  evaluated, acknowledged, and an accepted connection is entered in the registry of live
  connections (\<^verbatim>\<open>conn_registry.rs\<close>) until it ends; its streams are handed to the handler of
  their protocol.  A connection is known by the number the QUIC library gives it.
\<close>

section \<open>The registry of live connections\<close>

type_synonym conn_key = "key32 \<times> nat"

datatype PathKind = DirectUdp | RelayPath | Mixed | UnknownPath

fun path_kind_str :: "PathKind \<Rightarrow> string" where
  "path_kind_str DirectUdp = ''direct-udp''"
| "path_kind_str RelayPath = ''relay''"
| "path_kind_str Mixed = ''mixed''"
| "path_kind_str UnknownPath = ''unknown''"

record ConnEntry =
  ce_ticket_issuer_id :: key32
  ce_ticket_holder_id :: "key32 option"
  ce_up_since_unix :: u64

type_synonym registry = "(conn_key \<times> ConnEntry) list"

definition conn_insert :: "registry \<Rightarrow> key32 \<Rightarrow> nat \<Rightarrow> key32 \<Rightarrow> key32 option \<Rightarrow> u64 \<Rightarrow> conn_key \<times> registry" where
  "conn_insert rg peer_eid stable_id issuer holder now_unix =
     (let key = (peer_eid, stable_id)
      in (key, AList.update key \<lparr>ce_ticket_issuer_id = issuer, ce_ticket_holder_id = holder, ce_up_since_unix = now_unix\<rparr> rg))"

definition conn_remove :: "registry \<Rightarrow> conn_key \<Rightarrow> registry" where
  "conn_remove rg key = AList.delete key rg"

text \<open>
  A path of a connection as the library reports it, and what a snapshot shows of it.
\<close>

record NetPath =
  np_ip :: bool
  np_relay :: bool
  np_selected :: bool
  np_rtt_micros :: nat

definition rtt_micros_if_sampled :: "nat \<Rightarrow> u64 option" where
  "rtt_micros_if_sampled rtt = (if rtt = 0 then None else Some (if rtt < 2 ^ 64 then of_nat rtt else - 1))"

definition classify_path_and_rtt :: "NetPath list \<Rightarrow> PathKind \<times> u64 option" where
  "classify_path_and_rtt paths =
     (if paths = [] then (UnknownPath, None)
      else let has_ip = list_ex np_ip paths; has_relay = list_ex np_relay paths;
               kind = (if has_ip then if has_relay then Mixed else DirectUdp
                       else if has_relay then RelayPath else UnknownPath);
               sampled = (case find np_selected paths of Some p \<Rightarrow> p | None \<Rightarrow> hd paths)
           in (kind, rtt_micros_if_sampled (np_rtt_micros sampled)))"

record ConnectionSnapshot =
  cs_peer_eid :: string
  cs_ticket_issuer_id :: "string option"
  cs_ticket_holder_id :: "string option"
  cs_connection_id :: u64
  cs_path :: PathKind
  cs_rtt_micros :: "u64 option"
  cs_up_since_unix :: u64

definition registry_snapshot :: "(bytes \<Rightarrow> string) \<Rightarrow> (conn_key \<Rightarrow> NetPath list) \<Rightarrow> registry \<Rightarrow> ConnectionSnapshot list" where
  "registry_snapshot hex paths rg =
     map (\<lambda>(key, entry).
        let (path, rtt) = classify_path_and_rtt (paths key)
        in \<lparr>cs_peer_eid = hex (fst key), cs_ticket_issuer_id = Some (hex (ce_ticket_issuer_id entry)),
            cs_ticket_holder_id = map_option hex (ce_ticket_holder_id entry),
            cs_connection_id = of_nat (snd key), cs_path = path, cs_rtt_micros = rtt,
            cs_up_since_unix = ce_up_since_unix entry\<rparr>) rg"

section \<open>The handshake\<close>

definition MAX_OFFER_BYTES :: nat where
  "MAX_OFFER_BYTES = 64 * 1024"

definition MAX_PREAMBLE_BYTES :: nat where
  "MAX_PREAMBLE_BYTES = 8 * 1024"

text \<open>
  What the handler uses of the agent's state.  Rejections are counted by the name of their reason;
  the record keeps the reasons themselves.
\<close>

record AgentCore =
  ag_self :: key32
  ag_probe :: "key32 option"
  ag_trust_roots :: "key32 set"
  ag_revocations :: RevocationSet
  ag_mode :: AgentMode
  ag_connections :: registry
  ag_watchdog :: Inner
  ag_accepted :: nat
  ag_rejected :: "AckReason list"

text \<open>
  What the connection brings: who is at the other end, its number, the bytes of the offer stream
  (\<open>None\<close> if the stream fails), what the rate limiter answers, the clock (\<open>None\<close> before the epoch)
  and whether the acknowledgement could be sent.  One reading of the clock stands for the ones of the
  evaluation, of the acknowledgement and of the registry.
\<close>

record Handshake =
  hs_source :: key32
  hs_stable_id :: nat
  hs_offer :: "bytes option"
  hs_rate_ok :: bool
  hs_clock :: "u64 option"
  hs_nanos :: int
  hs_sent :: bool

definition offer_outcome ::
  "externs \<Rightarrow> (bytes \<Rightarrow> TicketOffer option) \<Rightarrow> Handshake \<Rightarrow> u64 \<Rightarrow> bytes \<Rightarrow> AgentCore \<Rightarrow> AcceptanceOutcome" where
  "offer_outcome X from_bytes h now offer_bytes a =
     (case from_bytes offer_bytes of
        None \<Rightarrow> Rejected BadSignature
      | Some offer \<Rightarrow>
          evaluate_offer X \<lparr>in_offer = offer, in_source_id = hs_source h, in_trust_roots = ag_trust_roots a,
            in_revocations = ag_revocations a, in_now = now, in_rate_limit = (\<lambda>_. hs_rate_ok h), in_mode = ag_mode a\<rparr>)"

definition session_of :: "key32 \<Rightarrow> AcceptanceOutcome \<Rightarrow> Session option" where
  "session_of source outcome =
     (case outcome of
        Accepted peer_token caps tid chain_ids issuer holder bearer \<Rightarrow>
          Some \<lparr>ss_peer_token = peer_token, ss_caps = caps, ss_ticket_id = tid, ss_ticket_chain_ids = chain_ids,
                ss_caller_endpoint_id = source, ss_ticket_issuer_id = issuer, ss_ticket_holder_id = holder,
                ss_bearer = bearer\<rparr>
      | Rejected _ \<Rightarrow> None)"

definition ack_of :: "u64 \<Rightarrow> AcceptanceOutcome \<Rightarrow> TicketAck" where
  "ack_of now outcome =
     (case outcome of
        Accepted peer_token caps _ _ _ _ _ \<Rightarrow>
          \<lparr>ak_ok = True, ak_reason = None, ak_peer_token = Some peer_token, ak_effective_caps = Some caps,
           ak_server_time = now\<rparr>
      | Rejected reason \<Rightarrow>
          \<lparr>ak_ok = False, ak_reason = Some reason, ak_peer_token = None, ak_effective_caps = None, ak_server_time = now\<rparr>)"

definition ticket_serve_connection ::
  "externs \<Rightarrow> (bytes \<Rightarrow> TicketOffer option) \<Rightarrow> Handshake \<Rightarrow> AgentCore \<Rightarrow>
   (string + TicketAck \<times> (conn_key \<times> Session) option) \<times> AgentCore" where
  "ticket_serve_connection X from_bytes h a =
     (case hs_offer h of
        None \<Rightarrow> (Inl ''read offer stream'', a)
      | Some offer_bytes \<Rightarrow>
          if MAX_OFFER_BYTES < length offer_bytes then (Inl ''read offer stream'', a)
          else (case hs_clock h of
             None \<Rightarrow> (Inl ''system clock is before unix epoch'',
                      case from_bytes offer_bytes of
                        Some _ \<Rightarrow> a
                      | None \<Rightarrow> a\<lparr>ag_rejected := BadSignature # ag_rejected a\<rparr>)
           | Some now \<Rightarrow>
               (let outcome = offer_outcome X from_bytes h now offer_bytes a; ack = ack_of now outcome
                in case outcome of
                     Rejected reason \<Rightarrow>
                       (let a' = a\<lparr>ag_rejected := reason # ag_rejected a\<rparr>
                        in if hs_sent h then (Inr (ack, None), a') else (Inl ''write rejected ack'', a'))
                   | Accepted _ _ _ _ issuer holder _ \<Rightarrow>
                       if \<not> hs_sent h then (Inl ''write accepted ack'', a)
                       else (let known = (hs_source h = ag_self a \<or> Some (hs_source h) = ag_probe a);
                                 watchdog = (if known then ag_watchdog a
                                             else record_inbound_handshake (hs_nanos h) (ag_watchdog a));
                                 (key, rows) = conn_insert (ag_connections a) (hs_source h) (hs_stable_id h) issuer holder now
                             in (Inr (ack, map_option (\<lambda>s. (key, s)) (session_of (hs_source h) outcome)),
                                 a\<lparr>ag_watchdog := watchdog, ag_accepted := Suc (ag_accepted a), ag_connections := rows\<rparr>)))))"

definition connection_ended :: "conn_key \<Rightarrow> AgentCore \<Rightarrow> AgentCore" where
  "connection_ended key a = a\<lparr>ag_connections := conn_remove (ag_connections a) key\<rparr>"

section \<open>Streams\<close>

definition ALPN_SESSION_V1 :: string where
  "ALPN_SESSION_V1 = ''portl/session/v1''"

datatype StreamHandler =
    ToMeta | ToShell | ToSession | ToTcp | ToGateway | ToUdp | ToUnix
  | CloseConnection nat string

definition in_mode_or_close :: "AgentMode \<Rightarrow> string \<Rightarrow> StreamHandler \<Rightarrow> StreamHandler" where
  "in_mode_or_close mode alpn handler =
     (case alpn_allowed_in_mode mode alpn of Inl error \<Rightarrow> CloseConnection 0x1004 error | Inr _ \<Rightarrow> handler)"

definition dispatch_stream :: "AgentMode \<Rightarrow> string \<Rightarrow> StreamHandler" where
  "dispatch_stream mode alpn =
     (if alpn = ALPN_META_V1 then ToMeta
      else if alpn = ALPN_SHELL_V1 then in_mode_or_close mode alpn ToShell
      else if alpn = ALPN_SESSION_V1 then in_mode_or_close mode alpn ToSession
      else if alpn = ALPN_TCP_V1 then (case mode of Listener \<Rightarrow> ToTcp | Gateway _ _ _ \<Rightarrow> ToGateway)
      else if alpn = ALPN_TCP_V2 then in_mode_or_close mode alpn ToTcp
      else if alpn = ALPN_UDP_V1 then in_mode_or_close mode alpn ToUdp
      else if alpn = ALPN_UNIX_V1 then in_mode_or_close mode alpn ToUnix
      else CloseConnection 0x1003 ''version mismatch'')"

definition serve_one_stream ::
  "(bytes \<Rightarrow> StreamPreamble taken) \<Rightarrow> AgentMode \<Rightarrow> bytes list \<Rightarrow> bool \<Rightarrow> string + StreamHandler \<times> StreamPreamble \<times> BufferedRecv" where
  "serve_one_stream take_preamble mode recv reset =
     res_bind (read_postcard_prefix take_preamble MAX_PREAMBLE_BYTES recv reset) (\<lambda>(preamble, buffered).
       Inr (dispatch_stream mode (sp_alpn preamble), preamble, buffered))"


section \<open>How a handshake ends\<close>

definition input_of :: "Handshake \<Rightarrow> u64 \<Rightarrow> TicketOffer \<Rightarrow> AgentCore \<Rightarrow> AcceptanceInput" where
  "input_of h now offer a = \<lparr>in_offer = offer, in_source_id = hs_source h, in_trust_roots = ag_trust_roots a,
     in_revocations = ag_revocations a, in_now = now, in_rate_limit = (\<lambda>_. hs_rate_ok h), in_mode = ag_mode a\<rparr>"

lemma handshake_session:
  assumes "ticket_serve_connection X from_bytes h a = (Inr (ack, Some (key, s)), a')"
  obtains offer_bytes now offer where "hs_offer h = Some offer_bytes" "length offer_bytes \<le> MAX_OFFER_BYTES"
    "hs_clock h = Some now" "from_bytes offer_bytes = Some offer" "hs_sent h"
    "session_of (hs_source h) (evaluate_offer X (input_of h now offer a)) = Some s"
    "ack = ack_of now (evaluate_offer X (input_of h now offer a))" "key = (hs_source h, hs_stable_id h)"
    "ag_connections a' = AList.update key \<lparr>ce_ticket_issuer_id = ss_ticket_issuer_id s,
       ce_ticket_holder_id = ss_ticket_holder_id s, ce_up_since_unix = now\<rparr> (ag_connections a)"
    "ag_trust_roots a' = ag_trust_roots a" "ag_revocations a' = ag_revocations a" "ag_mode a' = ag_mode a"
proof -
  from assms obtain offer_bytes now where o: "hs_offer h = Some offer_bytes" "length offer_bytes \<le> MAX_OFFER_BYTES" "hs_clock h = Some now"
    by (auto simp: ticket_serve_connection_def split: option.splits if_splits)
  show thesis
  proof (cases "from_bytes offer_bytes")
    case None
    then show thesis using assms o by (simp add: ticket_serve_connection_def offer_outcome_def Let_def split: if_splits)
  next
    case (Some offer)
    then show thesis
      using assms o that [OF o Some]
      by (cases "evaluate_offer X (input_of h now offer a)")
         (auto simp: ticket_serve_connection_def offer_outcome_def input_of_def [symmetric] Let_def conn_insert_def session_of_def
           split: if_splits)
  qed
qed

lemma handshake_no_session:
  assumes "ticket_serve_connection X from_bytes h a = (r, a')" and "\<nexists>ack live. r = Inr (ack, Some live)"
  shows "ag_connections a' = ag_connections a \<and> ag_accepted a' = ag_accepted a \<and> ag_watchdog a' = ag_watchdog a \<and>
    ag_trust_roots a' = ag_trust_roots a \<and> ag_revocations a' = ag_revocations a \<and> ag_mode a' = ag_mode a"
  using assms
  by (auto simp: ticket_serve_connection_def Let_def conn_insert_def session_of_def
      split: option.splits if_splits AcceptanceOutcome.splits)

lemma handshake_keeps:
  assumes "ticket_serve_connection X from_bytes h a = (r, a')"
  shows "ag_trust_roots a' = ag_trust_roots a \<and> ag_revocations a' = ag_revocations a \<and> ag_mode a' = ag_mode a \<and> ag_self a' = ag_self a"
  using assms
  by (auto simp: ticket_serve_connection_def Let_def conn_insert_def split: option.splits if_splits AcceptanceOutcome.splits)

lemma handshake_accepts:
  assumes "hs_offer h = Some offer_bytes" and "length offer_bytes \<le> MAX_OFFER_BYTES" and "hs_clock h = Some now"
    and "from_bytes offer_bytes = Some offer" and "hs_sent h"
    and "session_of (hs_source h) (evaluate_offer X (input_of h now offer a)) = Some s"
  shows "\<exists>a'. ticket_serve_connection X from_bytes h a =
    (Inr (ack_of now (evaluate_offer X (input_of h now offer a)), Some ((hs_source h, hs_stable_id h), s)), a')"
  using assms
  by (cases "evaluate_offer X (input_of h now offer a)")
     (auto simp: ticket_serve_connection_def offer_outcome_def input_of_def [symmetric] Let_def conn_insert_def session_of_def)

lemma session_of_Some:
  "session_of source outcome = Some s \<longleftrightarrow>
     outcome = Accepted (ss_peer_token s) (ss_caps s) (ss_ticket_id s) (ss_ticket_chain_ids s) (ss_ticket_issuer_id s)
       (ss_ticket_holder_id s) (ss_bearer s) \<and> ss_caller_endpoint_id s = source"
  by (cases outcome; cases s) (auto simp: session_of_def)

lemma accepted_session:
  assumes "ticket_serve_connection X from_bytes h a = (Inr (ack, Some (key, s)), a')"
  shows "\<exists>bytes now offer chain terminal. hs_offer h = Some bytes \<and> from_bytes bytes = Some offer \<and> hs_clock h = Some now \<and>
         offer_tickets X offer chain terminal \<and> acceptable X (input_of h now offer a) chain terminal \<and>
         ss_caps s = bd_caps (tk_body terminal) \<and> ss_caller_endpoint_id s = hs_source h \<and>
         ss_ticket_chain_ids s = map (\<lambda>t. ticket_id X (tk_sig t)) (chain @ [terminal]) \<and>
         ss_ticket_issuer_id s = resolved_issuer (hd (chain @ [terminal])) \<and>
         ss_ticket_issuer_id s \<in> ag_trust_roots a \<and> ss_bearer s = bd_bearer (tk_body terminal) \<and>
         ak_ok ack \<and> ak_effective_caps ack = Some (ss_caps s) \<and> ak_peer_token ack = Some (ss_peer_token s)"
proof -
  obtain bytes now offer where h: "hs_offer h = Some bytes" "hs_clock h = Some now" "from_bytes bytes = Some offer"
      "session_of (hs_source h) (evaluate_offer X (input_of h now offer a)) = Some s"
      "ack = ack_of now (evaluate_offer X (input_of h now offer a))"
    by (rule handshake_session [OF assms])
  note acc = h(4) [unfolded session_of_Some]
  obtain chain terminal where ct: "offer_tickets X offer chain terminal" "acceptable X (input_of h now offer a) chain terminal"
    by (rule evaluate_offer_accepted [OF conjunct1 [OF acc]]) (simp add: input_of_def)
  have "evaluate_offer X (input_of h now offer a) = acceptance X (input_of h now offer a) chain terminal"
    using evaluate_offer_accepts ct by (simp add: input_of_def)
  then have eq: "ss_caps s = bd_caps (tk_body terminal)" "ss_ticket_chain_ids s = map (\<lambda>t. ticket_id X (tk_sig t)) (chain @ [terminal])"
      "ss_ticket_issuer_id s = resolved_issuer (hd (chain @ [terminal]))" "ss_bearer s = bd_bearer (tk_body terminal)"
    using acc by (simp_all add: acceptance_def)
  have "sound_chain X (ag_trust_roots a) (chain @ [terminal])" using ct(2) by (simp add: acceptable_def input_of_def)
  then have "ss_ticket_issuer_id s \<in> ag_trust_roots a"
    unfolding eq(3) by (cases "chain @ [terminal]") (auto simp: sound_chain_def sound_root_def)
  moreover have "ak_ok ack \<and> ak_effective_caps ack = Some (ss_caps s) \<and> ak_peer_token ack = Some (ss_peer_token s)"
    using h(5) acc by (simp add: ack_of_def)
  ultimately show ?thesis using h ct eq acc by blast
qed

section \<open>Properties\<close>

text \<open>
  What a stream handler is given.  A connection gets a session only for an offer that was
  evaluated and accepted with the agent's trust roots, revocations and mode of that moment; the
  session's capabilities, tickets and issuer are those of the accepted chain, its caller is the
  authenticated other end, and the client is told exactly these capabilities.  In every other case
  the registry of live connections is unchanged.
\<close>

lemma session_from_accepted_chain:
  assumes "ticket_serve_connection X from_bytes h a = (r, a')"
  shows "(\<forall>ack key s. r = Inr (ack, Some (key, s)) \<longrightarrow>
      (\<exists>bytes now offer chain terminal. hs_offer h = Some bytes \<and> from_bytes bytes = Some offer \<and> hs_clock h = Some now \<and>
         offer_tickets X offer chain terminal \<and> acceptable X (input_of h now offer a) chain terminal \<and>
         ss_caps s = bd_caps (tk_body terminal) \<and> ss_caller_endpoint_id s = hs_source h \<and>
         ss_ticket_chain_ids s = map (\<lambda>t. ticket_id X (tk_sig t)) (chain @ [terminal]) \<and>
         ss_ticket_issuer_id s = resolved_issuer (hd (chain @ [terminal])) \<and>
         ss_ticket_issuer_id s \<in> ag_trust_roots a \<and> ss_bearer s = bd_bearer (tk_body terminal) \<and>
         ak_ok ack \<and> ak_effective_caps ack = Some (ss_caps s) \<and> ak_peer_token ack = Some (ss_peer_token s))) \<and>
    ((\<nexists>ack live. r = Inr (ack, Some live)) \<longrightarrow> ag_connections a' = ag_connections a)"
  using accepted_session handshake_no_session assms by blast

definition demo_core :: AgentCore where
  "demo_core = \<lparr>ag_self = replicate 32 200, ag_probe = None, ag_trust_roots = {replicate 32 1},
     ag_revocations = in_revocations (demo_input Listener), ag_mode = Listener, ag_connections = [],
     ag_watchdog = new_health 0, ag_accepted = 0, ag_rejected = []\<rparr>"

definition demo_handshake :: Handshake where
  "demo_handshake = \<lparr>hs_source = replicate 32 4, hs_stable_id = 1, hs_offer = Some [], hs_rate_ok = True,
     hs_clock = Some 1200, hs_nanos = 0, hs_sent = True\<rparr>"

lemma demo_core_input: "input_of demo_handshake 1200 (in_offer (demo_input Listener)) (demo_core\<lparr>ag_self := self\<rparr>) = demo_input Listener"
  by (simp add: input_of_def demo_handshake_def demo_core_def demo_input_def)

lemma demo_session:
  "\<exists>ack s a'. ticket_serve_connection (demo_codec demo_child) (\<lambda>_. Some (in_offer (demo_input Listener))) demo_handshake
     (demo_core\<lparr>ag_self := self\<rparr>) = (Inr (ack, Some ((replicate 32 4, 1), s)), a')"
proof -
  have "evaluate_offer (demo_codec demo_child) (demo_input Listener) = acceptance (demo_codec demo_child) (demo_input Listener) [demo_root] demo_child"
    by (rule evaluate_offer_accepts [OF demo_offer demo_acceptable(1)]) simp
  then obtain s where "session_of (hs_source demo_handshake)
      (evaluate_offer (demo_codec demo_child) (input_of demo_handshake 1200 (in_offer (demo_input Listener)) (demo_core\<lparr>ag_self := self\<rparr>))) = Some s"
    unfolding demo_core_input by (simp add: session_of_def acceptance_def)
  from handshake_accepts [OF _ _ _ _ _ this, of "[]" "\<lambda>_. Some (in_offer (demo_input Listener))"] show ?thesis
    by (auto simp: demo_handshake_def)
qed

text \<open>
  C40.  The target of a ticket is not compared with the agent.  Whether a connection gets a
  session, and with which capabilities, does not depend on the agent's own endpoint id: a ticket
  that one agent accepts is accepted by every agent with the same trust roots, revocations and
  mode, also when the signed target names another endpoint.
\<close>

theorem ticket_target_not_checked:
  "fst (ticket_serve_connection X from_bytes h (a\<lparr>ag_self := self\<rparr>)) = fst (ticket_serve_connection X from_bytes h a) \<and>
   (\<exists>ack s. fst (ticket_serve_connection (demo_codec demo_child) (\<lambda>_. Some (in_offer (demo_input Listener))) demo_handshake demo_core) =
      Inr (ack, Some ((replicate 32 4, 1), s)) \<and> ea_id (tk_addr demo_child) \<noteq> ag_self demo_core)"
proof
  show "fst (ticket_serve_connection X from_bytes h (a\<lparr>ag_self := self\<rparr>)) = fst (ticket_serve_connection X from_bytes h a)"
    by (auto simp: ticket_serve_connection_def offer_outcome_def Let_def conn_insert_def split: option.split AcceptanceOutcome.split)
  have "demo_core\<lparr>ag_self := replicate 32 200\<rparr> = demo_core" by (simp add: demo_core_def)
  moreover have "ea_id (tk_addr demo_child) \<noteq> ag_self demo_core"
    by (simp add: demo_child_def demo_addr_def demo_core_def replicate_eq_replicate)
  ultimately show "\<exists>ack s. fst (ticket_serve_connection (demo_codec demo_child) (\<lambda>_. Some (in_offer (demo_input Listener))) demo_handshake demo_core) =
      Inr (ack, Some ((replicate 32 4, 1), s)) \<and> ea_id (tk_addr demo_child) \<noteq> ag_self demo_core"
    using demo_session [of "replicate 32 200"] by (metis fst_conv)
qed

text \<open>
  Streams go to a handler only in the modes that serve its protocol.
\<close>

lemma dispatch_in_mode:
  "dispatch_stream mode alpn = handler \<Longrightarrow> (\<nexists>code why. handler = CloseConnection code why) \<Longrightarrow>
   alpn_allowed_in_mode mode alpn = Inr () \<and> (handler = ToGateway \<longleftrightarrow> mode \<noteq> Listener \<and> alpn = ALPN_TCP_V1)"
  by (auto simp: dispatch_stream_def in_mode_or_close_def alpn_allowed_in_mode_def alpn_defs ALPN_SESSION_V1_def
      split: if_splits AgentMode.splits sum.splits)

end
