(* ===== verification/Agent.thy ===== *)
theory Agent
  imports Ticket_Handler Pairing
begin

text \<open>
  The agent as a whole (\<^verbatim>\<open>portl-agent/src/lib.rs\<close>, the trust roots of
  \<^verbatim>\<open>config.rs\<close>): connections are served as they come, two tasks read the peers file and the
  revocations file again twice a second, a third drops old revocations, and the files are edited
  behind the agent's back by the command line, of which removing a peer
  (\<^verbatim>\<open>portl-cli/src/commands/peer/unlink.rs\<close>) is modelled here.
\<close>

section \<open>Trust at the start\<close>

definition parse_trust_root_hex :: "store_externs \<Rightarrow> string \<Rightarrow> string + key32" where
  "parse_trust_root_hex X value =
     (case sx_unhex X value of
        None \<Rightarrow> Inl (''invalid trust root hex: '' @ value)
      | Some bytes \<Rightarrow>
          if length bytes = 32 then Inr bytes
          else Inl (''trust root must decode to exactly 32 bytes: '' @ value))"

definition parse_trust_roots :: "store_externs \<Rightarrow> string \<Rightarrow> string + key32 list" where
  "parse_trust_roots X value =
     collect_results (parse_trust_root_hex X) (filter (\<lambda>v. v \<noteq> []) (map trim (split_on (CHR '','') value)))"

definition config_trust_roots ::
  "store_externs \<Rightarrow> bool \<Rightarrow> string \<Rightarrow> string option \<Rightarrow> string option \<Rightarrow> string + key32 set" where
  "config_trust_roots X read_ok path content env_roots =
     res_bind (map_err (\<lambda>e. ''load peer store at '' @ path @ '': '' @ e) (load_peers X read_ok path content)) (\<lambda>store.
     res_bind (case env_roots of None \<Rightarrow> Inr [] | Some value \<Rightarrow> parse_trust_roots X value) (\<lambda>roots.
       Inr (trust_roots X store \<union> set roots)))"

record agent_env =
  en_crypto :: externs
  en_offer :: "bytes \<Rightarrow> TicketOffer option"
  en_pair :: pair_externs
  en_pair_from :: "bytes \<Rightarrow> PairRequest option"
  en_pair_to :: "PairResponse \<Rightarrow> bytes option"
  en_paths :: PairAgent
  en_rev :: rev_externs

record AgentSys =
  sy_core :: AgentCore
  sy_bootstrap :: "key32 set"
  sy_files :: PairFiles
  sy_live :: "(conn_key \<times> Session) list"

definition start_agent ::
  "key32 set \<Rightarrow> key32 \<Rightarrow> key32 option \<Rightarrow> RevocationSet \<Rightarrow> AgentMode \<Rightarrow> Inner \<Rightarrow> PairFiles \<Rightarrow> AgentSys" where
  "start_agent roots self_id probe revocations mode health files =
     (let startup_trust_roots = roots \<union> set_option probe
      in \<lparr>sy_core = \<lparr>ag_self = self_id, ag_probe = probe, ag_trust_roots = startup_trust_roots,
             ag_revocations = revocations, ag_mode = mode, ag_connections = [], ag_watchdog = health,
             ag_accepted = 0, ag_rejected = []\<rparr>,
          sy_bootstrap = startup_trust_roots, sy_files = files, sy_live = []\<rparr>)"

section \<open>Tasks\<close>

definition peers_reload_tick :: "agent_env \<Rightarrow> bool \<Rightarrow> AgentSys \<Rightarrow> AgentSys" where
  "peers_reload_tick E read_ok s =
     (case pa_peers_path (en_paths E) of
        None \<Rightarrow> s
      | Some path \<Rightarrow>
          (case load_peers (px_store (en_pair E)) read_ok path (fl_peers (sy_files s)) of
             Inl _ \<Rightarrow> s
           | Inr store \<Rightarrow>
               s\<lparr>sy_core := (sy_core s)\<lparr>ag_trust_roots := trust_roots (px_store (en_pair E)) store \<union> sy_bootstrap s\<rparr>\<rparr>))"

definition revocations_reload_tick :: "agent_env \<Rightarrow> u64 option \<Rightarrow> AgentSys \<Rightarrow> AgentSys" where
  "revocations_reload_tick E clock s =
     s\<lparr>sy_core := (sy_core s)\<lparr>ag_revocations := snd (sync_from_disk (en_rev E) clock (ag_revocations (sy_core s)))\<rparr>\<rparr>"

definition revocations_gc_tick :: "agent_env \<Rightarrow> u64 option \<Rightarrow> bool \<Rightarrow> AgentSys \<Rightarrow> AgentSys" where
  "revocations_gc_tick E clock io_ok s =
     (case clock of
        None \<Rightarrow> s
      | Some now \<Rightarrow>
          (case gc (en_rev E) (ag_revocations (sy_core s)) now of
             (removed, revs) \<Rightarrow>
               s\<lparr>sy_core := (sy_core s)\<lparr>ag_revocations :=
                   if 0 < removed then snd (persist (en_rev E) io_ok revs) else revs\<rparr>\<rparr>))"

section \<open>Connections\<close>

definition serve_ticket :: "agent_env \<Rightarrow> Handshake \<Rightarrow> AgentSys \<Rightarrow> AgentSys" where
  "serve_ticket E h s =
     (case ticket_serve_connection (en_crypto E) (en_offer E) h (sy_core s) of
        (Inr (_, Some (key, session)), core) \<Rightarrow> s\<lparr>sy_core := core, sy_live := AList.update key session (sy_live s)\<rparr>
      | (_, core) \<Rightarrow> s\<lparr>sy_core := core\<rparr>)"

definition serve_pair :: "agent_env \<Rightarrow> PairIo \<Rightarrow> u64 \<Rightarrow> int \<Rightarrow> key32 \<Rightarrow> bytes \<Rightarrow> AgentSys \<Rightarrow> AgentSys" where
  "serve_pair E io now t caller recv s =
     (case pair_serve_connection (en_pair E) (en_pair_from E) (en_pair_to E) (en_paths E) (ag_self (sy_core s))
             (ag_probe (sy_core s)) io now caller recv (sy_files s) of
        None \<Rightarrow> s
      | Some v \<Rightarrow>
          s\<lparr>sy_files := pv_files v,
            sy_core := if pv_handshake v
                       then (sy_core s)\<lparr>ag_watchdog := record_inbound_handshake t (ag_watchdog (sy_core s))\<rparr>
                       else sy_core s\<rparr>)"

definition end_connection :: "conn_key \<Rightarrow> AgentSys \<Rightarrow> AgentSys" where
  "end_connection key s =
     s\<lparr>sy_core := connection_ended key (sy_core s), sy_live := AList.delete key (sy_live s)\<rparr>"

datatype AgentEvent =
    TicketConnection Handshake
  | PairConnection key32 bytes PairIo u64 int
  | OtherConnection string
  | ConnectionEnd conn_key
  | PeersTick bool
  | RevocationsTick "u64 option"
  | RevocationsGc "u64 option" bool
  | FilesEdited PairFiles
  | RevocationsEdited "string option"

fun agent_step :: "agent_env \<Rightarrow> AgentSys \<Rightarrow> AgentEvent \<Rightarrow> AgentSys" where
  "agent_step E s (TicketConnection h) = serve_ticket E h s"
| "agent_step E s (PairConnection caller recv io now t) = serve_pair E io now t caller recv s"
| "agent_step E s (OtherConnection alpn) = s"
| "agent_step E s (ConnectionEnd key) = end_connection key s"
| "agent_step E s (PeersTick read_ok) = peers_reload_tick E read_ok s"
| "agent_step E s (RevocationsTick clock) = revocations_reload_tick E clock s"
| "agent_step E s (RevocationsGc clock io_ok) = revocations_gc_tick E clock io_ok s"
| "agent_step E s (FilesEdited files) = s\<lparr>sy_files := files\<rparr>"
| "agent_step E s (RevocationsEdited disk) =
     s\<lparr>sy_core := (sy_core s)\<lparr>ag_revocations := (ag_revocations (sy_core s))\<lparr>rs_disk := disk\<rparr>\<rparr>\<rparr>"

definition agent_run :: "agent_env \<Rightarrow> AgentSys \<Rightarrow> AgentEvent list \<Rightarrow> AgentSys" where
  "agent_run E = foldl (agent_step E)"

section \<open>Removing a peer\<close>

definition peer_rm :: "store_externs \<Rightarrow> bool \<Rightarrow> bool \<Rightarrow> string \<Rightarrow> string \<Rightarrow> string option \<Rightarrow> (string + string) \<times> string option" where
  "peer_rm X read_ok write_ok path label content =
     (case load_peers X read_ok path content of
        Inl e \<Rightarrow> (Inl e, content)
      | Inr peers \<Rightarrow>
          (case remove_by_label label peers of
             (None, _) \<Rightarrow>
               (Inl (''no peer with label '' @ quoted label @ ''. Try `portl peer ls` for the current list.''), content)
           | (Some entry, rest) \<Rightarrow>
               if is_self entry
               then (Inl (''refusing to unlink the self-row; `portl init --force` followed by `portl install --apply` regenerates the identity + seeds a new self-row''), content)
               else (case save_peers X write_ok rest of
                       Inl e \<Rightarrow> (Inl e, content)
                     | Inr encoded \<Rightarrow>
                         (Inr (''unlinked peer '' @ quoted label @ '' ('' @ format_short (pe_endpoint_id_hex entry) @ '')''), Some encoded))))"


section \<open>Runs\<close>

lemma agent_run_simps [simp]:
  "agent_run E s [] = s" "agent_run E s (ev # evs) = agent_run E (agent_step E s ev) evs"
  "agent_run E s (evs @ evs') = agent_run E (agent_run E s evs) evs'"
  by (simp_all add: agent_run_def)

lemma serve_ticket_cases:
  obtains (session) ack key session core where
      "ticket_serve_connection (en_crypto E) (en_offer E) h (sy_core s) = (Inr (ack, Some (key, session)), core)"
      "serve_ticket E h s = s\<lparr>sy_core := core, sy_live := AList.update key session (sy_live s)\<rparr>"
  | (none) r core where
      "ticket_serve_connection (en_crypto E) (en_offer E) h (sy_core s) = (r, core)" "\<nexists>ack live. r = Inr (ack, Some live)"
      "serve_ticket E h s = s\<lparr>sy_core := core\<rparr>"
proof (cases "ticket_serve_connection (en_crypto E) (en_offer E) h (sy_core s)")
  case (Pair r core)
  show thesis
  proof (cases "\<exists>ack key session. r = Inr (ack, Some (key, session))")
    case True
    then show thesis using Pair session by (auto simp: serve_ticket_def)
  next
    case False
    then have "\<nexists>ack live. r = Inr (ack, Some live)" by (metis prod.collapse)
    then show thesis using Pair none by (auto simp: serve_ticket_def split: sum.split option.split prod.split)
  qed
qed

lemma serve_ticket_frame:
  "sy_bootstrap (serve_ticket E h s) = sy_bootstrap s" "sy_files (serve_ticket E h s) = sy_files s"
  "ag_trust_roots (sy_core (serve_ticket E h s)) = ag_trust_roots (sy_core s)"
  by (cases rule: serve_ticket_cases [of E h s]; use handshake_keeps in force)+

lemma serve_pair_frame:
  "sy_bootstrap (serve_pair E io now t caller recv s) = sy_bootstrap s" "sy_live (serve_pair E io now t caller recv s) = sy_live s"
  "ag_trust_roots (sy_core (serve_pair E io now t caller recv s)) = ag_trust_roots (sy_core s)"
  "ag_connections (sy_core (serve_pair E io now t caller recv s)) = ag_connections (sy_core s)"
  by (simp_all add: serve_pair_def split: option.split)

lemma tick_frames:
  "sy_live (peers_reload_tick E ok s) = sy_live s" "sy_bootstrap (peers_reload_tick E ok s) = sy_bootstrap s"
  "ag_connections (sy_core (peers_reload_tick E ok s)) = ag_connections (sy_core s)"
  "sy_live (revocations_reload_tick E c s) = sy_live s" "sy_bootstrap (revocations_reload_tick E c s) = sy_bootstrap s"
  "ag_connections (sy_core (revocations_reload_tick E c s)) = ag_connections (sy_core s)"
  "ag_trust_roots (sy_core (revocations_reload_tick E c s)) = ag_trust_roots (sy_core s)"
  "sy_live (revocations_gc_tick E c ok s) = sy_live s" "sy_bootstrap (revocations_gc_tick E c ok s) = sy_bootstrap s"
  "ag_connections (sy_core (revocations_gc_tick E c ok s)) = ag_connections (sy_core s)"
  "ag_trust_roots (sy_core (revocations_gc_tick E c ok s)) = ag_trust_roots (sy_core s)"
  by (simp_all add: peers_reload_tick_def revocations_reload_tick_def revocations_gc_tick_def
      split: option.split sum.split prod.split)

lemmas step_frames = serve_ticket_frame serve_pair_frame tick_frames

text \<open>
  The registry has a row for every live connection and no other, and what was trusted at the
  start stays trusted.
\<close>

definition agent_inv :: "AgentSys \<Rightarrow> bool" where
  "agent_inv s \<longleftrightarrow> map fst (ag_connections (sy_core s)) = map fst (sy_live s) \<and> distinct (map fst (sy_live s)) \<and>
     (\<forall>key session. map_of (sy_live s) key = Some session \<longrightarrow>
        (\<exists>row. map_of (ag_connections (sy_core s)) key = Some row \<and> ce_ticket_issuer_id row = ss_ticket_issuer_id session \<and>
           ce_ticket_holder_id row = ss_ticket_holder_id session)) \<and>
     sy_bootstrap s \<subseteq> ag_trust_roots (sy_core s)"

lemma agent_inv_start: "agent_inv (start_agent roots self_id probe revocations mode health files)"
  by (simp add: agent_inv_def start_agent_def Let_def)

lemma agent_inv_frame:
  assumes "agent_inv s" and "sy_live s' = sy_live s" and "sy_bootstrap s' = sy_bootstrap s"
    and "ag_connections (sy_core s') = ag_connections (sy_core s)" and "sy_bootstrap s \<subseteq> ag_trust_roots (sy_core s')"
  shows "agent_inv s'"
  using assms(1,5) unfolding agent_inv_def assms(2-4) by blast

lemma agent_inv_trust: "agent_inv s \<Longrightarrow> sy_bootstrap s \<subseteq> ag_trust_roots (sy_core s)"
  by (simp add: agent_inv_def)

lemma serve_ticket_inv:
  assumes "agent_inv s"
  shows "agent_inv (serve_ticket E h s)"
proof (cases rule: serve_ticket_cases [of E h s])
  case (session ack key sess core)
  obtain now where rows: "ag_connections core = AList.update key \<lparr>ce_ticket_issuer_id = ss_ticket_issuer_id sess,
       ce_ticket_holder_id = ss_ticket_holder_id sess, ce_up_since_unix = now\<rparr> (ag_connections (sy_core s))"
      "ag_trust_roots core = ag_trust_roots (sy_core s)"
    using handshake_session [OF session(1)] by metis
  have keys: "map fst (ag_connections core) = map fst (AList.update key sess (sy_live s))"
    using assms rows(1) by (simp add: agent_inv_def update_keys)
  have "distinct (map fst (AList.update key sess (sy_live s)))"
    using assms by (simp add: agent_inv_def distinct_update)
  with keys show ?thesis
    using assms session(2) rows by (auto simp: agent_inv_def update_conv split: if_splits)
next
  case (none r core)
  then show ?thesis
    using assms handshake_no_session [OF none(1,2)] by (intro agent_inv_frame [OF assms]) (simp_all add: agent_inv_def)
qed

lemma end_connection_inv: "agent_inv s \<Longrightarrow> agent_inv (end_connection key s)"
  by (auto simp: agent_inv_def end_connection_def connection_ended_def conn_remove_def delete_keys distinct_removeAll
      delete_conv' split: if_splits)

lemma agent_step_inv: "agent_inv s \<Longrightarrow> agent_inv (agent_step E s ev)"
proof (induction E s ev rule: agent_step.induct)
  case (5 E s read_ok)
  have "sy_bootstrap s \<subseteq> ag_trust_roots (sy_core (peers_reload_tick E read_ok s))"
    using 5 by (auto simp: agent_inv_def peers_reload_tick_def split: option.split sum.split)
  then show ?case using agent_inv_frame [OF 5] by (simp add: step_frames)
qed (use agent_inv_frame agent_inv_trust in \<open>simp_all add: serve_ticket_inv end_connection_inv step_frames\<close>)

lemma agent_run_inv: "agent_inv s \<Longrightarrow> agent_inv (agent_run E s evs)"
  by (induction evs arbitrary: s) (simp_all add: agent_step_inv)


lemma live_origin:
  assumes "agent_inv s0" and "sy_live s0 = []" and "map_of (sy_live (agent_run E s0 evs)) key = Some session"
  shows "\<exists>pre h post ack core. evs = pre @ TicketConnection h # post \<and>
    ticket_serve_connection (en_crypto E) (en_offer E) h (sy_core (agent_run E s0 pre)) = (Inr (ack, Some (key, session)), core) \<and>
    ConnectionEnd key \<notin> set post"
  using assms(3)
proof (induction evs rule: rev_induct)
  case Nil
  then show ?case using assms(2) by simp
next
  case (snoc ev evs)
  let ?s = "agent_run E s0 evs"
  show ?case
  proof (cases "map_of (sy_live ?s) key = Some session \<and> ev \<noteq> ConnectionEnd key")
    case True
    with snoc.IH show ?thesis by (metis append.assoc append_Cons set_append UnE set_ConsD empty_iff list.set(1))
  next
    case False
    have "\<exists>h ack core. ev = TicketConnection h \<and>
        ticket_serve_connection (en_crypto E) (en_offer E) h (sy_core ?s) = (Inr (ack, Some (key, session)), core)"
    proof (cases ev)
      case (TicketConnection h)
      show ?thesis
      proof (cases rule: serve_ticket_cases [of E h ?s])
        case (session ack k sess core)
        then show ?thesis using snoc.prems False TicketConnection by (auto simp: update_conv split: if_splits)
      next
        case (none r core)
        then show ?thesis using snoc.prems False TicketConnection by simp
      qed
    next
      case (ConnectionEnd k)
      have "distinct (map fst (sy_live ?s))" using agent_run_inv [OF assms(1)] by (simp add: agent_inv_def)
      then show ?thesis
        using snoc.prems False ConnectionEnd by (auto simp: end_connection_def delete_conv' split: if_splits)
    qed (use snoc.prems False in \<open>auto simp: step_frames\<close>)
    then show ?thesis by (metis empty_iff list.set(1))
  qed
qed

section \<open>Properties\<close>

text \<open>
  C11.  Nobody is connected without a ticket.  Whatever connections, edits of the files and runs of
  the tasks an agent has seen since its start, every session that is live was granted when its
  connection came in, to an offer whose root the agent trusted at that moment, and has not ended
  since; and the registry of connections shows exactly the live sessions with their issuers.
\<close>

theorem live_sessions_granted:
  assumes "s0 = start_agent roots self_id probe revocations mode health files" and "s = agent_run E s0 evs"
  shows "map fst (ag_connections (sy_core s)) = map fst (sy_live s) \<and>
    (\<forall>key session. map_of (sy_live s) key = Some session \<longrightarrow>
       (\<exists>row. map_of (ag_connections (sy_core s)) key = Some row \<and> ce_ticket_issuer_id row = ss_ticket_issuer_id session) \<and>
       (\<exists>pre h post ack core. evs = pre @ TicketConnection h # post \<and> ConnectionEnd key \<notin> set post \<and>
          ticket_serve_connection (en_crypto E) (en_offer E) h (sy_core (agent_run E s0 pre)) = (Inr (ack, Some (key, session)), core) \<and>
          ss_ticket_issuer_id session \<in> ag_trust_roots (sy_core (agent_run E s0 pre))))"
proof -
  have inv0: "agent_inv s0" "sy_live s0 = []" using assms(1) by (simp_all add: agent_inv_start) (simp add: start_agent_def Let_def)
  have inv: "agent_inv s" unfolding assms(2) by (rule agent_run_inv [OF inv0(1)])
  have "\<exists>pre h post ack core. evs = pre @ TicketConnection h # post \<and> ConnectionEnd key \<notin> set post \<and>
      ticket_serve_connection (en_crypto E) (en_offer E) h (sy_core (agent_run E s0 pre)) = (Inr (ack, Some (key, session)), core) \<and>
      ss_ticket_issuer_id session \<in> ag_trust_roots (sy_core (agent_run E s0 pre))"
    if "map_of (sy_live s) key = Some session" for key session
    using live_origin [OF inv0 that [unfolded assms(2)]] accepted_session by blast
  then show ?thesis using inv unfolding agent_inv_def by blast
qed

text \<open>
  C12.  The peers file decides who may connect.  After the file was read again, and until it is read
  the next time, a connection is only accepted on a root that the file trusts, as it was when it was
  read, or that was trusted when the agent started.
\<close>

theorem reload_decides_trust:
  assumes "pa_peers_path (en_paths E) = Some path"
    and "load_peers (px_store (en_pair E)) ok path (fl_peers (sy_files s)) = Inr store"
    and "s1 = agent_run E (agent_step E s (PeersTick ok)) evs" and "\<forall>ok'. PeersTick ok' \<notin> set evs"
    and "ticket_serve_connection (en_crypto E) (en_offer E) h (sy_core s1) = (Inr (ack, Some (key, session)), core)"
  shows "ss_ticket_issuer_id session \<in> trust_roots (px_store (en_pair E)) store \<union> sy_bootstrap s"
proof -
  have keep: "ag_trust_roots (sy_core (agent_run E s' evs)) = ag_trust_roots (sy_core s')" for s'
    using assms(4)
  proof (induction evs arbitrary: s')
    case (Cons ev evs)
    then have "ag_trust_roots (sy_core (agent_step E s' ev)) = ag_trust_roots (sy_core s')"
      by (cases ev) (auto simp: step_frames end_connection_def connection_ended_def)
    then show ?case using Cons by simp
  qed simp
  have "ss_ticket_issuer_id session \<in> ag_trust_roots (sy_core s1)" using accepted_session [OF assms(5)] by blast
  then show ?thesis using assms(1,2) unfolding assms(3) keep by (simp add: peers_reload_tick_def)
qed

text \<open>
  C39.  A peer that was there at the start cannot be removed.  Every root of the peers file that the
  agent started with stays trusted in every run, whatever the file says later: the roots of the
  start are kept as a set of their own, which is added again each time the file is read.
\<close>

theorem startup_peer_stays_trusted:
  assumes "config_trust_roots X ok path content env_roots = Inr roots"
    and "load_peers X ok path content = Inr store" and "r \<in> trust_roots X store"
    and "s0 = start_agent roots self_id probe revocations mode health files"
  shows "r \<in> ag_trust_roots (sy_core (agent_run E s0 evs))"
proof -
  have "sy_bootstrap (agent_run E s' evs) = sy_bootstrap s'" for s'
  proof (induction evs arbitrary: s')
    case (Cons ev evs)
    have "sy_bootstrap (agent_step E s' ev) = sy_bootstrap s'" by (cases ev) (simp_all add: step_frames end_connection_def)
    then show ?case using Cons by simp
  qed simp
  moreover have "r \<in> sy_bootstrap s0"
    using assms by (auto simp: config_trust_roots_def start_agent_def Let_def res_bind_Inr_iff map_err_Inr_iff)
  moreover have "agent_inv (agent_run E s0 evs)" using assms(4) agent_inv_start agent_run_inv by blast
  ultimately show ?thesis using agent_inv_trust by blast
qed


definition demo_env :: agent_env where
  "demo_env = \<lparr>en_crypto = demo_codec demo_child, en_offer = (\<lambda>_. Some (in_offer (demo_input Listener))), en_pair = demo_pair,
     en_pair_from = (\<lambda>_. None), en_pair_to = (\<lambda>_. None),
     en_paths = demo_agent\<lparr>pa_peers_path := Some ''peers.json''\<rparr>, en_rev = demo_rev\<rparr>"

definition demo_start :: "key32 set \<Rightarrow> PairFiles \<Rightarrow> AgentSys" where
  "demo_start roots files =
     start_agent roots (replicate 32 200) None (in_revocations (demo_input Listener)) Listener (new_health 0) files"

definition no_files :: PairFiles where
  "no_files = \<lparr>fl_peers = None, fl_invites = None\<rparr>"

lemma demo_start_core: "sy_core (demo_start {replicate 32 1} files) = demo_core"
  by (simp add: demo_start_def start_agent_def demo_core_def Let_def)

lemma demo_core_session:
  "\<exists>ack s a'. ticket_serve_connection (en_crypto demo_env) (en_offer demo_env) demo_handshake demo_core =
     (Inr (ack, Some ((replicate 32 4, 1), s)), a')"
proof -
  have "demo_core\<lparr>ag_self := replicate 32 200\<rparr> = demo_core" by (simp add: demo_core_def)
  then show ?thesis using demo_session [of "replicate 32 200"] by (simp add: demo_env_def)
qed

theorem live_sessions_granted_witness:
  "\<exists>session. map_of (sy_live (agent_run demo_env (demo_start {replicate 32 1} no_files) [TicketConnection demo_handshake]))
      (replicate 32 4, 1) = Some session \<and> ss_ticket_issuer_id session \<in> {replicate 32 1}"
proof -
  obtain ack s a' where r: "ticket_serve_connection (en_crypto demo_env) (en_offer demo_env) demo_handshake
      (sy_core (demo_start {replicate 32 1} no_files)) = (Inr (ack, Some ((replicate 32 4, 1), s)), a')"
    using demo_core_session unfolding demo_start_core by blast
  have live: "map_of (sy_live (agent_run demo_env (demo_start {replicate 32 1} no_files) [TicketConnection demo_handshake]))
      (replicate 32 4, 1) = Some s"
    using r by (simp add: serve_ticket_def update_conv)
  from live_sessions_granted [OF demo_start_def refl, of demo_env "{replicate 32 1}" no_files "[TicketConnection demo_handshake]"] live
  obtain pre h post where "[TicketConnection demo_handshake] = pre @ TicketConnection h # post"
      "ss_ticket_issuer_id s \<in> ag_trust_roots (sy_core (agent_run demo_env (demo_start {replicate 32 1} no_files) pre))"
    by blast
  then show ?thesis using live by (cases pre) (simp_all add: demo_start_core demo_core_def)
qed

theorem reload_decides_trust_witness:
  "\<exists>ack session core. ticket_serve_connection (en_crypto demo_env) (en_offer demo_env) demo_handshake
      (sy_core (agent_run demo_env (agent_step demo_env (demo_start {replicate 32 1} no_files) (PeersTick True)) [])) =
      (Inr (ack, Some ((replicate 32 4, 1), session)), core) \<and>
     ss_ticket_issuer_id session \<in> trust_roots (px_store demo_pair) new_peers \<union> {replicate 32 1}"
proof -
  have env: "pa_peers_path (en_paths demo_env) = Some ''peers.json''" "en_pair demo_env = demo_pair" by (simp_all add: demo_env_def)
  have load: "load_peers (px_store (en_pair demo_env)) True ''peers.json'' (fl_peers (sy_files (demo_start {replicate 32 1} no_files))) = Inr new_peers"
    by (simp add: env demo_start_def start_agent_def no_files_def demo_peers_loaded Let_def)
  have boot: "sy_bootstrap (demo_start {replicate 32 1} no_files) = {replicate 32 1}" by (simp add: demo_start_def start_agent_def Let_def)
  have "trust_roots (px_store demo_pair) new_peers = {}" by (simp add: trust_roots_def new_peers_def map_filter_def)
  then have "sy_core (agent_run demo_env (agent_step demo_env (demo_start {replicate 32 1} no_files) (PeersTick True)) []) = demo_core"
    using load env boot by (simp add: peers_reload_tick_def demo_start_core) (simp add: demo_core_def)
  then obtain ack s a' where r: "ticket_serve_connection (en_crypto demo_env) (en_offer demo_env) demo_handshake
      (sy_core (agent_run demo_env (agent_step demo_env (demo_start {replicate 32 1} no_files) (PeersTick True)) [])) =
      (Inr (ack, Some ((replicate 32 4, 1), s)), a')"
    using demo_core_session by metis
  from reload_decides_trust [OF env(1) load refl _ this] this show ?thesis by (auto simp: env boot)
qed

theorem startup_peer_stays_trusted_witness:
  "demo_caller 17 \<in> ag_trust_roots (sy_core (agent_run demo_env (demo_start (trust_roots (px_store demo_pair) demo_peers2) demo_fs)
     [FilesEdited no_files, PeersTick True])) \<and> demo_caller 17 \<notin> trust_roots (px_store demo_pair) new_peers"
proof
  have config: "config_trust_roots (px_store demo_pair) True ''peers.json'' (Some ''p'') None = Inr (trust_roots (px_store demo_pair) demo_peers2)"
    by (simp add: config_trust_roots_def demo_peers_loaded)
  have "demo_caller 17 \<in> trust_roots (px_store demo_pair) demo_peers2" by (simp add: demo_trust)
  from startup_peer_stays_trusted [OF config demo_peers_loaded(3) this demo_start_def]
  show "demo_caller 17 \<in> ag_trust_roots (sy_core (agent_run demo_env (demo_start (trust_roots (px_store demo_pair) demo_peers2) demo_fs)
     [FilesEdited no_files, PeersTick True]))" .
  show "demo_caller 17 \<notin> trust_roots (px_store demo_pair) new_peers" by (simp add: trust_roots_def new_peers_def map_filter_def)
qed

end
