(* ===== verification/Connect.thy ===== *)
theory Connect
  imports Agent Target_Resolve
begin

text \<open>
  From pairing to a session, across the components: what the inviter's agent records when a
  pairing request is granted, what the acceptor stores, the ticket that a label resolves to, and
  its acceptance by the inviter's agent.  Nothing of the program is defined here.
\<close>

section \<open>The inviter's side\<close>

lemma pair_ok_granted:
  assumes "pair_laws X" and "length caller = 32"
    and "load_peers (px_store X) (io_read_peers io) (peers_path a) (fl_peers fs) = Inr peers" and "peers_inv peers"
    and "handle_pair X a io now caller request fs = Some (Inr resp, fs')" and "rs_result resp = PairOk"
  shows "pair_granted X a io now caller request peers fs fs'"
proof (cases rule: handle_pair_cases [of X a io now caller request fs])
  case (granted r fs'' ps invite p peers' chosen content)
  have "p = peers" "fs'' = fs'" using granted(1,7) assms(3,5) by simp_all
  then show ?thesis
    using insert_granted [OF assms(1,2,4,3) granted(3-6) _ _ granted(10)] granted(8,9,11) by simp
qed (use assms(5,6) in auto)

lemma paired_trusted:
  assumes "pair_granted X a io now caller request peers fs fs'" and "rq_initiator request \<in> {Mutual, Them}"
  shows "\<exists>peers'. load_peers (px_store X) True (peers_path a) (fl_peers fs') = Inr peers' \<and> caller \<in> trust_roots (px_store X) peers'"
  using assms unfolding pair_granted_def by auto

lemma trusted_after_tick:
  assumes "pa_peers_path (en_paths E) = Some path" and "load_peers (px_store (en_pair E)) True path (fl_peers (sy_files s)) = Inr peers"
    and "r \<in> trust_roots (px_store (en_pair E)) peers"
  shows "r \<in> ag_trust_roots (sy_core (agent_step E s (PeersTick True)))"
    and "ag_revocations (sy_core (agent_step E s (PeersTick True))) = ag_revocations (sy_core s)"
    and "ag_mode (sy_core (agent_step E s (PeersTick True))) = ag_mode (sy_core s)"
  using assms by (simp_all add: peers_reload_tick_def)

section \<open>The acceptor's side\<close>

lemma save_accepted_peer_stored:
  assumes "store_laws X" and "load_peers X True path content = Inr peers" and "peers_inv peers"
    and "save_accepted_peer X True True path code self_label hint now content = (Inr acc, Some content')"
  shows "\<exists>peers' e. load_peers X True path (Some content') = Inr peers' \<and> get_by_label (ap_label acc) peers' = Some e \<and>
    pe_endpoint_id_hex e = sx_hex X (ic_inviter_eid code) \<and> last_hold_at e = None \<and> relay_hint e = hint \<and>
    (they_accept_from_me e \<longleftrightarrow> ic_initiator code \<in> {Mutual, Them})"
proof -
  define e where "e = paired_entry (choose_local_label peers self_label (sx_hex X (ic_inviter_eid code)))
    (sx_hex X (ic_inviter_eid code)) (acceptor_peer_flags (mode_relationship (ic_initiator code))) now hint"
  obtain peers' where ins: "insert_or_update e peers = Inr peers'" and label: "ap_label acc = pe_label e"
    and json: "sx_peers_json X peers' = Some content'"
    using assms(2,4)
    by (auto simp: save_accepted_peer_def Let_def e_def [symmetric] res_bind_Inr_iff map_err_Inr_iff save_peers_def
        split: sum.splits option.splits if_splits) (auto simp: e_def paired_entry_def)
  have "load_peers X True path (Some content') = Inr peers'"
    using reload_peers [OF assms(1) json] insert_or_update_ok(3) [OF assms(3) ins] load_peers_schema [OF assms(2)] by simp
  moreover have "get_by_label (pe_label e) peers' = Some e"
    using get_by_label_iff [OF insert_or_update_inv [OF assms(3) ins]] insert_or_update_ok(2) [OF assms(3) ins] by simp
  moreover have "they_accept_from_me e \<longleftrightarrow> ic_initiator code \<in> {Mutual, Them}"
    by (cases "ic_initiator code") (simp_all add: e_def paired_entry_def acceptor_peer_flags_def)
  ultimately show ?thesis unfolding label by (auto simp: e_def paired_entry_def)
qed

lemma accepted_peer_resolves:
  assumes laws: "store_laws (rx_store R)" "ed25519_correct (rx_crypto R)"
    and accepted: "load_peers (rx_store R) True (sf_peers_path fs) (sf_peers fs) = Inr mine" "peers_inv mine"
      "save_accepted_peer (rx_store R) True True (sf_peers_path fs) code self_label hint now (sf_peers fs) = (Inr acc, Some content)"
      "ic_initiator code \<in> {Mutual, Them}"
    and address: "length (ic_inviter_eid code) = 32" "ex_key_valid (rx_crypto R) (ic_inviter_eid code)"
      "\<forall>h. hint = Some h \<longrightarrow> rx_relay_url R h \<noteq> None"
    and typed: "trim target = ap_label acc" "ap_label acc \<noteq> []" "sx_decode_ticket (rx_store R) (ap_label acc) = Inl err"
    and files_ok: "sf_read_ok fs" "load_tickets (rx_store R) True (sf_tickets_path fs) (sf_tickets fs) = Inr tickets"
    and mint: "can_mint R draws options"
  shows "\<exists>r. resolve_target R draws options (fs\<lparr>sf_peers := Some content\<rparr>) target = Some (Inr r) \<and>
    own_ticket R options (ic_inviter_eid code) (rt_ticket r) \<and> rt_expires_at r = bd_not_after (tk_body (rt_ticket r))"
proof -
  obtain mine' e where e: "load_peers (rx_store R) True (sf_peers_path fs) (Some content) = Inr mine'"
      "get_by_label (ap_label acc) mine' = Some e" "pe_endpoint_id_hex e = sx_hex (rx_store R) (ic_inviter_eid code)"
      "last_hold_at e = None" "relay_hint e = hint" "they_accept_from_me e"
    using save_accepted_peer_stored [OF laws(1) accepted(1-3)] accepted(4) by auto
  have eid: "endpoint_id_from_hex R (pe_endpoint_id_hex e) = Inr (ic_inviter_eid code)"
    using laws(1) address e(3) by (simp add: endpoint_id_from_hex_def store_laws_def)
  then have "reachable_peer R e" using e(4-6) address(3) by (simp add: reachable_peer_def)
  then obtain r where r: "resolve_target R draws options (fs\<lparr>sf_peers := Some content\<rparr>) target = Some (Inr r)" "rt_source r = PeerStoreSource"
    using resolve_peer [OF mint, of target err "fs\<lparr>sf_peers := Some content\<rparr>" mine' tickets e] typed files_ok e(1,2) by auto
  have rl: "resolve_label R draws options mine' tickets (ap_label acc) = Some (Inr r)"
    using r(1) typed files_ok e(1) by (simp add: resolve_target_def Let_def)
  show ?thesis
    using resolve_label_reached [OF laws(2) rl] r e(2) eid by (auto simp: target_reached_def)
qed


section \<open>The handshake\<close>

text \<open>
  A client that presents a ticket and proves that it holds the key the ticket is bound to.
\<close>

definition presents :: "agent_env \<Rightarrow> signing_key \<Rightarrow> PortlTicket \<Rightarrow> Handshake \<Rightarrow> u64 \<Rightarrow> bool" where
  "presents E sk t h now \<longleftrightarrow> hs_clock h = Some now \<and> hs_sent h \<and> hs_rate_ok h \<and>
     (\<exists>bs offer. hs_offer h = Some bs \<and> length bs \<le> MAX_OFFER_BYTES \<and> en_offer E bs = Some offer \<and>
        decode (en_crypto E) (of_ticket offer) = Inr t \<and> of_chain offer = [] \<and>
        of_proof offer = Some (compute_pop_sig (en_crypto E) sk (ticket_id (en_crypto E) (tk_sig t)) (of_client_nonce offer)))"

lemma bound_ticket_session:
  assumes "ed25519_correct (en_crypto E)" and "presents E sk t h now"
    and "verify_chain (en_crypto E) t [] (ag_trust_roots a) now = Inr caps"
    and "bd_to (tk_body t) = Some (ex_verifying_key (en_crypto E) sk)" and "bd_bearer (tk_body t) = None" and "ag_mode a = Listener"
    and "\<not> contains (ag_revocations a) (ticket_id (en_crypto E) (tk_sig t))"
  shows "\<exists>ack s a'. ticket_serve_connection (en_crypto E) (en_offer E) h a = (Inr (ack, Some ((hs_source h, hs_stable_id h), s)), a') \<and>
    ss_caps s = caps \<and> ss_ticket_issuer_id s = resolved_issuer t"
proof -
  let ?X = "en_crypto E"
  from assms(2) obtain bs offer where h: "hs_clock h = Some now" "hs_sent h" "hs_rate_ok h" "hs_offer h = Some bs"
      "length bs \<le> MAX_OFFER_BYTES" "en_offer E bs = Some offer" "decode ?X (of_ticket offer) = Inr t" "of_chain offer = []"
      "of_proof offer = Some (compute_pop_sig ?X sk (ticket_id ?X (tk_sig t)) (of_client_nonce offer))"
    unfolding presents_def by blast
  let ?inp = "input_of h now offer a"
  have "possession_shown ?X t offer"
    using assms(1,4) h(9) by (auto simp: possession_shown_def verify_pop_ok compute_pop_sig_def ed25519_correct_def)
  then have "acceptable ?X ?inp [] t"
    using assms(3,5-7) h(3) by (simp add: acceptable_def input_of_def verify_chain_ok)
  moreover have "offer_tickets ?X (in_offer ?inp) [] t" using h(7,8) by (simp add: offer_tickets_def input_of_def)
  ultimately have "evaluate_offer ?X ?inp = acceptance ?X ?inp [] t" by (intro evaluate_offer_accepts)
  moreover obtain s where s: "session_of (hs_source h) (acceptance ?X ?inp [] t) = Some s"
    by (simp add: session_of_def acceptance_def)
  moreover have "ss_caps s = caps" "ss_ticket_issuer_id s = resolved_issuer t"
    using s assms(3) by (auto simp: session_of_def acceptance_def verify_chain_ok)
  ultimately show ?thesis
    using handshake_accepts [of h bs now "en_offer E" offer ?X a s] h(1,2,4-6) by auto
qed

lemma own_ticket_session:
  assumes "ed25519_correct (en_crypto E)" and "rx_crypto R = en_crypto E" and "own_ticket R options endpoint t"
    and "presents E (ro_identity options) t h now" and "ro_now_unix options \<le> now" and "now < bd_not_after (tk_body t)"
    and "ex_verifying_key (en_crypto E) (ro_identity options) \<in> ag_trust_roots a" and "ag_mode a = Listener"
    and "\<not> contains (ag_revocations a) (ticket_id (en_crypto E) (tk_sig t))"
  shows "\<exists>ack s a'. ticket_serve_connection (en_crypto E) (en_offer E) h a = (Inr (ack, Some ((hs_source h, hs_stable_id h), s)), a') \<and>
    ss_caps s = ro_caps options \<and> ss_ticket_issuer_id s = ex_verifying_key (en_crypto E) (ro_identity options)"
proof -
  let ?X = "en_crypto E" and ?me = "ex_verifying_key (en_crypto E) (ro_identity options)"
  have t: "bd_to (tk_body t) = Some ?me" "bd_bearer (tk_body t) = None"
    using assms(2,3) by (simp_all add: own_ticket_def Let_def)
  have ok: "verify_chain ?X t [] (ag_trust_roots a) now = Inr (ro_caps options)" "verify_chain ?X t [] {?me} now = Inr (ro_caps options)"
    using assms(2,3,5-7) by (auto simp: own_ticket_def Let_def)
  have "resolved_issuer t = ?me" using ok(2) by (auto simp: verify_chain_ok sound_chain_def sound_root_def)
  then show ?thesis using bound_ticket_session [OF assms(1,4) ok(1) t assms(8,9)] by simp
qed

section \<open>Properties\<close>

text \<open>
  C7.  Paired machines can connect.  Suppose a pairing request was answered positively by the
  inviter's agent for an invite that lets the acceptor in, and the acceptor stored the inviter under
  a label.  Then the label resolves to a ticket, and when the inviter's agent has read its peers
  file again, the acceptor who presents this ticket during its life, with proof of its key, gets a
  session with exactly the capabilities it asked for, as long as the ticket is not revoked.
\<close>

theorem paired_machines_connect:
  assumes laws: "pair_laws (en_pair E)" "ed25519_correct (en_crypto E)" "store_laws (rx_store R)" "rx_crypto R = en_crypto E"
    and key: "me = ex_verifying_key (en_crypto E) (ro_identity options)" "length me = 32"
    and inviter: "pa_peers_path (en_paths E) = Some path" "ag_mode (sy_core s) = Listener"
      "load_peers (px_store (en_pair E)) (io_read_peers io) path (fl_peers (sy_files s)) = Inr peers" "peers_inv peers"
    and granted: "handle_pair (en_pair E) (en_paths E) io now me request (sy_files s) = Some (Inr resp, files)"
      "rs_result resp = PairOk" "rq_initiator request \<in> {Mutual, Them}"
    and accepted: "load_peers (rx_store R) True (sf_peers_path fs) (sf_peers fs) = Inr mine" "peers_inv mine"
      "save_accepted_peer (rx_store R) True True (sf_peers_path fs) code (rs_responder_self_label resp) hint now (sf_peers fs) =
         (Inr acc, Some content)" "ic_initiator code = rq_initiator request"
    and address: "length (ic_inviter_eid code) = 32" "ex_key_valid (rx_crypto R) (ic_inviter_eid code)"
      "\<forall>h. hint = Some h \<longrightarrow> rx_relay_url R h \<noteq> None"
    and typed: "trim target = ap_label acc" "ap_label acc \<noteq> []" "sx_decode_ticket (rx_store R) (ap_label acc) = Inl err"
    and files_ok: "sf_read_ok fs" "load_tickets (rx_store R) True (sf_tickets_path fs) (sf_tickets fs) = Inr tickets"
    and mint: "can_mint R draws options"
  shows "\<exists>r. resolve_target R draws options (fs\<lparr>sf_peers := Some content\<rparr>) target = Some (Inr r) \<and>
    ea_id (tk_addr (rt_ticket r)) = ic_inviter_eid code \<and>
    (\<forall>h t. presents E (ro_identity options) (rt_ticket r) h t \<and> ro_now_unix options \<le> t \<and> t < rt_expires_at r \<and>
       \<not> contains (ag_revocations (sy_core s)) (ticket_id (en_crypto E) (tk_sig (rt_ticket r))) \<longrightarrow>
       (\<exists>ack session core. ticket_serve_connection (en_crypto E) (en_offer E) h
            (sy_core (agent_run E s [FilesEdited files, PeersTick True])) = (Inr (ack, Some ((hs_source h, hs_stable_id h), session)), core) \<and>
          ss_caps session = ro_caps options \<and> ss_ticket_issuer_id session = me))"
proof -
  have path: "peers_path (en_paths E) = path" using inviter(1) by (simp add: peers_path_def)
  obtain peers' where trusted: "load_peers (px_store (en_pair E)) True path (fl_peers files) = Inr peers'"
      "me \<in> trust_roots (px_store (en_pair E)) peers'"
    using paired_trusted [OF pair_ok_granted [OF laws(1) key(2) _ inviter(4) granted(1,2)] granted(3)] inviter(3) path by auto
  let ?s = "agent_run E s [FilesEdited files, PeersTick True]"
  have core: "me \<in> ag_trust_roots (sy_core ?s)" "ag_revocations (sy_core ?s) = ag_revocations (sy_core s)" "ag_mode (sy_core ?s) = Listener"
    using trusted_after_tick [OF inviter(1), of "s\<lparr>sy_files := files\<rparr>" peers' me] trusted inviter(2) by simp_all
  obtain r where r: "resolve_target R draws options (fs\<lparr>sf_peers := Some content\<rparr>) target = Some (Inr r)"
      "own_ticket R options (ic_inviter_eid code) (rt_ticket r)" "rt_expires_at r = bd_not_after (tk_body (rt_ticket r))"
    using accepted_peer_resolves [OF laws(3) _ accepted(1-3) _ address typed files_ok mint] laws(2,4) accepted(4) granted(3) by auto
  show ?thesis
    using r own_ticket_session [OF laws(2,4) r(2), of _ _ "sy_core ?s"] core key(1)
    by (intro exI [of _ r]) (auto simp: own_ticket_def Let_def)
qed


text \<open>
  Labels are not kept apart across the two stores when a machine is paired.  A label that
  reaches a saved ticket is taken over by the machine that is paired next if that machine gives the
  label as its own name: from then on the label resolves to a ticket for the paired machine.
\<close>

lemma paired_label_reroutes:
  assumes laws: "store_laws (rx_store R)" "ed25519_correct (rx_crypto R)"
    and before: "resolve_target R draws options fs label = Some (Inr old)" "rt_source old = TicketStoreSource" "trim label = label"
    and accepted: "load_peers (rx_store R) True (sf_peers_path fs) (sf_peers fs) = Inr mine" "peers_inv mine"
      "\<not> peer_label_in_use mine label" "ic_initiator code \<in> {Mutual, Them}"
      "save_accepted_peer (rx_store R) True True (sf_peers_path fs) code (Some label) hint now (sf_peers fs) = (Inr acc, Some content)"
    and address: "length (ic_inviter_eid code) = 32" "ex_key_valid (rx_crypto R) (ic_inviter_eid code)"
      "\<forall>h. hint = Some h \<longrightarrow> rx_relay_url R h \<noteq> None" "sf_read_ok fs"
    and mint: "can_mint R draws options"
  shows "\<exists>r. resolve_target R draws options (fs\<lparr>sf_peers := Some content\<rparr>) label = Some (Inr r) \<and>
    ea_id (tk_addr (rt_ticket r)) = ic_inviter_eid code"
proof -
  have label: "ap_label acc = label"
    using accepted(1,3,5) by (auto simp: save_accepted_peer_def choose_local_label_def Let_def res_bind_Inr_iff
        split: sum.splits option.splits if_splits)
  obtain err tickets where "label \<noteq> []" "sx_decode_ticket (rx_store R) label = Inl err"
      "load_tickets (rx_store R) True (sf_tickets_path fs) (sf_tickets fs) = Inr tickets"
    using before address(4)
    by (auto simp: resolve_target_def resolved_ticket_def Let_def res_bind_Inr_iff split: sum.splits if_splits)
  then show ?thesis
    using accepted_peer_resolves [OF laws accepted(1,2,5,4) address(1-3) _ _ _ address(4) _ mint] label before(3)
    by (fastforce simp: own_ticket_def Let_def)
qed

section \<open>An instance\<close>

text \<open>
  A machine with the key 17\<dots>17 accepts an invite of the machine with the key 34\<dots>34.
\<close>

definition demo_own_ticket :: PortlTicket where
  "demo_own_ticket = \<lparr>tk_v = 1, tk_addr = \<lparr>ea_id = demo_caller 34, ea_transport = []\<rparr>,
     tk_body = \<lparr>bd_caps = interactive_shell_caps, bd_target = demo_caller 34, bd_alpns_extra = [],
       bd_not_before = 200, bd_not_after = 500, bd_issuer = Some (demo_caller 17), bd_parent = None,
       bd_nonce = replicate 8 9, bd_bearer = None, bd_to = Some (demo_caller 17)\<rparr>, tk_sig = demo_caller 17 @ replicate 8 9\<rparr>"

definition demo_own_offer :: TicketOffer where
  "demo_own_offer = \<lparr>of_ticket = demo_caller 17 @ replicate 8 9, of_chain = [],
     of_proof = Some (compute_pop_sig (demo_codec demo_own_ticket) (demo_caller 17)
       (ticket_id (demo_codec demo_own_ticket) (demo_caller 17 @ replicate 8 9)) (replicate 16 3)),
     of_client_nonce = replicate 16 3\<rparr>"

definition demo_inviter :: agent_env where
  "demo_inviter = demo_env\<lparr>en_crypto := demo_codec demo_own_ticket, en_offer := (\<lambda>_. Some demo_own_offer)\<rparr>"

definition demo_own_peers :: PeerStore where
  "demo_own_peers = new_peers\<lparr>ps_entries := [demo_peer ''22222222'' 34]\<rparr>"

definition demo_acceptor :: resolve_externs where
  "demo_acceptor = \<lparr>rx_crypto = demo_codec demo_own_ticket, rx_store = demo_stores [demo_own_peers] [] demo_saved_ticket,
     rx_encode_ticket = (\<lambda>_. ''minted''), rx_relay_url = (\<lambda>_. None)\<rparr>"

definition demo_inviter_code :: InviteCode where
  "demo_inviter_code = new_invite_code (demo_caller 34) [7] 500 Mutual None"

lemma demo_codec_laws: "ed25519_correct (demo_codec t)" "postcard_total (demo_codec t)"
  using demo_laws by (simp_all add: ed25519_correct_def postcard_total_def demo_codec_def)

lemma read_invites_found:
  "read_invites_step X a io now request fs = PFound ps invite \<Longrightarrow>
   read_invites_step X (a\<lparr>pa_peers_path := q\<rparr>) io now request fs = PFound ps invite"
  by (auto simp: read_invites_step_def respond_def split: if_splits sum.splits option.splits)

lemma read_peers_insert:
  "peers_path a = q \<Longrightarrow> read_peers_step X a io now caller request ps invite fs = PInsert ps' peers chosen \<Longrightarrow>
   read_peers_step X (a\<lparr>pa_peers_path := Some q\<rparr>) io now caller request ps invite fs = PInsert ps' peers chosen"
proof -
  have "peers_path (a\<lparr>pa_peers_path := Some q\<rparr>) = q" by (simp add: peers_path_def)
  then show "peers_path a = q \<Longrightarrow> read_peers_step X a io now caller request ps invite fs = PInsert ps' peers chosen \<Longrightarrow>
    read_peers_step X (a\<lparr>pa_peers_path := Some q\<rparr>) io now caller request ps invite fs = PInsert ps' peers chosen"
    by (simp add: read_peers_step_def split: sum.splits)
qed

lemma demo_inviter_pairs:
  "\<exists>resp fs'. handle_pair demo_pair (en_paths demo_inviter) demo_io 100 (demo_caller 17) demo_request demo_fs = Some (Inr resp, fs') \<and>
     rs_result resp = PairOk \<and> rs_responder_self_label resp = None"
proof -
  have paths: "en_paths demo_inviter = demo_agent\<lparr>pa_peers_path := Some ''peers.json''\<rparr>" "peers_path demo_agent = ''peers.json''"
    by (simp_all add: demo_inviter_def demo_env_def demo_agent_def peers_path_def)
  have io: "io_read_peers demo_io" by (simp add: demo_io_def)
  have "find is_self (map snd (ps_entries demo_peers1)) = None"
    by (simp add: demo_peers1_def new_peers_def demo_peer_def paired_entry_def)
  then show ?thesis
    unfolding paths(1)
    by (subst demo_files_None)
       (simp add: handle_pair_def funpow_four read_invites_found [OF demo_read_invites] read_peers_insert [OF paths(2) demo_read_peers(1)]
         demo_used demo_io_fields demo_store_fields demo_pair_hex(1) save_peers_def respond_def responder_self_label_def
         demo_peers_loaded io Let_def del: hex_of.simps)
qed


lemma demo_acceptor_saves:
  "\<exists>acc. save_accepted_peer (rx_store demo_acceptor) True True ''peers.json'' demo_inviter_code None None 100 None = (Inr acc, Some '''') \<and>
     ap_label acc = ''22222222''"
proof -
  have store: "rx_store demo_acceptor = demo_stores [demo_own_peers] [] demo_saved_ticket" by (simp add: demo_acceptor_def)
  have label: "choose_local_label new_peers None (hex_of (demo_caller 34)) = ''22222222''" by code_simp
  have "insert_or_update (paired_entry ''22222222'' (hex_of (demo_caller 34)) (True, True) 100 None) new_peers = Inr demo_own_peers"
    by (simp add: new_peers_def insert_or_update_def demo_own_peers_def demo_peer_def paired_entry_def)
  then show ?thesis
    unfolding store using label
    by (simp add: save_accepted_peer_def demo_stores_def load_peers_def demo_inviter_code_def new_invite_code_def acceptor_peer_flags_def
        save_peers_def Let_def del: hex_of.simps)
qed

lemma demo_own_mint:
  "can_mint demo_acceptor [replicate 8 9] demo_options"
  "mint_for demo_acceptor [replicate 8 9] demo_options \<lparr>ea_id = demo_caller 34, ea_transport = []\<rparr> context = Some (Inr demo_own_ticket)"
proof -
  show "can_mint demo_acceptor [replicate 8 9] demo_options"
    by (simp add: can_mint_def demo_options_def demo_acceptor_def demo_codec_laws interactive_shell_caps_canonical)
  have "canonical_ticket demo_own_ticket"
    using interactive_shell_caps_canonical by (simp add: canonical_ticket_def canonical_body_def demo_own_ticket_def demo_caller_def)
  then have "mint_root (demo_codec t) [replicate 8 9] (demo_caller 17) \<lparr>ea_id = demo_caller 34, ea_transport = []\<rparr>
      interactive_shell_caps 200 500 (Some (demo_caller 17)) = Some (Inr demo_own_ticket)" for t
    by (simp add: mint_root_def seal_ok)
       (simp add: demo_own_ticket_def issuer_for_def demo_codec_def demo_externs_def demo_caller_def)
  moreover have "ex_verifying_key (demo_codec t) k = k" for t k by (simp add: demo_codec_def demo_externs_def)
  ultimately show "mint_for demo_acceptor [replicate 8 9] demo_options \<lparr>ea_id = demo_caller 34, ea_transport = []\<rparr> context = Some (Inr demo_own_ticket)"
    by (simp add: mint_for_def demo_acceptor_def demo_options_def demo_caller_def)
qed


lemma demo_acceptor_fields:
  "rx_store demo_acceptor = demo_stores [demo_own_peers] [] demo_saved_ticket" "rx_crypto demo_acceptor = demo_codec demo_own_ticket"
  "rx_encode_ticket demo_acceptor t = ''minted''" "sx_decode_ticket (rx_store demo_acceptor) ''22222222'' = Inl ''malformed''"
  "load_tickets (rx_store demo_acceptor) True path None = Inr new_tickets" "load_peers (rx_store demo_acceptor) True path None = Inr new_peers"
  by (simp_all add: demo_acceptor_def demo_stores_def load_tickets_def load_peers_def)

lemma demo_key_valid: "ex_key_valid (demo_codec t) k" by (simp add: demo_codec_def demo_externs_def)

lemma demo_trim: "trim ''22222222'' = ''22222222''" by code_simp

lemma demo_resolved:
  "resolve_target demo_acceptor [replicate 8 9] demo_options (demo_files\<lparr>sf_peers := Some ''''\<rparr>) ''22222222'' =
     Some (Inr (resolved_ticket demo_own_ticket ''minted'' PeerStoreSource))"
proof -
  have load: "load_peers (rx_store demo_acceptor) True path (Some '''') = Inr demo_own_peers" for path
    by (simp add: demo_acceptor_fields(1) demo_stores_def load_peers_def) (simp add: demo_own_peers_def new_peers_def)
  have entry: "get_by_label ''22222222'' demo_own_peers = Some (paired_entry ''22222222'' (hex_of (demo_caller 34)) (True, True) 100 None)"
    by (simp add: get_by_label_def demo_own_peers_def demo_peer_def new_peers_def) (simp add: paired_entry_def)
  have "sx_unhex (rx_store demo_acceptor) (hex_of (demo_caller 34)) = Some (demo_caller 34)" "length (demo_caller 34) = 32"
    by (simp_all add: demo_acceptor_fields(1) demo_stores_def hex_of_laws demo_caller_def del: hex_of.simps)
  then have "endpoint_id_from_hex demo_acceptor (hex_of (demo_caller 34)) = Inr (demo_caller 34)"
    by (simp add: endpoint_id_from_hex_def demo_acceptor_fields(2) demo_key_valid)
  then have "mint_peer_ticket demo_acceptor [replicate 8 9] (paired_entry ''22222222'' (hex_of (demo_caller 34)) (True, True) 100 None)
      demo_options = Some (Inr demo_own_ticket)"
    by (simp add: mint_peer_ticket_def paired_entry_def demo_own_mint(2) del: hex_of.simps)
  moreover have "last_hold_at (paired_entry l h (True, True) n k) = None" "they_accept_from_me (paired_entry l h (True, True) n k)" for l h n k
    by (simp_all add: paired_entry_def)
  ultimately have "resolve_label demo_acceptor [replicate 8 9] demo_options demo_own_peers new_tickets ''22222222'' =
      Some (Inr (resolved_ticket demo_own_ticket ''minted'' PeerStoreSource))"
    unfolding resolve_label_def Let_def entry by (simp add: minted_def demo_acceptor_fields(3))
  then show ?thesis
    unfolding resolve_target_def Let_def demo_trim demo_acceptor_fields(4)
    by (simp add: demo_files_def load demo_acceptor_fields(5))
qed

definition demo_own_handshake :: Handshake where
  "demo_own_handshake = demo_handshake\<lparr>hs_source := demo_caller 17, hs_clock := Some 300\<rparr>"

lemma demo_presents: "presents demo_inviter (demo_caller 17) demo_own_ticket demo_own_handshake 300"
proof -
  have t: "canonical_ticket demo_own_ticket" "tk_sig demo_own_ticket = demo_caller 17 @ replicate 8 9"
    using interactive_shell_caps_canonical
    by (simp_all add: canonical_ticket_def canonical_body_def demo_own_ticket_def demo_caller_def)
  have "demo_caller 17 @ replicate 8 9 \<noteq> tk_sig demo_root" by (simp add: demo_root_def demo_caller_def)
  then have "decode (demo_codec demo_own_ticket) (demo_caller 17 @ replicate 8 9) = Inr demo_own_ticket"
    using t by (simp add: decode_def demo_codec_def demo_externs_def ok_or_def res_simps)
  then show ?thesis
    unfolding presents_def
    by (intro conjI exI [of _ "[]"] exI [of _ demo_own_offer])
       (simp_all add: demo_own_handshake_def demo_handshake_def demo_inviter_def demo_own_offer_def t(2))
qed


theorem paired_machines_connect_witness:
  "\<exists>resp files r ack session core.
     handle_pair demo_pair (en_paths demo_inviter) demo_io 100 (demo_caller 17) demo_request demo_fs = Some (Inr resp, files) \<and>
     rs_result resp = PairOk \<and>
     resolve_target demo_acceptor [replicate 8 9] demo_options (demo_files\<lparr>sf_peers := Some ''''\<rparr>) ''22222222'' = Some (Inr r) \<and>
     presents demo_inviter (demo_caller 17) (rt_ticket r) demo_own_handshake 300 \<and>
     ticket_serve_connection (en_crypto demo_inviter) (en_offer demo_inviter) demo_own_handshake
       (sy_core (agent_run demo_inviter (demo_start {} demo_fs) [FilesEdited files, PeersTick True])) =
       (Inr (ack, Some ((demo_caller 17, 1), session)), core) \<and>
     ss_caps session = interactive_shell_caps"
proof -
  obtain resp files where p: "handle_pair demo_pair (en_paths demo_inviter) demo_io 100 (demo_caller 17) demo_request demo_fs = Some (Inr resp, files)"
      "rs_result resp = PairOk" "rs_responder_self_label resp = None"
    using demo_inviter_pairs by blast
  obtain acc where acc: "save_accepted_peer (rx_store demo_acceptor) True True ''peers.json'' demo_inviter_code None None 100 None = (Inr acc, Some '''')"
      "ap_label acc = ''22222222''"
    using demo_acceptor_saves by blast
  have E: "en_pair demo_inviter = demo_pair" "en_crypto demo_inviter = demo_codec demo_own_ticket"
    "pa_peers_path (en_paths demo_inviter) = Some ''peers.json''"
    by (simp_all add: demo_inviter_def demo_env_def)
  have S: "sy_files (demo_start {} demo_fs) = demo_fs" "ag_mode (sy_core (demo_start {} demo_fs)) = Listener"
    "\<not> contains (ag_revocations (sy_core (demo_start {} demo_fs))) t" for t
    by (simp_all add: demo_start_def start_agent_def Let_def demo_input_def contains_def)
  have O: "ro_identity demo_options = demo_caller 17" "ro_caps demo_options = interactive_shell_caps" "ro_now_unix demo_options = 200"
    "ex_verifying_key (demo_codec t) k = k" "length (demo_caller b) = 32" for t k b
    by (simp_all add: demo_options_def demo_caller_def demo_codec_def demo_externs_def)
  have H: "hs_source demo_own_handshake = demo_caller 17" "hs_stable_id demo_own_handshake = 1"
    by (simp_all add: demo_own_handshake_def demo_handshake_def)
  have F: "sf_peers_path demo_files = ''peers.json''" "sf_peers demo_files = None" "sf_read_ok demo_files" "sf_tickets demo_files = None"
    "fl_peers demo_fs = None" "io_read_peers demo_io" "rq_initiator demo_request = Mutual" "ic_initiator demo_inviter_code = Mutual"
    "ic_inviter_eid demo_inviter_code = demo_caller 34"
    by (simp_all add: demo_files_def demo_fs_def demo_io_def demo_request_def demo_inviter_code_def new_invite_code_def)
  have L: "store_laws (rx_store demo_acceptor)" unfolding demo_acceptor_fields by (rule demo_stores_laws)
  have "demo_own_ticket = rt_ticket (resolved_ticket demo_own_ticket ''minted'' PeerStoreSource)"
    "rt_expires_at (resolved_ticket demo_own_ticket ''minted'' PeerStoreSource) = 500"
    by (simp_all add: resolved_ticket_def demo_own_ticket_def)
  moreover note paired_machines_connect [where E = demo_inviter and R = demo_acceptor and options = demo_options and
      me = "demo_caller 17" and path = "''peers.json''" and s = "demo_start {} demo_fs" and io = demo_io and peers = new_peers and
      now = 100 and request = demo_request and resp = resp and files = files and fs = demo_files and mine = new_peers and
      code = demo_inviter_code and hint = None and acc = acc and content = "''''" and target = "''22222222''" and
      err = "''malformed''" and tickets = new_tickets and draws = "[replicate 8 9]"]
  ultimately have "\<forall>h t. presents demo_inviter (demo_caller 17) demo_own_ticket h t \<and> 200 \<le> t \<and> t < 500 \<longrightarrow>
     (\<exists>ack session core. ticket_serve_connection (en_crypto demo_inviter) (en_offer demo_inviter) h
        (sy_core (agent_run demo_inviter (demo_start {} demo_fs) [FilesEdited files, PeersTick True])) =
        (Inr (ack, Some ((hs_source h, hs_stable_id h), session)), core) \<and> ss_caps session = interactive_shell_caps \<and>
        ss_ticket_issuer_id session = demo_caller 17)"
    using p acc demo_resolved
    by (simp add: E S O F demo_pair_laws demo_codec_laws L demo_acceptor_fields(2-6) new_peers_inv demo_peers_loaded
        demo_key_valid demo_own_mint demo_trim)
  from this [THEN spec, THEN spec, THEN mp, OF conjI, OF demo_presents] p(1,2) demo_resolved demo_presents
  show ?thesis by (fastforce simp: H resolved_ticket_def)
qed


definition demo_box_peers :: PeerStore where
  "demo_box_peers = new_peers\<lparr>ps_entries := [demo_peer ''box'' 34]\<rparr>"

definition demo_box :: resolve_externs where
  "demo_box = demo_resolve\<lparr>rx_store := demo_stores [demo_box_peers] [demo_tickets] demo_saved_ticket\<rparr>"

lemma demo_box_before:
  "resolve_target demo_box [replicate 8 9] demo_options (demo_files\<lparr>sf_tickets := Some ''''\<rparr>) ''box'' =
     Some (Inr (resolved_ticket demo_saved_ticket ''ticket'' TicketStoreSource))"
proof -
  have "trim ''box'' = ''box''" by code_simp
  then show ?thesis
    by (simp add: resolve_target_def resolve_label_def demo_box_def demo_resolve_def demo_stores_def demo_options_def demo_files_def
        load_peers_def load_tickets_def new_peers_def get_by_label_def get_ticket_def saved_target_def reject_expired_def
        demo_tickets_def demo_ticket_entry_def)
       (simp add: demo_saved_ticket_def)
qed

lemma demo_box_saves:
  "\<exists>acc. save_accepted_peer (rx_store demo_box) True True ''peers.json'' demo_inviter_code (Some ''box'') None 100 None = (Inr acc, Some '''')"
proof -
  have store: "rx_store demo_box = demo_stores [demo_box_peers] [demo_tickets] demo_saved_ticket" by (simp add: demo_box_def)
  have label: "choose_local_label new_peers (Some ''box'') h = ''box''" for h
    by (simp add: choose_local_label_def peer_label_in_use_def new_peers_def)
  have "insert_or_update (paired_entry ''box'' (hex_of (demo_caller 34)) (True, True) 100 None) new_peers = Inr demo_box_peers"
    by (simp add: new_peers_def insert_or_update_def demo_box_peers_def demo_peer_def paired_entry_def)
  then show ?thesis
    unfolding store using label
    by (simp add: save_accepted_peer_def demo_stores_def load_peers_def demo_inviter_code_def new_invite_code_def acceptor_peer_flags_def
        save_peers_def Let_def del: hex_of.simps)
qed

end
