(* ===== verification/Alias_Store.thy ===== *)
theory Alias_Store
  imports Peer_Store
begin

text \<open>
  The aliases of containers and virtual machines that portl manages
  (\<^verbatim>\<open>portl-cli/src/alias_store.rs\<close>).  The map of aliases is an association list in the order of
  its keys, the file its content if it exists, JSON a pair of functions.  Values of fields that a
  newer version wrote are carried along as they are.
\<close>

record AliasRecord =
  ar_name :: string
  ar_adapter :: string
  ar_container_id :: string
  ar_endpoint_id :: string
  ar_image :: string
  ar_network :: string
  ar_created_at :: "64 word"

record SessionProviderInstall =
  pi_provider :: string
  pi_version :: "string option"
  pi_path :: "string option"
  pi_installed_by_portl :: bool

record StoredSpec =
  sp_caps :: Capabilities
  sp_ttl_secs :: u64
  sp_to :: "key32 option"
  sp_labels :: "(string \<times> string) list"
  sp_root_ticket_id :: "bytes option"
  sp_ticket_file_path :: "string option"
  sp_group_name :: "string option"
  sp_base_url :: "string option"
  sp_session_provider :: "string option"
  sp_session_provider_install :: "SessionProviderInstall option"
  sp_docker_exec_id :: "string option"
  sp_docker_injected_binary_path :: "string option"
  sp_docker_injected_binary_preexisted :: bool

record AliasEntry =
  al_record :: AliasRecord
  al_spec :: StoredSpec
  al_extra :: "(string \<times> string) list"

record AliasRoot =
  rt_version :: u32
  rt_aliases :: "(string \<times> AliasEntry) list"

definition ALIAS_VERSION :: u32 where
  "ALIAS_VERSION = 1"

definition alias_root_default :: AliasRoot where
  "alias_root_default = \<lparr>rt_version = ALIAS_VERSION, rt_aliases = []\<rparr>"

text \<open>
  The hex fields of a stored spec: absent, or exactly \<open>n\<close> bytes.
\<close>

definition deserialize_hex_opt :: "(string \<Rightarrow> bytes option) \<Rightarrow> nat \<Rightarrow> string option \<Rightarrow> string + bytes option" where
  "deserialize_hex_opt unhex n value =
     (case value of
        None \<Rightarrow> Inr None
      | Some v \<Rightarrow>
          if v = [] then Inl (''expected exactly '' @ decimal n @ '' bytes of hex, got empty string'')
          else (case unhex v of
                  None \<Rightarrow> Inl ''hex''
                | Some bytes \<Rightarrow>
                    if length bytes = n then Inr (Some bytes)
                    else Inl (''expected exactly '' @ decimal n @ '' bytes of hex'')))"

definition serialize_hex_opt :: "(bytes \<Rightarrow> string) \<Rightarrow> bytes option \<Rightarrow> string option" where
  "serialize_hex_opt hex = map_option hex"

section \<open>Reading and writing\<close>

text \<open>
  The file, and whether the directory and the lock could be had, the file be read, and the new
  content be written and put in place.
\<close>

record AliasFile =
  af_path :: string
  af_content :: "string option"
  af_lock_ok :: bool
  af_read_ok :: bool
  af_write_ok :: bool

record alias_codec =
  ac_parse :: "string \<Rightarrow> AliasRoot option"
  ac_json :: "AliasRoot \<Rightarrow> string option"

definition read_unlocked :: "alias_codec \<Rightarrow> AliasFile \<Rightarrow> string + AliasRoot" where
  "read_unlocked C f =
     (case af_content f of
        None \<Rightarrow> Inr alias_root_default
      | Some json \<Rightarrow>
          if \<not> af_read_ok f then Inl (''open alias store '' @ af_path f)
          else if trim json = [] then Inr alias_root_default
          else (case ac_parse C json of
                  None \<Rightarrow> Inl ''parse alias store JSON''
                | Some root \<Rightarrow>
                    if ALIAS_VERSION < rt_version root
                    then Inl (''alias store at '' @ af_path f @ '' was written by a newer portl (version='' @
                              decimal (unat (rt_version root)) @ ''); refusing to open'')
                    else Inr root))"

definition alias_read :: "alias_codec \<Rightarrow> AliasFile \<Rightarrow> string + AliasRoot" where
  "alias_read C f = (if af_lock_ok f then read_unlocked C f else Inl ''acquire alias store read lock'')"

definition with_write_lock ::
  "alias_codec \<Rightarrow> (AliasRoot \<Rightarrow> string + AliasRoot) \<Rightarrow> AliasFile \<Rightarrow> (string + unit) \<times> AliasFile" where
  "with_write_lock C change f =
     (let attempt =
        (if \<not> af_lock_ok f then Inl ''acquire alias store write lock''
         else res_bind (read_unlocked C f) (\<lambda>root.
              res_bind (change (root\<lparr>rt_version := ALIAS_VERSION\<rparr>)) (\<lambda>root'.
              res_bind (ok_or ''encode alias store JSON'' (ac_json C root')) (\<lambda>json.
                if af_write_ok f then Inr (json @ [CHR 0x0A]) else Inl ''rename alias store tmp''))))
      in case attempt of
           Inl e \<Rightarrow> (Inl e, f)
         | Inr content \<Rightarrow> (Inr (), f\<lparr>af_content := Some content\<rparr>))"

section \<open>Operations\<close>

definition alias_put :: "AliasRecord \<Rightarrow> StoredSpec \<Rightarrow> AliasRoot \<Rightarrow> string + AliasRoot" where
  "alias_put alias spec root =
     (case find (\<lambda>(_, e). ar_name (al_record e) \<noteq> ar_name alias \<and> ar_endpoint_id (al_record e) = ar_endpoint_id alias)
             (rt_aliases root) of
        Some (_, e) \<Rightarrow>
          Inl (''endpoint_id '' @ ar_endpoint_id alias @ '' is already registered as alias '' @ ar_name (al_record e))
      | None \<Rightarrow>
          (let extra = (case map_of (rt_aliases root) (ar_name alias) of None \<Rightarrow> [] | Some e \<Rightarrow> al_extra e)
           in Inr (root\<lparr>rt_aliases := AList.update (ar_name alias)
                          \<lparr>al_record = alias, al_spec = spec, al_extra = extra\<rparr> (rt_aliases root)\<rparr>)))"

definition alias_save :: "alias_codec \<Rightarrow> AliasRecord \<Rightarrow> StoredSpec \<Rightarrow> AliasFile \<Rightarrow> (string + unit) \<times> AliasFile" where
  "alias_save C alias spec f = with_write_lock C (alias_put alias spec) f"

definition alias_remove :: "alias_codec \<Rightarrow> string \<Rightarrow> AliasFile \<Rightarrow> (string + unit) \<times> AliasFile" where
  "alias_remove C name f =
     with_write_lock C (\<lambda>root. Inr (root\<lparr>rt_aliases := AList.delete name (rt_aliases root)\<rparr>)) f"

definition alias_get :: "alias_codec \<Rightarrow> string \<Rightarrow> AliasFile \<Rightarrow> string + AliasRecord option" where
  "alias_get C name f =
     res_bind (alias_read C f) (\<lambda>root. Inr (map_option al_record (map_of (rt_aliases root) name)))"

definition alias_get_spec :: "alias_codec \<Rightarrow> string \<Rightarrow> AliasFile \<Rightarrow> string + StoredSpec option" where
  "alias_get_spec C name f =
     res_bind (alias_read C f) (\<lambda>root. Inr (map_option al_spec (map_of (rt_aliases root) name)))"

definition alias_list :: "alias_codec \<Rightarrow> AliasFile \<Rightarrow> string + AliasRecord list" where
  "alias_list C f = res_bind (alias_read C f) (\<lambda>root. Inr (map (\<lambda>(_, e). al_record e) (rt_aliases root)))"

section \<open>Facts\<close>

text \<open>
  A store kept by these operations: an alias is filed under its name, and an endpoint has one alias.
\<close>

definition aliases_inv :: "AliasRoot \<Rightarrow> bool" where
  "aliases_inv root \<longleftrightarrow> distinct (map fst (rt_aliases root)) \<and>
     (\<forall>k e. map_of (rt_aliases root) k = Some e \<longrightarrow> k = ar_name (al_record e)) \<and>
     (\<forall>k k' e e'. map_of (rt_aliases root) k = Some e \<and> map_of (rt_aliases root) k' = Some e' \<and>
        ar_endpoint_id (al_record e) = ar_endpoint_id (al_record e') \<longrightarrow> k = k')"

text \<open>
  What is relied on of JSON: what is written is read back, also with white space behind it, and is
  not blank.
\<close>

definition alias_codec_laws :: "alias_codec \<Rightarrow> bool" where
  "alias_codec_laws C \<longleftrightarrow>
     (\<forall>root json. ac_json C root = Some json \<longrightarrow> ac_parse C (json @ [CHR 0x0A]) = Some root \<and> trim (json @ [CHR 0x0A]) \<noteq> [])"

lemma aliases_default_inv: "aliases_inv alias_root_default"
  by (simp add: aliases_inv_def alias_root_default_def)

lemma aliases_invD:
  assumes "aliases_inv root"
  shows "distinct (map fst (rt_aliases root))"
    and "map_of (rt_aliases root) k = Some e \<Longrightarrow> k = ar_name (al_record e)"
    and "map_of (rt_aliases root) k = Some e \<Longrightarrow> map_of (rt_aliases root) k' = Some e' \<Longrightarrow>
      ar_endpoint_id (al_record e) = ar_endpoint_id (al_record e') \<Longrightarrow> k = k'"
  using assms unfolding aliases_inv_def by blast+

lemma alias_put_inv:
  assumes "aliases_inv root" and "alias_put alias spec root = Inr root'"
  shows "aliases_inv root' \<and>
    (\<exists>extra. map_of (rt_aliases root') = (map_of (rt_aliases root))(ar_name alias \<mapsto> \<lparr>al_record = alias, al_spec = spec, al_extra = extra\<rparr>) \<and>
       (\<forall>e. map_of (rt_aliases root) (ar_name alias) = Some e \<longrightarrow> extra = al_extra e)) \<and> rt_version root' = rt_version root"
proof -
  define extra where "extra = (case map_of (rt_aliases root) (ar_name alias) of None \<Rightarrow> [] | Some e \<Rightarrow> al_extra e)"
  have none: "\<forall>(k, e)\<in>set (rt_aliases root). ar_name (al_record e) \<noteq> ar_name alias \<longrightarrow> ar_endpoint_id (al_record e) \<noteq> ar_endpoint_id alias"
    and root': "root' = root\<lparr>rt_aliases := AList.update (ar_name alias) \<lparr>al_record = alias, al_spec = spec, al_extra = extra\<rparr> (rt_aliases root)\<rparr>"
    using assms(2) unfolding alias_put_def extra_def [symmetric] Let_def
    by (auto simp: find_None_iff_all split: option.splits)
  have m: "map_of (rt_aliases root') = (map_of (rt_aliases root))(ar_name alias \<mapsto> \<lparr>al_record = alias, al_spec = spec, al_extra = extra\<rparr>)"
    by (simp add: root' update_conv')
  have other: "ar_endpoint_id (al_record e) \<noteq> ar_endpoint_id alias" if "map_of (rt_aliases root) k = Some e" and "k \<noteq> ar_name alias" for k e
    using none map_of_SomeD [OF that(1)] aliases_invD(2) [OF assms(1) that(1)] that(2) by auto
  have "\<forall>k e. map_of (rt_aliases root') k = Some e \<longrightarrow> k = ar_name (al_record e)"
    unfolding m using aliases_invD(2) [OF assms(1)] by auto
  moreover have "k = k'" if "map_of (rt_aliases root') k = Some e" "map_of (rt_aliases root') k' = Some e'"
      "ar_endpoint_id (al_record e) = ar_endpoint_id (al_record e')" for k k' e e'
    using that other [of k e] other [of k' e'] aliases_invD(3) [OF assms(1), of k e k' e'] unfolding m
    by (cases "k = ar_name alias"; cases "k' = ar_name alias") auto
  moreover have "distinct (map fst (rt_aliases root'))"
    using aliases_invD(1) [OF assms(1)] by (simp add: root' distinct_update)
  ultimately have "aliases_inv root'" unfolding aliases_inv_def by blast
  then show ?thesis using m by (auto simp: extra_def root')
qed

lemma alias_delete_inv:
  "aliases_inv root \<Longrightarrow> aliases_inv (root\<lparr>rt_aliases := AList.delete name (rt_aliases root)\<rparr>)"
  by (simp add: aliases_inv_def delete_conv' distinct_delete restrict_map_def)

lemma version_aliases [simp]: "rt_aliases (root\<lparr>rt_version := v\<rparr>) = rt_aliases root" "aliases_inv (root\<lparr>rt_version := v\<rparr>) = aliases_inv root"
  by (simp_all add: aliases_inv_def)

lemma with_write_lock_cases:
  assumes "alias_codec_laws C" and "with_write_lock C change f = (res, f')"
  obtains (failed) e where "res = Inl e" "f' = f"
  | (ok) root root' where "res = Inr ()" "af_lock_ok f" "read_unlocked C f = Inr root" "change (root\<lparr>rt_version := ALIAS_VERSION\<rparr>) = Inr root'"
      "ALIAS_VERSION < rt_version root' \<or> (af_read_ok f \<longrightarrow> read_unlocked C f' = Inr root')" "af_lock_ok f' = af_lock_ok f"
proof (cases res)
  case (Inl e)
  then show ?thesis using assms(2) failed by (auto simp: with_write_lock_def Let_def split: sum.splits)
next
  case (Inr u)
  then obtain root root' json where s: "af_lock_ok f" "read_unlocked C f = Inr root" "change (root\<lparr>rt_version := ALIAS_VERSION\<rparr>) = Inr root'"
      "ac_json C root' = Some json" "f' = f\<lparr>af_content := Some (json @ [CHR 0x0A])\<rparr>"
    using assms(2) by (auto simp: with_write_lock_def Let_def res_bind_Inr_iff ok_or_Inr_iff split: sum.splits if_splits)
  have "ALIAS_VERSION < rt_version root' \<or> (af_read_ok f \<longrightarrow> read_unlocked C f' = Inr root')"
    using assms(1) s(4) by (auto simp: s(5) read_unlocked_def alias_codec_laws_def)
  then show ?thesis using ok s Inr by simp
qed


text \<open>
  Saving an alias.  Either the file is as before, or the alias and its spec are what is read
  back under the alias's name, every other alias is unchanged, fields that a newer version added to
  the entry are kept, and still no two aliases share an endpoint.  It is refused whenever another
  alias has the endpoint.
\<close>

lemma alias_save_exact:
  assumes "alias_codec_laws C" and "alias_read C f = Inr root" and "aliases_inv root" and "af_read_ok f"
    and "alias_save C alias spec f = (res, f')"
  shows "(case res of
      Inl e \<Rightarrow> f' = f
    | Inr u \<Rightarrow> (\<exists>root'. alias_read C f' = Inr root' \<and> aliases_inv root' \<and>
        alias_get C (ar_name alias) f' = Inr (Some alias) \<and> alias_get_spec C (ar_name alias) f' = Inr (Some spec) \<and>
        (\<forall>name. name \<noteq> ar_name alias \<longrightarrow> map_of (rt_aliases root') name = map_of (rt_aliases root) name) \<and>
        (\<forall>old. map_of (rt_aliases root) (ar_name alias) = Some old \<longrightarrow>
           map_option al_extra (map_of (rt_aliases root') (ar_name alias)) = Some (al_extra old)))) \<and>
    (\<forall>name other. map_of (rt_aliases root) name = Some other \<and> name \<noteq> ar_name alias \<and>
       ar_endpoint_id (al_record other) = ar_endpoint_id alias \<longrightarrow> (\<exists>e. res = Inl e))"
proof -
  have read: "af_lock_ok f" "read_unlocked C f = Inr root"
    using assms(2) by (simp_all add: alias_read_def split: if_splits)
  show ?thesis
  proof (cases rule: with_write_lock_cases [OF assms(1) assms(5) [unfolded alias_save_def]])
    case 1
    then show ?thesis by simp
  next
    case (2 root0 root')
    have put: "alias_put alias spec (root\<lparr>rt_version := ALIAS_VERSION\<rparr>) = Inr root'" using 2(3,4) read(2) by simp
    obtain extra where root': "aliases_inv root'" "rt_version root' = ALIAS_VERSION"
        "map_of (rt_aliases root') = (map_of (rt_aliases root))(ar_name alias \<mapsto> \<lparr>al_record = alias, al_spec = spec, al_extra = extra\<rparr>)"
        "\<forall>e. map_of (rt_aliases root) (ar_name alias) = Some e \<longrightarrow> extra = al_extra e"
      using alias_put_inv [OF _ put, simplified] assms(3) by blast
    have "alias_read C f' = Inr root'" using 2(5,6) root'(2) assms(4) read(1) by (simp add: alias_read_def)
    moreover have "\<nexists>name other. map_of (rt_aliases root) name = Some other \<and> name \<noteq> ar_name alias \<and>
        ar_endpoint_id (al_record other) = ar_endpoint_id alias"
    proof (rule notI, elim exE conjE)
      fix name other
      assume o: "map_of (rt_aliases root) name = Some other" "name \<noteq> ar_name alias"
        "ar_endpoint_id (al_record other) = ar_endpoint_id alias"
      then have "map_of (rt_aliases root') name = Some other" by (simp add: root'(3))
      moreover have "map_of (rt_aliases root') (ar_name alias) = Some \<lparr>al_record = alias, al_spec = spec, al_extra = extra\<rparr>"
        by (simp add: root'(3))
      ultimately show False using aliases_invD(3) [OF root'(1)] o(2,3) by force
    qed
    moreover have "alias_get C (ar_name alias) f' = Inr (Some alias)" "alias_get_spec C (ar_name alias) f' = Inr (Some spec)"
      using calculation(1) by (simp_all add: alias_get_def alias_get_spec_def root'(3))
    moreover have "\<forall>old. map_of (rt_aliases root) (ar_name alias) = Some old \<longrightarrow>
        map_option al_extra (map_of (rt_aliases root') (ar_name alias)) = Some (al_extra old)"
      unfolding root'(3) using root'(4) by simp
    moreover have "\<forall>name. name \<noteq> ar_name alias \<longrightarrow> map_of (rt_aliases root') name = map_of (rt_aliases root) name"
      unfolding root'(3) by simp
    ultimately show ?thesis unfolding 2(1) sum.case using root'(1) by blast
  qed
qed

definition demo_alias :: AliasRecord where
  "demo_alias = \<lparr>ar_name = ''web'', ar_adapter = ''docker'', ar_container_id = ''c1'', ar_endpoint_id = ''11'',
     ar_image = ''i'', ar_network = ''n'', ar_created_at = 5\<rparr>"

definition demo_spec :: StoredSpec where
  "demo_spec = \<lparr>sp_caps = \<lparr>cp_presence = 0, cp_shell = None, cp_tcp = None, cp_udp = None, cp_fs = None, cp_vpn = None,
       cp_meta = None, cp_unix = None\<rparr>, sp_ttl_secs = 60, sp_to = None, sp_labels = [], sp_root_ticket_id = None,
     sp_ticket_file_path = None, sp_group_name = None, sp_base_url = None, sp_session_provider = None,
     sp_session_provider_install = None, sp_docker_exec_id = None, sp_docker_injected_binary_path = None,
     sp_docker_injected_binary_preexisted = False\<rparr>"

definition demo_alias_root :: AliasRoot where
  "demo_alias_root = \<lparr>rt_version = 1, rt_aliases = [(''web'', \<lparr>al_record = demo_alias, al_spec = demo_spec, al_extra = []\<rparr>)]\<rparr>"

definition demo_alias_codec :: alias_codec where
  "demo_alias_codec = \<lparr>ac_parse = (\<lambda>s. if s = ''x'' @ [CHR 0x0A] then Some demo_alias_root else None),
     ac_json = (\<lambda>r. if r = demo_alias_root then Some ''x'' else None)\<rparr>"

definition demo_alias_file :: AliasFile where
  "demo_alias_file = \<lparr>af_path = ''a'', af_content = None, af_lock_ok = True, af_read_ok = True, af_write_ok = True\<rparr>"

end
