(* ===== verification/Session_Share.thy ===== *)
theory Session_Share
  imports Target_Resolve Alias_Store
begin

text \<open>
  Sharing a session: the envelope that carries a share (\<^verbatim>\<open>portl-core/src/rendezvous/exchange.rs\<close>),
  how the sender makes it (\<^verbatim>\<open>portl-cli/src/commands/session_share.rs\<close>, with the endpoint ids of
  \<^verbatim>\<open>portl-cli/src/eid.rs\<close>) and how the recipient files the ticket in it
  (\<^verbatim>\<open>portl-core/src/session_share.rs\<close> and the copy of it in
  \<^verbatim>\<open>portl-cli/src/commands/accept.rs\<close>).
\<close>

section \<open>The envelope\<close>

definition PORTL_EXCHANGE_SCHEMA_V1 :: string where
  "PORTL_EXCHANGE_SCHEMA_V1 = ''portl.exchange.v1''"

definition ENDPOINT_ID_HEX_LEN :: nat where
  "ENDPOINT_ID_HEX_LEN = 64"

datatype ExchangeKind = SessionShareKind

record SessionShareEnvelopeV1 =
  se_workspace_id :: string
  se_friendly_name :: string
  se_conflict_handle :: string
  se_origin_label_hint :: "string option"
  se_target_label_hint :: "string option"
  se_target_endpoint_id_hex :: string
  se_provider :: "string option"
  se_provider_session :: string
  se_ticket :: string
  se_access_not_after_unix :: u64

datatype ExchangePayload = SessionShare SessionShareEnvelopeV1

record PortlExchangeEnvelopeV1 =
  ev_schema :: string
  ev_kind :: ExchangeKind
  ev_created_at_unix :: u64
  ev_not_after_unix :: "u64 option"
  ev_sender_label :: "string option"
  ev_payload :: ExchangePayload

datatype EnvelopeValidationError =
    UnsupportedSchema string string
  | KindMismatch ExchangeKind ExchangeKind
  | NotAfterNotAfterCreatedAt u64 u64
  | InvalidEndpointIdLength nat nat
  | InvalidEndpointIdHex

fun payload_kind :: "ExchangePayload \<Rightarrow> ExchangeKind" where
  "payload_kind (SessionShare _) = SessionShareKind"

definition session_share_envelope :: "SessionShareEnvelopeV1 \<Rightarrow> u64 \<Rightarrow> u64 option \<Rightarrow> PortlExchangeEnvelopeV1" where
  "session_share_envelope share created_at not_after =
     \<lparr>ev_schema = PORTL_EXCHANGE_SCHEMA_V1, ev_kind = SessionShareKind, ev_created_at_unix = created_at,
      ev_not_after_unix = not_after, ev_sender_label = se_origin_label_hint share, ev_payload = SessionShare share\<rparr>"

definition validate_share :: "SessionShareEnvelopeV1 \<Rightarrow> EnvelopeValidationError + unit" where
  "validate_share share =
     (let hex = se_target_endpoint_id_hex share
      in if length hex \<noteq> ENDPOINT_ID_HEX_LEN then Inl (InvalidEndpointIdLength ENDPOINT_ID_HEX_LEN (length hex))
         else if \<not> list_all ascii_hexdigit hex then Inl InvalidEndpointIdHex
         else Inr ())"

definition validate_envelope :: "PortlExchangeEnvelopeV1 \<Rightarrow> EnvelopeValidationError + unit" where
  "validate_envelope ev =
     (if ev_schema ev \<noteq> PORTL_EXCHANGE_SCHEMA_V1
      then Inl (UnsupportedSchema PORTL_EXCHANGE_SCHEMA_V1 (ev_schema ev))
      else if ev_kind ev \<noteq> payload_kind (ev_payload ev)
      then Inl (KindMismatch (ev_kind ev) (payload_kind (ev_payload ev)))
      else res_bind
        (if_some (ev_not_after_unix ev) (\<lambda>not_after.
           if not_after \<le> ev_created_at_unix ev
           then Inl (NotAfterNotAfterCreatedAt (ev_created_at_unix ev) not_after) else Inr ()))
        (\<lambda>_. case ev_payload ev of SessionShare share \<Rightarrow> validate_share share))"

text \<open>
  Reading an envelope: serde fills in the fields, and what it filled in is validated.
\<close>

definition deserialize_envelope ::
  "('s \<Rightarrow> PortlExchangeEnvelopeV1 option) \<Rightarrow> 's \<Rightarrow> PortlExchangeEnvelopeV1 option" where
  "deserialize_envelope shadow raw =
     Option.bind (shadow raw) (\<lambda>ev. if is_ok (validate_envelope ev) then Some ev else None)"

definition import_label :: "SessionShareEnvelopeV1 \<Rightarrow> string" where
  "import_label share =
     (let hint = Option.bind (map_option trim (se_target_label_hint share)) (\<lambda>l. if l \<noteq> [] then Some l else None);
          machine = (case hint of None \<Rightarrow> machine_label None (se_target_endpoint_id_hex share) | Some l \<Rightarrow> l)
      in session_share_label machine (se_friendly_name share))"

section \<open>Filing a share\<close>

record ImportedSessionShare =
  im_label :: string
  im_endpoint_id_hex :: string
  im_expires_at :: u64
  im_saved_at :: u64

definition session_share_caps :: Capabilities where
  "session_share_caps = interactive_shell_caps"

text \<open>
  The checks on the ticket in the envelope, in the order of the code.  The text of an error is kept
  up to what comes from the error it wraps.
\<close>

definition check_shared_ticket ::
  "resolve_externs \<Rightarrow> Capabilities \<Rightarrow> SessionShareEnvelopeV1 \<Rightarrow> string option \<Rightarrow> u64 \<Rightarrow> PortlTicket \<Rightarrow> string + unit" where
  "check_shared_ticket R caps share recipient now ticket =
     (let body = tk_body ticket; endpoint_id_hex = sx_hex (rx_store R) (ea_id (tk_addr ticket))
      in res_bind (map_err (\<lambda>_. ''invalid embedded session ticket'') (canonical_check_ticket ticket)) (\<lambda>_.
         res_bind (map_err (\<lambda>_. ''embedded session ticket signature failed'')
                     (verify_body (rx_crypto R) (resolved_issuer ticket) body (tk_sig ticket))) (\<lambda>_.
           if tk_v ticket \<noteq> 1 \<or> bd_parent body \<noteq> None \<or> bd_bearer body \<noteq> None \<or> bd_caps body \<noteq> caps
           then Inl ''embedded session ticket is not a session-share ticket''
           else if \<not> eq_ignore_ascii_case endpoint_id_hex (se_target_endpoint_id_hex share)
           then Inl ''embedded session ticket target did not match share envelope''
           else if se_access_not_after_unix share < bd_not_after body
           then Inl ''embedded session ticket outlives share access window''
           else if bd_not_after body \<le> now then Inl ''embedded session ticket has already expired''
           else if_some recipient (\<lambda>expected.
             case bd_to body of
               None \<Rightarrow> Inl ''embedded session ticket is not bound to this recipient''
             | Some holder \<Rightarrow>
                 if eq_ignore_ascii_case (sx_hex (rx_store R) holder) expected then Inr ()
                 else Inl ''embedded session ticket is bound to a different recipient''))))"

definition share_room :: "string \<Rightarrow> string \<Rightarrow> u64 \<Rightarrow> PeerStore \<Rightarrow> TicketStore \<Rightarrow> string + TicketStore" where
  "share_room label endpoint_id_hex not_after peers tickets =
     (if get_by_label label peers \<noteq> None
      then Inl (''label '' @ quoted label @ '' is already in use by a peer; pass --label <name> or choose another label'')
      else (case get_ticket label tickets of
              Some existing \<Rightarrow>
                if \<not> eq_ignore_ascii_case (te_endpoint_id_hex existing) endpoint_id_hex
                then Inl (''label '' @ quoted label @ '' is already in use by a ticket for a different endpoint; pass --label <name> or remove the existing label first'')
                else if not_after \<le> te_expires_at existing
                then Inl (''ticket '' @ quoted label @ '' already exists for this endpoint and expires later or at the same time; keeping the existing ticket'')
                else Inr (snd (remove_ticket label tickets))
            | None \<Rightarrow>
                (case label_in_use label peers tickets of
                   Some store \<Rightarrow> Inl (''label '' @ quoted label @ '' is already in use by a '' @ store @
                                      ''; pass --label <name> or remove the existing label first'')
                 | None \<Rightarrow> Inr tickets)))"

definition open_share ::
  "resolve_externs \<Rightarrow> Capabilities \<Rightarrow> PortlExchangeEnvelopeV1 \<Rightarrow> string option \<Rightarrow> u64 option \<Rightarrow>
   string + u64 \<times> SessionShareEnvelopeV1 \<times> PortlTicket" where
  "open_share R caps ev recipient clock =
     res_bind (map_err (\<lambda>_. ''invalid exchange envelope'') (validate_envelope ev)) (\<lambda>_.
     res_bind (ok_or ''system clock before unix epoch'' clock) (\<lambda>now.
     res_bind (if_some (ev_not_after_unix ev) (\<lambda>not_after.
                 if not_after \<le> now then Inl ''session share expired; ask the sender to run `portl session share` again''
                 else Inr ())) (\<lambda>_.
       case ev_payload ev of SessionShare share \<Rightarrow>
         if se_access_not_after_unix share \<le> now
         then Inl ''session share access expired; ask the sender to mint a fresh share''
         else res_bind (map_err (\<lambda>err. ''parse embedded session ticket: '' @ err)
                          (sx_decode_ticket (rx_store R) (se_ticket share))) (\<lambda>ticket.
              res_bind (check_shared_ticket R caps share recipient now ticket) (\<lambda>_. Inr (now, share, ticket))))))"

definition file_share ::
  "store_externs \<Rightarrow> SessionShareEnvelopeV1 \<Rightarrow> string option \<Rightarrow> u64 \<Rightarrow> PortlTicket \<Rightarrow> StoreFiles \<Rightarrow> string + string \<times> string" where
  "file_share X share label now ticket fs =
     (let endpoint_id_hex = sx_hex X (ea_id (tk_addr ticket)); not_after = bd_not_after (tk_body ticket);
          name = (case label of None \<Rightarrow> import_label share | Some l \<Rightarrow> trim l)
      in if trim name = [] then Inl ''session share label is empty; pass --label <name>''
         else
           res_bind (load_peers X (sf_read_ok fs) (sf_peers_path fs) (sf_peers fs)) (\<lambda>peers.
           res_bind (load_tickets X (sf_read_ok fs) (sf_tickets_path fs) (sf_tickets fs)) (\<lambda>tickets.
           res_bind (share_room name endpoint_id_hex not_after peers tickets) (\<lambda>room.
           res_bind (insert_ticket name
               \<lparr>te_endpoint_id_hex = endpoint_id_hex, te_ticket_string = se_ticket share,
                te_expires_at = not_after, te_saved_at = now,
                te_session_share = Some \<lparr>friendly_name = se_friendly_name share,
                  provider_session = se_provider_session share, provider = se_provider share,
                  origin_label_hint = se_origin_label_hint share,
                  target_label_hint = se_target_label_hint share\<rparr>\<rparr> room) (\<lambda>updated.
           res_bind (save_tickets X (sf_write_ok fs) updated) (\<lambda>content. Inr (name, content)))))))"

definition import_session_share_envelope ::
  "resolve_externs \<Rightarrow> PortlExchangeEnvelopeV1 \<Rightarrow> string option \<Rightarrow> string option \<Rightarrow> u64 option \<Rightarrow> StoreFiles \<Rightarrow>
   (string + ImportedSessionShare) \<times> StoreFiles" where
  "import_session_share_envelope R ev label recipient clock fs =
     (case open_share R session_share_caps ev recipient clock of
        Inl e \<Rightarrow> (Inl e, fs)
      | Inr (now, share, ticket) \<Rightarrow>
          (case file_share (rx_store R) share label now ticket fs of
             Inl e \<Rightarrow> (Inl e, fs)
           | Inr (name, content) \<Rightarrow>
               (Inr \<lparr>im_label = name, im_endpoint_id_hex = sx_hex (rx_store R) (ea_id (tk_addr ticket)),
                     im_expires_at = bd_not_after (tk_body ticket), im_saved_at = now\<rparr>,
                fs\<lparr>sf_tickets := Some content\<rparr>)))"

definition import_session_share_envelope_json ::
  "resolve_externs \<Rightarrow> (string \<Rightarrow> PortlExchangeEnvelopeV1 option) \<Rightarrow> string \<Rightarrow> string option \<Rightarrow> string option \<Rightarrow>
   u64 option \<Rightarrow> StoreFiles \<Rightarrow> (string + ImportedSessionShare) \<times> StoreFiles" where
  "import_session_share_envelope_json R shadow json label recipient clock fs =
     (case deserialize_envelope shadow json of
        None \<Rightarrow> (Inl ''parse session share envelope JSON'', fs)
      | Some ev \<Rightarrow> import_session_share_envelope R ev label recipient clock fs)"


section \<open>The importer of the command line\<close>

definition share_caps :: Capabilities where
  "share_caps =
     \<lparr>cp_presence = 1,
      cp_shell = Some \<lparr>sh_user_allowlist = None, sh_pty_allowed = True, sh_exec_allowed = True,
        sh_command_allowlist = None, sh_env_policy = Merge None\<rparr>,
      cp_tcp = None, cp_udp = None, cp_fs = None, cp_vpn = None, cp_meta = None, cp_unix = None\<rparr>"

definition import_exchange_envelope ::
  "resolve_externs \<Rightarrow> PortlExchangeEnvelopeV1 \<Rightarrow> string option \<Rightarrow> string option \<Rightarrow> u64 option \<Rightarrow> StoreFiles \<Rightarrow>
   (string + string) \<times> StoreFiles" where
  "import_exchange_envelope R ev label recipient clock fs =
     (case open_share R share_caps ev recipient clock of
        Inl e \<Rightarrow> (Inl e, fs)
      | Inr (now, share, ticket) \<Rightarrow>
          (case file_share (rx_store R) share label now ticket fs of
             Inl e \<Rightarrow> (Inl e, fs)
           | Inr (name, content) \<Rightarrow> (Inr name, fs\<lparr>sf_tickets := Some content\<rparr>)))"

section \<open>Endpoint ids as the user types them\<close>

text \<open>Rust's \<^verbatim>\<open>str::split_once\<close>: at the first occurrence.\<close>

fun split_once :: "'a list \<Rightarrow> 'a list \<Rightarrow> ('a list \<times> 'a list) option" where
  "split_once pat [] = (if pat = [] then Some ([], []) else None)"
| "split_once pat (x # xs) =
     (if starts_with (x # xs) pat then Some ([], drop (length pat) (x # xs))
      else map_option (\<lambda>(a, b). (x # a, b)) (split_once pat xs))"

definition parse_full_hex :: "resolve_externs \<Rightarrow> string \<Rightarrow> string + key32" where
  "parse_full_hex R hex_str =
     (case sx_unhex (rx_store R) hex_str of
        None \<Rightarrow> Inl ''endpoint id hex decode''
      | Some bytes \<Rightarrow>
          if length bytes \<noteq> 32 then Inl ''endpoint id must be exactly 32 bytes''
          else if ex_key_valid (rx_crypto R) bytes then Inr bytes
          else Inl ''invalid endpoint id'')"

definition known_eids :: "PeerStore option \<Rightarrow> TicketStore option \<Rightarrow> string list" where
  "known_eids peer_store ticket_store =
     remdups_adj (sort
       ((case peer_store of None \<Rightarrow> [] | Some ps \<Rightarrow> map (\<lambda>(_, e). pe_endpoint_id_hex e) (ps_entries ps)) @
        (case ticket_store of None \<Rightarrow> [] | Some ts \<Rightarrow> map (\<lambda>(_, e). te_endpoint_id_hex e) (ts_entries ts))))"

definition eid_resolve :: "resolve_externs \<Rightarrow> string \<Rightarrow> PeerStore option \<Rightarrow> TicketStore option \<Rightarrow> string + key32" where
  "eid_resolve R token peer_store ticket_store =
     (if length token = 64 \<and> list_all ascii_hexdigit token then parse_full_hex R token
      else (case split_once ELLIPSIS token of
              None \<Rightarrow> Inl (''endpoint id '' @ quoted token @ '' must be 64-char hex or a middle-elided form like `d65f9e65'' @
                          ELLIPSIS @ ''7310`'')
            | Some (prefix_raw, suffix_raw) \<Rightarrow>
                (let pre = map ascii_lower prefix_raw; suf = map ascii_lower suffix_raw
                 in if \<not> list_all ascii_hexdigit pre \<or> \<not> list_all ascii_hexdigit suf
                    then Inl (''endpoint id '' @ quoted token @ '' has non-hex characters'')
                    else if pre = [] \<and> suf = [] then Inl (''endpoint id '' @ quoted token @ '' is empty around the ellipsis'')
                    else (let known = known_eids peer_store ticket_store
                          in if known = [] then Inl (''endpoint id '' @ quoted token @
                               '' is a short form but no peers are stored locally to resolve against; pass the full 64-char hex id'')
                             else (case filter (\<lambda>full. starts_with full pre \<and> ends_with full suf) known of
                                     [] \<Rightarrow> Inl (''no known peer matches '' @ quoted token @
                                       ''. Run `portl peer ls` or `portl ticket ls` to see stored peers.'')
                                   | [full] \<Rightarrow> parse_full_hex R full
                                   | matches \<Rightarrow> Inl (''endpoint id '' @ quoted token @ '' is ambiguous ('' @
                                       decimal (length matches) @ '' matches: '' @ join '', '' (map format_short (take 5 matches)) @
                                       (if 5 < length matches then '', '' @ ELLIPSIS else []) @
                                       ''). Retype more prefix or suffix characters.''))))))"

section \<open>The sender\<close>

datatype ShareTargetForm =
    PeerStoreTarget string key32 "string option"
  | AliasEid string key32
  | RawEid key32

datatype ResolveTargetError =
    TicketCredential
  | SavedTicketLabel string
  | AliasStoredTicket string
  | InboundOnlyPeer string
  | HeldPeer string
  | Unsupported

fun share_endpoint_id :: "ShareTargetForm \<Rightarrow> key32" where
  "share_endpoint_id (PeerStoreTarget _ endpoint_id _) = endpoint_id"
| "share_endpoint_id (AliasEid _ endpoint_id) = endpoint_id"
| "share_endpoint_id (RawEid endpoint_id) = endpoint_id"

fun share_label_hint :: "store_externs \<Rightarrow> ShareTargetForm \<Rightarrow> string" where
  "share_label_hint X (PeerStoreTarget label _ _) = label"
| "share_label_hint X (AliasEid label _) = label"
| "share_label_hint X (RawEid endpoint_id) = machine_label None (sx_hex X endpoint_id)"

definition label_hostname :: "string \<Rightarrow> string option" where
  "label_hostname label =
     (if CHR ''-'' \<notin> set label then None
      else let suffix = rev (takeWhile (\<lambda>c. c \<noteq> CHR ''-'') (rev label));
               host = take (length label - length suffix - 1) label
           in if length suffix = 4 \<and> list_all ascii_hexdigit suffix then Some host else None)"

text \<open>Rust's \<^verbatim>\<open>Vec::dedup_by\<close>: an element that equals the last one kept is dropped.\<close>

fun dedup_by :: "('a \<Rightarrow> 'a \<Rightarrow> bool) \<Rightarrow> 'a list \<Rightarrow> 'a list" where
  "dedup_by same (b # a # xs) = (if same a b then dedup_by same (b # xs) else b # dedup_by same (a # xs))"
| "dedup_by same xs = xs"

definition share_peer :: "resolve_externs \<Rightarrow> string \<Rightarrow> PeerEntry \<Rightarrow> ResolveTargetError + ShareTargetForm" where
  "share_peer R label entry =
     (if last_hold_at entry \<noteq> None then Inl (HeldPeer label)
      else if \<not> they_accept_from_me entry then Inl (InboundOnlyPeer label)
      else (case endpoint_id_bytes (rx_store R) entry of
              Inl _ \<Rightarrow> Inl Unsupported
            | Inr eid \<Rightarrow>
                if ex_key_valid (rx_crypto R) eid then Inr (PeerStoreTarget label eid (relay_hint entry))
                else Inl Unsupported))"

definition classify_share_target ::
  "resolve_externs \<Rightarrow> alias_codec \<Rightarrow> string \<Rightarrow> PeerStore \<Rightarrow> TicketStore \<Rightarrow> AliasFile \<Rightarrow> ResolveTargetError + ShareTargetForm" where
  "classify_share_target R C target peers tickets aliases =
     (let trimmed = trim target
      in case sx_decode_ticket (rx_store R) trimmed of
           Inr _ \<Rightarrow> Inl TicketCredential
         | Inl _ \<Rightarrow>
             (case get_by_label trimmed peers of
                Some entry \<Rightarrow> share_peer R trimmed entry
              | None \<Rightarrow>
                  (let host_matches = dedup_by (\<lambda>a b. eq_ignore_ascii_case (pe_endpoint_id_hex a) (pe_endpoint_id_hex b))
                         (sort_key pe_label (filter (\<lambda>e. label_hostname (pe_label e) = Some trimmed) (map snd (ps_entries peers))))
                   in case host_matches of
                        [entry] \<Rightarrow> share_peer R (pe_label entry) entry
                      | _ # _ # _ \<Rightarrow> Inl Unsupported
                      | [] \<Rightarrow>
                          if get_ticket trimmed tickets \<noteq> None then Inl (SavedTicketLabel trimmed)
                          else (case alias_get C trimmed aliases of
                                  Inr (Some alias) \<Rightarrow>
                                    if (case alias_get_spec C trimmed aliases of
                                          Inr (Some spec) \<Rightarrow> sp_ticket_file_path spec \<noteq> None
                                        | _ \<Rightarrow> False)
                                    then Inl (AliasStoredTicket trimmed)
                                    else (case eid_resolve R (ar_endpoint_id alias) None None of
                                            Inr endpoint_id \<Rightarrow> Inr (AliasEid trimmed endpoint_id)
                                          | Inl _ \<Rightarrow> Inl Unsupported)
                                | _ \<Rightarrow>
                                    (case eid_resolve R trimmed (Some peers) (Some tickets) of
                                       Inr endpoint_id \<Rightarrow> Inr (RawEid endpoint_id)
                                     | Inl _ \<Rightarrow> Inl Unsupported)))))"

record EnvelopeInputs =
  ei_identity :: signing_key
  ei_target_addr :: EndpointAddr
  ei_recipient_hex :: "string option"
  ei_session_name :: string
  ei_provider :: "string option"
  ei_origin_label_hint :: "string option"
  ei_target_label_hint :: "string option"
  ei_workspace_id :: string
  ei_conflict_handle :: string
  ei_now_unix :: u64
  ei_access_ttl :: u64
  ei_allow_bearer_fallback :: bool

record BuiltEnvelope =
  be_envelope :: PortlExchangeEnvelopeV1
  be_bound_to_recipient :: bool
  be_effective_access_ttl :: u64

definition BEARER_FALLBACK_MAX_TTL :: u64 where
  "BEARER_FALLBACK_MAX_TTL = 10 * 60"

definition share_binding :: "store_externs \<Rightarrow> EnvelopeInputs \<Rightarrow> string + key32 option \<times> u64 \<times> bool" where
  "share_binding X inputs =
     (case ei_recipient_hex inputs of
        Some hexed \<Rightarrow>
          (case sx_unhex X hexed of
             None \<Rightarrow> Inl ''recipient hello endpoint id hex''
           | Some decoded \<Rightarrow>
               if length decoded \<noteq> 32 then Inl ''recipient hello endpoint id has wrong length''
               else Inr (Some decoded, ei_access_ttl inputs, True))
      | None \<Rightarrow>
          if ei_allow_bearer_fallback inputs then Inr (None, min (ei_access_ttl inputs) BEARER_FALLBACK_MAX_TTL, False)
          else Inl ''recipient did not advertise an endpoint id and --allow-bearer-fallback was not set; refusing to mint an unrestricted bearer ticket'')"

definition build_session_share_envelope ::
  "resolve_externs \<Rightarrow> bytes list \<Rightarrow> EnvelopeInputs \<Rightarrow> (string + BuiltEnvelope) option" where
  "build_session_share_envelope R draws inputs =
     (case share_binding (rx_store R) inputs of
        Inl e \<Rightarrow> Some (Inl e)
      | Inr (to, ttl, bound) \<Rightarrow>
          (case checked_add (ei_now_unix inputs) ttl of
             None \<Rightarrow> Some (Inl ''access ttl overflow'')
           | Some not_after \<Rightarrow>
               map_option (\<lambda>minted. res_bind (map_err (\<lambda>_. ''mint share ticket'') minted) (\<lambda>ticket.
                   let share = \<lparr>se_workspace_id = ei_workspace_id inputs, se_friendly_name = ei_session_name inputs,
                         se_conflict_handle = ei_conflict_handle inputs, se_origin_label_hint = ei_origin_label_hint inputs,
                         se_target_label_hint = ei_target_label_hint inputs,
                         se_target_endpoint_id_hex = sx_hex (rx_store R) (ea_id (ei_target_addr inputs)),
                         se_provider = ei_provider inputs, se_provider_session = ei_session_name inputs,
                         se_ticket = rx_encode_ticket R ticket, se_access_not_after_unix = not_after\<rparr>
                   in Inr \<lparr>be_envelope = session_share_envelope share (ei_now_unix inputs) (Some not_after),
                           be_bound_to_recipient = bound, be_effective_access_ttl = ttl\<rparr>))
                 (mint_root (rx_crypto R) draws (ei_identity inputs) (ei_target_addr inputs) share_caps
                    (ei_now_unix inputs) not_after to)))"


section \<open>What is filed\<close>

text \<open>
  A ticket that may be filed for a share: a root ticket that its issuer signed, with the
  capabilities of a share, for the endpoint the envelope names, within the time the envelope
  allows, and bound to the recipient if there is one.
\<close>

definition shared_ticket :: "resolve_externs \<Rightarrow> SessionShareEnvelopeV1 \<Rightarrow> string option \<Rightarrow> u64 \<Rightarrow> PortlTicket \<Rightarrow> bool" where
  "shared_ticket R share recipient now t \<longleftrightarrow>
     sound_chain (rx_crypto R) {resolved_issuer t} [t] \<and> bd_bearer (tk_body t) = None \<and> bd_caps (tk_body t) = session_share_caps \<and>
     eq_ignore_ascii_case (sx_hex (rx_store R) (ea_id (tk_addr t))) (se_target_endpoint_id_hex share) \<and>
     bd_not_after (tk_body t) \<le> se_access_not_after_unix share \<and> now < bd_not_after (tk_body t) \<and>
     (\<forall>expected. recipient = Some expected \<longrightarrow>
        (\<exists>holder. bd_to (tk_body t) = Some holder \<and> eq_ignore_ascii_case (sx_hex (rx_store R) holder) expected))"

lemma share_caps_eq: "share_caps = session_share_caps"
  by (simp add: share_caps_def session_share_caps_def interactive_shell_caps_def)

lemma check_shared_ticket_ok:
  "check_shared_ticket R session_share_caps share recipient now t = Inr () \<longleftrightarrow> shared_ticket R share recipient now t"
  unfolding check_shared_ticket_def shared_ticket_def Let_def sound_chain_def sound_ticket_def sound_root_def
  by (cases recipient; cases "bd_to (tk_body t)")
     (auto simp: res_bind_unit_iff map_err_Inr_iff canonical_check_ticket_ok verify_body_ok not_less split: if_splits)

lemma share_room_place:
  "share_room label hex expires peers tickets = Inr room \<longleftrightarrow>
     get_by_label label peers = None \<and>
     (case get_ticket label tickets of
        None \<Rightarrow> room = tickets
      | Some old \<Rightarrow> eq_ignore_ascii_case (te_endpoint_id_hex old) hex \<and> te_expires_at old < expires \<and>
          room = tickets\<lparr>ts_entries := AList.delete label (ts_entries tickets)\<rparr>)"
  by (auto simp: share_room_def remove_ticket_def label_in_use_def split: option.splits)

definition shared_entry :: "store_externs \<Rightarrow> SessionShareEnvelopeV1 \<Rightarrow> u64 \<Rightarrow> PortlTicket \<Rightarrow> TicketEntry" where
  "shared_entry X share now t =
     \<lparr>te_endpoint_id_hex = sx_hex X (ea_id (tk_addr t)), te_ticket_string = se_ticket share,
      te_expires_at = bd_not_after (tk_body t), te_saved_at = now,
      te_session_share = Some \<lparr>friendly_name = se_friendly_name share, provider_session = se_provider_session share,
        provider = se_provider share, origin_label_hint = se_origin_label_hint share,
        target_label_hint = se_target_label_hint share\<rparr>\<rparr>"

definition share_name :: "SessionShareEnvelopeV1 \<Rightarrow> string option \<Rightarrow> string" where
  "share_name share label = (case label of None \<Rightarrow> import_label share | Some l \<Rightarrow> trim l)"

lemma still_open:
  "if_some not_after (\<lambda>na. if na \<le> now then Inl e else Inr ()) = Inr () \<longleftrightarrow> (\<forall>na. not_after = Some na \<longrightarrow> now < na)" for now :: u64
  by (cases not_after) (auto simp: not_le)

lemma open_share_ok:
  "open_share R session_share_caps ev recipient clock = Inr (now, share, ticket) \<longleftrightarrow>
     validate_envelope ev = Inr () \<and> clock = Some now \<and> (\<forall>na. ev_not_after_unix ev = Some na \<longrightarrow> now < na) \<and>
     ev_payload ev = SessionShare share \<and> now < se_access_not_after_unix share \<and>
     sx_decode_ticket (rx_store R) (se_ticket share) = Inr ticket \<and> shared_ticket R share recipient now ticket"
proof (cases "ev_payload ev")
  case (SessionShare sh)
  then show ?thesis
    by (cases clock) (auto simp: open_share_def res_bind_Inr_iff map_err_Inr_iff ok_or_Inr_iff still_open check_shared_ticket_ok
        split: if_splits)
qed

lemma file_share_ok:
  "file_share X share label now ticket fs = Inr (name, content) \<longleftrightarrow>
     (\<exists>peers tickets room updated. name = share_name share label \<and> trim name \<noteq> [] \<and>
        load_peers X (sf_read_ok fs) (sf_peers_path fs) (sf_peers fs) = Inr peers \<and>
        load_tickets X (sf_read_ok fs) (sf_tickets_path fs) (sf_tickets fs) = Inr tickets \<and>
        share_room name (sx_hex X (ea_id (tk_addr ticket))) (bd_not_after (tk_body ticket)) peers tickets = Inr room \<and>
        insert_ticket name (shared_entry X share now ticket) room = Inr updated \<and>
        save_tickets X (sf_write_ok fs) updated = Inr content)"
  unfolding file_share_def Let_def share_name_def [symmetric] shared_entry_def [symmetric]
  by (auto simp: res_bind_Inr_iff split: if_splits)


lemma file_share_stored:
  assumes "store_laws X" and "file_share X share label now ticket fs = Inr (name, content)"
  shows "\<exists>peers tickets tickets'. name = share_name share label \<and> trim name \<noteq> [] \<and>
    load_peers X (sf_read_ok fs) (sf_peers_path fs) (sf_peers fs) = Inr peers \<and>
    load_tickets X (sf_read_ok fs) (sf_tickets_path fs) (sf_tickets fs) = Inr tickets \<and>
    load_tickets X True (sf_tickets_path fs) (Some content) = Inr tickets' \<and>
    get_by_label name peers = None \<and> get_ticket name tickets' = Some (shared_entry X share now ticket) \<and>
    (\<forall>l. l \<noteq> name \<longrightarrow> get_ticket l tickets' = get_ticket l tickets) \<and>
    (\<forall>old. get_ticket name tickets = Some old \<longrightarrow>
       eq_ignore_ascii_case (te_endpoint_id_hex old) (sx_hex X (ea_id (tk_addr ticket))) \<and>
       te_expires_at old < bd_not_after (tk_body ticket))"
proof -
  from assms(2) obtain peers tickets room updated where
      f: "name = share_name share label" "trim name \<noteq> []"
      "load_peers X (sf_read_ok fs) (sf_peers_path fs) (sf_peers fs) = Inr peers"
      "load_tickets X (sf_read_ok fs) (sf_tickets_path fs) (sf_tickets fs) = Inr tickets"
    and room: "share_room name (sx_hex X (ea_id (tk_addr ticket))) (bd_not_after (tk_body ticket)) peers tickets = Inr room"
    and ins: "insert_ticket name (shared_entry X share now ticket) room = Inr updated"
    and save: "save_tickets X (sf_write_ok fs) updated = Inr content"
    unfolding file_share_ok by blast
  have json: "sx_tickets_parse X content = Some updated"
    using assms(1) save by (auto simp: store_laws_def save_tickets_def split: option.splits if_splits)
  have old: "get_by_label name peers = None" "\<forall>l. l \<noteq> name \<longrightarrow> get_ticket l room = get_ticket l tickets" "ts_schema room = ts_schema tickets"
      "\<forall>old. get_ticket name tickets = Some old \<longrightarrow>
         eq_ignore_ascii_case (te_endpoint_id_hex old) (sx_hex X (ea_id (tk_addr ticket))) \<and> te_expires_at old < bd_not_after (tk_body ticket)"
    using room unfolding share_room_place by (auto simp: get_ticket_def delete_conv' split: option.splits)
  have new: "get_ticket name updated = Some (shared_entry X share now ticket)" "\<forall>l. l \<noteq> name \<longrightarrow> get_ticket l updated = get_ticket l room"
      "ts_schema updated = ts_schema room"
    using ins by (auto simp: insert_ticket_ok get_ticket_def update_conv')
  have "load_tickets X True (sf_tickets_path fs) (Some content) = Inr updated"
    using json load_tickets_ok [OF f(4)] old(3) new(3) by (simp add: load_tickets_def)
  then show ?thesis using f old new by (metis (no_types, lifting))
qed

end
