(* ===== verification/Rendezvous.thy ===== *)
theory Rendezvous
  imports Session_Share
begin

text \<open>
  The short online exchange (\<^verbatim>\<open>portl-core/src/rendezvous\<close>): short codes
  (\<^verbatim>\<open>short_code.rs\<close>), the client of the mailbox server (\<^verbatim>\<open>mailbox.rs\<close>), the encryption of
  the phases (\<^verbatim>\<open>wormhole_crypto.rs\<close>), the two sides of the exchange (\<^verbatim>\<open>backend.rs\<close>) and the
  backend in memory (\<^verbatim>\<open>memory.rs\<close>).  The server is the list of what a client will receive from
  it; key agreement, hash, key derivation and cipher are the fields of a record.
\<close>

section \<open>Short codes\<close>

record ShortCode =
  sc_nameplate :: string
  sc_words :: "string list"

datatype ShortCodeParseError = WrongPrefix | MissingComponents | InvalidNameplate | InvalidWord string

definition SHORT_PREFIX :: string where
  "SHORT_PREFIX = ''PORTL-S-''"

definition ascii_digit :: "char \<Rightarrow> bool" where
  "ascii_digit c \<longleftrightarrow> of_char c \<in> {48..57 :: nat}"

definition ascii_lowercase :: "char \<Rightarrow> bool" where
  "ascii_lowercase c \<longleftrightarrow> of_char c \<in> {97..122 :: nat}"

definition parse_short_code :: "string \<Rightarrow> ShortCodeParseError + ShortCode" where
  "parse_short_code input =
     res_bind (ok_or WrongPrefix (strip_prefix SHORT_PREFIX input)) (\<lambda>rest.
       let parts = split_on (CHR ''-'') rest; nameplate = hd parts; words = tl parts
       in if nameplate = [] then Inl MissingComponents
          else if \<not> list_all ascii_digit nameplate then Inl InvalidNameplate
          else if length words < 2 then Inl MissingComponents
          else res_bind (for_each (\<lambda>w. if w = [] \<or> \<not> list_all ascii_lowercase w then Inl (InvalidWord w) else Inr ()) words)
                 (\<lambda>_. Inr \<lparr>sc_nameplate = nameplate, sc_words = words\<rparr>))"

text \<open>
  The two words the random generator picks from the word list are an argument.
\<close>

definition generate_with_nameplate :: "string \<Rightarrow> string list \<Rightarrow> ShortCodeParseError + ShortCode" where
  "generate_with_nameplate nameplate chosen =
     (if nameplate = [] \<or> \<not> list_all ascii_digit nameplate then Inl InvalidNameplate
      else Inr \<lparr>sc_nameplate = nameplate, sc_words = chosen\<rparr>)"

definition password :: "ShortCode \<Rightarrow> string" where
  "password code = sc_nameplate code @ concat (map (\<lambda>w. CHR ''-'' # w) (sc_words code))"

definition display_code :: "ShortCode \<Rightarrow> string" where
  "display_code code = SHORT_PREFIX @ password code"

section \<open>Encryption of the phases\<close>

record 'st wormhole_externs =
  wx_start :: "bytes \<Rightarrow> bytes \<Rightarrow> nat \<Rightarrow> 'st \<times> bytes"
  wx_finish :: "'st \<Rightarrow> bytes \<Rightarrow> bytes option"
  wx_sha256 :: "bytes \<Rightarrow> bytes"
  wx_hkdf :: "bytes \<Rightarrow> bytes \<Rightarrow> bytes"
  wx_seal :: "bytes \<Rightarrow> bytes \<Rightarrow> bytes \<Rightarrow> bytes"
  wx_open :: "bytes \<Rightarrow> bytes \<Rightarrow> bytes \<Rightarrow> bytes option"
  wx_hex :: "bytes \<Rightarrow> string"
  wx_unhex :: "string \<Rightarrow> bytes option"
  wx_pake_json :: "string \<Rightarrow> bytes"
  wx_pake_parse :: "bytes \<Rightarrow> string option"

datatype WormholeCryptoError = InvalidPakeJson | InvalidPakeHex | SpakeFailed | KeyLength nat | Decrypt | Truncated

text \<open>
  The seed stands for the random numbers of the key agreement.
\<close>

definition start_pake :: "'st wormhole_externs \<Rightarrow> nat \<Rightarrow> string \<Rightarrow> string \<Rightarrow> 'st \<times> bytes" where
  "start_pake W seed pw appid =
     (let (state, msg1) = wx_start W (ascii pw) (ascii appid) seed in (state, wx_pake_json W (wx_hex W msg1)))"

definition finish_pake :: "'st wormhole_externs \<Rightarrow> 'st \<Rightarrow> bytes \<Rightarrow> WormholeCryptoError + bytes" where
  "finish_pake W state peer_body =
     res_bind (ok_or InvalidPakeJson (wx_pake_parse W peer_body)) (\<lambda>parsed.
     res_bind (ok_or InvalidPakeHex (wx_unhex W parsed)) (\<lambda>peer_msg.
     res_bind (ok_or SpakeFailed (wx_finish W state peer_msg)) (\<lambda>shared.
       if length shared = 32 then Inr shared else Inl (KeyLength (length shared)))))"

definition derive_phase_key :: "'st wormhole_externs \<Rightarrow> bytes \<Rightarrow> string \<Rightarrow> string \<Rightarrow> bytes" where
  "derive_phase_key W key side phase =
     wx_hkdf W key (ascii ''wormhole:phase:'' @ wx_sha256 W (ascii side) @ wx_sha256 W (ascii phase))"

definition encrypt_phase_with_nonce :: "'st wormhole_externs \<Rightarrow> bytes \<Rightarrow> string \<Rightarrow> string \<Rightarrow> bytes \<Rightarrow> bytes \<Rightarrow> bytes" where
  "encrypt_phase_with_nonce W key side phase plaintext nonce =
     nonce @ wx_seal W (derive_phase_key W key side phase) nonce plaintext"

definition decrypt_phase :: "'st wormhole_externs \<Rightarrow> bytes \<Rightarrow> string \<Rightarrow> string \<Rightarrow> bytes \<Rightarrow> WormholeCryptoError + bytes" where
  "decrypt_phase W key side phase encrypted =
     (if length encrypted < 24 then Inl Truncated
      else ok_or Decrypt (wx_open W (derive_phase_key W key side phase) (take 24 encrypted) (drop 24 encrypted)))"

section \<open>The client of the mailbox server\<close>

datatype MailboxError =
    ServerError string
  | TransportError string
  | UnexpectedFrame string
  | MailboxClosed "string option"

datatype MailboxClientMessage =
    Bind string string
  | Allocate
  | Claim string
  | Release string
  | Open string
  | Add string bytes
  | Close "string option" "string option"

record PhaseMessage =
  pm_side :: string
  pm_phase :: string
  pm_body :: bytes
  pm_id :: string

datatype MailboxServerMessage =
    Welcome string
  | Allocated string
  | Claimed string
  | Released
  | Closed "string option"
  | Ack string
  | Message PhaseMessage
  | ErrorFrame string

record MailboxSetup =
  ms_nameplate :: string
  ms_mailbox :: string

definition MAX_PENDING_MESSAGES :: nat where
  "MAX_PENDING_MESSAGES = 64"

text \<open>
  A client with what it will receive (a frame, or an error of the transport; at the end of the list
  the transport is closed), which of its sends succeed, and what it has sent.
\<close>

type_synonym inbox = "(MailboxError + MailboxServerMessage) list"

record MailboxClient =
  mb_appid :: string
  mb_side :: string
  mb_mailbox :: "string option"
  mb_bound :: bool
  mb_pending :: "PhaseMessage list"
  mb_inbox :: inbox
  mb_send_ok :: "nat \<Rightarrow> bool"
  mb_sent :: "MailboxClientMessage list"

definition new_mailbox :: "string \<Rightarrow> string \<Rightarrow> inbox \<Rightarrow> (nat \<Rightarrow> bool) \<Rightarrow> MailboxClient" where
  "new_mailbox appid side frames send_ok =
     \<lparr>mb_appid = appid, mb_side = side, mb_mailbox = None, mb_bound = False, mb_pending = [], mb_inbox = frames,
      mb_send_ok = send_ok, mb_sent = []\<rparr>"

type_synonym ('e, 'a) mbox = "MailboxClient \<Rightarrow> ('e + 'a) \<times> MailboxClient"

definition mbox_bind :: "('e, 'a) mbox \<Rightarrow> ('a \<Rightarrow> ('e, 'b) mbox) \<Rightarrow> ('e, 'b) mbox" where
  "mbox_bind m f c = (case m c of (Inl e, c') \<Rightarrow> (Inl e, c') | (Inr x, c') \<Rightarrow> f x c')"

definition mbox_return :: "'e + 'a \<Rightarrow> ('e, 'a) mbox" where
  "mbox_return r c = (r, c)"

definition mbox_err :: "('e \<Rightarrow> 'f) \<Rightarrow> ('e, 'a) mbox \<Rightarrow> ('f, 'a) mbox" where
  "mbox_err g m c = (let (r, c') = m c in (map_err g r, c'))"

definition mbox_send :: "MailboxClientMessage \<Rightarrow> (MailboxError, unit) mbox" where
  "mbox_send msg c =
     (if mb_send_ok c (length (mb_sent c)) then (Inr (), c\<lparr>mb_sent := mb_sent c @ [msg]\<rparr>)
      else (Inl (TransportError ''send''), c))"

definition buffer_pending :: "PhaseMessage \<Rightarrow> PhaseMessage list \<Rightarrow> MailboxError + PhaseMessage list" where
  "buffer_pending msg pending =
     (if MAX_PENDING_MESSAGES \<le> length pending then Inl (UnexpectedFrame ''pending phase buffer exceeded cap of 64'')
      else Inr (pending @ [msg]))"

text \<open>
  The loops that wait for something: each reads frames until the one it waits for, and returns what
  it has not read and the messages it has put aside.
\<close>

fun recv_meaningful_setup ::
  "inbox \<Rightarrow> PhaseMessage list \<Rightarrow> (MailboxError + MailboxServerMessage) \<times> inbox \<times> PhaseMessage list" where
  "recv_meaningful_setup [] pending = (Inl (TransportError ''closed''), [], pending)"
| "recv_meaningful_setup (Inl e # fs) pending = (Inl e, fs, pending)"
| "recv_meaningful_setup (Inr (Ack _) # fs) pending = recv_meaningful_setup fs pending"
| "recv_meaningful_setup (Inr (ErrorFrame e) # fs) pending = (Inl (ServerError e), fs, pending)"
| "recv_meaningful_setup (Inr (Message m) # fs) pending =
     (case buffer_pending m pending of
        Inl e \<Rightarrow> (Inl e, fs, pending)
      | Inr pending' \<Rightarrow> recv_meaningful_setup fs pending')"
| "recv_meaningful_setup (Inr m # fs) pending = (Inr m, fs, pending)"

fun await_command_accepted ::
  "inbox \<Rightarrow> PhaseMessage list \<Rightarrow> (MailboxError + unit) \<times> inbox \<times> PhaseMessage list" where
  "await_command_accepted [] pending = (Inl (TransportError ''closed''), [], pending)"
| "await_command_accepted (Inl e # fs) pending = (Inl e, fs, pending)"
| "await_command_accepted (Inr (Ack _) # fs) pending = (Inr (), fs, pending)"
| "await_command_accepted (Inr (ErrorFrame e) # fs) pending = (Inl (ServerError e), fs, pending)"
| "await_command_accepted (Inr (Message m) # fs) pending =
     (case buffer_pending m pending of
        Inl e \<Rightarrow> (Inl e, fs, pending)
      | Inr pending' \<Rightarrow> await_command_accepted fs pending')"
| "await_command_accepted (Inr _ # fs) pending = (Inl (UnexpectedFrame ''expected ack''), fs, pending)"

fun await_closed :: "inbox \<Rightarrow> PhaseMessage list \<Rightarrow> (MailboxError + unit) \<times> inbox \<times> PhaseMessage list" where
  "await_closed [] pending = (Inl (TransportError ''closed''), [], pending)"
| "await_closed (Inl e # fs) pending = (Inl e, fs, pending)"
| "await_closed (Inr (Ack _) # fs) pending = await_closed fs pending"
| "await_closed (Inr (Closed _) # fs) pending = (Inr (), fs, pending)"
| "await_closed (Inr (ErrorFrame e) # fs) pending = (Inl (ServerError e), fs, pending)"
| "await_closed (Inr (Message m) # fs) pending =
     (case buffer_pending m pending of
        Inl e \<Rightarrow> (Inl e, fs, pending)
      | Inr pending' \<Rightarrow> await_closed fs pending')"
| "await_closed (Inr _ # fs) pending = (Inl (UnexpectedFrame ''expected closed''), fs, pending)"

definition expect_phase :: "string \<Rightarrow> PhaseMessage \<Rightarrow> MailboxError + PhaseMessage" where
  "expect_phase expected m =
     (if pm_phase m \<noteq> expected
      then Inl (UnexpectedFrame (''expected phase '' @ expected @ '', got '' @ pm_phase m)) else Inr m)"

fun recv_phase_frames :: "string \<Rightarrow> string \<Rightarrow> inbox \<Rightarrow> (MailboxError + PhaseMessage) \<times> inbox" where
  "recv_phase_frames side expected [] = (Inl (TransportError ''closed''), [])"
| "recv_phase_frames side expected (Inl e # fs) = (Inl e, fs)"
| "recv_phase_frames side expected (Inr (Ack _) # fs) = recv_phase_frames side expected fs"
| "recv_phase_frames side expected (Inr (ErrorFrame e) # fs) = (Inl (ServerError e), fs)"
| "recv_phase_frames side expected (Inr (Message m) # fs) =
     (if pm_side m = side then recv_phase_frames side expected fs else (expect_phase expected m, fs))"
| "recv_phase_frames side expected (Inr (Closed mood) # fs) = (Inl (MailboxClosed mood), fs)"
| "recv_phase_frames side expected (Inr _ # fs) = (Inl (UnexpectedFrame ''expected message''), fs)"

fun recv_phase :: "string \<Rightarrow> string \<Rightarrow> PhaseMessage list \<Rightarrow> inbox \<Rightarrow> (MailboxError + PhaseMessage) \<times> PhaseMessage list \<times> inbox" where
  "recv_phase side expected (m # pending) fs =
     (if pm_side m = side then recv_phase side expected pending fs else (expect_phase expected m, pending, fs))"
| "recv_phase side expected [] fs = (let (r, fs') = recv_phase_frames side expected fs in (r, [], fs'))"

definition mbox_await ::
  "(inbox \<Rightarrow> PhaseMessage list \<Rightarrow> (MailboxError + 'a) \<times> inbox \<times> PhaseMessage list) \<Rightarrow> (MailboxError, 'a) mbox" where
  "mbox_await wait c =
     (let (r, fs, pending) = wait (mb_inbox c) (mb_pending c) in (r, c\<lparr>mb_inbox := fs, mb_pending := pending\<rparr>))"

definition recv_phase_from_peer :: "string \<Rightarrow> (MailboxError, PhaseMessage) mbox" where
  "recv_phase_from_peer expected c =
     (let (r, pending, fs) = recv_phase (mb_side c) expected (mb_pending c) (mb_inbox c)
      in (r, c\<lparr>mb_pending := pending, mb_inbox := fs\<rparr>))"

definition ensure_bound :: "(MailboxError, unit) mbox" where
  "ensure_bound c =
     (if mb_bound c then (Inr (), c)
      else mbox_bind (mbox_send (Bind (mb_appid c) (mb_side c))) (\<lambda>_ c. (Inr (), c\<lparr>mb_bound := True\<rparr>)) c)"

definition await_welcome :: "(MailboxError, unit) mbox" where
  "await_welcome =
     mbox_bind (mbox_await recv_meaningful_setup) (\<lambda>frame. mbox_return
       (case frame of Welcome _ \<Rightarrow> Inr () | _ \<Rightarrow> Inl (UnexpectedFrame ''expected welcome'')))"

definition claim_nameplate_and_open :: "string \<Rightarrow> (MailboxError, MailboxSetup) mbox" where
  "claim_nameplate_and_open nameplate =
     mbox_bind (mbox_send (Claim nameplate)) (\<lambda>_.
     mbox_bind (mbox_await recv_meaningful_setup) (\<lambda>frame.
       case frame of
         Claimed mailbox \<Rightarrow>
           mbox_bind (mbox_send (Open mailbox)) (\<lambda>_.
           mbox_bind (mbox_await await_command_accepted) (\<lambda>_ c.
             (Inr \<lparr>ms_nameplate = nameplate, ms_mailbox = mailbox\<rparr>, c\<lparr>mb_mailbox := Some mailbox\<rparr>)))
       | _ \<Rightarrow> mbox_return (Inl (UnexpectedFrame ''expected claimed''))))"

definition allocate_and_open :: "(MailboxError, MailboxSetup) mbox" where
  "allocate_and_open =
     mbox_bind ensure_bound (\<lambda>_.
     mbox_bind await_welcome (\<lambda>_.
     mbox_bind (mbox_send Allocate) (\<lambda>_.
     mbox_bind (mbox_await recv_meaningful_setup) (\<lambda>frame.
       case frame of
         Allocated nameplate \<Rightarrow> claim_nameplate_and_open nameplate
       | _ \<Rightarrow> mbox_return (Inl (UnexpectedFrame ''expected allocated''))))))"

definition claim_and_open :: "string \<Rightarrow> (MailboxError, MailboxSetup) mbox" where
  "claim_and_open nameplate =
     mbox_bind ensure_bound (\<lambda>_. mbox_bind await_welcome (\<lambda>_. claim_nameplate_and_open nameplate))"

definition send_phase :: "string \<Rightarrow> bytes \<Rightarrow> (MailboxError, unit) mbox" where
  "send_phase phase body = mbox_bind (mbox_send (Add phase body)) (\<lambda>_. mbox_await await_command_accepted)"

definition close_happy :: "(MailboxError, unit) mbox" where
  "close_happy = mbox_bind (mbox_send (Close None (Some ''happy''))) (\<lambda>_. mbox_await await_closed)"

definition close_scary :: "string \<Rightarrow> (MailboxError, unit) mbox" where
  "close_scary reason =
     mbox_bind (mbox_send (Close None (Some (''scary: '' @ reason)))) (\<lambda>_. mbox_await await_closed)"


section \<open>The two sides\<close>

definition PORTL_EXCHANGE_APPID_V1 :: string where
  "PORTL_EXCHANGE_APPID_V1 = ''portl.exchange.v1''"

definition PORTL_RECIPIENT_HELLO_SCHEMA_V1 :: string where
  "PORTL_RECIPIENT_HELLO_SCHEMA_V1 = ''portl.recipient_hello.v1''"

datatype RendezvousError =
    AlreadyClaimed
  | Expired
  | NotFound
  | Backend string
  | Mailbox MailboxError
  | Crypto WormholeCryptoError
  | InvalidPayload string

record RecipientHelloV1 =
  rh_schema :: string
  rh_endpoint_id_hex :: "string option"
  rh_label_hint :: "string option"

definition validate_hello :: "(string \<Rightarrow> bytes option) \<Rightarrow> RecipientHelloV1 \<Rightarrow> RendezvousError + unit" where
  "validate_hello unhex hello =
     (if rh_schema hello \<noteq> PORTL_RECIPIENT_HELLO_SCHEMA_V1 then Inl (InvalidPayload ''unexpected hello schema'')
      else res_bind (if_some (rh_endpoint_id_hex hello) (\<lambda>hexed.
             if length hexed \<noteq> 64
             then Inl (InvalidPayload (''endpoint_id_hex must be 64 chars, got '' @ decimal (length hexed)))
             else (case unhex hexed of
                     None \<Rightarrow> Inl (InvalidPayload ''endpoint_id_hex not valid hex'')
                   | Some decoded \<Rightarrow>
                       if length decoded \<noteq> 32
                       then Inl (InvalidPayload (''endpoint_id_hex must decode to 32 bytes, got '' @ decimal (length decoded)))
                       else Inr ()))) (\<lambda>_.
           if_some (rh_label_hint hello) (\<lambda>label.
             if 128 < length label
             then Inl (InvalidPayload (''label_hint exceeds 128 bytes ('' @ decimal (length label) @ '' bytes)''))
             else Inr ())))"

text \<open>
  The JSON of the hello and of the envelope.
\<close>

record exchange_json =
  xj_hello :: "RecipientHelloV1 \<Rightarrow> bytes option"
  xj_hello_parse :: "bytes \<Rightarrow> RecipientHelloV1 option"
  xj_envelope :: "PortlExchangeEnvelopeV1 \<Rightarrow> bytes option"
  xj_envelope_shadow :: "bytes \<Rightarrow> PortlExchangeEnvelopeV1 option"

definition or_close_scary :: "string \<Rightarrow> RendezvousError + 'a \<Rightarrow> (RendezvousError, 'a) mbox" where
  "or_close_scary reason r c = (case r of Inr x \<Rightarrow> (Inr x, c) | Inl e \<Rightarrow> (Inl e, snd (close_scary reason c)))"

definition pake_exchange :: "'st wormhole_externs \<Rightarrow> nat \<Rightarrow> ShortCode \<Rightarrow> (RendezvousError, bytes) mbox" where
  "pake_exchange W seed code =
     (let (state, pake_body) = start_pake W seed (password code) PORTL_EXCHANGE_APPID_V1
      in mbox_bind (mbox_err Mailbox (send_phase ''pake'' pake_body)) (\<lambda>_.
         mbox_bind (mbox_err Mailbox (recv_phase_from_peer ''pake'')) (\<lambda>peer_pake.
           or_close_scary ''pake failed'' (map_err Crypto (finish_pake W state (pm_body peer_pake))))))"

definition offer_pake_and_recv_hello ::
  "'st wormhole_externs \<Rightarrow> exchange_json \<Rightarrow> nat \<Rightarrow> ShortCode \<Rightarrow> (RendezvousError, bytes \<times> RecipientHelloV1) mbox" where
  "offer_pake_and_recv_hello W J seed code =
     mbox_bind (pake_exchange W seed code) (\<lambda>key.
     mbox_bind (mbox_err Mailbox (recv_phase_from_peer ''0'')) (\<lambda>hello_msg.
     mbox_bind (or_close_scary ''hello decrypt failed''
                  (map_err Crypto (decrypt_phase W key (pm_side hello_msg) ''0'' (pm_body hello_msg)))) (\<lambda>hello_plain.
     mbox_bind (or_close_scary ''hello deserialize failed''
                  (ok_or (InvalidPayload ''hello'') (xj_hello_parse J hello_plain))) (\<lambda>hello.
     mbox_bind (or_close_scary ''hello validation failed'' (validate_hello (wx_unhex W) hello)) (\<lambda>_.
       mbox_return (Inr (key, hello)))))))"

definition best_effort_close_happy :: "(RendezvousError, unit) mbox" where
  "best_effort_close_happy c = (Inr (), snd (close_happy c))"

definition offer_send_envelope ::
  "'st wormhole_externs \<Rightarrow> exchange_json \<Rightarrow> bytes \<Rightarrow> bytes \<Rightarrow> PortlExchangeEnvelopeV1 \<Rightarrow> (RendezvousError, unit) mbox" where
  "offer_send_envelope W J nonce key envelope c =
     mbox_bind (mbox_return (ok_or (InvalidPayload ''envelope'') (xj_envelope J envelope))) (\<lambda>envelope_json.
     mbox_bind (mbox_err Mailbox (send_phase ''1'' (encrypt_phase_with_nonce W key (mb_side c) ''1'' envelope_json nonce))) (\<lambda>_.
       best_effort_close_happy)) c"

definition offer_over_mailbox ::
  "'st wormhole_externs \<Rightarrow> exchange_json \<Rightarrow> nat \<Rightarrow> bytes \<Rightarrow> ShortCode \<Rightarrow> PortlExchangeEnvelopeV1 \<Rightarrow> (RendezvousError, unit) mbox" where
  "offer_over_mailbox W J seed nonce code envelope =
     mbox_bind (mbox_err Mailbox (claim_and_open (sc_nameplate code))) (\<lambda>_.
     mbox_bind (offer_pake_and_recv_hello W J seed code) (\<lambda>(key, _).
       offer_send_envelope W J nonce key envelope))"

definition accept_over_mailbox ::
  "'st wormhole_externs \<Rightarrow> exchange_json \<Rightarrow> nat \<Rightarrow> bytes \<Rightarrow> ShortCode \<Rightarrow> RecipientHelloV1 \<Rightarrow>
   (RendezvousError, PortlExchangeEnvelopeV1) mbox" where
  "accept_over_mailbox W J seed nonce code hello c =
     mbox_bind (mbox_return (validate_hello (wx_unhex W) hello)) (\<lambda>_.
     mbox_bind (mbox_err Mailbox (claim_and_open (sc_nameplate code))) (\<lambda>_.
     mbox_bind (pake_exchange W seed code) (\<lambda>key.
     mbox_bind (mbox_return (ok_or (InvalidPayload ''hello'') (xj_hello J hello))) (\<lambda>hello_json.
     mbox_bind (mbox_err Mailbox (send_phase ''0'' (encrypt_phase_with_nonce W key (mb_side c) ''0'' hello_json nonce))) (\<lambda>_.
     mbox_bind (mbox_err Mailbox (recv_phase_from_peer ''1'')) (\<lambda>env_msg.
     mbox_bind (or_close_scary ''envelope decrypt failed''
                  (map_err Crypto (decrypt_phase W key (pm_side env_msg) ''1'' (pm_body env_msg)))) (\<lambda>env_plain.
     mbox_bind (or_close_scary ''envelope deserialize failed''
                  (ok_or (InvalidPayload ''envelope'') (deserialize_envelope (xj_envelope_shadow J) env_plain))) (\<lambda>envelope.
     mbox_bind best_effort_close_happy (\<lambda>_. mbox_return (Inr envelope)))))))))) c"

text \<open>
  The sender of the command line: it allocates a nameplate, shows the code, and makes the envelope
  when it has seen the hello.
\<close>

definition run_offer_against_transport ::
  "'st wormhole_externs \<Rightarrow> exchange_json \<Rightarrow> nat \<Rightarrow> bytes \<Rightarrow> string list \<Rightarrow> string option \<Rightarrow>
   (RecipientHelloV1 \<Rightarrow> string + PortlExchangeEnvelopeV1) \<Rightarrow> (RendezvousError, ShortCode) mbox" where
  "run_offer_against_transport W J seed nonce chosen nameplate_seed mint_envelope =
     mbox_bind (mbox_err Mailbox
                  (case nameplate_seed of Some np \<Rightarrow> claim_and_open np | None \<Rightarrow> allocate_and_open)) (\<lambda>setup.
     mbox_bind (mbox_return (map_err (\<lambda>_. Backend ''generate short code'') (generate_with_nameplate (ms_nameplate setup) chosen))) (\<lambda>code.
     mbox_bind (offer_pake_and_recv_hello W J seed code) (\<lambda>(key, hello).
       case mint_envelope hello of
         Inl err \<Rightarrow> (\<lambda>c. (Inl (Backend err), snd (close_scary ''offer refused'' c)))
       | Inr envelope \<Rightarrow>
           mbox_bind (offer_send_envelope W J nonce key envelope) (\<lambda>_. mbox_return (Inr code)))))"

section \<open>The backend in memory\<close>

text \<open>
  Instants are nanoseconds; adding to one fails when the seconds leave 63 bits.
\<close>

record StoredOffer =
  so_envelope :: PortlExchangeEnvelopeV1
  so_expires_at :: nat

record MemoryRendezvous =
  mr_offers :: "(string \<times> StoredOffer) list"
  mr_claimed :: "string set"
  mr_next_nameplate :: u64

definition memory_offer ::
  "string list \<Rightarrow> nat \<Rightarrow> PortlExchangeEnvelopeV1 \<Rightarrow> u64 \<Rightarrow> MemoryRendezvous \<Rightarrow> (RendezvousError + ShortCode) \<times> MemoryRendezvous" where
  "memory_offer chosen now envelope ttl m =
     (let n = mr_next_nameplate m; m' = m\<lparr>mr_next_nameplate := n + 1\<rparr>
      in case generate_with_nameplate (decimal (unat n)) chosen of
           Inl _ \<Rightarrow> (Inl (Backend ''short code''), m')
         | Inr code \<Rightarrow>
             if 2 ^ 63 \<le> now div 10 ^ 9 + unat ttl then (Inl (Backend ''ttl overflow''), m')
             else (Inr code, m'\<lparr>mr_offers := AList.update (display_code code)
                              \<lparr>so_envelope = envelope, so_expires_at = now + unat ttl * 10 ^ 9\<rparr> (mr_offers m')\<rparr>))"

definition memory_accept :: "nat \<Rightarrow> ShortCode \<Rightarrow> MemoryRendezvous \<Rightarrow> (RendezvousError + PortlExchangeEnvelopeV1) \<times> MemoryRendezvous" where
  "memory_accept now code m =
     (let key = display_code code
      in if key \<in> mr_claimed m then (Inl AlreadyClaimed, m)
         else (case map_of (mr_offers m) key of
                 None \<Rightarrow> (Inl NotFound, m)
               | Some stored \<Rightarrow>
                   if so_expires_at stored \<le> now then (Inl Expired, m)
                   else (Inr (so_envelope stored),
                         m\<lparr>mr_offers := AList.delete key (mr_offers m), mr_claimed := insert key (mr_claimed m)\<rparr>)))"


section \<open>Short codes are read back\<close>

definition short_code_wf :: "ShortCode \<Rightarrow> bool" where
  "short_code_wf code \<longleftrightarrow> sc_nameplate code \<noteq> [] \<and> list_all ascii_digit (sc_nameplate code) \<and> 2 \<le> length (sc_words code) \<and>
     list_all (\<lambda>w. w \<noteq> [] \<and> list_all ascii_lowercase w) (sc_words code)"

lemma split_on_words:
  "list_all (\<lambda>w. c \<notin> set w) (w # ws) \<Longrightarrow> split_on c (w @ concat (map (\<lambda>v. c # v) ws)) = w # ws"
proof (induction ws arbitrary: w)
  case Nil
  then show ?case by (induction w) auto
next
  case (Cons v ws)
  then show ?case using split_on_append [of c w "v @ concat (map (\<lambda>v. c # v) ws)"] by simp
qed

lemma split_on_inverse: "hd (split_on c xs) @ concat (map (\<lambda>v. c # v) (tl (split_on c xs))) = xs"
  by (induction xs) (auto split: list.split)

lemma no_dash: "list_all ascii_digit w \<or> list_all ascii_lowercase w \<Longrightarrow> CHR ''-'' \<notin> set w"
  by (auto simp: list_all_iff ascii_digit_def ascii_lowercase_def)

text \<open>
  A short code is exactly what is printed for it: a text is accepted as a code if and only if
  it is the text of a code with a nameplate of digits and at least two words of small letters, and
  then it is read as that code.
\<close>

lemma short_code_exact:
  "parse_short_code input = Inr code \<longleftrightarrow> short_code_wf code \<and> input = display_code code"
proof
  assume "parse_short_code input = Inr code"
  then obtain rest where rest: "input = SHORT_PREFIX @ rest" and code: "sc_nameplate code = hd (split_on (CHR ''-'') rest)"
      "sc_words code = tl (split_on (CHR ''-'') rest)" and wf: "short_code_wf code"
    by (auto simp: parse_short_code_def res_simps strip_prefix_Some_iff Let_def short_code_wf_def list_all_iff split: if_splits)
  then show "short_code_wf code \<and> input = display_code code"
    using split_on_inverse [of "CHR ''-''" rest] by (simp add: display_code_def password_def)
next
  assume R: "short_code_wf code \<and> input = display_code code"
  then have "list_all (\<lambda>w. CHR ''-'' \<notin> set w) (sc_nameplate code # sc_words code)"
    using no_dash by (auto simp: short_code_wf_def list_all_iff)
  then have "split_on (CHR ''-'') (password code) = sc_nameplate code # sc_words code"
    unfolding password_def by (rule split_on_words)
  then show "parse_short_code input = Inr code"
    using R by (auto simp: parse_short_code_def display_code_def short_code_wf_def strip_prefix_def starts_with_iff ok_or_def
        Let_def list_all_iff res_simps)
qed


section \<open>What a client makes of its frames\<close>

text \<open>
  Frames that need no reply, the messages among them, and the acknowledgements.
\<close>

definition talk :: "inbox \<Rightarrow> bool" where
  "talk = list_all (\<lambda>f. case f of Inr (Ack _) \<Rightarrow> True | Inr (Message _) \<Rightarrow> True | _ \<Rightarrow> False)"

definition messages :: "inbox \<Rightarrow> PhaseMessage list" where
  "messages = List.map_filter (\<lambda>f. case f of Inr (Message m) \<Rightarrow> Some m | _ \<Rightarrow> None)"

definition acks :: "inbox \<Rightarrow> nat" where
  "acks fs = length (filter (\<lambda>f. case f of Inr (Ack _) \<Rightarrow> True | _ \<Rightarrow> False) fs)"

abbreviation from_peer :: "string \<Rightarrow> PhaseMessage list \<Rightarrow> PhaseMessage list" where
  "from_peer side \<equiv> filter (\<lambda>m. pm_side m \<noteq> side)"

lemma frames_simps [simp]:
  "talk []" "messages [] = []" "acks [] = 0"
  "talk (f # fs) \<longleftrightarrow> ((\<exists>i. f = Inr (Ack i)) \<or> (\<exists>m. f = Inr (Message m))) \<and> talk fs"
  "messages (Inr (Ack i) # fs) = messages fs" "messages (Inr (Message m) # fs) = m # messages fs"
  "acks (Inr (Ack i) # fs) = Suc (acks fs)" "acks (Inr (Message m) # fs) = acks fs"
  "talk (fs @ gs) \<longleftrightarrow> talk fs \<and> talk gs" "messages (fs @ gs) = messages fs @ messages gs" "acks (fs @ gs) = acks fs + acks gs"
  by (auto simp: talk_def messages_def acks_def map_filter_def split: sum.splits MailboxServerMessage.splits)

lemma recv_setup_talk:
  assumes "talk fs" and "length pending + length (messages fs) \<le> 64"
    and "m \<in> {Welcome w, Allocated np, Claimed mb}"
  shows "recv_meaningful_setup (fs @ Inr m # rest) pending = (Inr m, rest, pending @ messages fs)"
  using assms
proof (induction fs arbitrary: pending)
  case (Cons f fs)
  then show ?case by (auto simp: buffer_pending_def MAX_PENDING_MESSAGES_def)
qed auto

lemma await_ack_talk:
  assumes "talk fs" and "0 < acks fs" and "length pending + length (messages fs) \<le> 64"
  shows "\<exists>gs pending'. await_command_accepted (fs @ rest) pending = (Inr (), gs @ rest, pending') \<and> talk gs \<and>
    Suc (acks gs) = acks fs \<and> pending' @ messages gs = pending @ messages fs"
  using assms
proof (induction fs arbitrary: pending)
  case (Cons f fs)
  then consider i where "f = Inr (Ack i)" | m where "f = Inr (Message m)" by auto
  then show ?case
  proof cases
    case 2
    then show ?thesis
      using Cons.IH [of "pending @ [m]"] Cons.prems by (auto simp: buffer_pending_def MAX_PENDING_MESSAGES_def)
  qed (use Cons.prems in auto)
qed simp

lemma recv_phase_frames_talk:
  assumes "talk fs" and "from_peer side (messages fs) = m # ms" and "pm_phase m = expected"
  shows "\<exists>gs. recv_phase_frames side expected (fs @ rest) = (Inr m, gs @ rest) \<and> talk gs \<and>
    from_peer side (messages gs) = ms \<and> length (messages gs) \<le> length (messages fs)"
  using assms
proof (induction fs)
  case (Cons f fs)
  then consider i where "f = Inr (Ack i)" | m' where "f = Inr (Message m')" by auto
  then show ?case
  proof cases
    case 2
    then show ?thesis
      using Cons by (cases "pm_side m' = side") (fastforce simp: expect_phase_def)+
  qed (use Cons in auto)
qed simp

lemma recv_phase_talk:
  assumes "talk fs" and "from_peer side (pending @ messages fs) = m # ms" and "pm_phase m = expected"
  shows "\<exists>gs pending'. recv_phase side expected pending (fs @ rest) = (Inr m, pending', gs @ rest) \<and> talk gs \<and>
    from_peer side (pending' @ messages gs) = ms \<and> length pending' + length (messages gs) \<le> length pending + length (messages fs)"
  using assms
proof (induction pending)
  case Nil
  then show ?case using recv_phase_frames_talk [of fs side m ms expected rest] by auto
next
  case (Cons p pending)
  then show ?case by (cases "pm_side p = side") (auto simp: expect_phase_def le_Suc_eq)
qed

text \<open>
  A client in the middle of an exchange: what it has sent, the messages of the other side it has
  not taken yet, how many acknowledgements are still to be read before \<open>rest\<close>, and how many
  messages it may have to put aside.
\<close>

definition mail_state :: "string \<Rightarrow> MailboxClientMessage list \<Rightarrow> PhaseMessage list \<Rightarrow> nat \<Rightarrow> nat \<Rightarrow> inbox \<Rightarrow> MailboxClient \<Rightarrow> bool" where
  "mail_state side sent ms k n rest c \<longleftrightarrow> mb_side c = side \<and> mb_send_ok c = (\<lambda>_. True) \<and> mb_sent c = sent \<and>
     (\<exists>fs. mb_inbox c = fs @ rest \<and> talk fs \<and> k \<le> acks fs \<and> from_peer side (mb_pending c @ messages fs) = ms \<and>
        length (mb_pending c) + length (messages fs) \<le> n)"

lemma send_phase_step:
  assumes "mail_state side sent ms (Suc k) n rest c" and "n \<le> 64"
  shows "\<exists>c'. send_phase phase body c = (Inr (), c') \<and> mail_state side (sent @ [Add phase body]) ms k n rest c'"
proof -
  from assms(1) obtain fs where c: "mb_side c = side" "mb_send_ok c = (\<lambda>_. True)" "mb_sent c = sent" "mb_inbox c = fs @ rest" "talk fs"
      "Suc k \<le> acks fs" "from_peer side (mb_pending c @ messages fs) = ms" "length (mb_pending c) + length (messages fs) \<le> n"
    unfolding mail_state_def by blast
  obtain gs pending' where a: "await_command_accepted (fs @ rest) (mb_pending c) = (Inr (), gs @ rest, pending')" "talk gs"
      "Suc (acks gs) = acks fs" "pending' @ messages gs = mb_pending c @ messages fs"
    using await_ack_talk [of fs "mb_pending c" rest] c(5,6,8) assms(2) by auto
  have "length pending' + length (messages gs) \<le> n" using arg_cong [OF a(4), of length] c(8) by simp
  moreover have "from_peer side (pending' @ messages gs) = ms" unfolding a(4) by (rule c(7))
  ultimately show ?thesis
    using a(1-3) c(1-4,6) by (auto simp: send_phase_def mbox_bind_def mbox_send_def mbox_await_def mail_state_def simp del: filter_append)
qed

lemma recv_phase_step:
  assumes "mail_state side sent (m # ms) k n rest c" and "pm_phase m = expected"
  shows "\<exists>c'. recv_phase_from_peer expected c = (Inr m, c') \<and> mail_state side sent ms 0 n rest c'"
proof -
  from assms(1) obtain fs where c: "mb_side c = side" "mb_send_ok c = (\<lambda>_. True)" "mb_sent c = sent" "mb_inbox c = fs @ rest" "talk fs"
      "from_peer side (mb_pending c @ messages fs) = m # ms" "length (mb_pending c) + length (messages fs) \<le> n"
    unfolding mail_state_def by blast
  show ?thesis
    using recv_phase_talk [OF c(5,6) assms(2), of rest] c
    by (auto simp: recv_phase_from_peer_def mail_state_def)
qed

lemma mail_state_more:
  assumes "mail_state side sent ms k n (fs @ rest) c" and "talk fs" and "n + length (messages fs) \<le> n'"
  shows "mail_state side sent (ms @ from_peer side (messages fs)) (k + acks fs) n' rest c"
proof -
  from assms(1) obtain gs where c: "mb_side c = side" "mb_send_ok c = (\<lambda>_. True)" "mb_sent c = sent" "mb_inbox c = gs @ fs @ rest" "talk gs"
      "k \<le> acks gs" "from_peer side (mb_pending c @ messages gs) = ms" "length (mb_pending c) + length (messages gs) \<le> n"
    unfolding mail_state_def by blast
  then show ?thesis
    using assms(2,3) unfolding mail_state_def by (intro conjI exI [of _ "gs @ fs"]) auto
qed


lemma claim_nameplate_step:
  assumes "mb_side c = side" and "mb_send_ok c = (\<lambda>_. True)" and "mb_inbox c = S @ Inr (Claimed mb) # A @ rest"
    and "talk S" and "talk A" and "0 < acks A" and "length (mb_pending c) + length (messages (S @ A)) \<le> n" and "n \<le> 64"
  shows "\<exists>c'. claim_nameplate_and_open np c = (Inr \<lparr>ms_nameplate = np, ms_mailbox = mb\<rparr>, c') \<and>
    mail_state side (mb_sent c @ [Claim np, Open mb]) (from_peer side (mb_pending c @ messages (S @ A))) (acks A - 1) n rest c'"
proof -
  have s: "recv_meaningful_setup (S @ Inr (Claimed mb) # A @ rest) (mb_pending c) = (Inr (Claimed mb), A @ rest, mb_pending c @ messages S)"
    using assms(4,7,8) by (intro recv_setup_talk) auto
  obtain gs pending' where a: "await_command_accepted (A @ rest) (mb_pending c @ messages S) = (Inr (), gs @ rest, pending')" "talk gs"
      "Suc (acks gs) = acks A" "pending' @ messages gs = (mb_pending c @ messages S) @ messages A"
    using await_ack_talk [OF assms(5,6), of "mb_pending c @ messages S" rest] assms(7,8) by auto
  have "length pending' + length (messages gs) \<le> n" using arg_cong [OF a(4), of length] assms(7) by simp
  moreover have "from_peer side (pending' @ messages gs) = from_peer side (mb_pending c @ messages (S @ A))" unfolding a(4) by simp
  moreover have "acks A - 1 \<le> acks gs" using a(3) by simp
  ultimately show ?thesis
    using s a(1,2) assms(1-3)
    by (auto simp: claim_nameplate_and_open_def mbox_bind_def mbox_send_def mbox_await_def mail_state_def simp del: filter_append)
qed

lemma welcome_step:
  assumes "c = new_mailbox appid side (S @ Inr (Welcome w) # rest) (\<lambda>_. True)" and "talk S" and "length (messages S) \<le> 64"
  shows "mbox_bind ensure_bound (\<lambda>_. mbox_bind await_welcome (\<lambda>_. f)) c =
    f (c\<lparr>mb_sent := [Bind appid side], mb_bound := True, mb_inbox := rest, mb_pending := messages S\<rparr>)"
  using recv_setup_talk [OF assms(2), of "[]" "Welcome w"] assms(1,3)
  by (simp add: new_mailbox_def ensure_bound_def await_welcome_def mbox_bind_def mbox_send_def mbox_await_def mbox_return_def)

lemma claim_and_open_step:
  assumes "c = new_mailbox appid side (S @ Inr (Welcome w) # S' @ Inr (Claimed mb) # A @ rest) (\<lambda>_. True)"
    and "talk S" and "talk S'" and "talk A" and "0 < acks A" and "length (messages (S @ S' @ A)) \<le> n" and "n \<le> 64"
  shows "\<exists>c'. claim_and_open np c = (Inr \<lparr>ms_nameplate = np, ms_mailbox = mb\<rparr>, c') \<and>
    mail_state side [Bind appid side, Claim np, Open mb] (from_peer side (messages (S @ S' @ A))) (acks A - 1) n rest c'"
proof -
  let ?c = "c\<lparr>mb_sent := [Bind appid side], mb_bound := True, mb_inbox := S' @ Inr (Claimed mb) # A @ rest, mb_pending := messages S\<rparr>"
  have "claim_and_open np c = claim_nameplate_and_open np ?c"
    using assms(6,7) unfolding claim_and_open_def by (subst welcome_step [OF assms(1,2)]) auto
  then show ?thesis
    using claim_nameplate_step [OF _ _ _ assms(3-5) _ assms(7), of ?c side mb rest np] assms(1,6) by (auto simp: new_mailbox_def)
qed

lemma allocate_and_open_step:
  assumes "c = new_mailbox appid side (S @ Inr (Welcome w) # S' @ Inr (Allocated np) # S'' @ Inr (Claimed mb) # A @ rest) (\<lambda>_. True)"
    and "talk S" and "talk S'" and "talk S''" and "talk A" and "0 < acks A" and "length (messages (S @ S' @ S'' @ A)) \<le> n" and "n \<le> 64"
  shows "\<exists>c'. allocate_and_open c = (Inr \<lparr>ms_nameplate = np, ms_mailbox = mb\<rparr>, c') \<and>
    mail_state side [Bind appid side, Allocate, Claim np, Open mb] (from_peer side (messages (S @ S' @ S'' @ A))) (acks A - 1) n rest c'"
proof -
  let ?c = "c\<lparr>mb_sent := [Bind appid side, Allocate], mb_bound := True, mb_inbox := S'' @ Inr (Claimed mb) # A @ rest,
    mb_pending := messages (S @ S')\<rparr>"
  have "recv_meaningful_setup (S' @ Inr (Allocated np) # S'' @ Inr (Claimed mb) # A @ rest) (messages S) =
      (Inr (Allocated np), S'' @ Inr (Claimed mb) # A @ rest, messages S @ messages S')"
    using assms(3,7,8) by (intro recv_setup_talk) auto
  then have "allocate_and_open c = claim_nameplate_and_open np ?c"
    using assms(1,7,8) unfolding allocate_and_open_def
    by (subst welcome_step [OF assms(1,2)]) (auto simp: mbox_bind_def mbox_send_def mbox_await_def new_mailbox_def)
  then show ?thesis
    using claim_nameplate_step [OF _ _ _ assms(4-6) _ assms(8), of ?c side mb rest np] assms(1,7) by (auto simp: new_mailbox_def)
qed


section \<open>The exchange\<close>

text \<open>
  What is relied on: two parties that start from the same password and name agree on a key of 32
  bytes; the cipher opens what it sealed; hex and JSON are read back.
\<close>

definition wormhole_laws :: "'st wormhole_externs \<Rightarrow> bool" where
  "wormhole_laws W \<longleftrightarrow>
     (\<forall>pw name r r'. \<exists>k. length k = 32 \<and> wx_finish W (fst (wx_start W pw name r)) (snd (wx_start W pw name r')) = Some k \<and>
        wx_finish W (fst (wx_start W pw name r')) (snd (wx_start W pw name r)) = Some k) \<and>
     (\<forall>k nonce p. wx_open W k nonce (wx_seal W k nonce p) = Some p) \<and>
     (\<forall>bs. wx_unhex W (wx_hex W bs) = Some bs) \<and> (\<forall>h. wx_pake_parse W (wx_pake_json W h) = Some h)"

definition exchange_json_laws :: "exchange_json \<Rightarrow> bool" where
  "exchange_json_laws J \<longleftrightarrow>
     (\<forall>h bs. xj_hello J h = Some bs \<longrightarrow> xj_hello_parse J bs = Some h) \<and>
     (\<forall>ev bs. xj_envelope J ev = Some bs \<longrightarrow> xj_envelope_shadow J bs = Some ev)"

definition pake_body :: "'st wormhole_externs \<Rightarrow> nat \<Rightarrow> ShortCode \<Rightarrow> bytes" where
  "pake_body W seed code = snd (start_pake W seed (password code) PORTL_EXCHANGE_APPID_V1)"

definition agreed_key :: "'st wormhole_externs \<Rightarrow> nat \<Rightarrow> nat \<Rightarrow> ShortCode \<Rightarrow> WormholeCryptoError + bytes" where
  "agreed_key W mine theirs code =
     finish_pake W (fst (start_pake W mine (password code) PORTL_EXCHANGE_APPID_V1)) (pake_body W theirs code)"

lemma agreed_key_both:
  assumes "wormhole_laws W"
  shows "\<exists>key. agreed_key W a b code = Inr key \<and> agreed_key W b a code = Inr key"
proof -
  obtain k where "length k = 32"
      "wx_finish W (fst (wx_start W (ascii (password code)) (ascii PORTL_EXCHANGE_APPID_V1) a))
         (snd (wx_start W (ascii (password code)) (ascii PORTL_EXCHANGE_APPID_V1) b)) = Some k"
      "wx_finish W (fst (wx_start W (ascii (password code)) (ascii PORTL_EXCHANGE_APPID_V1) b))
         (snd (wx_start W (ascii (password code)) (ascii PORTL_EXCHANGE_APPID_V1) a)) = Some k"
    using assms unfolding wormhole_laws_def by blast
  then show ?thesis
    using assms by (simp add: agreed_key_def pake_body_def finish_pake_def start_pake_def wormhole_laws_def ok_or_def split_def Let_def)
qed

lemma decrypt_encrypted:
  "wormhole_laws W \<Longrightarrow> length nonce = 24 \<Longrightarrow>
   decrypt_phase W key side phase (encrypt_phase_with_nonce W key side phase p nonce) = Inr p"
  by (simp add: decrypt_phase_def encrypt_phase_with_nonce_def wormhole_laws_def ok_or_def)

lemma pake_exchange_step:
  assumes "mail_state side sent (m # ms) (Suc k) n rest c" and "n \<le> 64" and "pm_phase m = ''pake''"
    and "pm_body m = pake_body W theirs code" and "agreed_key W mine theirs code = Inr key"
  shows "\<exists>c'. pake_exchange W mine code c = (Inr key, c') \<and>
    mail_state side (sent @ [Add ''pake'' (pake_body W mine code)]) ms 0 n rest c'"
proof -
  obtain c1 where c1: "send_phase ''pake'' (pake_body W mine code) c = (Inr (), c1)"
      "mail_state side (sent @ [Add ''pake'' (pake_body W mine code)]) (m # ms) k n rest c1"
    using send_phase_step [OF assms(1,2)] by blast
  obtain c2 where "recv_phase_from_peer ''pake'' c1 = (Inr m, c2)"
      "mail_state side (sent @ [Add ''pake'' (pake_body W mine code)]) ms 0 n rest c2"
    using recv_phase_step [OF c1(2) assms(3)] by blast
  then show ?thesis
    using c1(1) assms(4,5)
    by (simp add: pake_exchange_def agreed_key_def pake_body_def split_def Let_def mbox_bind_def mbox_err_def or_close_scary_def)
qed

lemma close_happy_sent:
  "mb_send_ok c = (\<lambda>_. True) \<Longrightarrow> mb_sent (snd (close_happy c)) = mb_sent c @ [Close None (Some ''happy'')]"
  by (simp add: close_happy_def mbox_bind_def mbox_send_def mbox_await_def split_def Let_def)

text \<open>
  The frames the server has for one side.  Whatever the acknowledgements and echoes among them, every
  command is acknowledged after it was sent, and the messages of the other side come in their
  order, the ones that answer a message of this side after that.
\<close>

definition serves :: "string option \<Rightarrow> string \<Rightarrow> inbox \<Rightarrow> PhaseMessage list \<Rightarrow> PhaseMessage list \<Rightarrow> bool" where
  "serves nameplate side frames before after \<longleftrightarrow>
     (\<exists>w mb S S' S'' A B C D. frames = S @ Inr (Welcome w) #
          (case nameplate of None \<Rightarrow> S' @ S'' | Some np \<Rightarrow> S' @ Inr (Allocated np) # S'') @ Inr (Claimed mb) # A @ B @ C @ D \<and>
        talk (S @ S' @ S'' @ A @ B @ C) \<and> 0 < acks A \<and> 0 < acks B \<and> 0 < acks C \<and>
        length (messages (S @ S' @ S'' @ A @ B @ C)) \<le> 64 \<and>
        from_peer side (messages (S @ S' @ S'' @ A @ B)) = before \<and> from_peer side (messages C) = after)"

lemma serves_step:
  assumes "serves nameplate side frames before after" and "c = new_mailbox appid side frames (\<lambda>_. True)"
  shows "\<exists>mb c' sent C D n. talk C \<and> 0 < acks C \<and> from_peer side (messages C) = after \<and> n + length (messages C) \<le> 64 \<and>
    (case nameplate of None \<Rightarrow> claim_and_open np | Some _ \<Rightarrow> allocate_and_open) c =
      (Inr \<lparr>ms_nameplate = (case nameplate of None \<Rightarrow> np | Some p \<Rightarrow> p), ms_mailbox = mb\<rparr>, c') \<and>
    mail_state side sent before 1 n (C @ D) c' \<and> \<not> list_ex (\<lambda>m. case m of Add _ _ \<Rightarrow> True | _ \<Rightarrow> False) sent"
proof -
  from assms(1) obtain w mb S S' S'' A B C D where fs: "frames = S @ Inr (Welcome w) #
        (case nameplate of None \<Rightarrow> S' @ S'' | Some np \<Rightarrow> S' @ Inr (Allocated np) # S'') @ Inr (Claimed mb) # A @ B @ C @ D"
      and t: "talk S" "talk S'" "talk S''" "talk A" "talk B" "talk C" "0 < acks A" "0 < acks B" "0 < acks C"
      and len: "length (messages (S @ S' @ S'' @ A @ B @ C)) \<le> 64"
      and peers: "from_peer side (messages (S @ S' @ S'' @ A @ B)) = before" "from_peer side (messages C) = after"
    unfolding serves_def by auto
  let ?n = "length (messages (S @ S' @ S'' @ A))" and ?n' = "length (messages (S @ S' @ S'' @ A @ B))"
  have "\<exists>c' sent. (case nameplate of None \<Rightarrow> claim_and_open np | Some _ \<Rightarrow> allocate_and_open) c =
        (Inr \<lparr>ms_nameplate = (case nameplate of None \<Rightarrow> np | Some p \<Rightarrow> p), ms_mailbox = mb\<rparr>, c') \<and>
      mail_state side sent (from_peer side (messages (S @ S' @ S'' @ A))) (acks A - 1) ?n (B @ C @ D) c' \<and>
      \<not> list_ex (\<lambda>m. case m of Add _ _ \<Rightarrow> True | _ \<Rightarrow> False) sent"
  proof (cases nameplate)
    case None
    then show ?thesis
      using claim_and_open_step [of c appid side S w "S' @ S''" mb A "B @ C @ D" ?n np] assms(2) fs t len
      by (auto intro!: exI [of _ "[Bind appid side, Claim np, Open mb]"])
  next
    case (Some p)
    then show ?thesis
      using allocate_and_open_step [of c appid side S w S' p S'' mb A "B @ C @ D" ?n] assms(2) fs t len
      by (auto intro!: exI [of _ "[Bind appid side, Allocate, Claim p, Open mb]"])
  qed
  then obtain c' sent where c': "(case nameplate of None \<Rightarrow> claim_and_open np | Some _ \<Rightarrow> allocate_and_open) c =
        (Inr \<lparr>ms_nameplate = (case nameplate of None \<Rightarrow> np | Some p \<Rightarrow> p), ms_mailbox = mb\<rparr>, c')"
      "mail_state side sent (from_peer side (messages (S @ S' @ S'' @ A))) (acks A - 1) ?n (B @ C @ D) c'"
      "\<not> list_ex (\<lambda>m. case m of Add _ _ \<Rightarrow> True | _ \<Rightarrow> False) sent" by blast
  have "mail_state side sent before (acks A - 1 + acks B) ?n' (C @ D) c'"
    using mail_state_more [OF c'(2) t(5), of ?n'] peers(1) by simp
  then have "mail_state side sent before 1 ?n' (C @ D) c'"
    using t(8) unfolding mail_state_def by fastforce
  then show ?thesis using c'(1,3) t(6,9) peers(2) len
    by (intro exI [of _ mb] exI [of _ c'] exI [of _ sent] exI [of _ C] exI [of _ D] exI [of _ ?n']) simp
qed


definition added :: "MailboxClientMessage list \<Rightarrow> (string \<times> bytes) list" where
  "added sent = List.map_filter (\<lambda>m. case m of Add phase body \<Rightarrow> Some (phase, body) | _ \<Rightarrow> None) sent"

lemma added_simps [simp]:
  "added (xs @ ys) = added xs @ added ys" "added (Add p b # xs) = (p, b) # added xs" "added (Close m d # xs) = added xs" "added [] = []"
  by (simp_all add: added_def List.map_filter_def)

lemma added_setup: "\<not> list_ex (\<lambda>m. case m of Add _ _ \<Rightarrow> True | _ \<Rightarrow> False) sent \<Longrightarrow> added sent = []"
  by (induction sent) (auto simp: added_def map_filter_simps split: MailboxClientMessage.splits)

definition says :: "string \<Rightarrow> (string \<times> bytes) list \<Rightarrow> PhaseMessage list \<Rightarrow> bool" where
  "says side xs ms \<longleftrightarrow> map (\<lambda>m. (pm_side m, pm_phase m, pm_body m)) ms = map (Pair side) xs"

lemma says_simps [simp]:
  "says side [] ms \<longleftrightarrow> ms = []"
  "says side ((p, b) # xs) ms \<longleftrightarrow> (\<exists>m ms'. ms = m # ms' \<and> pm_side m = side \<and> pm_phase m = p \<and> pm_body m = b \<and> says side xs ms')"
  by (auto simp: says_def Cons_eq_map_conv map_eq_Cons_conv)

definition served :: "string option \<Rightarrow> string \<Rightarrow> string \<Rightarrow> inbox \<Rightarrow> (string \<times> bytes) list \<Rightarrow> (string \<times> bytes) list \<Rightarrow> bool" where
  "served nameplate side other frames before after \<longleftrightarrow>
     (\<exists>ms ms'. serves nameplate side frames ms ms' \<and> says other before ms \<and> says other after ms')"

lemma accept_step:
  assumes laws: "wormhole_laws W" "exchange_json_laws J"
    and hello: "is_ok (validate_hello (wx_unhex W) hello)" "xj_hello J hello = Some hello_json"
    and envelope: "is_ok (validate_envelope envelope)" "xj_envelope J envelope = Some envelope_json" "length nonce = 24"
    and key: "agreed_key W mine theirs code = Inr key"
    and frames: "served None side other frames [(''pake'', pake_body W theirs code)]
      [(''1'', encrypt_phase_with_nonce W key other ''1'' envelope_json nonce)]"
  shows "\<exists>c'. accept_over_mailbox W J mine my_nonce code hello (new_mailbox PORTL_EXCHANGE_APPID_V1 side frames (\<lambda>_. True)) =
      (Inr envelope, c') \<and>
    added (mb_sent c') = [(''pake'', pake_body W mine code), (''0'', encrypt_phase_with_nonce W key side ''0'' hello_json my_nonce)]"
proof -
  let ?c = "new_mailbox PORTL_EXCHANGE_APPID_V1 side frames (\<lambda>_. True)"
  let ?pake = "Add ''pake'' (pake_body W mine code)"
    and ?hello = "Add ''0'' (encrypt_phase_with_nonce W key side ''0'' hello_json my_nonce)"
  from frames obtain m m' where m: "pm_phase m = ''pake''" "pm_body m = pake_body W theirs code"
      and m': "pm_side m' = other" "pm_phase m' = ''1''" "pm_body m' = encrypt_phase_with_nonce W key other ''1'' envelope_json nonce"
      and serves: "serves None side frames [m] [m']" unfolding served_def by auto
  obtain mb c1 sent C D n where C: "talk C" "0 < acks C" "from_peer side (messages C) = [m']" "n + length (messages C) \<le> 64"
      and c1: "claim_and_open (sc_nameplate code) ?c = (Inr \<lparr>ms_nameplate = sc_nameplate code, ms_mailbox = mb\<rparr>, c1)"
        "mail_state side sent [m] 1 n (C @ D) c1" and sent: "added sent = []"
    using serves_step [OF serves refl, of "sc_nameplate code" PORTL_EXCHANGE_APPID_V1] added_setup by auto
  obtain c2 where c2: "pake_exchange W mine code c1 = (Inr key, c2)" "mail_state side (sent @ [?pake]) [] 0 n (C @ D) c2"
    using pake_exchange_step [OF _ _ m key] c1(2) C(4) by (metis One_nat_def add_leD1)
  have "mail_state side (sent @ [?pake]) [m'] (Suc (acks C - 1)) 64 D c2"
    using mail_state_more [OF c2(2) C(1,4)] C(2,3) by simp
  then obtain c3 where c3: "send_phase ''0'' (encrypt_phase_with_nonce W key side ''0'' hello_json my_nonce) c2 = (Inr (), c3)"
      "mail_state side (sent @ [?pake, ?hello]) [m'] (acks C - 1) 64 D c3"
    using send_phase_step by fastforce
  obtain c4 where c4: "recv_phase_from_peer ''1'' c3 = (Inr m', c4)" "mail_state side (sent @ [?pake, ?hello]) [] 0 64 D c4"
    using recv_phase_step [OF c3(2) m'(2)] by blast
  have env: "deserialize_envelope (xj_envelope_shadow J) envelope_json = Some envelope"
    using laws(2) envelope(1,2) by (simp add: deserialize_envelope_def exchange_json_laws_def)
  have "mb_side ?c = side" by (simp add: new_mailbox_def)
  moreover have "mb_sent (snd (close_happy c4)) = sent @ [?pake, ?hello, Close None (Some ''happy'')]"
    using close_happy_sent [of c4] c4(2) by (simp add: mail_state_def)
  ultimately show ?thesis
    using hello c1(1) c2(1) c3(1) c4(1) env decrypt_encrypted [OF laws(1) envelope(3)] m' sent
    by (cases "validate_hello (wx_unhex W) hello")
      (simp_all add: accept_over_mailbox_def mbox_bind_def mbox_return_def mbox_err_def or_close_scary_def best_effort_close_happy_def ok_or_def)
qed


lemma offer_step:
  assumes laws: "wormhole_laws W" "exchange_json_laws J"
    and hello: "is_ok (validate_hello (wx_unhex W) hello)" "xj_hello J hello = Some hello_json" "length nonce = 24"
    and envelope: "mint_envelope hello = Inr envelope" "xj_envelope J envelope = Some envelope_json"
    and code: "generate_with_nameplate np chosen = Inr code"
    and key: "agreed_key W mine theirs code = Inr key"
    and frames: "served (Some np) side other frames
      [(''pake'', pake_body W theirs code), (''0'', encrypt_phase_with_nonce W key other ''0'' hello_json nonce)] []"
  shows "\<exists>c'. run_offer_against_transport W J mine my_nonce chosen None mint_envelope
      (new_mailbox PORTL_EXCHANGE_APPID_V1 side frames (\<lambda>_. True)) = (Inr code, c') \<and>
    added (mb_sent c') = [(''pake'', pake_body W mine code), (''1'', encrypt_phase_with_nonce W key side ''1'' envelope_json my_nonce)]"
proof -
  let ?c = "new_mailbox PORTL_EXCHANGE_APPID_V1 side frames (\<lambda>_. True)"
  let ?pake = "Add ''pake'' (pake_body W mine code)"
    and ?env = "Add ''1'' (encrypt_phase_with_nonce W key side ''1'' envelope_json my_nonce)"
  from frames obtain m m' where m: "pm_phase m = ''pake''" "pm_body m = pake_body W theirs code"
      and m': "pm_side m' = other" "pm_phase m' = ''0''" "pm_body m' = encrypt_phase_with_nonce W key other ''0'' hello_json nonce"
      and serves: "serves (Some np) side frames [m, m'] []" unfolding served_def by auto
  obtain mb c1 sent C D n where C: "talk C" "0 < acks C" "from_peer side (messages C) = []" "n + length (messages C) \<le> 64"
      and c1: "allocate_and_open ?c = (Inr \<lparr>ms_nameplate = np, ms_mailbox = mb\<rparr>, c1)"
        "mail_state side sent [m, m'] 1 n (C @ D) c1" and sent: "added sent = []"
    using serves_step [OF serves refl, of np PORTL_EXCHANGE_APPID_V1] added_setup by auto
  obtain c2 where c2: "pake_exchange W mine code c1 = (Inr key, c2)" "mail_state side (sent @ [?pake]) [m'] 0 n (C @ D) c2"
    using pake_exchange_step [OF _ _ m key] c1(2) C(4) by (metis One_nat_def add_leD1)
  obtain c3 where c3: "recv_phase_from_peer ''0'' c2 = (Inr m', c3)" "mail_state side (sent @ [?pake]) [] 0 n (C @ D) c3"
    using recv_phase_step [OF c2(2) m'(2)] by blast
  have "mail_state side (sent @ [?pake]) [] (Suc (acks C - 1)) 64 D c3"
    using mail_state_more [OF c3(2) C(1,4)] C(2,3) by simp
  then obtain c4 where c4: "send_phase ''1'' (encrypt_phase_with_nonce W key side ''1'' envelope_json my_nonce) c3 = (Inr (), c4)"
      "mail_state side (sent @ [?pake, ?env]) [] (acks C - 1) 64 D c4"
    using send_phase_step by fastforce
  have h: "xj_hello_parse J hello_json = Some hello" using laws(2) hello(2) by (simp add: exchange_json_laws_def)
  have "mb_side c3 = side" using c3(2) by (simp add: mail_state_def)
  moreover have "mb_sent (snd (close_happy c4)) = sent @ [?pake, ?env, Close None (Some ''happy'')]"
    using close_happy_sent [of c4] c4(2) by (simp add: mail_state_def)
  ultimately show ?thesis
    using hello(1) envelope c1(1) c2(1) c3(1) c4(1) h code decrypt_encrypted [OF laws(1) hello(3)] m' sent
    by (cases "validate_hello (wx_unhex W) hello")
      (simp_all add: run_offer_against_transport_def offer_pake_and_recv_hello_def offer_send_envelope_def mbox_bind_def
         mbox_return_def mbox_err_def or_close_scary_def best_effort_close_happy_def ok_or_def)
qed

text \<open>
  C9.  A share over the mailbox server arrives: when the sender shows the code of the nameplate it
  was given and the recipient types it, and the server hands each side what the other added, in
  order and with whatever acknowledgements and echoes among it, then the sender returns the code
  and the recipient returns exactly the envelope that was made for its hello; and what each side
  added is exactly the pake message and its one encrypted message that the other was handed.
\<close>

theorem exchange_delivers:
  assumes "wormhole_laws W" and "exchange_json_laws J"
    and "is_ok (validate_hello (wx_unhex W) hello)" and "xj_hello J hello = Some hello_json" and "length a_nonce = 24"
    and "mint_envelope hello = Inr envelope" and "is_ok (validate_envelope envelope)"
    and "xj_envelope J envelope = Some envelope_json" and "length o_nonce = 24"
    and "generate_with_nameplate np chosen = Inr code"
    and "agreed_key W a o' code = Inr key"
    and "acceptor_added = [(''pake'', pake_body W a code), (''0'', encrypt_phase_with_nonce W key a_side ''0'' hello_json a_nonce)]"
    and "offerer_added = [(''pake'', pake_body W o' code), (''1'', encrypt_phase_with_nonce W key o_side ''1'' envelope_json o_nonce)]"
    and "served None a_side o_side a_frames (take 1 offerer_added) (drop 1 offerer_added)"
    and "served (Some np) o_side a_side o_frames acceptor_added []"
  shows "\<exists>c\<^sub>a c\<^sub>o.
     accept_over_mailbox W J a a_nonce code hello (new_mailbox PORTL_EXCHANGE_APPID_V1 a_side a_frames (\<lambda>_. True)) = (Inr envelope, c\<^sub>a) \<and>
     run_offer_against_transport W J o' o_nonce chosen None mint_envelope
       (new_mailbox PORTL_EXCHANGE_APPID_V1 o_side o_frames (\<lambda>_. True)) = (Inr code, c\<^sub>o) \<and>
     added (mb_sent c\<^sub>a) = acceptor_added \<and> added (mb_sent c\<^sub>o) = offerer_added"
proof -
  have "agreed_key W o' a code = Inr key" using agreed_key_both [OF assms(1), of a o' code] assms(11) by auto
  then show ?thesis
    using accept_step [OF assms(1-4,7-9,11), of a_side o_side a_frames a_nonce]
      offer_step [of W J hello hello_json a_nonce mint_envelope envelope envelope_json np chosen code o' a key o_side a_side o_frames o_nonce,
        OF assms(1-6,8,10)] assms(12-15)
    by auto
qed


definition demo_wormhole :: "unit wormhole_externs" where
  "demo_wormhole = \<lparr>wx_start = (\<lambda>pw name r. ((), [of_nat r])), wx_finish = (\<lambda>st msg. Some (replicate 32 5)), wx_sha256 = id,
     wx_hkdf = (\<lambda>k i. k @ i), wx_seal = (\<lambda>k nonce p. p), wx_open = (\<lambda>k nonce p. Some p), wx_hex = hex_of, wx_unhex = unhex_of,
     wx_pake_json = ascii, wx_pake_parse = (\<lambda>bs. Some (map (\<lambda>b. char_of (unat b)) bs))\<rparr>"

definition demo_hello :: RecipientHelloV1 where
  "demo_hello = \<lparr>rh_schema = PORTL_RECIPIENT_HELLO_SCHEMA_V1, rh_endpoint_id_hex = None, rh_label_hint = Some ''me''\<rparr>"

definition demo_envelope :: PortlExchangeEnvelopeV1 where
  "demo_envelope = session_share_envelope
     \<lparr>se_workspace_id = ''w'', se_friendly_name = ''dev'', se_conflict_handle = ''h'', se_origin_label_hint = None,
      se_target_label_hint = Some ''box'', se_target_endpoint_id_hex = replicate 64 (CHR ''a''), se_provider = None,
      se_provider_session = ''dev'', se_ticket = ''t'', se_access_not_after_unix = 500\<rparr> 100 (Some 200)"

definition demo_json :: exchange_json where
  "demo_json = \<lparr>xj_hello = (\<lambda>h. if h = demo_hello then Some [0] else None), xj_hello_parse = (\<lambda>_. Some demo_hello),
     xj_envelope = (\<lambda>e. if e = demo_envelope then Some [1] else None), xj_envelope_shadow = (\<lambda>_. Some demo_envelope)\<rparr>"

definition demo_short :: ShortCode where
  "demo_short = \<lparr>sc_nameplate = ''7'', sc_words = [''red'', ''fox'']\<rparr>"

lemma char_of_ascii: "map (\<lambda>b. char_of (unat b)) (ascii s) = s"
  by (induction s) (simp_all add: ascii_def unat_of_nat)

definition demo_acceptor_added :: "(string \<times> bytes) list" where
  "demo_acceptor_added = [(''pake'', pake_body demo_wormhole 1 demo_short),
     (''0'', encrypt_phase_with_nonce demo_wormhole (replicate 32 5) ''A'' ''0'' [0] (replicate 24 2))]"

definition demo_offerer_added :: "(string \<times> bytes) list" where
  "demo_offerer_added = [(''pake'', pake_body demo_wormhole 2 demo_short),
     (''1'', encrypt_phase_with_nonce demo_wormhole (replicate 32 5) ''B'' ''1'' [1] (replicate 24 3))]"

definition demo_said :: "string \<Rightarrow> string \<times> bytes \<Rightarrow> MailboxError + MailboxServerMessage" where
  "demo_said side m = Inr (Message \<lparr>pm_side = side, pm_phase = fst m, pm_body = snd m, pm_id = []\<rparr>)"

definition demo_acceptor_frames :: inbox where
  "demo_acceptor_frames = [Inr (Welcome []), Inr (Claimed ''mb''), Inr (Ack []), Inr (Ack []),
     demo_said ''A'' (demo_acceptor_added ! 0), demo_said ''B'' (demo_offerer_added ! 0), Inr (Ack []),
     demo_said ''A'' (demo_acceptor_added ! 1), demo_said ''B'' (demo_offerer_added ! 1)]"

definition demo_offerer_frames :: inbox where
  "demo_offerer_frames = [Inr (Welcome []), Inr (Allocated ''7''), Inr (Claimed ''mb''), Inr (Ack []),
     demo_said ''A'' (demo_acceptor_added ! 0), Inr (Ack []), demo_said ''B'' (demo_offerer_added ! 0),
     demo_said ''A'' (demo_acceptor_added ! 1), Inr (Ack []), demo_said ''B'' (demo_offerer_added ! 1)]"

lemma demo_acceptor_served:
  "served None ''A'' ''B'' demo_acceptor_frames (take 1 demo_offerer_added) (drop 1 demo_offerer_added)"
proof -
  let ?m = "\<lambda>i. \<lparr>pm_side = ''B'', pm_phase = fst (demo_offerer_added ! i), pm_body = snd (demo_offerer_added ! i), pm_id = []\<rparr>"
  have "serves None ''A'' demo_acceptor_frames [?m 0] [?m 1]"
    unfolding serves_def
    by (rule exI [of _ "[]"], rule exI [of _ "''mb''"], rule exI [of _ "[]"], rule exI [of _ "[]"], rule exI [of _ "[]"],
        rule exI [of _ "[Inr (Ack [])]"],
        rule exI [of _ "[Inr (Ack []), demo_said ''A'' (demo_acceptor_added ! 0), demo_said ''B'' (demo_offerer_added ! 0)]"],
        rule exI [of _ "[Inr (Ack []), demo_said ''A'' (demo_acceptor_added ! 1), demo_said ''B'' (demo_offerer_added ! 1)]"],
        rule exI [of _ "[]"])
      (simp add: demo_acceptor_frames_def demo_said_def)
  moreover have "says ''B'' (take 1 demo_offerer_added) [?m 0]" "says ''B'' (drop 1 demo_offerer_added) [?m 1]"
    by (simp_all add: demo_offerer_added_def)
  ultimately show ?thesis unfolding served_def by blast
qed

lemma demo_offerer_served: "served (Some ''7'') ''B'' ''A'' demo_offerer_frames demo_acceptor_added []"
proof -
  let ?m = "\<lambda>i. \<lparr>pm_side = ''A'', pm_phase = fst (demo_acceptor_added ! i), pm_body = snd (demo_acceptor_added ! i), pm_id = []\<rparr>"
  have "serves (Some ''7'') ''B'' demo_offerer_frames [?m 0, ?m 1] []"
    unfolding serves_def
    by (rule exI [of _ "[]"], rule exI [of _ "''mb''"], rule exI [of _ "[]"], rule exI [of _ "[]"], rule exI [of _ "[]"],
        rule exI [of _ "[Inr (Ack []), demo_said ''A'' (demo_acceptor_added ! 0)]"],
        rule exI [of _ "[Inr (Ack []), demo_said ''B'' (demo_offerer_added ! 0), demo_said ''A'' (demo_acceptor_added ! 1)]"],
        rule exI [of _ "[Inr (Ack []), demo_said ''B'' (demo_offerer_added ! 1)]"], rule exI [of _ "[]"])
      (simp add: demo_offerer_frames_def demo_said_def)
  moreover have "says ''A'' demo_acceptor_added [?m 0, ?m 1]" by (simp add: demo_acceptor_added_def)
  ultimately show ?thesis unfolding served_def says_simps by blast
qed

lemma demo_exchange_laws: "wormhole_laws demo_wormhole" "exchange_json_laws demo_json"
proof -
  show "wormhole_laws demo_wormhole" by (simp add: wormhole_laws_def demo_wormhole_def char_of_ascii hex_of_laws)
  show "exchange_json_laws demo_json" by (simp add: exchange_json_laws_def demo_json_def)
qed

theorem exchange_delivers_witness:
  "\<exists>c\<^sub>a c\<^sub>o.
     accept_over_mailbox demo_wormhole demo_json 1 (replicate 24 2) demo_short demo_hello
       (new_mailbox PORTL_EXCHANGE_APPID_V1 ''A'' demo_acceptor_frames (\<lambda>_. True)) = (Inr demo_envelope, c\<^sub>a) \<and>
     run_offer_against_transport demo_wormhole demo_json 2 (replicate 24 3) [''red'', ''fox''] None (\<lambda>_. Inr demo_envelope)
       (new_mailbox PORTL_EXCHANGE_APPID_V1 ''B'' demo_offerer_frames (\<lambda>_. True)) = (Inr demo_short, c\<^sub>o) \<and>
     added (mb_sent c\<^sub>a) = demo_acceptor_added \<and> added (mb_sent c\<^sub>o) = demo_offerer_added"
proof -
  have hello: "is_ok (validate_hello (wx_unhex demo_wormhole) demo_hello)" "xj_hello demo_json demo_hello = Some [0]"
    by (simp_all add: validate_hello_def demo_hello_def demo_json_def)
  have envelope: "is_ok (validate_envelope demo_envelope)" "xj_envelope demo_json demo_envelope = Some [1]"
    by (code_simp, simp add: demo_json_def)
  have code: "generate_with_nameplate ''7'' [''red'', ''fox''] = Inr demo_short"
    by (simp add: generate_with_nameplate_def demo_short_def ascii_digit_def)
  have key: "agreed_key demo_wormhole 1 2 demo_short = Inr (replicate 32 5)"
    by (simp add: agreed_key_def finish_pake_def pake_body_def start_pake_def demo_wormhole_def char_of_ascii ok_or_def hex_of_laws
        del: hex_of.simps)
  show ?thesis
    by (rule exchange_delivers [OF demo_exchange_laws hello _ _ envelope _ code key demo_acceptor_added_def demo_offerer_added_def
          demo_acceptor_served demo_offerer_served]) simp_all
qed

end
