(* ===== verification/Share_Connect.thy ===== *)
theory Share_Connect
  imports Connect Rendezvous
begin

text \<open>
  From a share to a session, across the components: the envelope a sender makes, what the recipient
  files, the ticket its label resolves to, and the acceptance of the ticket by the agent of the
  shared machine.  Nothing of the program is defined here.
\<close>

section \<open>The envelope that was built\<close>

lemma hex_digit_ascii: "hex_digit_char c \<Longrightarrow> ascii_hexdigit c"
  by (auto simp: hex_digit_char_def ascii_hexdigit_def)

lemma store_hex_wf:
  assumes "store_laws X" and "length k = 32"
  shows "length (sx_hex X k) = 64" and "list_all ascii_hexdigit (sx_hex X k)"
  using assms hex_digit_ascii by (auto simp: store_laws_def list_all_iff)

text \<open>
  A share that was built for a recipient: the ticket in it, and that every check of the importer
  passes on it while it lasts.
\<close>

lemma built_share:
  assumes laws: "store_laws (rx_store S)" "ed25519_correct (rx_crypto S)"
    and built: "build_session_share_envelope S draws inputs = Some (Inr built)"
    and recipient: "ei_recipient_hex inputs = Some (sx_hex (rx_store S) me)" and target: "length (ea_id (ei_target_addr inputs)) = 32"
  shows "\<exists>t share. ev_payload (be_envelope built) = SessionShare share \<and> ev_not_after_unix (be_envelope built) = Some (bd_not_after (tk_body t)) \<and>
    se_ticket share = rx_encode_ticket S t \<and> se_access_not_after_unix share = bd_not_after (tk_body t) \<and>
    se_target_endpoint_id_hex share = sx_hex (rx_store S) (ea_id (tk_addr t)) \<and> tk_addr t = ei_target_addr inputs \<and>
    bd_to (tk_body t) = Some me \<and> bd_bearer (tk_body t) = None \<and> bd_caps (tk_body t) = session_share_caps \<and>
    bd_not_before (tk_body t) = ei_now_unix inputs \<and> validate_envelope (be_envelope built) = Inr () \<and>
    (\<forall>roots. ex_verifying_key (rx_crypto S) (ei_identity inputs) \<in> roots \<longrightarrow> sound_chain (rx_crypto S) roots [t]) \<and>
    resolved_issuer t = ex_verifying_key (rx_crypto S) (ei_identity inputs)"
proof -
  have un: "sx_unhex (rx_store S) (sx_hex (rx_store S) me) = Some me" using laws(1) by (simp add: store_laws_def)
  obtain na t where na: "checked_add (ei_now_unix inputs) (ei_access_ttl inputs) = Some na"
      and t: "mint_root (rx_crypto S) draws (ei_identity inputs) (ei_target_addr inputs) share_caps (ei_now_unix inputs) na (Some me) =
        Some (Inr t)" "length me = 32"
      and env: "be_envelope built = session_share_envelope \<lparr>se_workspace_id = ei_workspace_id inputs, se_friendly_name = ei_session_name inputs,
         se_conflict_handle = ei_conflict_handle inputs, se_origin_label_hint = ei_origin_label_hint inputs,
         se_target_label_hint = ei_target_label_hint inputs,
         se_target_endpoint_id_hex = sx_hex (rx_store S) (ea_id (ei_target_addr inputs)),
         se_provider = ei_provider inputs, se_provider_session = ei_session_name inputs,
         se_ticket = rx_encode_ticket S t, se_access_not_after_unix = na\<rparr> (ei_now_unix inputs) (Some na)"
    using built recipient un
    by (auto simp: build_session_share_envelope_def share_binding_def res_bind_Inr_iff map_err_Inr_iff Let_def split: if_splits option.splits)
  have body: "tk_addr t = ei_target_addr inputs" "bd_to (tk_body t) = Some me" "ei_now_unix inputs < na"
    using mint_root_address [OF t(1)] by simp_all
  note sound = mint_root_sound [OF laws(2) t(1)]
  have mine: "sound_chain (rx_crypto S) {ex_verifying_key (rx_crypto S) (ei_identity inputs)} [t] \<and> bd_caps (tk_body t) = share_caps \<and>
      bd_bearer (tk_body t) = None \<and> bd_not_before (tk_body t) = ei_now_unix inputs \<and> bd_not_after (tk_body t) = na"
    by (rule sound) simp
  have "validate_envelope (be_envelope built) = Inr ()"
    using store_hex_wf [OF laws(1) target] body(3)
    by (simp add: env session_share_envelope_def validate_envelope_def validate_share_def ENDPOINT_ID_HEX_LEN_def)
  moreover have "resolved_issuer t = ex_verifying_key (rx_crypto S) (ei_identity inputs)"
    using mine by (simp add: sound_chain_def sound_root_def)
  ultimately show ?thesis
    using mine sound body by (auto simp: env session_share_envelope_def share_caps_eq)
qed


section \<open>Filing and resolving it\<close>

lemma file_share_succeeds:
  assumes "load_peers X (sf_read_ok fs) (sf_peers_path fs) (sf_peers fs) = Inr peers"
    and "load_tickets X (sf_read_ok fs) (sf_tickets_path fs) (sf_tickets fs) = Inr tickets"
    and "trim (share_name share label) \<noteq> []" and "label_in_use (share_name share label) peers tickets = None"
    and "sf_write_ok fs"
  shows "file_share X share label now ticket fs = Inl ''encode ticket store'' \<or>
    (\<exists>content. file_share X share label now ticket fs = Inr (share_name share label, content))"
proof -
  let ?name = "share_name share label"
  have free: "get_by_label ?name peers = None" "get_ticket ?name tickets = None"
    using assms(4) by (auto simp: label_in_use_def split: if_splits)
  then have "share_room ?name hex expires peers tickets = Inr tickets" "insert_ticket ?name entry tickets =
      Inr (tickets\<lparr>ts_entries := AList.update ?name entry (ts_entries tickets)\<rparr>)" for hex expires entry
    by (simp_all add: share_room_place insert_ticket_ok)
  then show ?thesis
    using assms(1-3,5)
    by (auto simp: file_share_def Let_def share_name_def [symmetric] save_tickets_def split: option.split)
qed

lemma saved_ticket_resolves:
  assumes "load_peers (rx_store R) (sf_read_ok fs) (sf_peers_path fs) (sf_peers fs) = Inr peers"
    and "load_tickets (rx_store R) (sf_read_ok fs) (sf_tickets_path fs) (sf_tickets fs) = Inr tickets"
    and "trim name = name" and "name \<noteq> []" and "sx_decode_ticket (rx_store R) name = Inl err"
    and "get_by_label name peers = None" and "get_ticket name tickets = Some e"
    and "sx_decode_ticket (rx_store R) (te_ticket_string e) = Inr t" and "te_expires_at e = bd_not_after (tk_body t)"
    and "ro_now_unix options < bd_not_after (tk_body t)"
  shows "resolve_target R draws options fs name = Some (Inr (resolved_ticket t (te_ticket_string e) TicketStoreSource))"
  using assms by (simp add: resolve_target_def resolve_label_def saved_target_def reject_expired_def Let_def)

section \<open>Properties\<close>

text \<open>
  C10.  What an import files.  If it fails, the file is as before.  If it succeeds, the envelope
  had not expired, and the ticket in it is a root ticket signed by its issuer, with exactly the
  capabilities of a share and no bearer, for the endpoint the envelope names, not expired, not
  outliving the envelope, and bound to the recipient if one was given; its label is not that of a
  peer; reading the file back gives the ticket under the label and every other ticket unchanged;
  and a ticket it replaced was for the same endpoint and expired earlier.
\<close>

theorem imported_share_sound:
  assumes "store_laws (rx_store R)" and "import_session_share_envelope R ev label recipient clock fs = (res, fs')"
  shows "case res of
     Inl e \<Rightarrow> fs' = fs
   | Inr im \<Rightarrow> (\<exists>now share ticket peers tickets tickets'.
       clock = Some now \<and> ev_payload ev = SessionShare share \<and> (\<forall>na. ev_not_after_unix ev = Some na \<longrightarrow> now < na) \<and>
       sx_decode_ticket (rx_store R) (se_ticket share) = Inr ticket \<and> shared_ticket R share recipient now ticket \<and>
       load_peers (rx_store R) (sf_read_ok fs) (sf_peers_path fs) (sf_peers fs) = Inr peers \<and>
       load_tickets (rx_store R) (sf_read_ok fs) (sf_tickets_path fs) (sf_tickets fs) = Inr tickets \<and>
       load_tickets (rx_store R) True (sf_tickets_path fs) (sf_tickets fs') = Inr tickets' \<and>
       get_by_label (im_label im) peers = None \<and>
       get_ticket (im_label im) tickets' = Some (shared_entry (rx_store R) share now ticket) \<and>
       (\<forall>l. l \<noteq> im_label im \<longrightarrow> get_ticket l tickets' = get_ticket l tickets) \<and>
       (\<forall>old. get_ticket (im_label im) tickets = Some old \<longrightarrow>
          eq_ignore_ascii_case (te_endpoint_id_hex old) (sx_hex (rx_store R) (ea_id (tk_addr ticket))) \<and>
          te_expires_at old < bd_not_after (tk_body ticket)))"
proof (cases res)
  case (Inl e)
  then show ?thesis using assms(2) by (auto simp: import_session_share_envelope_def split: sum.splits)
next
  case (Inr im)
  with assms(2) obtain now share ticket content where
      o: "open_share R session_share_caps ev recipient clock = Inr (now, share, ticket)"
    and f: "file_share (rx_store R) share label now ticket fs = Inr (im_label im, content)" and fs': "fs' = fs\<lparr>sf_tickets := Some content\<rparr>"
    by (auto simp: import_session_share_envelope_def split: sum.splits)
  have "sf_tickets fs' = Some content" by (simp add: fs')
  then show ?thesis
    using o file_share_stored [OF assms(1) f] unfolding Inr sum.case open_share_ok by metis
qed

text \<open>
  C8.  A share leads to a session.  Suppose a sender builds a share for a recipient's key, and the
  recipient accepts it while it lasts under a name that no peer and no ticket has.  Then it is
  filed, unless the new ticket file cannot be encoded; the name resolves to the ticket in it, which
  is for the shared machine; and the agent of that machine, if it trusts the sender, gives the
  recipient who presents this ticket with proof of its key a session with exactly the capabilities
  of a share, charged to the sender, during the time of the share and as long as the ticket is not
  revoked.
\<close>

theorem shared_session_reached:
  assumes laws: "store_laws (rx_store R)" "ed25519_correct (en_crypto E)" "rx_crypto R = en_crypto E"
      "\<forall>t. se_ticket share = rx_encode_ticket R t \<longrightarrow> sx_decode_ticket (rx_store R) (se_ticket share) = Inr t"
    and built: "build_session_share_envelope R draws inputs = Some (Inr built)" "ev_payload (be_envelope built) = SessionShare share"
      "ev_not_after_unix (be_envelope built) = Some not_after"
    and recipient: "me = ex_verifying_key (en_crypto E) sk" "ei_recipient_hex inputs = Some (sx_hex (rx_store R) me)"
    and target: "length (ea_id (ei_target_addr inputs)) = 32"
    and files_ok: "sf_read_ok fs" "sf_write_ok fs" "load_peers (rx_store R) True (sf_peers_path fs) (sf_peers fs) = Inr peers"
      "load_tickets (rx_store R) True (sf_tickets_path fs) (sf_tickets fs) = Inr tickets"
    and name: "name = share_name share label" "trim name = name" "name \<noteq> []" "sx_decode_ticket (rx_store R) name = Inl err"
      "label_in_use name peers tickets = None"
    and time: "now < not_after" "ro_now_unix options < not_after"
    and imported: "import_exchange_envelope R (be_envelope built) label (Some (sx_hex (rx_store R) me)) (Some now) fs = (res, fs')"
      "res \<noteq> Inl ''encode ticket store''"
  shows "res = Inr name \<and> (\<exists>r. resolve_target R draws' options fs' name = Some (Inr r) \<and> rt_source r = TicketStoreSource \<and>
    sx_decode_ticket (rx_store R) (se_ticket share) = Inr (rt_ticket r) \<and>
    tk_addr (rt_ticket r) = ei_target_addr inputs \<and> rt_expires_at r = not_after \<and>
    (\<forall>a h t. presents E sk (rt_ticket r) h t \<and> ei_now_unix inputs \<le> t \<and> t < not_after \<and> ag_mode a = Listener \<and>
       ex_verifying_key (en_crypto E) (ei_identity inputs) \<in> ag_trust_roots a \<and>
       \<not> contains (ag_revocations a) (ticket_id (en_crypto E) (tk_sig (rt_ticket r))) \<longrightarrow>
       (\<exists>ack session core. ticket_serve_connection (en_crypto E) (en_offer E) h a =
            (Inr (ack, Some ((hs_source h, hs_stable_id h), session)), core) \<and>
          ss_caps session = session_share_caps \<and>
          ss_ticket_issuer_id session = ex_verifying_key (en_crypto E) (ei_identity inputs))))"
proof -
  let ?X = "en_crypto E" and ?sender = "ex_verifying_key (en_crypto E) (ei_identity inputs)"
  obtain t where t: "not_after = bd_not_after (tk_body t)" "se_ticket share = rx_encode_ticket R t"
      "se_access_not_after_unix share = bd_not_after (tk_body t)"
      "se_target_endpoint_id_hex share = sx_hex (rx_store R) (ea_id (tk_addr t))" "tk_addr t = ei_target_addr inputs"
      "bd_to (tk_body t) = Some me" "bd_bearer (tk_body t) = None" "bd_caps (tk_body t) = session_share_caps"
      "bd_not_before (tk_body t) = ei_now_unix inputs" "validate_envelope (be_envelope built) = Inr ()"
    and sound: "\<forall>roots. ?sender \<in> roots \<longrightarrow> sound_chain ?X roots [t]" and issuer: "resolved_issuer t = ?sender"
    using built_share [OF laws(1) _ built(1) recipient(2) target] laws(2,3) built(2,3) by auto
  have "shared_ticket R share (Some (sx_hex (rx_store R) me)) now t"
    using t time(1) sound issuer laws(3) by (simp add: shared_ticket_def eq_ignore_ascii_case_def)
  then have opened: "open_share R share_caps (be_envelope built) (Some (sx_hex (rx_store R) me)) (Some now) = Inr (now, share, t)"
    using t(1-3,10) built(2,3) time(1) laws(4) by (simp add: share_caps_eq open_share_ok)
  obtain content where filed: "file_share (rx_store R) share label now t fs = Inr (name, content)"
    using file_share_succeeds [of "rx_store R" fs peers tickets share label now t] files_ok name imported opened
    by (auto simp: import_exchange_envelope_def)
  obtain tickets' where tickets': "load_tickets (rx_store R) True (sf_tickets_path fs) (Some content) = Inr tickets'"
      "get_ticket name tickets' = Some (shared_entry (rx_store R) share now t)" "get_by_label name peers = None"
    using file_share_stored [OF laws(1) filed] files_ok(1,3) by auto
  let ?fs = "fs\<lparr>sf_tickets := Some content\<rparr>" and ?r = "resolved_ticket t (se_ticket share) TicketStoreSource"
  have "resolve_target R draws' options ?fs name = Some (Inr ?r)"
    using saved_ticket_resolves [of R ?fs peers tickets' name err "shared_entry (rx_store R) share now t" t options draws']
      tickets' files_ok name(2-4) laws(4) t(1,2) time(2) by (simp add: shared_entry_def)
  moreover have "verify_chain ?X t [] roots time = Inr session_share_caps"
    if "?sender \<in> roots" "ei_now_unix inputs \<le> time" "time < not_after" for roots time
  proof -
    have "ei_now_unix inputs \<le> saturating_add time 60" using that(2) le_saturating_add by (rule order_trans)
    then show ?thesis using sound that t(1,8,9) by (auto simp: verify_chain_ok in_window_def)
  qed
  ultimately show ?thesis
    using opened filed bound_ticket_session [OF laws(2), of sk t] t(1,2,5,6,7) recipient(1) issuer laws(4)
      imported(1)
    by (intro conjI exI [of _ ?r]) (auto simp: import_exchange_envelope_def resolved_ticket_def)
qed


section \<open>An instance\<close>

text \<open>
  The machine with the key 51\<dots>51 shares a session on the machine with the key 34\<dots>34 with the machine
  with the key 17\<dots>17.
\<close>

definition demo_share_ticket :: PortlTicket where
  "demo_share_ticket = \<lparr>tk_v = 1, tk_addr = \<lparr>ea_id = demo_caller 34, ea_transport = []\<rparr>,
     tk_body = \<lparr>bd_caps = session_share_caps, bd_target = demo_caller 34, bd_alpns_extra = [],
       bd_not_before = 200, bd_not_after = 500, bd_issuer = Some (demo_caller 51), bd_parent = None,
       bd_nonce = replicate 8 9, bd_bearer = None, bd_to = Some (demo_caller 17)\<rparr>, tk_sig = demo_caller 51 @ replicate 8 9\<rparr>"

definition demo_share_offer :: TicketOffer where
  "demo_share_offer = \<lparr>of_ticket = demo_caller 51 @ replicate 8 9, of_chain = [],
     of_proof = Some (compute_pop_sig (demo_codec demo_share_ticket) (demo_caller 17)
       (ticket_id (demo_codec demo_share_ticket) (demo_caller 51 @ replicate 8 9)) (replicate 16 3)),
     of_client_nonce = replicate 16 3\<rparr>"

definition demo_sharer :: agent_env where
  "demo_sharer = demo_env\<lparr>en_crypto := demo_codec demo_share_ticket, en_offer := (\<lambda>_. Some demo_share_offer)\<rparr>"

definition demo_inputs :: EnvelopeInputs where
  "demo_inputs = \<lparr>ei_identity = demo_caller 51, ei_target_addr = \<lparr>ea_id = demo_caller 34, ea_transport = []\<rparr>,
     ei_recipient_hex = Some (hex_of (demo_caller 17)), ei_session_name = ''dev'', ei_provider = None, ei_origin_label_hint = None,
     ei_target_label_hint = None, ei_workspace_id = ''w'', ei_conflict_handle = ''h'', ei_now_unix = 200, ei_access_ttl = 300,
     ei_allow_bearer_fallback = False\<rparr>"

definition demo_share :: SessionShareEnvelopeV1 where
  "demo_share = \<lparr>se_workspace_id = ''w'', se_friendly_name = ''dev'', se_conflict_handle = ''h'', se_origin_label_hint = None,
     se_target_label_hint = None, se_target_endpoint_id_hex = hex_of (demo_caller 34), se_provider = None,
     se_provider_session = ''dev'', se_ticket = ''ticket'', se_access_not_after_unix = 500\<rparr>"

definition demo_built :: BuiltEnvelope where
  "demo_built = \<lparr>be_envelope = session_share_envelope demo_share 200 (Some 500), be_bound_to_recipient = True,
     be_effective_access_ttl = 300\<rparr>"

definition demo_share_tickets :: TicketStore where
  "demo_share_tickets = new_tickets\<lparr>ts_entries :=
     [(''dev'', shared_entry (demo_stores [] [] demo_share_ticket) demo_share 250 demo_share_ticket)]\<rparr>"

definition demo_recipient :: resolve_externs where
  "demo_recipient = \<lparr>rx_crypto = demo_codec demo_share_ticket, rx_store = demo_stores [] [demo_share_tickets] demo_share_ticket,
     rx_encode_ticket = (\<lambda>t. if t = demo_share_ticket then ''ticket'' else ''other''), rx_relay_url = (\<lambda>_. None)\<rparr>"

lemma demo_recipient_fields:
  "rx_crypto demo_recipient = demo_codec demo_share_ticket" "rx_store demo_recipient = demo_stores [] [demo_share_tickets] demo_share_ticket"
  "rx_encode_ticket demo_recipient t = (if t = demo_share_ticket then ''ticket'' else ''other'')"
  "sx_hex (rx_store demo_recipient) = hex_of" "sx_unhex (rx_store demo_recipient) = unhex_of"
  "sx_decode_ticket (rx_store demo_recipient) s = (if s = ''ticket'' then Inr demo_share_ticket else Inl ''malformed'')"
  "load_tickets (rx_store demo_recipient) True path None = Inr new_tickets" "load_peers (rx_store demo_recipient) True path None = Inr new_peers"
  by (simp_all add: demo_recipient_def demo_stores_def load_tickets_def load_peers_def)

lemma demo_share_canonical: "canonical_ticket demo_share_ticket" "tk_sig demo_share_ticket = demo_caller 51 @ replicate 8 9"
  using interactive_shell_caps_canonical
  by (simp_all add: canonical_ticket_def canonical_body_def demo_share_ticket_def demo_caller_def session_share_caps_def)

lemma demo_share_built: "build_session_share_envelope demo_recipient [replicate 8 9] demo_inputs = Some (Inr demo_built)"
proof -
  have mint: "mint_root (demo_codec t) [replicate 8 9] (demo_caller 51) \<lparr>ea_id = demo_caller 34, ea_transport = []\<rparr>
      share_caps 200 500 (Some (demo_caller 17)) = Some (Inr demo_share_ticket)" for t
    using demo_share_canonical(1)
    by (simp add: mint_root_def seal_ok)
       (simp add: demo_share_ticket_def issuer_for_def demo_codec_def demo_externs_def demo_caller_def share_caps_eq)
  have add: "checked_add (200 :: u64) 300 = Some 500" by (simp add: checked_add_def)
  have "share_binding (rx_store demo_recipient) demo_inputs = Inr (Some (demo_caller 17), 300, True)"
    by (simp add: share_binding_def demo_inputs_def demo_recipient_fields(5) hex_of_laws demo_caller_def del: hex_of.simps)
  then show ?thesis
    by (simp add: build_session_share_envelope_def demo_recipient_fields(1,3,4) demo_inputs_def add mint)
       (simp add: demo_built_def demo_share_def)
qed

lemma demo_share_presents:
  "presents demo_sharer (demo_caller 17) demo_share_ticket (demo_handshake\<lparr>hs_source := demo_caller 17, hs_clock := Some 300\<rparr>) 300"
proof -
  note t = demo_share_canonical
  have "demo_caller 51 @ replicate 8 9 \<noteq> tk_sig demo_root" by (simp add: demo_root_def demo_caller_def)
  then have "decode (demo_codec demo_share_ticket) (demo_caller 51 @ replicate 8 9) = Inr demo_share_ticket"
    using t by (simp add: decode_def demo_codec_def demo_externs_def ok_or_def res_simps)
  then show ?thesis
    unfolding presents_def
    by (intro conjI exI [of _ "[]"] exI [of _ demo_share_offer])
       (simp_all add: demo_handshake_def demo_sharer_def demo_share_offer_def t(2))
qed


lemma demo_share_name: "trim ''dev'' = ''dev''" by code_simp

lemma demo_share_imported:
  "open_share demo_recipient session_share_caps (be_envelope demo_built) (Some (hex_of (demo_caller 17))) (Some 250) =
     Inr (250, demo_share, demo_share_ticket)"
  "file_share (rx_store demo_recipient) demo_share (Some ''dev'') 250 demo_share_ticket demo_files = Inr (''dev'', '''')"
proof -
  have store: "store_laws (rx_store demo_recipient)" unfolding demo_recipient_fields(2) by (rule demo_stores_laws)
  have crypto: "ed25519_correct (rx_crypto demo_recipient)" unfolding demo_recipient_fields(1) by (rule demo_codec_laws)
  have inputs: "ei_recipient_hex demo_inputs = Some (sx_hex (rx_store demo_recipient) (demo_caller 17))"
      "length (ea_id (ei_target_addr demo_inputs)) = 32" "ei_identity demo_inputs = demo_caller 51"
    by (simp_all add: demo_inputs_def demo_recipient_fields(4) demo_caller_def)
  have env: "ev_payload (be_envelope demo_built) = SessionShare demo_share" "ev_not_after_unix (be_envelope demo_built) = Some 500"
      "se_access_not_after_unix demo_share = 500" "se_ticket demo_share = ''ticket''"
      "se_target_endpoint_id_hex demo_share = hex_of (demo_caller 34)"
    by (simp_all add: demo_built_def session_share_envelope_def demo_share_def)
  have t: "bd_not_after (tk_body demo_share_ticket) = 500" "bd_to (tk_body demo_share_ticket) = Some (demo_caller 17)"
      "bd_bearer (tk_body demo_share_ticket) = None" "bd_caps (tk_body demo_share_ticket) = session_share_caps"
      "ea_id (tk_addr demo_share_ticket) = demo_caller 34" "resolved_issuer demo_share_ticket = demo_caller 51"
    by (simp_all add: demo_share_ticket_def resolved_issuer_def)
  obtain t' where t': "se_ticket demo_share = rx_encode_ticket demo_recipient t'" "validate_envelope (be_envelope demo_built) = Inr ()"
      "sound_chain (rx_crypto demo_recipient) {ex_verifying_key (rx_crypto demo_recipient) (demo_caller 51)} [t']"
    using built_share [OF store crypto demo_share_built inputs(1,2)] env(1) inputs(3) by fastforce
  have same: "t' = demo_share_ticket" using t'(1) env(4) by (simp add: demo_recipient_fields(3) split: if_splits)
  have "shared_ticket demo_recipient demo_share (Some (hex_of (demo_caller 17))) 250 demo_share_ticket"
    unfolding shared_ticket_def demo_recipient_fields(1,4) t env
    using t'(3) same by (simp add: demo_recipient_fields(1) demo_codec_def demo_externs_def eq_ignore_ascii_case_def del: hex_of.simps)
  then show "open_share demo_recipient session_share_caps (be_envelope demo_built) (Some (hex_of (demo_caller 17))) (Some 250) = Inr (250, demo_share, demo_share_ticket)"
    unfolding open_share_ok env using t'(2) by (simp add: demo_recipient_fields(6))
  show "file_share (rx_store demo_recipient) demo_share (Some ''dev'') 250 demo_share_ticket demo_files = Inr (''dev'', '''')"
    unfolding file_share_ok
    by (intro exI [of _ new_peers] exI [of _ new_tickets] exI [of _ demo_share_tickets])
       (simp add: demo_files_def demo_recipient_fields(7,8) share_name_def demo_share_name share_room_place insert_ticket_ok
          get_by_label_def get_ticket_def new_peers_def new_tickets_def,
        simp add: demo_share_tickets_def demo_recipient_fields(2) save_tickets_def demo_stores_def shared_entry_def new_tickets_def)
qed

lemma demo_share_exchanged:
  "import_exchange_envelope demo_recipient (be_envelope demo_built) (Some ''dev'') (Some (hex_of (demo_caller 17))) (Some 250) demo_files =
     (Inr ''dev'', demo_files\<lparr>sf_tickets := Some ''''\<rparr>)"
  using demo_share_imported by (simp add: import_exchange_envelope_def share_caps_eq)

theorem imported_share_sound_witness:
  "\<exists>im tickets'. import_session_share_envelope demo_recipient (be_envelope demo_built) (Some ''dev'') (Some (hex_of (demo_caller 17)))
       (Some 250) demo_files = (Inr im, demo_files\<lparr>sf_tickets := Some ''''\<rparr>) \<and>
     load_tickets (rx_store demo_recipient) True ''tickets.json'' (Some '''') = Inr tickets' \<and>
     get_ticket ''dev'' tickets' = Some (shared_entry (rx_store demo_recipient) demo_share 250 demo_share_ticket)"
proof -
  obtain im where im: "import_session_share_envelope demo_recipient (be_envelope demo_built) (Some ''dev'') (Some (hex_of (demo_caller 17)))
       (Some 250) demo_files = (Inr im, demo_files\<lparr>sf_tickets := Some ''''\<rparr>)" "im_label im = ''dev''"
    using demo_share_imported by (simp add: import_session_share_envelope_def)
  have laws: "store_laws (rx_store demo_recipient)" unfolding demo_recipient_fields(2) by (rule demo_stores_laws)
  have "ev_payload (be_envelope demo_built) = SessionShare demo_share" "se_ticket demo_share = ''ticket''"
    "sf_tickets_path demo_files = ''tickets.json''"
    by (simp_all add: demo_built_def session_share_envelope_def demo_share_def demo_files_def)
  then show ?thesis
    using imported_share_sound [OF laws im(1)] im demo_recipient_fields(6) by auto
qed

theorem shared_session_reached_witness:
  "\<exists>r ack session core.
     build_session_share_envelope demo_recipient [replicate 8 9] demo_inputs = Some (Inr demo_built) \<and>
     import_exchange_envelope demo_recipient (be_envelope demo_built) (Some ''dev'') (Some (hex_of (demo_caller 17))) (Some 250) demo_files =
       (Inr ''dev'', demo_files\<lparr>sf_tickets := Some ''''\<rparr>) \<and>
     resolve_target demo_recipient [] demo_options (demo_files\<lparr>sf_tickets := Some ''''\<rparr>) ''dev'' = Some (Inr r) \<and>
     ticket_serve_connection (en_crypto demo_sharer) (en_offer demo_sharer)
       (demo_handshake\<lparr>hs_source := demo_caller 17, hs_clock := Some 300\<rparr>) (sy_core (demo_start {demo_caller 51} demo_fs)) =
       (Inr (ack, Some ((demo_caller 17, 1), session)), core) \<and>
     ss_caps session = session_share_caps \<and> ss_ticket_issuer_id session = demo_caller 51"
proof -
  have laws: "store_laws (rx_store demo_recipient)" "ed25519_correct (en_crypto demo_sharer)" "rx_crypto demo_recipient = en_crypto demo_sharer"
    unfolding demo_recipient_fields(1,2) by (simp_all add: demo_stores_laws demo_codec_laws demo_sharer_def)
  have env: "ev_payload (be_envelope demo_built) = SessionShare demo_share" "ev_not_after_unix (be_envelope demo_built) = Some 500"
    by (simp_all add: demo_built_def session_share_envelope_def)
  have reads: "\<forall>t. se_ticket demo_share = rx_encode_ticket demo_recipient t \<longrightarrow> sx_decode_ticket (rx_store demo_recipient) (se_ticket demo_share) = Inr t"
    by (simp add: demo_share_def demo_recipient_fields(3,6))
  have key: "demo_caller 17 = ex_verifying_key (en_crypto demo_sharer) (demo_caller 17)"
      "ei_recipient_hex demo_inputs = Some (sx_hex (rx_store demo_recipient) (demo_caller 17))"
      "length (ea_id (ei_target_addr demo_inputs)) = 32"
    by (simp_all add: demo_sharer_def demo_codec_def demo_externs_def demo_inputs_def demo_recipient_fields(4) demo_caller_def)
  have files_ok: "sf_read_ok demo_files" "sf_write_ok demo_files" "load_peers (rx_store demo_recipient) True (sf_peers_path demo_files) (sf_peers demo_files) = Inr new_peers"
      "load_tickets (rx_store demo_recipient) True (sf_tickets_path demo_files) (sf_tickets demo_files) = Inr new_tickets"
    by (simp_all add: demo_files_def demo_recipient_fields(7,8))
  have name: "''dev'' = share_name demo_share (Some ''dev'')" "''dev'' \<noteq> []" "sx_decode_ticket (rx_store demo_recipient) ''dev'' = Inl ''malformed''"
      "label_in_use ''dev'' new_peers new_tickets = None"
    by (simp_all add: share_name_def demo_share_name demo_recipient_fields(6) label_in_use_def get_by_label_def get_ticket_def new_peers_def new_tickets_def)
  have time: "(250 :: u64) < 500" "ro_now_unix demo_options < 500" by (simp_all add: demo_options_def)
  note reached = shared_session_reached [OF laws reads demo_share_built env key files_ok name(1) demo_share_name name(2-4) time, of _ _ "[]"]
  have "(Inr ''dev'' :: string + string) \<noteq> Inl ''encode ticket store''" by simp
  with reached [of "Inr ''dev''" "demo_files\<lparr>sf_tickets := Some ''''\<rparr>"] demo_share_exchanged
  obtain r where r: "resolve_target demo_recipient [] demo_options (demo_files\<lparr>sf_tickets := Some ''''\<rparr>) ''dev'' = Some (Inr r)"
      "sx_decode_ticket (rx_store demo_recipient) (se_ticket demo_share) = Inr (rt_ticket r)"
    and session: "\<forall>a h t. presents demo_sharer (demo_caller 17) (rt_ticket r) h t \<and> ei_now_unix demo_inputs \<le> t \<and> t < 500 \<and> ag_mode a = Listener \<and>
       ex_verifying_key (en_crypto demo_sharer) (ei_identity demo_inputs) \<in> ag_trust_roots a \<and>
       \<not> contains (ag_revocations a) (ticket_id (en_crypto demo_sharer) (tk_sig (rt_ticket r))) \<longrightarrow>
       (\<exists>ack session core. ticket_serve_connection (en_crypto demo_sharer) (en_offer demo_sharer) h a =
            (Inr (ack, Some ((hs_source h, hs_stable_id h), session)), core) \<and>
          ss_caps session = session_share_caps \<and> ss_ticket_issuer_id session = ex_verifying_key (en_crypto demo_sharer) (ei_identity demo_inputs))"
    unfolding demo_recipient_fields(4) by blast
  have "rt_ticket r = demo_share_ticket" using r(2) by (simp add: demo_recipient_fields(6) demo_share_def)
  moreover have "ex_verifying_key (en_crypto demo_sharer) (ei_identity demo_inputs) = demo_caller 51" "ei_now_unix demo_inputs = 200"
    by (simp_all add: demo_sharer_def demo_codec_def demo_externs_def demo_inputs_def)
  ultimately show ?thesis
    using session [rule_format, of "demo_handshake\<lparr>hs_source := demo_caller 17, hs_clock := Some 300\<rparr>" 300
        "sy_core (demo_start {demo_caller 51} demo_fs)"]
      demo_share_presents r(1) demo_share_built demo_share_exchanged
    by (auto simp: demo_start_def start_agent_def Let_def demo_input_def contains_def demo_handshake_def)
qed

end
