(* ===== verification/Ghostty_Replay.thy ===== *)
theory Ghostty_Replay
  imports Prelude
begin

text \<open>
  Replaying the history of a session to a viewer that attaches
  (\<^verbatim>\<open>portl-agent/src/session_handler/ghostty.rs\<close>): the sanitizer that leaves text and colours and
  drops every other control sequence, the same in chunks, and the windows of the history that are
  replayed.  A \<^verbatim>\<open>VecDeque\<close> of bytes is the list of its bytes; the two slices of its ring buffer
  are not told apart.  An index into the bytes is the list of the bytes from there on, except where
  the code returns it.
\<close>

unbundle bit_operations_syntax

section \<open>The sanitizer\<close>

text \<open>The parameters of a control sequence, its final byte if there is one, and what follows.\<close>

fun csi_scan :: "bytes \<Rightarrow> bytes \<times> byte option \<times> bytes" where
  "csi_scan [] = ([], None, [])"
| "csi_scan (b # bs) =
     (if 0x80 \<le> b \<and> b \<le> 0x9f then (let (params, final, rest) = csi_scan bs in (b # params, final, rest))
      else if 0x80 \<le> b then ([], None, b # bs)
      else if 0x40 \<le> b \<and> b \<le> 0x7e then ([], Some b, bs)
      else (let (params, final, rest) = csi_scan bs in (b # params, final, rest)))"

definition private_params :: "bytes \<Rightarrow> bool" where
  "private_params body \<longleftrightarrow> body \<noteq> [] \<and> hd body \<in> {63, 62, 33, 32}"

definition sanitize_escape_csi :: "bytes \<Rightarrow> bytes \<times> bytes" where
  "sanitize_escape_csi body =
     (let (params, final, rest) = csi_scan body
      in (if final = Some 109 \<and> \<not> private_params body then 0x1b # 91 # params @ [109] else [], rest))"

fun skip_control_string :: "bytes \<Rightarrow> bytes" where
  "skip_control_string [] = []"
| "skip_control_string (b # bs) =
     (if b = 7 then bs
      else if b = 0x1b \<and> bs \<noteq> [] \<and> hd bs = 92 then tl bs
      else skip_control_string bs)"

definition escape_intermediate :: "byte \<Rightarrow> bool" where
  "escape_intermediate b \<longleftrightarrow> 0x20 \<le> b \<and> b \<le> 0x2f"

fun sanitize_plain_escape :: "bytes \<Rightarrow> bytes" where
  "sanitize_plain_escape [] = []"
| "sanitize_plain_escape (b # bs) =
     (if escape_intermediate b then
        (let rest = dropWhile escape_intermediate bs
         in if rest \<noteq> [] \<and> 0x30 \<le> hd rest \<and> hd rest \<le> 0x7e then tl rest else rest)
      else bs)"

lemma csi_scan_length: "csi_scan body = (params, final, rest) \<Longrightarrow> length rest \<le> length body"
  by (induction body arbitrary: params final rest) (fastforce split: if_splits prod.splits)+

lemma sanitize_escape_csi_length: "length (snd (sanitize_escape_csi body)) \<le> length body"
  using csi_scan_length by (fastforce simp: sanitize_escape_csi_def split: prod.splits)

lemma skip_control_string_length: "length (skip_control_string bs) \<le> length bs"
  by (induction bs rule: skip_control_string.induct) (auto simp: neq_Nil_conv)

lemma sanitize_plain_escape_length: "length (sanitize_plain_escape bs) \<le> length bs"
  using length_dropWhile_le [of escape_intermediate "tl bs"] by (cases bs) (auto simp: Let_def)

definition string_introducer :: "byte \<Rightarrow> bool" where
  "string_introducer b \<longleftrightarrow> b \<in> {93, 80, 94, 95}"

function sanitize_terminal_replay :: "bytes \<Rightarrow> bytes" where
  "sanitize_terminal_replay [] = []"
| "sanitize_terminal_replay (b # bs) =
     (if b = 0x1b then
        (if bs \<noteq> [] \<and> hd bs = 91 then
           (let (out, rest) = sanitize_escape_csi (tl bs) in out @ sanitize_terminal_replay rest)
         else if bs \<noteq> [] \<and> string_introducer (hd bs) then sanitize_terminal_replay (skip_control_string (tl bs))
         else sanitize_terminal_replay (sanitize_plain_escape bs))
      else if b < 0x20 \<and> b \<notin> {10, 13, 9} then sanitize_terminal_replay bs
      else b # sanitize_terminal_replay bs)"
  by pat_completeness auto
termination
proof (relation "measure length")
  fix b bs x out rest
  assume "bs \<noteq> [] \<and> hd bs = 91" "x = sanitize_escape_csi (tl bs)" "(out, rest) = x"
  then show "(rest, b # bs) \<in> measure length"
    using sanitize_escape_csi_length [of "tl bs"] by (cases bs) (auto simp: prod_eq_iff)
next
  fix b :: byte and bs :: bytes
  show "(skip_control_string (tl bs), b # bs) \<in> measure length" if "bs \<noteq> [] \<and> string_introducer (hd bs)"
    using skip_control_string_length [of "tl bs"] that by (cases bs) auto
  show "(sanitize_plain_escape bs, b # bs) \<in> measure length"
    using sanitize_plain_escape_length [of bs] by simp
qed auto

section \<open>The sanitizer in chunks\<close>

definition utf8_continuation :: "byte \<Rightarrow> bool" where
  "utf8_continuation b \<longleftrightarrow> 0x80 \<le> b \<and> b \<le> 0xbf"

text \<open>The index of the last byte that starts a character, going back at most to the first byte.\<close>

fun last_start :: "bytes \<Rightarrow> nat \<Rightarrow> nat" where
  "last_start bs 0 = 0"
| "last_start bs (Suc n) = (if utf8_continuation (bs ! Suc n) then last_start bs n else Suc n)"

definition utf8_boundary_snap_len :: "bytes \<Rightarrow> nat" where
  "utf8_boundary_snap_len bs =
     (if bs = [] then 0
      else let start = last_start bs (length bs - 1); lead = bs ! start;
               expected = (if lead \<le> 0x7f then Some 1
                           else if 0xc2 \<le> lead \<and> lead \<le> 0xdf then Some 2
                           else if 0xe0 \<le> lead \<and> lead \<le> 0xef then Some 3
                           else if 0xf0 \<le> lead \<and> lead \<le> 0xf4 then Some 4 else None)
           in case expected of
                None \<Rightarrow> length bs
              | Some n \<Rightarrow> if start + n \<le> length bs then length bs else start)"

definition trailing_incomplete_utf8_start :: "bytes \<Rightarrow> nat option" where
  "trailing_incomplete_utf8_start bs =
     (let snap_len = utf8_boundary_snap_len bs in if snap_len < length bs then Some snap_len else None)"

datatype ReplayScan = RGround | REscape nat | RCsi nat | RString nat bool | RPlain nat

fun replay_scan_byte :: "nat \<Rightarrow> byte \<Rightarrow> ReplayScan \<Rightarrow> ReplayScan" where
  "replay_scan_byte i b RGround = (if b = 0x1b then REscape i else RGround)"
| "replay_scan_byte i b (REscape start) =
     (if b = 91 then RCsi start
      else if string_introducer b then RString start False
      else if escape_intermediate b then RPlain start
      else RGround)"
| "replay_scan_byte i b (RPlain start) = (if escape_intermediate b then RPlain start else RGround)"
| "replay_scan_byte i b (RCsi start) =
     (if b = 0x1b then REscape i else if 0x40 \<le> b \<and> b \<le> 0x7e then RGround else RCsi start)"
| "replay_scan_byte i b (RString start esc) =
     (if esc then (if b = 92 then RGround else RString start False)
      else if b = 7 then RGround
      else if b = 0x1b then RString start True
      else RString start esc)"

fun replay_scan :: "nat \<Rightarrow> ReplayScan \<Rightarrow> bytes \<Rightarrow> ReplayScan" where
  "replay_scan i s [] = s"
| "replay_scan i s (b # bs) = replay_scan (Suc i) (replay_scan_byte i b s) bs"

fun scan_start :: "ReplayScan \<Rightarrow> nat option" where
  "scan_start RGround = None"
| "scan_start (REscape start) = Some start"
| "scan_start (RCsi start) = Some start"
| "scan_start (RString start _) = Some start"
| "scan_start (RPlain start) = Some start"

definition trailing_incomplete_replay_escape_start :: "bytes \<Rightarrow> nat option" where
  "trailing_incomplete_replay_escape_start bs = scan_start (replay_scan 0 RGround bs)"

text \<open>The state of the sanitizer in chunks is the bytes it holds back.\<close>

definition replay_feed :: "bytes \<Rightarrow> bytes \<Rightarrow> bool \<Rightarrow> bytes \<times> bytes" where
  "replay_feed pending bs final_chunk =
     (let combined = pending @ bs
      in if final_chunk then (sanitize_terminal_replay combined, [])
         else (case (trailing_incomplete_replay_escape_start combined, trailing_incomplete_utf8_start combined) of
                 (None, None) \<Rightarrow> (sanitize_terminal_replay combined, [])
               | (Some i, None) \<Rightarrow> (sanitize_terminal_replay (take i combined), drop i combined)
               | (None, Some j) \<Rightarrow> (sanitize_terminal_replay (take j combined), drop j combined)
               | (Some i, Some j) \<Rightarrow>
                   (sanitize_terminal_replay (take (min i j) combined), drop (min i j) combined)))"

section \<open>Windows of the history\<close>

definition MAX_HISTORY_BYTES :: nat where
  "MAX_HISTORY_BYTES = 64 * 1024 * 1024"

definition MAX_ATTACH_SNAPSHOT_BYTES :: nat where
  "MAX_ATTACH_SNAPSHOT_BYTES = 4 * 1024 * 1024 div 2"

definition GHOSTTY_ATTACH_V2_HISTORY_CHUNK :: nat where
  "GHOSTTY_ATTACH_V2_HISTORY_CHUNK = 64 * 1024"

definition GHOSTTY_ATTACH_V2_RELOAD_MAX_BYTES :: nat where
  "GHOSTTY_ATTACH_V2_RELOAD_MAX_BYTES = 1024 * 1024"

definition append_bounded :: "bytes \<Rightarrow> bytes \<Rightarrow> bytes \<times> nat" where
  "append_bounded history bs =
     (let all = history @ bs; dropped = length all - MAX_HISTORY_BYTES in (drop dropped all, dropped))"

definition capped_attach_snapshot :: "bytes \<Rightarrow> bytes" where
  "capped_attach_snapshot history =
     drop (length history - min (length history) MAX_ATTACH_SNAPSHOT_BYTES) history"

definition trim_partial_replay_prefix :: "bytes \<Rightarrow> bytes" where
  "trim_partial_replay_prefix bs =
     dropWhile (\<lambda>b. b AND 0xc0 = 0x80) (drop 1 (dropWhile (\<lambda>b. b \<noteq> 10) bs))"

definition capped_prelude_snapshot :: "bytes \<Rightarrow> u64 \<Rightarrow> bytes" where
  "capped_prelude_snapshot history max_bytes =
     (let cap = min (unat max_bytes) MAX_ATTACH_SNAPSHOT_BYTES; len = min (length history) cap;
          raw = drop (length history - len) history
      in sanitize_terminal_replay (if len < length history then trim_partial_replay_prefix raw else raw))"

definition vec_deque_chunk :: "bytes \<Rightarrow> nat \<Rightarrow> nat \<Rightarrow> bytes" where
  "vec_deque_chunk history rel_start chunk_len =
     (let out = take chunk_len (drop rel_start history) in take (utf8_boundary_snap_len out) out)"

definition bounded_reload_window :: "u64 \<Rightarrow> bytes \<Rightarrow> u64 \<times> nat \<times> bool" where
  "bounded_reload_window history_start_abs history =
     (let retained_len = length history;
          capped = retained_len - min retained_len GHOSTTY_ATTACH_V2_RELOAD_MAX_BYTES;
          skipped_retained = capped + length (takeWhile (\<lambda>b. b AND 0xc0 = 0x80) (drop capped history))
      in (saturating_add history_start_abs (of_nat skipped_retained), retained_len - skipped_retained,
          0 < history_start_abs \<or> 0 < skipped_retained))"


section \<open>What is replayed\<close>

text \<open>
  What the sanitizer lets through: bytes of text, among the control characters only line ends and
  tabs, and control sequences that end in \<open>m\<close> and are not private.  A parameter is any byte below
  64 or between 128 and 159, the escape byte and other control characters included.
\<close>

datatype ReplayUnit = ReplayText byte | ReplaySgr bytes

fun replay_unit_bytes :: "ReplayUnit \<Rightarrow> bytes" where
  "replay_unit_bytes (ReplayText b) = [b]"
| "replay_unit_bytes (ReplaySgr params) = 0x1b # 91 # params @ [109]"

definition csi_parameter :: "byte \<Rightarrow> bool" where
  "csi_parameter b \<longleftrightarrow> b < 0x40 \<or> b = 0x7f \<or> 0x80 \<le> b \<and> b \<le> 0x9f"

fun replay_unit_ok :: "ReplayUnit \<Rightarrow> bool" where
  "replay_unit_ok (ReplayText b) \<longleftrightarrow> 0x20 \<le> b \<or> b \<in> {10, 13, 9}"
| "replay_unit_ok (ReplaySgr params) \<longleftrightarrow> \<not> private_params params \<and> list_all csi_parameter params"

definition replay_safe :: "bytes \<Rightarrow> bool" where
  "replay_safe bs \<longleftrightarrow> (\<exists>us. list_all replay_unit_ok us \<and> bs = concat (map replay_unit_bytes us))"

lemma replay_safe_Nil [simp]: "replay_safe []"
  by (auto simp: replay_safe_def intro: exI [of _ "[]"])

lemma replay_safe_append [intro]: "replay_safe xs \<Longrightarrow> replay_safe ys \<Longrightarrow> replay_safe (xs @ ys)"
  unfolding replay_safe_def by (metis concat_append list_all_append map_append)

lemma replay_safe_unit: "replay_unit_ok u \<Longrightarrow> replay_safe (replay_unit_bytes u)"
  unfolding replay_safe_def by (rule exI [of _ "[u]"]) simp

lemma byte_cases:
  fixes b :: byte
  obtains (final) "0x40 \<le> b" "b \<le> 0x7e" "\<not> csi_parameter b" "\<not> 0x80 \<le> b"
  | (low) "csi_parameter b" "\<not> 0x80 \<le> b" "\<not> (0x40 \<le> b \<and> b \<le> 0x7e)"
  | (c1) "csi_parameter b" "0x80 \<le> b" "b \<le> 0x9f"
  | (high) "0x80 \<le> b" "\<not> b \<le> 0x9f" "\<not> csi_parameter b"
proof -
  have "b < 0x40 \<or> 0x40 \<le> b \<and> b \<le> 0x7e \<or> b = 0x7f \<or> 0x80 \<le> b \<and> b \<le> 0x9f \<or> 0x80 \<le> b \<and> \<not> b \<le> 0x9f"
    by (simp add: word_le_nat_alt word_less_nat_alt word_unat_eq_iff) arith
  then show ?thesis
    using that by (auto simp: csi_parameter_def word_le_nat_alt word_less_nat_alt word_unat_eq_iff)
qed

lemma csi_scan_parts:
  assumes "csi_scan body = (params, final, rest)"
  shows "list_all csi_parameter params \<and>
    (case final of Some f \<Rightarrow> body = params @ f # rest \<and> 0x40 \<le> f \<and> f \<le> 0x7e | None \<Rightarrow> body = params @ rest)"
  using assms
proof (induction body arbitrary: params final rest)
  case (Cons b bs)
  show ?case
  proof (cases b rule: byte_cases)
    case low
    then show ?thesis using Cons by (auto split: prod.splits option.splits)
  next
    case c1
    then show ?thesis using Cons by (auto split: prod.splits option.splits)
  qed (use Cons in \<open>auto split: prod.splits option.splits\<close>)
qed simp

lemma csi_scan_params:
  "list_all csi_parameter params \<Longrightarrow> 0x40 \<le> f \<Longrightarrow> f \<le> 0x7e \<Longrightarrow> csi_scan (params @ f # rest) = (params, Some f, rest)"
proof (induction params)
  case Nil
  then have "\<not> 0x80 \<le> f" by (simp add: word_le_nat_alt)
  with Nil show ?case by simp
next
  case (Cons b params)
  then show ?case by (cases b rule: byte_cases) auto
qed

lemma sanitized_safe: "replay_safe (sanitize_terminal_replay bs)"
proof (induction bs rule: sanitize_terminal_replay.induct)
  case (2 b bs)
  have csi: "replay_safe (fst (sanitize_escape_csi body))" for body
  proof -
    obtain params final rest where scan: "csi_scan body = (params, final, rest)" by (metis prod_cases3)
    have "replay_safe (0x1b # 91 # params @ [109])" if "final = Some 109" "\<not> private_params body"
    proof -
      have "replay_unit_ok (ReplaySgr params)"
        using csi_scan_parts [OF scan] that by (auto simp: private_params_def hd_append split: if_splits)
      from replay_safe_unit [OF this] show ?thesis by simp
    qed
    then show ?thesis by (simp add: sanitize_escape_csi_def scan)
  qed
  have "replay_safe [b]" if "\<not> (b < 0x20 \<and> b \<notin> {10, 13, 9})"
    using replay_safe_unit [of "ReplayText b"] that by (auto simp: not_less)
  from replay_safe_append [OF this] have plain: "replay_safe (b # xs)"
    if "\<not> (b < 0x20 \<and> b \<notin> {10, 13, 9})" "replay_safe xs" for xs using that by simp
  show ?case
  proof (cases "b = 0x1b")
    case True
    obtain out rest where s: "sanitize_escape_csi (tl bs) = (out, rest)" by fastforce
    then have "replay_safe out" using csi [of "tl bs"] by simp
    then show ?thesis using 2(1-3) True s by auto
  next
    case False
    then show ?thesis using 2(4,5) plain by auto
  qed
qed simp


lemma sanitize_units:
  "list_all replay_unit_ok us \<Longrightarrow>
   sanitize_terminal_replay (concat (map replay_unit_bytes us) @ rest) = concat (map replay_unit_bytes us) @ sanitize_terminal_replay rest"
proof (induction us)
  case (Cons u us)
  then show ?case
  proof (cases u)
    case (ReplayText b)
    then have "b \<noteq> 0x1b" "\<not> (b < 0x20 \<and> b \<notin> {10, 13, 9})" using Cons(2) by auto
    then show ?thesis using Cons ReplayText by simp
  next
    case (ReplaySgr params)
    have "csi_scan (params @ 109 # xs) = (params, Some 109, xs)" for xs
      using csi_scan_params [of params 109 xs] Cons(2) ReplaySgr by simp
    moreover have "\<not> private_params (params @ 109 # xs)" for xs
      using Cons(2) ReplaySgr by (cases params) (auto simp: private_params_def)
    ultimately show ?thesis using Cons ReplaySgr by (simp add: sanitize_escape_csi_def)
  qed
qed simp

section \<open>Chunks\<close>

text \<open>
  Terminal output without broken sequences: text, control sequences with no escape byte among their
  parameters, strings with no escape byte before their end, and short escape sequences.
\<close>

datatype TerminalUnit =
    TermText byte
  | TermCsi bytes byte
  | TermString byte bytes bytes
  | TermEscape bytes byte

fun terminal_unit_bytes :: "TerminalUnit \<Rightarrow> bytes" where
  "terminal_unit_bytes (TermText b) = [b]"
| "terminal_unit_bytes (TermCsi params f) = 0x1b # 91 # params @ [f]"
| "terminal_unit_bytes (TermString i body fin) = 0x1b # i # body @ fin"
| "terminal_unit_bytes (TermEscape ints f) = 0x1b # ints @ [f]"

fun terminal_unit_wf :: "TerminalUnit \<Rightarrow> bool" where
  "terminal_unit_wf (TermText b) \<longleftrightarrow> b \<noteq> 0x1b"
| "terminal_unit_wf (TermCsi params f) \<longleftrightarrow> list_all (\<lambda>b. csi_parameter b \<and> b \<noteq> 0x1b) params \<and> 0x40 \<le> f \<and> f \<le> 0x7e"
| "terminal_unit_wf (TermString i body fin) \<longleftrightarrow> string_introducer i \<and> list_all (\<lambda>b. b \<noteq> 7 \<and> b \<noteq> 0x1b) body \<and> fin \<in> {[7], [0x1b, 92]}"
| "terminal_unit_wf (TermEscape ints f) \<longleftrightarrow> list_all escape_intermediate ints \<and> f < 0x80 \<and>
     (if ints = [] then f \<noteq> 91 \<and> \<not> string_introducer f \<and> \<not> escape_intermediate f else 0x30 \<le> f \<and> f \<le> 0x7e)"

fun replayed :: "TerminalUnit \<Rightarrow> bool" where
  "replayed (TermText b) \<longleftrightarrow> 0x20 \<le> b \<or> b \<in> {10, 13, 9}"
| "replayed (TermCsi params f) \<longleftrightarrow> f = 109 \<and> \<not> private_params params"
| "replayed (TermString _ _ _) \<longleftrightarrow> False"
| "replayed (TermEscape _ _) \<longleftrightarrow> False"

lemma skip_control_string_body:
  "list_all (\<lambda>b. b \<noteq> 7 \<and> b \<noteq> 0x1b) body \<Longrightarrow> fin \<in> {[7], [0x1b, 92]} \<Longrightarrow> skip_control_string (body @ fin @ rest) = rest"
  by (induction body) auto

lemma escape_intermediate_first: "escape_intermediate b \<Longrightarrow> b \<noteq> 91 \<and> \<not> string_introducer b \<and> b \<noteq> 0x1b \<and> b < 0x80"
  by (auto simp: escape_intermediate_def string_introducer_def word_le_nat_alt word_less_nat_alt)

lemma sanitize_terminal_unit:
  assumes "terminal_unit_wf u"
  shows "sanitize_terminal_replay (terminal_unit_bytes u @ rest) =
    (if replayed u then terminal_unit_bytes u else []) @ sanitize_terminal_replay rest"
proof (cases u)
  case (TermText b)
  then show ?thesis using assms by auto
next
  case (TermCsi params f)
  then have "csi_scan (params @ f # rest) = (params, Some f, rest)"
    using assms csi_scan_params [of params f rest] by (auto simp: list_all_iff)
  moreover have "private_params (params @ f # rest) \<longleftrightarrow> private_params params"
    using assms TermCsi by (cases params) (auto simp: private_params_def word_le_nat_alt)
  ultimately show ?thesis using TermCsi by (auto simp: sanitize_escape_csi_def)
next
  case (TermString i body fin)
  then show ?thesis using assms skip_control_string_body [of body fin rest] by (auto simp: string_introducer_def)
next
  case (TermEscape ints f)
  show ?thesis
  proof (cases ints)
    case Nil
    then show ?thesis using assms TermEscape by auto
  next
    case (Cons a as)
    have f: "\<not> escape_intermediate f" "0x30 \<le> f" "f \<le> 0x7e"
      using assms TermEscape Cons by (auto simp: escape_intermediate_def word_le_nat_alt)
    then have "dropWhile escape_intermediate (as @ f # rest) = f # rest"
      using assms TermEscape Cons by (auto simp: list_all_iff dropWhile_append3)
    then show ?thesis using assms TermEscape Cons f escape_intermediate_first [of a] by auto
  qed
qed


lemma replay_scan_append: "replay_scan i s (xs @ ys) = replay_scan (i + length xs) (replay_scan i s xs) ys"
  by (induction xs arbitrary: i s) auto

lemma replay_scan_params:
  "list_all (\<lambda>b. csi_parameter b \<and> b \<noteq> 0x1b) params \<Longrightarrow> replay_scan i (RCsi s) params = RCsi s"
proof (induction params arbitrary: i)
  case (Cons b params)
  then show ?case by (cases b rule: byte_cases) (auto simp: word_le_nat_alt)
qed simp

lemma replay_scan_body: "list_all (\<lambda>b. b \<noteq> 7 \<and> b \<noteq> 0x1b) body \<Longrightarrow> replay_scan i (RString s False) body = RString s False"
  by (induction body arbitrary: i) auto

lemma replay_scan_ints: "list_all escape_intermediate ints \<Longrightarrow> replay_scan i (RPlain s) ints = RPlain s"
  by (induction ints arbitrary: i) auto

lemma list_all_take: "list_all P xs \<Longrightarrow> list_all P (take n xs)"
  by (auto simp: list_all_iff dest: in_set_takeD)

lemma replay_scan_unit:
  assumes "terminal_unit_wf u"
  shows "replay_scan i RGround (terminal_unit_bytes u) = RGround"
proof (cases u)
  case (TermCsi params f)
  then show ?thesis using assms replay_scan_params [of params] by (auto simp: replay_scan_append word_le_nat_alt)
next
  case (TermString c body fin)
  then show ?thesis using assms replay_scan_body [of body] by (auto simp: replay_scan_append string_introducer_def)
next
  case (TermEscape ints f)
  show ?thesis
  proof (cases ints)
    case (Cons a as)
    then have "\<not> escape_intermediate f" using assms TermEscape by (auto simp: escape_intermediate_def word_le_nat_alt)
    then show ?thesis
      using assms TermEscape Cons replay_scan_ints [of as] escape_intermediate_first [of a] by (auto simp: replay_scan_append)
  qed (use assms TermEscape in auto)
qed (use assms in auto)

lemma two_or_more: "0 < k \<Longrightarrow> k \<noteq> 1 \<Longrightarrow> \<exists>n. k = Suc (Suc n)"
  by presburger

lemma replay_scan_inside:
  assumes "terminal_unit_wf u" and "0 < k" and "k < length (terminal_unit_bytes u)"
  shows "scan_start (replay_scan i RGround (take k (terminal_unit_bytes u))) = Some i"
proof (cases u)
  case (TermCsi params f)
  show ?thesis
  proof (cases "k = 1")
    case False
    then obtain n where "k = Suc (Suc n)" using assms(2) two_or_more by blast
    then show ?thesis
      using assms TermCsi by (auto simp: replay_scan_params list_all_take)
  qed (use TermCsi in auto)
next
  case (TermString c body fin)
  show ?thesis
  proof (cases "k = 1")
    case False
    then obtain n where n: "k = Suc (Suc n)" using assms(2) two_or_more by blast
    have "replay_scan (Suc (Suc i)) (RString i False) (take n body) = RString i False"
      using assms(1) TermString by (auto simp: replay_scan_body list_all_take)
    moreover have "take (n - length body) fin \<in> {[], [0x1b]}"
      using assms(1,3) TermString n by (cases "n - length body") (auto simp: take_Cons' split: if_splits)
    ultimately show ?thesis
      using assms(1) TermString n by (auto simp: replay_scan_append string_introducer_def)
  qed (use TermString in auto)
next
  case (TermEscape ints f)
  show ?thesis
  proof (cases "k = 1")
    case False
    then obtain n where n: "k = Suc (Suc n)" using assms(2) two_or_more by blast
    then obtain a as where as: "ints = a # as" using assms(3) TermEscape by (cases ints) auto
    show ?thesis
      using assms TermEscape as n escape_intermediate_first [of a] by (auto simp: replay_scan_ints list_all_take)
  qed (use TermEscape in auto)
qed (use assms in auto)

lemma replay_scan_units:
  "list_all terminal_unit_wf us \<Longrightarrow> replay_scan i RGround (concat (map terminal_unit_bytes us)) = RGround"
  by (induction us arbitrary: i) (auto simp: replay_scan_append replay_scan_unit)


lemma last_start_props:
  "last_start bs n \<le> n" "last_start bs n < k \<Longrightarrow> k \<le> n \<Longrightarrow> utf8_continuation (bs ! k)"
  by (induction n) (auto simp: le_Suc_eq split: if_splits)

lemma incomplete_utf8_tail:
  assumes "trailing_incomplete_utf8_start bs = Some j"
  shows "j < length bs \<and> list_all (\<lambda>b. 0x80 \<le> b) (drop j bs)"
proof -
  have j: "utf8_boundary_snap_len bs = j" "j < length bs"
    using assms by (auto simp: trailing_incomplete_utf8_start_def Let_def split: if_splits)
  then have "j = last_start bs (length bs - 1)" "\<not> bs ! j \<le> 0x7f"
    by (auto simp: utf8_boundary_snap_len_def Let_def split: if_splits option.splits)
  then have "0x80 \<le> bs ! k" if "j \<le> k" "k < length bs" for k
    using last_start_props(2) [of bs "length bs - 1" k] that
    by (cases "k = j") (auto simp: utf8_continuation_def word_le_nat_alt)
  then show ?thesis using j(2) by (simp add: list_all_length)
qed

lemma unit_last_high:
  assumes "terminal_unit_wf u" and "0x80 \<le> last (terminal_unit_bytes u)"
  shows "\<exists>b. u = TermText b"
  using assms by (cases u) (auto simp: word_le_nat_alt word_less_nat_alt split: if_splits)

lemma high_tail_boundary:
  assumes "list_all terminal_unit_wf us" and "list_all (\<lambda>b. 0x80 \<le> b) (drop j (concat (map terminal_unit_bytes us)))"
    and "j \<le> length (concat (map terminal_unit_bytes us))"
  shows "\<exists>us1 us2. us = us1 @ us2 \<and> j = length (concat (map terminal_unit_bytes us1))"
  using assms
proof (induction us arbitrary: j rule: rev_induct)
  case (snoc u us)
  let ?A = "concat (map terminal_unit_bytes us)" and ?u = "terminal_unit_bytes u"
  consider "j = length (?A @ ?u)" | "j < length (?A @ ?u)" using snoc(4) by force
  then show ?case
  proof cases
    case 1
    then show ?thesis by (intro exI [of _ "us @ [u]"] exI [of _ "[]"]) simp
  next
    case 2
    have ne: "?u \<noteq> []" by (cases u) auto
    have "last (drop j (?A @ ?u)) = last (?A @ ?u)" using 2 by (rule last_drop)
    moreover have "drop j (?A @ ?u) \<noteq> []" using 2 by (simp only: drop_eq_Nil not_le)
    moreover have "list_all (\<lambda>b. 0x80 \<le> b) (drop j (?A @ ?u))" using snoc(3) by (simp del: drop_append)
    ultimately have "0x80 \<le> last (?A @ ?u)" unfolding list_all_iff using last_in_set by metis
    then have "0x80 \<le> last ?u" using ne by simp
    then obtain b where "u = TermText b" using unit_last_high snoc(2) by auto
    then have "j \<le> length ?A" "list_all (\<lambda>b. 0x80 \<le> b) (drop j ?A)" using 2 snoc(3) by auto
    then obtain us1 us2 where "us = us1 @ us2" "j = length (concat (map terminal_unit_bytes us1))"
      using snoc(1) [of j] snoc(2) by auto
    then show ?thesis by (intro exI [of _ us1] exI [of _ "us2 @ [u]"]) simp
  qed
qed auto

lemma prefix_of_units:
  "xs @ ys = concat (map terminal_unit_bytes us) \<Longrightarrow>
   (\<exists>us1 us2. us = us1 @ us2 \<and> xs = concat (map terminal_unit_bytes us1)) \<or>
   (\<exists>us1 u us2 k. us = us1 @ u # us2 \<and> 0 < k \<and> k < length (terminal_unit_bytes u) \<and>
      xs = concat (map terminal_unit_bytes us1) @ take k (terminal_unit_bytes u))"
proof (induction us arbitrary: xs)
  case (Cons u us)
  let ?u = "terminal_unit_bytes u"
  consider zs where "xs = ?u @ zs" "zs @ ys = concat (map terminal_unit_bytes us)" | "length xs < length ?u" "xs = take (length xs) ?u"
  proof -
    from Cons(2) have "xs @ ys = ?u @ concat (map terminal_unit_bytes us)" by simp
    then obtain zs where "xs = ?u @ zs \<and> zs @ ys = concat (map terminal_unit_bytes us) \<or> xs @ zs = ?u"
      unfolding append_eq_append_conv2 by blast
    then show thesis
    proof
      assume "xs @ zs = ?u"
      then have "?u = xs @ zs" by simp
      then show thesis using that Cons(2) by (cases "zs = []") auto
    qed (use that in blast)
  qed
  then show ?case
  proof cases
    case 1
    from Cons(1) [OF 1(2)] show ?thesis
    proof (elim disjE exE conjE)
      fix us1 us2
      assume "us = us1 @ us2" "zs = concat (map terminal_unit_bytes us1)"
      then show ?thesis using 1(1) by (intro disjI1 exI [of _ "u # us1"] exI [of _ us2]) simp
    next
      fix us1 v us2 k
      assume "us = us1 @ v # us2" "0 < k" "k < length (terminal_unit_bytes v)"
        "zs = concat (map terminal_unit_bytes us1) @ take k (terminal_unit_bytes v)"
      then show ?thesis using 1(1)
        by (intro disjI2 exI [of _ "u # us1"] exI [of _ v] exI [of _ us2] exI [of _ k]) simp
    qed
  next
    case 2
    show ?thesis
    proof (cases "xs = []")
      case True
      show ?thesis by (rule disjI1, rule exI [of _ "[]"], rule exI [of _ "u # us"]) (simp add: True)
    next
      case False
      show ?thesis
        by (rule disjI2, rule exI [of _ "[]"], rule exI [of _ u], rule exI [of _ us], rule exI [of _ "length xs"]) (use 2 False in simp)
    qed
  qed
qed (auto intro: exI [of _ "[]"])


lemma replay_feed_step:
  assumes "list_all terminal_unit_wf us" and "pending @ bs @ rest = concat (map terminal_unit_bytes us)"
  shows "\<exists>us1 us2 pending'. us = us1 @ us2 \<and> pending' @ rest = concat (map terminal_unit_bytes us2) \<and>
    replay_feed pending bs False = (sanitize_terminal_replay (concat (map terminal_unit_bytes us1)), pending')"
proof -
  let ?c = "pending @ bs" and ?units = "\<lambda>us. concat (map terminal_unit_bytes us)"
  have step: ?thesis if "us = us1 @ us2" "?c = ?units us1 @ p" "replay_feed pending bs False = (sanitize_terminal_replay (?units us1), p)" for us1 us2 p
  proof -
    have "(pending @ bs) @ rest = ?units us1 @ ?units us2" using assms(2) that(1) by simp
    then have "p @ rest = ?units us2" unfolding that(2) by simp
    then show ?thesis using that(1,3) by blast
  qed
  have "?c @ rest = ?units us" using assms(2) by simp
  from prefix_of_units [OF this] show ?thesis
  proof (elim disjE exE conjE)
    fix us1 us2
    assume us: "us = us1 @ us2" "?c = ?units us1"
    then have e: "trailing_incomplete_replay_escape_start ?c = None"
      using assms(1) replay_scan_units [of us1 0] by (simp add: trailing_incomplete_replay_escape_start_def)
    show ?thesis
    proof (cases "trailing_incomplete_utf8_start ?c")
      case None
      then show ?thesis using step [OF us(1), of "[]"] us(2) e by (simp add: replay_feed_def Let_def)
    next
      case (Some j)
      then obtain vs1 vs2 where vs: "us1 = vs1 @ vs2" "j = length (?units vs1)"
        using incomplete_utf8_tail [OF Some] high_tail_boundary [of us1 j] us assms(1) by auto
      then show ?thesis using step [of vs1 "vs2 @ us2" "?units vs2"] us e Some by (simp add: replay_feed_def Let_def)
    qed
  next
    fix us1 u us2 k
    assume us: "us = us1 @ u # us2" "0 < k" "k < length (terminal_unit_bytes u)"
      and c: "?c = ?units us1 @ take k (terminal_unit_bytes u)"
    let ?i = "length (?units us1)"
    have e: "trailing_incomplete_replay_escape_start ?c = Some ?i"
      using assms(1) us replay_scan_units [of us1 0] replay_scan_inside [OF _ us(2,3), of ?i]
      unfolding trailing_incomplete_replay_escape_start_def c by (simp add: replay_scan_append)
    obtain t where t: "take k (terminal_unit_bytes u) = 0x1b # t"
      using us assms(1) by (cases u; cases k) auto
    have "\<not> j \<le> ?i" if "trailing_incomplete_utf8_start ?c = Some j" for j
    proof
      assume "j \<le> ?i"
      then have "0x1b \<in> set (drop j ?c)" unfolding c t by simp
      with incomplete_utf8_tail [OF that] have "(0x80 :: byte) \<le> 0x1b" unfolding list_all_iff by blast
      then show False by simp
    qed
    then have "replay_feed pending bs False = (sanitize_terminal_replay (take ?i ?c), drop ?i ?c)"
      using e by (cases "trailing_incomplete_utf8_start ?c") (auto simp: replay_feed_def Let_def min_def)
    then show ?thesis using step [OF us(1) c] c by simp
  qed
qed

text \<open>Feeding the chunks of a replay, the last one marked as such.\<close>

fun replay_feeds :: "bytes \<Rightarrow> bytes list \<Rightarrow> bytes" where
  "replay_feeds pending [] = []"
| "replay_feeds pending [c] = fst (replay_feed pending c True)"
| "replay_feeds pending (c # d # cs) =
     (let (out, pending') = replay_feed pending c False in out @ replay_feeds pending' (d # cs))"

lemma sanitize_terminal_units:
  "list_all terminal_unit_wf us \<Longrightarrow>
   sanitize_terminal_replay (concat (map terminal_unit_bytes us)) = concat (map terminal_unit_bytes (filter replayed us))"
  by (induction us) (auto simp: sanitize_terminal_unit)

lemma replay_chunks:
  assumes "list_all terminal_unit_wf us" and "pending @ concat cs = concat (map terminal_unit_bytes us)" and "cs \<noteq> []"
  shows "replay_feeds pending cs = concat (map terminal_unit_bytes (filter replayed us))"
  using assms
proof (induction pending cs arbitrary: us rule: replay_feeds.induct)
  case (2 pending c)
  then show ?case using sanitize_terminal_units [OF 2(1)] by (simp add: replay_feed_def)
next
  case (3 pending c d cs)
  obtain us1 us2 pending' where us: "us = us1 @ us2" "pending' @ concat (d # cs) = concat (map terminal_unit_bytes us2)"
      "replay_feed pending c False = (sanitize_terminal_replay (concat (map terminal_unit_bytes us1)), pending')"
    using replay_feed_step [OF 3(2), of pending c "concat (d # cs)"] 3(3) by auto
  then show ?case
    using 3(1) [OF us(3) [symmetric] refl _ us(2)] 3(2) sanitize_terminal_units [of us1] by simp
qed simp


section \<open>Properties\<close>


text \<open>
  The sanitizer is exact on terminal output without broken sequences, and it does not matter
  into which chunks the output is cut, inside a sequence or a character or not: fed the chunks one
  after the other, it returns exactly the text and the colours of the output.
\<close>

lemma replay_chunks_exact:
  assumes "list_all terminal_unit_wf us" and "concat cs = concat (map terminal_unit_bytes us)" and "cs \<noteq> []"
  shows "replay_feeds [] cs = concat (map terminal_unit_bytes (filter replayed us)) \<and>
    sanitize_terminal_replay (concat cs) = replay_feeds [] cs"
  using replay_chunks [OF assms(1) _ assms(3), of "[]"] sanitize_terminal_units [OF assms(1)] assms(2) by simp

text \<open>
  On broken output the chunks do matter: the scanner that looks for an unfinished sequence starts
  again at an escape byte inside a control sequence, and the sanitizer does not.
\<close>

lemma replay_chunks_differ:
  "sanitize_terminal_replay [0x1b, 91, 51, 0x1b, 91, 51, 49, 109] = [51, 49, 109]"
  "replay_feeds [] [[0x1b, 91, 51, 0x1b, 91], [51, 49, 109]] = [0x1b, 91, 51, 49, 109]"
  by code_simp+

end
