(* ===== verification/Ghostty_Helper.thy ===== *)
theory Ghostty_Helper
  imports Ghostty_Replay Query_Stripper Pty_Task Utf8_Lossy
begin

text \<open>
  The helper process that owns a native session (\<^verbatim>\<open>run_helper\<close> of
  \<^verbatim>\<open>portl-agent/src/session_handler/ghostty.rs\<close>): the history of what the program printed, the
  live output with its sequence numbers, the viewers that subscribed to it, and the jobs that replay
  history to them.  The terminal emulator is a parameter.  A bounded channel is the list of what was
  ever sent into it and how much of that the receiver took; the sender of a subscriber is kept
  together with what its client was given when it attached.  Traces and metrics are left out.
\<close>

section \<open>Channels\<close>

record 'a channel =
  ch_sent :: "'a list"
  ch_taken :: nat
  ch_capacity :: nat
  ch_closed :: bool

datatype SendOutcome = SendOk | SendFull | SendClosed

definition new_channel :: "nat \<Rightarrow> 'a channel" where
  "new_channel capacity = \<lparr>ch_sent = [], ch_taken = 0, ch_capacity = capacity, ch_closed = False\<rparr>"

definition ch_room :: "'a channel \<Rightarrow> nat" where
  "ch_room c = ch_capacity c - (length (ch_sent c) - ch_taken c)"

definition try_send :: "'a \<Rightarrow> 'a channel \<Rightarrow> SendOutcome \<times> 'a channel" where
  "try_send x c =
     (if ch_closed c then (SendClosed, c)
      else if ch_room c = 0 then (SendFull, c)
      else (SendOk, c\<lparr>ch_sent := ch_sent c @ [x]\<rparr>))"

definition ch_take :: "'a channel \<Rightarrow> 'a channel" where
  "ch_take c = c\<lparr>ch_taken := min (length (ch_sent c)) (Suc (ch_taken c))\<rparr>"

section \<open>Messages\<close>

record GhosttySessionMetadata =
  gm_name :: string
  gm_provider :: string
  gm_pid :: u32
  gm_socket_path :: string
  gm_created_at_ms :: u64
  gm_last_seen_ms :: u64
  gm_cwd :: "string option"
  gm_rows :: u16
  gm_cols :: u16
  gm_status :: string
  gm_protocol_version :: u16

record AttachV2Progress =
  pg_loaded_bytes :: u64
  pg_total_bytes :: "u64 option"
  pg_retained_history_truncated :: bool
  pg_complete :: bool

record SessionRunResult =
  rr_code :: "32 word"
  rr_stdout :: bytes
  rr_stderr :: bytes

record GhosttyLiveOutputV2 =
  lo_start_seq :: u64
  lo_end_seq :: u64
  lo_bytes :: bytes

datatype GhosttyResponse =
    Ack GhosttySessionMetadata
  | Attached GhosttySessionMetadata bytes
  | AttachedV2 GhosttySessionMetadata bytes bytes u64 u64 u16 u16 u64
  | Output bytes
  | OutputV2 u64 u64 bytes
  | ViewportV2 u64 u64 u16 u16 u64 bytes
  | ReloadStartedV2 u64 "u64 option"
  | ReloadChunkV2 u64 u64 AttachV2Progress bytes
  | ReloadDoneV2 u64 u64
  | ReloadCancelledV2 u64
  | ResyncRequiredV2 string u64
  | RunResult SessionRunResult
  | HistoryOutput bytes
  | Exit "32 word"
  | GhosttyError string

record GhosttyAttachV2Initial =
  gi_metadata :: GhosttySessionMetadata
  gi_prelude :: bytes
  gi_viewport :: bytes
  gi_covers_live_seq :: u64
  gi_generation :: u64
  gi_cols :: u16
  gi_rows :: u16
  gi_resize_id :: u64

record GhosttyViewportV2 =
  gv_generation :: u64
  gv_covers_live_seq :: u64
  gv_cols :: u16
  gv_rows :: u16
  gv_resize_id :: u64
  gv_bytes :: bytes

record GhosttyV2Subscriber =
  gs_initial :: GhosttyAttachV2Initial
  gs_live :: "GhosttyLiveOutputV2 channel"
  gs_events :: "GhosttyResponse list"
  gs_events_closed :: bool
  gs_resync_pending :: bool

section \<open>Reload jobs\<close>

record GhosttyReloadJob =
  rj_reload_id :: u64
  rj_start_abs :: u64
  rj_end_abs :: u64
  rj_offset :: u64
  rj_seq :: u64
  rj_reply :: nat
  rj_started :: bool
  rj_final_generation :: u64
  rj_retained_history_truncated :: bool
  rj_pending_response :: "GhosttyResponse option"
  rj_replay_sanitizer :: bytes

definition new_reload_job :: "u64 \<Rightarrow> u64 \<Rightarrow> nat \<Rightarrow> nat \<Rightarrow> u64 \<Rightarrow> bool \<Rightarrow> GhosttyReloadJob" where
  "new_reload_job reload_id history_start_abs retained_len reply final_generation truncated =
     \<lparr>rj_reload_id = reload_id, rj_start_abs = history_start_abs,
      rj_end_abs = saturating_add history_start_abs (of_nat retained_len), rj_offset = 0, rj_seq = 0, rj_reply = reply,
      rj_started = False, rj_final_generation = final_generation, rj_retained_history_truncated = truncated,
      rj_pending_response = None, rj_replay_sanitizer = []\<rparr>"

text \<open>
  One turn of a job, in the steps of the code: what is left over from the last turn, the start
  message, and then the end message or the next chunk.  The result says whether the job is done.
\<close>

definition send_chunk ::
  "bytes \<Rightarrow> u64 \<Rightarrow> GhosttyReloadJob \<Rightarrow> GhosttyResponse channel \<Rightarrow> bool \<times> GhosttyReloadJob \<times> GhosttyResponse channel" where
  "send_chunk history history_start_abs job c =
     (let current_abs = saturating_add (rj_start_abs job) (rj_offset job);
          available_end = saturating_add history_start_abs (of_nat (length history))
      in if available_end \<le> current_abs
         then (False, job\<lparr>rj_offset := saturating_sub (rj_end_abs job) (rj_start_abs job), rj_retained_history_truncated := True\<rparr>, c)
         else
           (let rel_start = min (unat (saturating_sub current_abs history_start_abs)) (length history);
                chunk_len = min (min (unat (saturating_sub (rj_end_abs job) current_abs)) (unat (saturating_sub available_end current_abs)))
                              GHOSTTY_ATTACH_V2_HISTORY_CHUNK
            in if chunk_len = 0 then (False, job, c)
               else
                 (let raw_bytes = vec_deque_chunk history rel_start chunk_len
                  in if raw_bytes = []
                     then (False, job\<lparr>rj_offset := saturating_add (rj_offset job) (of_nat chunk_len)\<rparr>, c)
                     else
                       (let loaded = saturating_add (rj_offset job) (of_nat (length raw_bytes));
                            complete = (rj_end_abs job \<le> saturating_add (rj_start_abs job) loaded);
                            (bs, pending) = replay_feed (rj_replay_sanitizer job) raw_bytes complete;
                            progress = \<lparr>pg_loaded_bytes = loaded, pg_total_bytes = Some (saturating_sub (rj_end_abs job) (rj_start_abs job)),
                              pg_retained_history_truncated = rj_retained_history_truncated job, pg_complete = complete\<rparr>;
                            response = ReloadChunkV2 (rj_reload_id job) (rj_seq job) progress bs;
                            job' = job\<lparr>rj_replay_sanitizer := pending\<rparr>
                        in case try_send response c of
                             (SendOk, c') \<Rightarrow> (False, job'\<lparr>rj_offset := loaded, rj_seq := saturating_add (rj_seq job) 1\<rparr>, c')
                           | (SendFull, c') \<Rightarrow> (False, job'\<lparr>rj_pending_response := Some response\<rparr>, c')
                           | (SendClosed, c') \<Rightarrow> (True, job', c')))))"

definition send_next ::
  "bytes \<Rightarrow> u64 \<Rightarrow> GhosttyReloadJob \<Rightarrow> GhosttyResponse channel \<Rightarrow> bool \<times> GhosttyReloadJob \<times> GhosttyResponse channel" where
  "send_next history history_start_abs job c =
     (if rj_end_abs job \<le> saturating_add (rj_start_abs job) (rj_offset job)
      then (case try_send (ReloadDoneV2 (rj_reload_id job) (rj_final_generation job)) c of
              (SendFull, c') \<Rightarrow> (False, job, c')
            | (_, c') \<Rightarrow> (True, job, c'))
      else send_chunk history history_start_abs job c)"

definition start_and_send ::
  "bytes \<Rightarrow> u64 \<Rightarrow> GhosttyReloadJob \<Rightarrow> GhosttyResponse channel \<Rightarrow> bool \<times> GhosttyReloadJob \<times> GhosttyResponse channel" where
  "start_and_send history history_start_abs job c =
     (if ch_room c = 0 then (False, job, c)
      else
        (let job = (if saturating_add (rj_start_abs job) (rj_offset job) < history_start_abs
                    then job\<lparr>rj_offset := saturating_sub history_start_abs (rj_start_abs job), rj_retained_history_truncated := True\<rparr>
                    else job)
         in if rj_started job then send_next history history_start_abs job c
            else (case try_send (ReloadStartedV2 (rj_reload_id job) (Some (saturating_sub (rj_end_abs job) (rj_start_abs job)))) c of
                    (SendOk, c') \<Rightarrow> send_next history history_start_abs (job\<lparr>rj_started := True\<rparr>) c'
                  | (SendFull, c') \<Rightarrow> (False, job, c')
                  | (SendClosed, c') \<Rightarrow> (True, job, c'))))"

definition poll_send_next ::
  "bytes \<Rightarrow> u64 \<Rightarrow> GhosttyReloadJob \<Rightarrow> GhosttyResponse channel \<Rightarrow> bool \<times> GhosttyReloadJob \<times> GhosttyResponse channel" where
  "poll_send_next history history_start_abs job c =
     (case rj_pending_response job of
        None \<Rightarrow> start_and_send history history_start_abs job c
      | Some response \<Rightarrow>
          (case try_send response c of
             (SendOk, c') \<Rightarrow> start_and_send history history_start_abs (job\<lparr>rj_pending_response := None\<rparr>) c'
           | (SendFull, c') \<Rightarrow> (False, job, c')
           | (SendClosed, c') \<Rightarrow> (True, job\<lparr>rj_pending_response := None\<rparr>, c')))"

section \<open>Output\<close>

definition broadcast :: "bytes \<Rightarrow> bytes channel list \<Rightarrow> bytes channel list" where
  "broadcast bs subscribers =
     List.map_filter (\<lambda>c. case try_send bs c of (SendOk, c') \<Rightarrow> Some c' | _ \<Rightarrow> None) subscribers"

definition send_event :: "GhosttyResponse \<Rightarrow> GhosttyV2Subscriber \<Rightarrow> GhosttyV2Subscriber option" where
  "send_event event s = (if gs_events_closed s then None else Some (s\<lparr>gs_events := gs_events s @ [event]\<rparr>))"

definition live_to :: "GhosttyLiveOutputV2 \<Rightarrow> GhosttyV2Subscriber \<Rightarrow> GhosttyV2Subscriber option" where
  "live_to out s =
     (case try_send out (gs_live s) of
        (SendOk, c) \<Rightarrow> Some (s\<lparr>gs_live := c, gs_resync_pending := False\<rparr>)
      | (SendFull, _) \<Rightarrow>
          if gs_resync_pending s then Some s
          else send_event (ResyncRequiredV2 ''live queue full'' (lo_start_seq out)) (s\<lparr>gs_resync_pending := True\<rparr>)
      | (SendClosed, _) \<Rightarrow> None)"

definition broadcast_v2 :: "GhosttyLiveOutputV2 \<Rightarrow> GhosttyV2Subscriber list \<Rightarrow> GhosttyV2Subscriber list" where
  "broadcast_v2 out subscribers = List.map_filter (live_to out) subscribers"

definition broadcast_v2_event :: "GhosttyResponse \<Rightarrow> GhosttyV2Subscriber list \<Rightarrow> GhosttyV2Subscriber list" where
  "broadcast_v2_event event subscribers = List.map_filter (send_event event) subscribers"

definition resync_to :: "string \<Rightarrow> u64 \<Rightarrow> GhosttyV2Subscriber \<Rightarrow> GhosttyV2Subscriber option" where
  "resync_to reason from_seq s =
     (if gs_resync_pending s then Some s
      else send_event (ResyncRequiredV2 reason from_seq) (s\<lparr>gs_resync_pending := True\<rparr>))"

definition broadcast_v2_resync :: "string \<Rightarrow> u64 \<Rightarrow> GhosttyV2Subscriber list \<Rightarrow> GhosttyV2Subscriber list" where
  "broadcast_v2_resync reason from_seq subscribers = List.map_filter (resync_to reason from_seq) subscribers"

text \<open>
  The terminal emulator: what it writes back to the program when it is fed or resized, whether the
  primary screen is shown, and the bytes that paint its screen.
\<close>

record 'term terminal_externs =
  tx_vt_write :: "bytes \<Rightarrow> 'term \<Rightarrow> 'term \<times> bytes list"
  tx_resize :: "u16 \<Rightarrow> u16 \<Rightarrow> 'term \<Rightarrow> ('term \<times> bytes list) option"
  tx_allows_raw_history :: "'term \<Rightarrow> bool option"
  tx_render_viewport :: "'term \<Rightarrow> bytes option"

record 'term Helper =
  hp_terminal :: 'term
  hp_pty_replies :: "bytes list"
  hp_pending_input :: PendingPtyWrite
  hp_query_stripper :: QueryStripper
  hp_metadata :: GhosttySessionMetadata
  hp_history :: bytes
  hp_subscribers :: "bytes channel list"
  hp_v2_subscribers :: "GhosttyV2Subscriber list"
  hp_history_start_abs :: u64
  hp_live_seq :: u64
  hp_viewport_generation :: u64
  hp_reload_jobs :: "GhosttyReloadJob list"
  hp_replies :: "GhosttyResponse channel list"
  hp_result :: "(string + unit) option"

fun queue_replies :: "bytes list \<Rightarrow> PendingPtyWrite \<Rightarrow> bool \<times> PendingPtyWrite" where
  "queue_replies [] q = (True, q)"
| "queue_replies (r # rs) q =
     (case pw_push r q of
        Inl _ \<Rightarrow> (False, snd (queue_replies rs q))
      | Inr q' \<Rightarrow> queue_replies rs q')"

definition drain_terminal_pty_replies :: "'term Helper \<Rightarrow> bool \<times> 'term Helper" where
  "drain_terminal_pty_replies h =
     (let (queued_all, q) = queue_replies (hp_pty_replies h) (hp_pending_input h)
      in (queued_all, h\<lparr>hp_pty_replies := [], hp_pending_input := q\<rparr>))"

definition process_output :: "'term terminal_externs \<Rightarrow> bytes \<Rightarrow> 'term Helper \<Rightarrow> 'term Helper" where
  "process_output X bs h =
     (let start_seq = hp_live_seq h;
          (stripper, output) = strip_feed (hp_query_stripper h) bs;
          end_seq = saturating_add (hp_live_seq h) (of_nat (length output));
          (terminal, replies) = tx_vt_write X bs (hp_terminal h);
          (queued, h1) = drain_terminal_pty_replies
            (h\<lparr>hp_query_stripper := stripper, hp_live_seq := end_seq, hp_terminal := terminal, hp_pty_replies := hp_pty_replies h @ replies\<rparr>);
          (history, dropped) = append_bounded (hp_history h1) output;
          h2 = h1\<lparr>hp_history := history, hp_history_start_abs := saturating_add (hp_history_start_abs h1) (of_nat dropped)\<rparr>;
          h3 = (if output = [] then h2
                else h2\<lparr>hp_subscribers := broadcast output (hp_subscribers h2),
                        hp_v2_subscribers := broadcast_v2 \<lparr>lo_start_seq = start_seq, lo_end_seq = end_seq, lo_bytes = output\<rparr>
                          (hp_v2_subscribers h2)\<rparr>)
      in if queued then h3
         else h3\<lparr>hp_subscribers := broadcast [] (hp_subscribers h3),
                 hp_v2_subscribers := broadcast_v2_resync ''input queue full'' (hp_live_seq h3) (hp_v2_subscribers h3)\<rparr>)"

section \<open>Commands\<close>

definition GHOSTTY_SUBSCRIBER_BUFFER :: nat where
  "GHOSTTY_SUBSCRIBER_BUFFER = 64"

definition GHOSTTY_ATTACH_V2_QUEUE :: nat where
  "GHOSTTY_ATTACH_V2_QUEUE = 256"

definition GHOSTTY_ATTACH_V2_MAX_RELOAD_JOBS :: nat where
  "GHOSTTY_ATTACH_V2_MAX_RELOAD_JOBS = 2"

text \<open>
  A command comes with what the system answers to it: whether the size of the pseudo terminal could
  be set, and the result of the program that was run.  The reply channel of a reload is made by the
  client's task, as its request is read.
\<close>

datatype HelperCommand =
    Probe
  | Subscribe u16 u16 bool
  | SubscribeV2 u16 u16 u64 bool
  | Input bytes
  | HelperResize u16 u16 bool
  | RequestViewport u64
  | ReloadV2 u64
  | CancelReloadV2 u64
  | Run "string list" "string + SessionRunResult"
  | History
  | Kill

datatype HelperReply =
    ProbeReply GhosttySessionMetadata
  | SubscribeReply GhosttySessionMetadata bytes
  | SubscribeV2Reply GhosttyAttachV2Initial
  | ViewportReply GhosttyViewportV2
  | RunReply "string + SessionRunResult"
  | HistoryReply bytes
  | KillReply
  | ReloadReply nat

definition resize_helper :: "'term terminal_externs \<Rightarrow> u64 \<Rightarrow> bool \<Rightarrow> u16 \<Rightarrow> u16 \<Rightarrow> 'term Helper \<Rightarrow> bool \<times> 'term Helper" where
  "resize_helper X now pty_ok rows cols h =
     (if \<not> pty_ok then (False, h)
      else (case tx_resize X cols rows (hp_terminal h) of
              None \<Rightarrow> (False, h)
            | Some (terminal, replies) \<Rightarrow>
                (True, h\<lparr>hp_terminal := terminal, hp_pty_replies := hp_pty_replies h @ replies,
                         hp_metadata := (hp_metadata h)\<lparr>gm_rows := rows, gm_cols := cols, gm_last_seen_ms := now\<rparr>\<rparr>)))"

definition seen_at :: "u64 \<Rightarrow> 'term Helper \<Rightarrow> 'term Helper" where
  "seen_at now h = h\<lparr>hp_metadata := (hp_metadata h)\<lparr>gm_last_seen_ms := now\<rparr>\<rparr>"

definition mirror_run_output :: "string list \<Rightarrow> SessionRunResult \<Rightarrow> bytes" where
  "mirror_run_output argv run =
     (let out = [13, 10] @ ascii (''[portl run] '' @ join '' '' argv) @ [13, 10] @ rr_stdout run @ rr_stderr run
      in if ends_with out [10] then out else out @ [13, 10])"

text \<open>The oldest jobs make room for a new one and are told so.\<close>

function cancel_oldest :: "GhosttyReloadJob list \<Rightarrow> GhosttyResponse channel list \<Rightarrow> GhosttyReloadJob list \<times> GhosttyResponse channel list" where
  "cancel_oldest jobs cs =
     (if GHOSTTY_ATTACH_V2_MAX_RELOAD_JOBS \<le> length jobs
      then (case jobs of
              [] \<Rightarrow> (jobs, cs)
            | job # rest \<Rightarrow>
                cancel_oldest rest
                  (cs[rj_reply job := snd (try_send (ReloadCancelledV2 (rj_reload_id job)) (cs ! rj_reply job))]))
      else (jobs, cs))"
  by pat_completeness auto
termination
  by (relation "measure (\<lambda>(jobs, _). length jobs)") auto

declare cancel_oldest.simps [simp del]


definition subscribe_v2 :: "'term terminal_externs \<Rightarrow> u64 \<Rightarrow> u16 \<Rightarrow> u16 \<Rightarrow> u64 \<Rightarrow> bool \<Rightarrow> 'term Helper \<Rightarrow> 'term Helper \<times> HelperReply option" where
  "subscribe_v2 X now cols rows prelude_max_bytes pty_ok h =
     (let h1 = seen_at now (snd (resize_helper X now pty_ok rows cols h));
          h2 = h1\<lparr>hp_viewport_generation := saturating_add (hp_viewport_generation h1) 1\<rparr>;
          raw_history_allowed = (tx_allows_raw_history X (hp_terminal h2) = Some True);
          initial = \<lparr>gi_metadata = hp_metadata h2,
            gi_prelude = (if raw_history_allowed then capped_prelude_snapshot (hp_history h2) prelude_max_bytes else []),
            gi_viewport = (case tx_render_viewport X (hp_terminal h2) of None \<Rightarrow> [] | Some bs \<Rightarrow> bs),
            gi_covers_live_seq = hp_live_seq h2, gi_generation = hp_viewport_generation h2,
            gi_cols = cols, gi_rows = rows, gi_resize_id = 0\<rparr>
      in (h2\<lparr>hp_v2_subscribers := hp_v2_subscribers h2 @
               [\<lparr>gs_initial = initial, gs_live = new_channel GHOSTTY_ATTACH_V2_QUEUE, gs_events = [],
                 gs_events_closed = False, gs_resync_pending = False\<rparr>]\<rparr>,
          Some (SubscribeV2Reply initial)))"

definition start_reload :: "'term terminal_externs \<Rightarrow> u64 \<Rightarrow> 'term Helper \<Rightarrow> 'term Helper \<times> HelperReply option" where
  "start_reload X reload_id h =
     (let reply = length (hp_replies h);
          h = h\<lparr>hp_replies := hp_replies h @ [new_channel GHOSTTY_ATTACH_V2_QUEUE],
                hp_reload_jobs := filter (\<lambda>job. rj_reload_id job \<noteq> reload_id) (hp_reload_jobs h)\<rparr>
      in if tx_allows_raw_history X (hp_terminal h) \<noteq> Some True
         then (h\<lparr>hp_replies := (hp_replies h)[reply := snd (try_send (ReloadCancelledV2 reload_id) (hp_replies h ! reply))]\<rparr>,
               Some (ReloadReply reply))
         else
           (let generation = saturating_add (hp_viewport_generation h) 1;
                (jobs, cs) = cancel_oldest (hp_reload_jobs h) (hp_replies h);
                (start_abs, len, truncated) = bounded_reload_window (hp_history_start_abs h) (hp_history h)
            in (h\<lparr>hp_viewport_generation := generation, hp_replies := cs,
                  hp_reload_jobs := jobs @ [new_reload_job reload_id start_abs len reply generation truncated]\<rparr>,
                Some (ReloadReply reply))))"

fun helper_command :: "'term terminal_externs \<Rightarrow> u64 \<Rightarrow> HelperCommand \<Rightarrow> 'term Helper \<Rightarrow> 'term Helper \<times> HelperReply option" where
  "helper_command X now Probe h = (let h = seen_at now h in (h, Some (ProbeReply (hp_metadata h))))"
| "helper_command X now (Subscribe cols rows pty_ok) h =
     (let h = seen_at now (snd (resize_helper X now pty_ok rows cols h))
      in (h\<lparr>hp_subscribers := hp_subscribers h @ [new_channel GHOSTTY_SUBSCRIBER_BUFFER]\<rparr>,
          Some (SubscribeReply (hp_metadata h) (capped_attach_snapshot (hp_history h)))))"
| "helper_command X now (SubscribeV2 cols rows prelude_max_bytes pty_ok) h =
     subscribe_v2 X now cols rows prelude_max_bytes pty_ok h"
| "helper_command X now (Input bs) h =
     (case pw_push bs (hp_pending_input h) of
        Inr q \<Rightarrow> (h\<lparr>hp_pending_input := q\<rparr>, None)
      | Inl _ \<Rightarrow>
          (h\<lparr>hp_subscribers := broadcast [] (hp_subscribers h),
             hp_v2_subscribers := broadcast_v2_resync ''input queue full'' (hp_live_seq h) (hp_v2_subscribers h)\<rparr>, None))"
| "helper_command X now (HelperResize cols rows pty_ok) h =
     (let (resized, h) = resize_helper X now pty_ok rows cols h
      in (if resized then h\<lparr>hp_viewport_generation := saturating_add (hp_viewport_generation h) 1\<rparr> else h, None))"
| "helper_command X now (RequestViewport resize_id) h =
     (let h = h\<lparr>hp_viewport_generation := saturating_add (hp_viewport_generation h) 1\<rparr>
      in (h, Some (ViewportReply \<lparr>gv_generation = hp_viewport_generation h, gv_covers_live_seq = hp_live_seq h,
           gv_cols = gm_cols (hp_metadata h), gv_rows = gm_rows (hp_metadata h), gv_resize_id = resize_id,
           gv_bytes = (case tx_render_viewport X (hp_terminal h) of None \<Rightarrow> [] | Some bs \<Rightarrow> bs)\<rparr>)))"
| "helper_command X now (ReloadV2 reload_id) h = start_reload X reload_id h"
| "helper_command X now (CancelReloadV2 reload_id) h =
     (h\<lparr>hp_reload_jobs := filter (\<lambda>job. rj_reload_id job \<noteq> reload_id) (hp_reload_jobs h)\<rparr>, None)"
| "helper_command X now (Run argv result) h =
     (case result of
        Inl _ \<Rightarrow> (h, Some (RunReply result))
      | Inr run \<Rightarrow> (seen_at now (process_output X (mirror_run_output argv run) h), Some (RunReply result)))"
| "helper_command X now History h = (h, Some (HistoryReply (from_utf8_lossy (hp_history h))))"
| "helper_command X now Kill h = (h, Some KillReply)"

section \<open>The loop\<close>

text \<open>
  What happens to the helper.  A turn of the loop polls the jobs and then handles one event; the
  receivers take messages and go away at any time.
\<close>

datatype HelperEvent =
    ChildExited "string + 32 word option"
  | PtyRead "string + bytes option"
  | PtyWrite WriteAnswer
  | ReloadTick
  | Received HelperCommand

datatype ViewerEvent =
    TakeOutput nat
  | TakeLive nat
  | TakeReload nat
  | DropOutput nat
  | DropLive nat
  | DropReload nat

fun poll_jobs :: "bytes \<Rightarrow> u64 \<Rightarrow> GhosttyReloadJob list \<Rightarrow> GhosttyResponse channel list \<Rightarrow> GhosttyReloadJob list \<times> GhosttyResponse channel list" where
  "poll_jobs history start_abs [] cs = ([], cs)"
| "poll_jobs history start_abs (job # jobs) cs =
     (let (finished, job', c) = poll_send_next history start_abs job (cs ! rj_reply job);
          (jobs', cs') = poll_jobs history start_abs jobs (cs[rj_reply job := c])
      in (if finished then jobs' else job' # jobs', cs'))"

definition session_ended :: "32 word \<Rightarrow> 'term Helper \<Rightarrow> 'term Helper" where
  "session_ended code h =
     h\<lparr>hp_subscribers := broadcast [] (hp_subscribers h), hp_v2_subscribers := broadcast_v2_event (Exit code) (hp_v2_subscribers h),
       hp_result := Some (Inr ())\<rparr>"

definition write_pending :: "WriteAnswer \<Rightarrow> 'term Helper \<Rightarrow> 'term Helper" where
  "write_pending answer h =
     (case front_chunk (hp_pending_input h) of
        None \<Rightarrow> h
      | Some _ \<Rightarrow>
          (case answer of
             Wrote n \<Rightarrow> if n = 0 then h\<lparr>hp_result := Some (Inl ''write queued ghostty pty input'')\<rparr>
                        else h\<lparr>hp_pending_input := consume n (hp_pending_input h)\<rparr>
           | WouldBlock \<Rightarrow> h
           | WriteError _ \<Rightarrow> h\<lparr>hp_result := Some (Inl ''write queued ghostty pty input'')\<rparr>))"

fun helper_event :: "'term terminal_externs \<Rightarrow> u64 \<Rightarrow> HelperEvent \<Rightarrow> 'term Helper \<Rightarrow> 'term Helper \<times> HelperReply option" where
  "helper_event X now (ChildExited status) h =
     (case status of
        Inl _ \<Rightarrow> (h\<lparr>hp_result := Some (Inl ''wait for ghostty child'')\<rparr>, None)
      | Inr code \<Rightarrow> (session_ended (case code of None \<Rightarrow> 1 | Some c \<Rightarrow> c) h, None))"
| "helper_event X now (PtyRead answer) h =
     (case answer of
        Inl _ \<Rightarrow> (h\<lparr>hp_result := Some (Inl ''read ghostty pty'')\<rparr>, None)
      | Inr None \<Rightarrow> (session_ended 0 h, None)
      | Inr (Some bs) \<Rightarrow> (process_output X bs h, None))"
| "helper_event X now (PtyWrite answer) h = (write_pending answer h, None)"
| "helper_event X now ReloadTick h = (h, None)"
| "helper_event X now (Received cmd) h = helper_command X now cmd h"

definition helper_turn :: "'term terminal_externs \<Rightarrow> u64 \<Rightarrow> HelperEvent \<Rightarrow> 'term Helper \<Rightarrow> 'term Helper \<times> HelperReply option" where
  "helper_turn X now ev h =
     (if hp_result h \<noteq> None then (h, None)
      else let (jobs, cs) = poll_jobs (hp_history h) (hp_history_start_abs h) (hp_reload_jobs h) (hp_replies h)
           in helper_event X now ev (h\<lparr>hp_reload_jobs := jobs, hp_replies := cs\<rparr>))"

fun update_nth :: "('a \<Rightarrow> 'a) \<Rightarrow> nat \<Rightarrow> 'a list \<Rightarrow> 'a list" where
  "update_nth f n [] = []"
| "update_nth f 0 (x # xs) = f x # xs"
| "update_nth f (Suc n) (x # xs) = x # update_nth f n xs"

fun viewer_step :: "ViewerEvent \<Rightarrow> 'term Helper \<Rightarrow> 'term Helper" where
  "viewer_step (TakeOutput i) h = h\<lparr>hp_subscribers := update_nth ch_take i (hp_subscribers h)\<rparr>"
| "viewer_step (TakeLive i) h = h\<lparr>hp_v2_subscribers := update_nth (\<lambda>s. s\<lparr>gs_live := ch_take (gs_live s)\<rparr>) i (hp_v2_subscribers h)\<rparr>"
| "viewer_step (TakeReload i) h = h\<lparr>hp_replies := update_nth ch_take i (hp_replies h)\<rparr>"
| "viewer_step (DropOutput i) h = h\<lparr>hp_subscribers := update_nth (\<lambda>c. c\<lparr>ch_closed := True\<rparr>) i (hp_subscribers h)\<rparr>"
| "viewer_step (DropLive i) h =
     h\<lparr>hp_v2_subscribers := update_nth (\<lambda>s. s\<lparr>gs_live := (gs_live s)\<lparr>ch_closed := True\<rparr>, gs_events_closed := True\<rparr>) i (hp_v2_subscribers h)\<rparr>"
| "viewer_step (DropReload i) h = h\<lparr>hp_replies := update_nth (\<lambda>c. c\<lparr>ch_closed := True\<rparr>) i (hp_replies h)\<rparr>"

definition new_helper :: "GhosttySessionMetadata \<Rightarrow> 'term \<Rightarrow> 'term Helper" where
  "new_helper metadata terminal =
     \<lparr>hp_terminal = terminal, hp_pty_replies = [], hp_pending_input = new_pending DEFAULT_PTY_INPUT_QUEUE_BYTES,
      hp_query_stripper = new_stripper, hp_metadata = metadata, hp_history = [], hp_subscribers = [], hp_v2_subscribers = [],
      hp_history_start_abs = 0, hp_live_seq = 0, hp_viewport_generation = 0, hp_reload_jobs = [], hp_replies = [], hp_result = None\<rparr>"

fun helper_step :: "'term terminal_externs \<Rightarrow> (u64 \<times> HelperEvent) + ViewerEvent \<Rightarrow> 'term Helper \<Rightarrow> 'term Helper" where
  "helper_step X (Inl (now, ev)) h = fst (helper_turn X now ev h)"
| "helper_step X (Inr ev) h = viewer_step ev h"


definition helper_run :: "'term terminal_externs \<Rightarrow> ((u64 \<times> HelperEvent) + ViewerEvent) list \<Rightarrow> 'term Helper \<Rightarrow> 'term Helper" where
  "helper_run X evs h = fold (helper_step X) evs h"

section \<open>What is kept and sent\<close>

text \<open>The bytes that the session prints in a step, and the output that viewers see of them.\<close>

fun printed :: "(u64 \<times> HelperEvent) + ViewerEvent \<Rightarrow> bytes" where
  "printed (Inl (now, PtyRead (Inr (Some bs)))) = bs"
| "printed (Inl (now, Received (Run argv (Inr run)))) = mirror_run_output argv run"
| "printed _ = []"

definition shown :: "bytes \<Rightarrow> bytes" where
  "shown raw = snd (strip_feed new_stripper raw)"

definition output_between :: "bytes \<Rightarrow> u64 \<Rightarrow> u64 \<Rightarrow> bytes" where
  "output_between out a b = take (unat b - unat a) (drop (unat a) out)"

lemma shown_append: "shown (xs @ ys) = shown xs @ snd (strip_feed (fst (strip_feed new_stripper xs)) ys)"
  by (simp add: shown_def stripper.feed_append_snd)

definition sub_ends :: "GhosttyV2Subscriber \<Rightarrow> u64 list" where
  "sub_ends s = gi_covers_live_seq (gs_initial s) # map lo_end_seq (ch_sent (gs_live s))"

definition told_resync :: "GhosttyV2Subscriber \<Rightarrow> u64 \<Rightarrow> bool" where
  "told_resync s from_seq \<longleftrightarrow> (\<exists>reason. ResyncRequiredV2 reason from_seq \<in> set (gs_events s))"

text \<open>
  What a viewer may rely on.  Every frame in its queue has the bytes of the output between the two
  sequence numbers it carries; where a frame does not start at the end of the one before it, and
  where the last one does not end at the current sequence number, the viewer was told to resync from
  the end of the frame before the gap.
\<close>

definition frames_exact :: "bytes \<Rightarrow> GhosttyV2Subscriber \<Rightarrow> bool" where
  "frames_exact out s \<longleftrightarrow> (\<forall>f\<in>set (ch_sent (gs_live s)). unat (lo_start_seq f) \<le> unat (lo_end_seq f) \<and>
     unat (lo_end_seq f) \<le> length out \<and> lo_bytes f = output_between out (lo_start_seq f) (lo_end_seq f))"

definition no_silent_gap :: "u64 \<Rightarrow> GhosttyV2Subscriber \<Rightarrow> bool" where
  "no_silent_gap live s \<longleftrightarrow>
     (\<forall>i<length (ch_sent (gs_live s)). sub_ends s ! i = lo_start_seq (ch_sent (gs_live s) ! i) \<or>
        sub_ends s ! i \<le> lo_start_seq (ch_sent (gs_live s) ! i) \<and> told_resync s (sub_ends s ! i)) \<and>
     (last (sub_ends s) = live \<or> last (sub_ends s) \<le> live \<and> told_resync s (last (sub_ends s)))"

definition sub_inv :: "bytes \<Rightarrow> u64 \<Rightarrow> GhosttyV2Subscriber \<Rightarrow> bool" where
  "sub_inv out live s \<longleftrightarrow> frames_exact out s \<and> no_silent_gap live s \<and> last (sub_ends s) \<le> live \<and>
     (if gs_resync_pending s then told_resync s (last (sub_ends s)) else last (sub_ends s) = live)"

definition kept_inv :: "bytes \<Rightarrow> 'term Helper \<Rightarrow> bool" where
  "kept_inv raw h \<longleftrightarrow>
     hp_query_stripper h = fst (strip_feed new_stripper raw) \<and> unat (hp_live_seq h) = length (shown raw) \<and>
     hp_history h = drop (length (shown raw) - MAX_HISTORY_BYTES) (shown raw) \<and>
     unat (hp_history_start_abs h) = length (shown raw) - MAX_HISTORY_BYTES \<and>
     (\<forall>s\<in>set (hp_v2_subscribers h). sub_inv (shown raw) (hp_live_seq h) s)"

lemma try_send_cases:
  obtains "try_send x c = (SendClosed, c)" | "try_send x c = (SendFull, c)" | "try_send x c = (SendOk, c\<lparr>ch_sent := ch_sent c @ [x]\<rparr>)"
  unfolding try_send_def by (cases "ch_closed c"; cases "ch_room c = 0") auto

lemma set_map_filter: "y \<in> set (List.map_filter f xs) \<Longrightarrow> \<exists>x\<in>set xs. f x = Some y"
  by (auto simp: List.map_filter_def)

lemma told_resync_more: "told_resync s q \<Longrightarrow> told_resync (s\<lparr>gs_events := gs_events s @ es\<rparr>) q"
  by (auto simp: told_resync_def)

lemma sub_inv_event:
  assumes "sub_inv out live s" and "send_event e s = Some s'"
  shows "sub_inv out live s'"
proof -
  have s': "s' = s\<lparr>gs_events := gs_events s @ [e]\<rparr>" using assms(2) by (simp add: send_event_def split: if_splits)
  have same: "sub_ends s' = sub_ends s" "ch_sent (gs_live s') = ch_sent (gs_live s)" "gs_resync_pending s' = gs_resync_pending s"
    by (simp_all add: s' sub_ends_def)
  have "told_resync s q \<Longrightarrow> told_resync s' q" for q unfolding s' by (rule told_resync_more)
  then show ?thesis
    using assms(1) unfolding sub_inv_def frames_exact_def no_silent_gap_def same by auto
qed

lemma sub_inv_resync:
  assumes "sub_inv out live s" and "resync_to reason live s = Some s'"
  shows "sub_inv out live s'"
proof (cases "gs_resync_pending s")
  case True
  then show ?thesis using assms by (simp add: resync_to_def)
next
  case False
  let ?t = "s\<lparr>gs_resync_pending := True\<rparr>"
  have s': "s' = ?t\<lparr>gs_events := gs_events s @ [ResyncRequiredV2 reason live]\<rparr>"
    using assms(2) False by (simp add: resync_to_def send_event_def split: if_splits)
  have same: "sub_ends s' = sub_ends s" "ch_sent (gs_live s') = ch_sent (gs_live s)" "gs_resync_pending s'"
    by (simp_all add: s' sub_ends_def)
  have "told_resync s q \<Longrightarrow> told_resync s' q" "told_resync s' live" for q by (auto simp: told_resync_def s')
  then show ?thesis
    using assms(1) False unfolding sub_inv_def frames_exact_def no_silent_gap_def same by auto
qed


lemma output_between_more:
  "unat b \<le> length out \<Longrightarrow> unat a \<le> unat b \<Longrightarrow> output_between (out @ new) a b = output_between out a b"
  by (simp add: output_between_def)

lemma frames_exact_more: "frames_exact out s \<Longrightarrow> frames_exact (out @ new) s"
  by (auto simp: frames_exact_def output_between_more)

lemma sub_inv_live:
  assumes "sub_inv out live s" and "live_to \<lparr>lo_start_seq = live, lo_end_seq = live', lo_bytes = new\<rparr> s = Some s'"
    and "unat live = length out" and "unat live' = length (out @ new)"
  shows "sub_inv (out @ new) live' s'"
proof -
  let ?f = "\<lparr>lo_start_seq = live, lo_end_seq = live', lo_bytes = new\<rparr>"
  have le: "live \<le> live'" using assms(3,4) by (simp add: word_le_nat_alt)
  have s: "frames_exact (out @ new) s" "last (sub_ends s) \<le> live" "gs_resync_pending s \<Longrightarrow> told_resync s (last (sub_ends s))"
      "\<not> gs_resync_pending s \<Longrightarrow> last (sub_ends s) = live" and gap: "no_silent_gap live s"
    using assms(1) frames_exact_more by (auto simp: sub_inv_def split: if_splits)
  have last': "last (sub_ends s) \<le> live'" using s(2) le by (rule order_trans)
  show ?thesis
  proof (cases rule: try_send_cases [of ?f "gs_live s"])
    case 2
    have same: "sub_ends s' = sub_ends s" "ch_sent (gs_live s') = ch_sent (gs_live s)" "gs_resync_pending s'"
        "told_resync s q \<Longrightarrow> told_resync s' q" "told_resync s' (last (sub_ends s))" for q
      using assms(2) 2 s(3,4)
      by (auto simp: live_to_def send_event_def sub_ends_def told_resync_def split: if_splits)
    then show ?thesis
      using s(1) gap last' unfolding sub_inv_def frames_exact_def no_silent_gap_def same(1,2) by auto
  next
    case 3
    then have s': "s' = s\<lparr>gs_live := (gs_live s)\<lparr>ch_sent := ch_sent (gs_live s) @ [?f]\<rparr>, gs_resync_pending := False\<rparr>"
      using assms(2) by (simp add: live_to_def)
    have ends: "sub_ends s' = sub_ends s @ [live']" "ch_sent (gs_live s') = ch_sent (gs_live s) @ [?f]" "\<not> gs_resync_pending s'"
        "told_resync s' q = told_resync s q" "length (sub_ends s) = Suc (length (ch_sent (gs_live s)))" for q
      by (simp_all add: s' sub_ends_def told_resync_def)
    have "output_between (out @ new) live live' = new" using assms(3,4) by (simp add: output_between_def)
    then have "frames_exact (out @ new) s'" using s(1) assms(3,4) by (auto simp: frames_exact_def ends(2))
    moreover have "no_silent_gap live' s'"
    proof -
      have "sub_ends s' ! i = lo_start_seq (ch_sent (gs_live s') ! i) \<or>
          sub_ends s' ! i \<le> lo_start_seq (ch_sent (gs_live s') ! i) \<and> told_resync s' (sub_ends s' ! i)"
        if "i < length (ch_sent (gs_live s'))" for i
      proof (cases "i < length (ch_sent (gs_live s))")
        case True
        then show ?thesis using gap by (auto simp: no_silent_gap_def ends(1,2,4,5) nth_append)
      next
        case False
        then have i: "i = length (ch_sent (gs_live s))" using that ends(2) by simp
        have "sub_ends s ! i = last (sub_ends s)" using i ends(5) by (simp add: last_conv_nth sub_ends_def)
        then show ?thesis using s(2-4) i ends(5) by (cases "gs_resync_pending s") (auto simp: ends(1,2,4) nth_append)
      qed
      then show ?thesis by (simp add: no_silent_gap_def ends(1))
    qed
    ultimately show ?thesis by (simp add: sub_inv_def ends(1,3))
  qed (use assms(2) in \<open>simp add: live_to_def\<close>)
qed


lemma process_output_fields:
  fixes h :: "'term Helper" and bs :: bytes
  defines "new \<equiv> snd (strip_feed (hp_query_stripper h) bs)"
  shows "hp_query_stripper (process_output X bs h) = fst (strip_feed (hp_query_stripper h) bs)"
    and "hp_live_seq (process_output X bs h) = saturating_add (hp_live_seq h) (of_nat (length new))"
    and "hp_history (process_output X bs h) = fst (append_bounded (hp_history h) new)"
    and "hp_history_start_abs (process_output X bs h) = saturating_add (hp_history_start_abs h) (of_nat (snd (append_bounded (hp_history h) new)))"
    and "hp_reload_jobs (process_output X bs h) = hp_reload_jobs h" and "hp_replies (process_output X bs h) = hp_replies h"
    and "hp_result (process_output X bs h) = hp_result h"
    and "hp_v2_subscribers (process_output X bs h) \<in>
      (let v = (if new = [] then hp_v2_subscribers h
                else broadcast_v2 \<lparr>lo_start_seq = hp_live_seq h, lo_end_seq = hp_live_seq (process_output X bs h), lo_bytes = new\<rparr>
                  (hp_v2_subscribers h))
       in {v, broadcast_v2_resync ''input queue full'' (hp_live_seq (process_output X bs h)) v})"
  by (simp_all add: process_output_def drain_terminal_pty_replies_def new_def Let_def split_def)

lemma append_bounded_kept:
  assumes "history = drop (length out - MAX_HISTORY_BYTES) out"
  shows "fst (append_bounded history new) = drop (length (out @ new) - MAX_HISTORY_BYTES) (out @ new)"
    and "length out - MAX_HISTORY_BYTES + snd (append_bounded history new) = length (out @ new) - MAX_HISTORY_BYTES"
proof -
  show "length out - MAX_HISTORY_BYTES + snd (append_bounded history new) = length (out @ new) - MAX_HISTORY_BYTES"
    using assms by (simp add: append_bounded_def Let_def)
  then have sum: "length history + length new - MAX_HISTORY_BYTES + (length out - MAX_HISTORY_BYTES) = length (out @ new) - MAX_HISTORY_BYTES"
    by (simp add: append_bounded_def Let_def)
  have whole: "history @ new = drop (length out - MAX_HISTORY_BYTES) (out @ new)" using assms by simp
  have "fst (append_bounded history new) = drop (length history + length new - MAX_HISTORY_BYTES) (history @ new)"
    by (simp only: append_bounded_def Let_def length_append fst_conv)
  then show "fst (append_bounded history new) = drop (length (out @ new) - MAX_HISTORY_BYTES) (out @ new)"
    by (simp only: whole drop_drop sum)
qed

lemma unat_saturating_fits:
  "unat a + n < 2 ^ 64 \<Longrightarrow> unat (saturating_add a (of_nat n)) = unat a + n" for a :: u64
  by (simp add: unat_saturating_add unat_of_nat)

lemma process_output_kept:
  fixes h :: "'term Helper" and bs :: bytes
  assumes "kept_inv raw h" and "length (shown (raw @ bs)) < 2 ^ 64"
  shows "kept_inv (raw @ bs) (process_output X bs h)"
proof -
  let ?h = "process_output X bs h" and ?new = "snd (strip_feed (hp_query_stripper h) bs)"
  have strip: "hp_query_stripper h = fst (strip_feed new_stripper raw)" using assms(1) by (simp add: kept_inv_def)
  have out: "shown (raw @ bs) = shown raw @ ?new" by (simp add: shown_append strip)
  note inv = assms(1) [unfolded kept_inv_def]
  have live: "unat (hp_live_seq ?h) = length (shown (raw @ bs))"
    using inv assms(2) by (simp add: process_output_fields(2) unat_saturating_fits out)
  have subs: "sub_inv (shown (raw @ bs)) (hp_live_seq ?h) s" if s: "s \<in> set (hp_v2_subscribers ?h)" for s
  proof -
    define v where "v = (if ?new = [] then hp_v2_subscribers h
      else broadcast_v2 \<lparr>lo_start_seq = hp_live_seq h, lo_end_seq = hp_live_seq ?h, lo_bytes = ?new\<rparr> (hp_v2_subscribers h))"
    have v: "sub_inv (shown (raw @ bs)) (hp_live_seq ?h) t" if t: "t \<in> set v" for t
    proof (cases "?new = []")
      case True
      then have "hp_live_seq ?h = hp_live_seq h" using live inv by (simp add: out word_unat_eq_iff)
      then show ?thesis using t True inv by (simp add: v_def out)
    next
      case False
      then obtain u where u: "u \<in> set (hp_v2_subscribers h)"
          "live_to \<lparr>lo_start_seq = hp_live_seq h, lo_end_seq = hp_live_seq ?h, lo_bytes = ?new\<rparr> u = Some t"
        using t by (auto simp: v_def broadcast_v2_def dest: set_map_filter)
      then have "sub_inv (shown raw) (hp_live_seq h) u" using inv by blast
      then show ?thesis unfolding out using inv live [unfolded out] by (intro sub_inv_live [OF _ u(2)]) auto
    qed
    have "hp_v2_subscribers ?h \<in> {v, broadcast_v2_resync ''input queue full'' (hp_live_seq ?h) v}"
      using process_output_fields(8) [of X bs h] by (simp add: v_def Let_def)
    then consider "s \<in> set v" | t where "t \<in> set v" "resync_to ''input queue full'' (hp_live_seq ?h) t = Some s"
      using s by (auto simp: broadcast_v2_resync_def dest!: set_map_filter)
    then show ?thesis using v sub_inv_resync by cases blast+
  qed
  have h: "hp_history h = drop (length (shown raw) - MAX_HISTORY_BYTES) (shown raw)" using inv by blast
  have "unat (hp_history_start_abs ?h) = length (shown (raw @ bs)) - MAX_HISTORY_BYTES"
    using inv assms(2) append_bounded_kept(2) [OF h, of ?new] by (simp add: process_output_fields(4) unat_saturating_fits out)
  then show ?thesis
    using live subs append_bounded_kept(1) [OF h, of ?new]
    by (simp add: kept_inv_def process_output_fields(1,3) strip out stripper.feed_append_fst)
qed


lemma kept_inv_same:
  assumes "kept_inv raw h" and "hp_query_stripper h' = hp_query_stripper h" and "hp_live_seq h' = hp_live_seq h"
    and "hp_history h' = hp_history h" and "hp_history_start_abs h' = hp_history_start_abs h"
    and "\<And>s. s \<in> set (hp_v2_subscribers h') \<Longrightarrow> sub_inv (shown raw) (hp_live_seq h) s"
  shows "kept_inv raw h'"
  using assms by (simp add: kept_inv_def)

lemma resize_helper_fields:
  "hp_query_stripper (snd (resize_helper X now ok rows cols h)) = hp_query_stripper h"
  "hp_live_seq (snd (resize_helper X now ok rows cols h)) = hp_live_seq h"
  "hp_history (snd (resize_helper X now ok rows cols h)) = hp_history h"
  "hp_history_start_abs (snd (resize_helper X now ok rows cols h)) = hp_history_start_abs h"
  "hp_v2_subscribers (snd (resize_helper X now ok rows cols h)) = hp_v2_subscribers h"
  "hp_reload_jobs (snd (resize_helper X now ok rows cols h)) = hp_reload_jobs h"
  "hp_replies (snd (resize_helper X now ok rows cols h)) = hp_replies h"
  "hp_result (snd (resize_helper X now ok rows cols h)) = hp_result h"
  by (simp_all add: resize_helper_def split: option.split)

lemma start_reload_fields:
  "hp_query_stripper (fst (start_reload X r h)) = hp_query_stripper h" "hp_live_seq (fst (start_reload X r h)) = hp_live_seq h"
  "hp_history (fst (start_reload X r h)) = hp_history h" "hp_history_start_abs (fst (start_reload X r h)) = hp_history_start_abs h"
  "hp_v2_subscribers (fst (start_reload X r h)) = hp_v2_subscribers h" "hp_result (fst (start_reload X r h)) = hp_result h"
  by (simp_all add: start_reload_def Let_def split_def)

lemma new_subscriber_inv:
  "gi_covers_live_seq i = live \<Longrightarrow> sub_inv out live \<lparr>gs_initial = i, gs_live = new_channel n, gs_events = [],
     gs_events_closed = False, gs_resync_pending = False\<rparr>"
  by (simp add: sub_inv_def frames_exact_def no_silent_gap_def sub_ends_def new_channel_def)

lemma subscribe_v2_fields:
  "\<exists>i. hp_v2_subscribers (fst (subscribe_v2 X now cols rows n ok h)) = hp_v2_subscribers h @
     [\<lparr>gs_initial = i, gs_live = new_channel GHOSTTY_ATTACH_V2_QUEUE, gs_events = [], gs_events_closed = False, gs_resync_pending = False\<rparr>] \<and>
     gi_covers_live_seq i = hp_live_seq h"
  "hp_query_stripper (fst (subscribe_v2 X now cols rows n ok h)) = hp_query_stripper h"
  "hp_live_seq (fst (subscribe_v2 X now cols rows n ok h)) = hp_live_seq h"
  "hp_history (fst (subscribe_v2 X now cols rows n ok h)) = hp_history h"
  "hp_history_start_abs (fst (subscribe_v2 X now cols rows n ok h)) = hp_history_start_abs h"
  "hp_reload_jobs (fst (subscribe_v2 X now cols rows n ok h)) = hp_reload_jobs h"
  "hp_replies (fst (subscribe_v2 X now cols rows n ok h)) = hp_replies h"
  "hp_result (fst (subscribe_v2 X now cols rows n ok h)) = hp_result h"
  by (simp_all add: subscribe_v2_def Let_def seen_at_def resize_helper_fields)

lemma subscribe_v2_kept:
  assumes "kept_inv raw h"
  shows "kept_inv raw (fst (subscribe_v2 X now cols rows n ok h))"
proof (rule kept_inv_same [OF assms])
  fix s
  assume s: "s \<in> set (hp_v2_subscribers (fst (subscribe_v2 X now cols rows n ok h)))"
  obtain i where i: "hp_v2_subscribers (fst (subscribe_v2 X now cols rows n ok h)) = hp_v2_subscribers h @
      [\<lparr>gs_initial = i, gs_live = new_channel GHOSTTY_ATTACH_V2_QUEUE, gs_events = [], gs_events_closed = False, gs_resync_pending = False\<rparr>]"
      "gi_covers_live_seq i = hp_live_seq h"
    using subscribe_v2_fields(1) by blast
  then show "sub_inv (shown raw) (hp_live_seq h) s"
    using s new_subscriber_inv [OF i(2)] assms by (auto simp: kept_inv_def)
qed (simp_all add: subscribe_v2_fields)

lemma helper_command_kept:
  assumes "kept_inv raw h" and "length (shown (raw @ printed (Inl (now, Received cmd)))) < 2 ^ 64"
  shows "kept_inv (raw @ printed (Inl (now, Received cmd))) (fst (helper_command X now cmd h))"
proof (cases cmd)
  case (Input bs)
  have "sub_inv (shown raw) (hp_live_seq h) s" if "s \<in> set (broadcast_v2_resync reason (hp_live_seq h) (hp_v2_subscribers h))" for s reason
    using that assms(1) sub_inv_resync by (fastforce simp: broadcast_v2_resync_def kept_inv_def dest!: set_map_filter)
  then show ?thesis
    using assms(1) Input by (cases "pw_push bs (hp_pending_input h)") (auto intro!: kept_inv_same [OF assms(1)] simp: kept_inv_def)
next
  case (Run argv result)
  have "kept_inv raw' (seen_at t g) = kept_inv raw' g" for raw' t and g :: "'a Helper" by (simp add: kept_inv_def seen_at_def)
  then show ?thesis using assms Run process_output_kept [OF assms(1)] by (cases result) auto
next
  case (SubscribeV2 cols rows n ok)
  then show ?thesis using subscribe_v2_kept [OF assms(1)] by simp
next
  case (HelperResize cols rows ok)
  have "kept_inv raw (snd (resize_helper X now ok rows cols h))"
    using assms(1) by (simp add: kept_inv_def resize_helper_fields)
  then show ?thesis using HelperResize by (auto simp: split_def Let_def kept_inv_def)
qed (use assms(1) in \<open>simp_all add: kept_inv_def seen_at_def Let_def resize_helper_fields start_reload_fields\<close>)

lemma session_ended_kept:
  assumes "kept_inv raw h"
  shows "kept_inv raw (session_ended code h)"
proof (rule kept_inv_same [OF assms])
  fix s
  assume "s \<in> set (hp_v2_subscribers (session_ended code h))"
  then obtain t where "t \<in> set (hp_v2_subscribers h)" "send_event (Exit code) t = Some s"
    by (auto simp: session_ended_def broadcast_v2_event_def dest!: set_map_filter)
  then show "sub_inv (shown raw) (hp_live_seq h) s" using assms sub_inv_event by (auto simp: kept_inv_def)
qed (simp_all add: session_ended_def)

lemma helper_event_kept:
  assumes "kept_inv raw h" and "length (shown (raw @ printed (Inl (now, ev)))) < 2 ^ 64"
  shows "kept_inv (raw @ printed (Inl (now, ev))) (fst (helper_event X now ev h))"
proof (cases ev)
  case (PtyRead answer)
  consider e where "answer = Inl e" | "answer = Inr None" | bs where "answer = Inr (Some bs)" by (metis option.exhaust sum.exhaust)
  then show ?thesis
    using PtyRead assms session_ended_kept [OF assms(1)] process_output_kept [OF assms(1)] by cases (auto simp: kept_inv_def)
next
  case (PtyWrite answer)
  then show ?thesis using assms(1) by (auto simp: kept_inv_def write_pending_def split: option.split WriteAnswer.split)
next
  case (Received cmd)
  then show ?thesis using helper_command_kept [OF assms(1)] assms(2) by simp
next
  case (ChildExited status)
  then show ?thesis using assms(1) session_ended_kept [OF assms(1)] by (cases status) (simp_all add: kept_inv_def)
qed (use assms(1) in simp)


lemma update_nth_set: "y \<in> set (update_nth f n xs) \<Longrightarrow> y \<in> set xs \<or> (\<exists>x\<in>set xs. y = f x)"
  by (induction f n xs rule: update_nth.induct) auto

lemma sub_inv_same:
  assumes "sub_inv out live s" and "gs_initial t = gs_initial s" and "ch_sent (gs_live t) = ch_sent (gs_live s)"
    and "gs_events t = gs_events s" and "gs_resync_pending t = gs_resync_pending s"
  shows "sub_inv out live t"
proof -
  have "sub_ends t = sub_ends s" "told_resync t q = told_resync s q" for q using assms(2-4) by (simp_all add: sub_ends_def told_resync_def)
  then show ?thesis using assms(1) unfolding sub_inv_def frames_exact_def no_silent_gap_def assms(3,5) by simp
qed

lemma viewer_step_kept:
  assumes "kept_inv raw h"
  shows "kept_inv raw (viewer_step ev h)"
proof -
  have old: "sub_inv (shown raw) (hp_live_seq h) s" if "s \<in> set (hp_v2_subscribers h)" for s using assms that by (simp add: kept_inv_def)
  have "sub_inv (shown raw) (hp_live_seq h) s" if s: "s \<in> set (hp_v2_subscribers (viewer_step ev h))" for s
  proof -
    obtain t where "t \<in> set (hp_v2_subscribers h)" "gs_initial s = gs_initial t" "ch_sent (gs_live s) = ch_sent (gs_live t)"
        "gs_events s = gs_events t" "gs_resync_pending s = gs_resync_pending t"
      using s by (cases ev) (auto simp: ch_take_def dest!: update_nth_set)
    then show ?thesis using old sub_inv_same by blast
  qed
  then show ?thesis by (intro kept_inv_same [OF assms]) (cases ev; simp)+
qed

lemma helper_turn_kept:
  assumes "kept_inv raw h" and "hp_result h = None" and "length (shown (raw @ printed (Inl (now, ev)))) < 2 ^ 64"
  shows "kept_inv (raw @ printed (Inl (now, ev))) (fst (helper_turn X now ev h))"
proof -
  obtain jobs cs where p: "poll_jobs (hp_history h) (hp_history_start_abs h) (hp_reload_jobs h) (hp_replies h) = (jobs, cs)" by fastforce
  have "kept_inv raw (h\<lparr>hp_reload_jobs := jobs, hp_replies := cs\<rparr>)" using assms(1) by (simp add: kept_inv_def)
  from helper_event_kept [OF this assms(3)] show ?thesis using assms(2) by (simp add: helper_turn_def p)
qed

lemma helper_step_ended: "hp_result h \<noteq> None \<Longrightarrow> hp_result (helper_step X ev h) = hp_result h"
proof (cases ev)
  case (Inr v)
  then show ?thesis by (cases v) auto
qed (auto simp: helper_turn_def)

lemma helper_run_snoc: "helper_run X (evs @ [ev]) h = helper_step X ev (helper_run X evs h)"
  by (simp add: helper_run_def)

lemma new_helper_kept: "kept_inv [] (new_helper metadata terminal)"
  by (simp add: kept_inv_def new_helper_def shown_def)

lemma helper_run_kept:
  assumes "hp_result (helper_run X evs (new_helper metadata terminal)) = None" and "length (shown (concat (map printed evs))) < 2 ^ 64"
  shows "kept_inv (concat (map printed evs)) (helper_run X evs (new_helper metadata terminal))"
  using assms
proof (induction evs rule: rev_induct)
  case Nil
  then show ?case using new_helper_kept by (simp add: helper_run_def)
next
  case (snoc ev evs)
  let ?h = "helper_run X evs (new_helper metadata terminal)" and ?raw = "concat (map printed evs)"
  have run: "hp_result ?h = None" using snoc(2) helper_step_ended by (fastforce simp: helper_run_snoc)
  moreover have "length (shown ?raw) \<le> length (shown (?raw @ printed ev))" by (simp add: shown_append)
  ultimately have kept: "kept_inv ?raw ?h" using snoc(1,3) by simp
  show ?case
  proof (cases ev)
    case (Inl turn)
    obtain now e where "turn = (now, e)" by fastforce
    then show ?thesis using Inl helper_turn_kept [OF kept run] snoc(3) by (simp add: helper_run_snoc)
  next
    case (Inr v)
    then show ?thesis using viewer_step_kept [OF kept] by (simp add: helper_run_snoc)
  qed
qed

text \<open>
  C34.  The history of a running session is exactly the last 64 MiB of what it showed, the terminal
  queries taken out, at the position the session counts for it.  Every frame in the queue of a
  viewer has exactly the bytes of that output between its two sequence numbers; and no output is
  lost without notice: where the frames of a viewer have a gap, or end before the current position,
  the viewer was told to resync from the end of the last frame before the gap.
\<close>

theorem live_output_exact:
  assumes "h = helper_run X evs (new_helper metadata terminal)" and "hp_result h = None"
    and "out = shown (concat (map printed evs))" and "length out < 2 ^ 64"
  shows "hp_history h = drop (length out - MAX_HISTORY_BYTES) out \<and>
    unat (hp_history_start_abs h) = length out - MAX_HISTORY_BYTES \<and> unat (hp_live_seq h) = length out \<and>
    (\<forall>s\<in>set (hp_v2_subscribers h). frames_exact out s \<and> no_silent_gap (hp_live_seq h) s)"
  using helper_run_kept [of X evs metadata terminal] assms by (auto simp: kept_inv_def sub_inv_def)


text \<open>A viewer joins a session on a terminal that never answers, and the shell prints two letters.\<close>

definition calm_terminal :: "unit terminal_externs" where
  "calm_terminal = \<lparr>tx_vt_write = (\<lambda>_ t. (t, [])), tx_resize = (\<lambda>_ _ t. Some (t, [])),
     tx_allows_raw_history = (\<lambda>_. Some True), tx_render_viewport = (\<lambda>_. Some [])\<rparr>"

definition short_session :: "((u64 \<times> HelperEvent) + ViewerEvent) list" where
  "short_session = [Inl (0, Received (SubscribeV2 80 24 0 True)), Inl (1, PtyRead (Inr (Some (ascii ''hi''))))]"

definition dev_metadata :: GhosttySessionMetadata where
  "dev_metadata = \<lparr>gm_name = ''dev'', gm_provider = ''ghostty'', gm_pid = 42, gm_socket_path = ''/tmp/dev.sock'',
     gm_created_at_ms = 0, gm_last_seen_ms = 0, gm_cwd = None, gm_rows = 24, gm_cols = 80, gm_status = ''running'',
     gm_protocol_version = 2\<rparr>"

lemma short_session_shows:
  "strip_feed new_stripper [104, 105] = (new_stripper, [104, 105])" "ascii ''hi'' = [104, 105]"
  by code_simp+

lemma short_session_runs:
  fixes h :: "unit Helper"
  defines "h \<equiv> helper_run calm_terminal short_session (new_helper dev_metadata ())"
  shows "hp_result h = None" "map (ch_sent \<circ> gs_live) (hp_v2_subscribers h) = [[\<lparr>lo_start_seq = 0, lo_end_seq = 2, lo_bytes = ascii ''hi''\<rparr>]]"
    "shown (concat (map printed short_session)) = ascii ''hi''"
  by (simp_all add: h_def helper_run_def short_session_def helper_turn_def new_helper_def subscribe_v2_def seen_at_def
      resize_helper_def calm_terminal_def process_output_def drain_terminal_pty_replies_def short_session_shows
      saturating_add_def broadcast_v2_def List.map_filter_def live_to_def try_send_def ch_room_def new_channel_def
      GHOSTTY_ATTACH_V2_QUEUE_def broadcast_def shown_def Let_def append_bounded_def MAX_HISTORY_BYTES_def del: strip_feed.simps)

theorem live_output_exact_witness:
  "let h = helper_run calm_terminal short_session (new_helper dev_metadata ()) in
     hp_history h = ascii ''hi'' \<and> unat (hp_live_seq h) = 2 \<and>
     map (ch_sent \<circ> gs_live) (hp_v2_subscribers h) = [[\<lparr>lo_start_seq = 0, lo_end_seq = 2, lo_bytes = ascii ''hi''\<rparr>]] \<and>
     list_all (\<lambda>s. frames_exact (ascii ''hi'') s \<and> no_silent_gap (hp_live_seq h) s) (hp_v2_subscribers h)"
  using live_output_exact [OF refl short_session_runs(1) short_session_runs(3) [symmetric]] short_session_runs(2)
  by (simp add: short_session_shows list_all_iff MAX_HISTORY_BYTES_def)


section \<open>Bounds\<close>

definition queue_ok :: "nat \<Rightarrow> 'a channel \<Rightarrow> bool" where
  "queue_ok n c \<longleftrightarrow> ch_capacity c = n \<and> ch_taken c \<le> length (ch_sent c) \<and> length (ch_sent c) - ch_taken c \<le> n"

lemma queue_ok_simps [simp]: "queue_ok n (new_channel n)" "queue_ok n c \<Longrightarrow> queue_ok n (ch_take c)"
  "queue_ok n c \<Longrightarrow> queue_ok n (c\<lparr>ch_closed := b\<rparr>)"
  by (auto simp: queue_ok_def new_channel_def ch_take_def)

lemma queue_ok_try_send: "queue_ok n c \<Longrightarrow> queue_ok n (snd (try_send x c))"
  by (auto simp: queue_ok_def try_send_def ch_room_def)

lemma queue_ok_sent: "try_send x c = (r, c') \<Longrightarrow> queue_ok n c \<Longrightarrow> queue_ok n c'"
  using queue_ok_try_send [of n c x] by simp

lemma queue_ok_send_chunk: "queue_ok n c \<Longrightarrow> queue_ok n (snd (snd (send_chunk history start job c)))"
  by (auto simp: send_chunk_def Let_def split_def intro: queue_ok_try_send split: SendOutcome.split)

lemma queue_ok_send_next: "queue_ok n c \<Longrightarrow> queue_ok n (snd (snd (send_next history start job c)))"
  by (auto simp: send_next_def queue_ok_send_chunk intro: queue_ok_sent split: SendOutcome.split prod.split)

lemma queue_ok_start: "queue_ok n c \<Longrightarrow> queue_ok n (snd (snd (start_and_send history start job c)))"
  by (auto simp: start_and_send_def Let_def intro: queue_ok_sent intro!: queue_ok_send_next split: SendOutcome.split prod.split)

lemma queue_ok_poll: "queue_ok n c \<Longrightarrow> queue_ok n (snd (snd (poll_send_next history start job c)))"
  by (auto simp: poll_send_next_def intro: queue_ok_sent intro!: queue_ok_start split: SendOutcome.split prod.split option.split)

lemma list_update_all:
  assumes "\<forall>x\<in>set xs. P x" and "P (xs ! i) \<Longrightarrow> P y"
  shows "\<forall>x\<in>set (xs[i := y]). P x"
proof (cases "i < length xs")
  case True
  then show ?thesis using assms set_update_subset_insert [of xs i y] by auto
qed (use assms in \<open>simp add: list_update_beyond\<close>)

lemma poll_jobs_ok:
  "\<forall>c\<in>set cs. queue_ok n c \<Longrightarrow>
     (\<forall>c\<in>set (snd (poll_jobs history start jobs cs)). queue_ok n c) \<and> length (fst (poll_jobs history start jobs cs)) \<le> length jobs"
proof (induction history start jobs cs rule: poll_jobs.induct)
  case (2 history start job jobs cs)
  obtain fin job' c where p: "poll_send_next history start job (cs ! rj_reply job) = (fin, job', c)" by (metis prod_cases3)
  have "\<forall>c\<in>set (cs[rj_reply job := c]). queue_ok n c"
    by (rule list_update_all) (use 2(2) queue_ok_poll [of n "cs ! rj_reply job" history start job] p in auto)
  with 2(1) [OF p [symmetric] refl] show ?case by (auto simp: p split_def Let_def)
qed simp

lemma cancel_oldest_ok:
  "\<forall>c\<in>set cs. queue_ok n c \<Longrightarrow> (\<forall>c\<in>set (snd (cancel_oldest jobs cs)). queue_ok n c) \<and> length (fst (cancel_oldest jobs cs)) < 2"
proof (induction jobs cs rule: cancel_oldest.induct)
  case (1 jobs cs)
  show ?case
  proof (cases "2 \<le> length jobs")
    case True
    then obtain job rest where j: "jobs = job # rest" by (cases jobs) auto
    have "\<forall>c\<in>set (cs[rj_reply job := snd (try_send (ReloadCancelledV2 (rj_reload_id job)) (cs ! rj_reply job))]). queue_ok n c"
      by (rule list_update_all) (use 1(2) queue_ok_try_send in auto)
    with 1(1) True j show ?thesis
      by (subst (1 2) cancel_oldest.simps) (simp add: GHOSTTY_ATTACH_V2_MAX_RELOAD_JOBS_def)
  next
    case False
    then show ?thesis using 1(2) by (subst (1 2) cancel_oldest.simps) (simp add: GHOSTTY_ATTACH_V2_MAX_RELOAD_JOBS_def)
  qed
qed


definition bounded :: "'term Helper \<Rightarrow> bool" where
  "bounded h \<longleftrightarrow> length (hp_history h) \<le> MAX_HISTORY_BYTES \<and> length (hp_reload_jobs h) \<le> GHOSTTY_ATTACH_V2_MAX_RELOAD_JOBS \<and>
     pw_inv (hp_pending_input h) \<and> pw_max_bytes (hp_pending_input h) = DEFAULT_PTY_INPUT_QUEUE_BYTES \<and>
     (\<forall>c\<in>set (hp_subscribers h). queue_ok GHOSTTY_SUBSCRIBER_BUFFER c) \<and>
     (\<forall>s\<in>set (hp_v2_subscribers h). queue_ok GHOSTTY_ATTACH_V2_QUEUE (gs_live s)) \<and>
     (\<forall>c\<in>set (hp_replies h). queue_ok GHOSTTY_ATTACH_V2_QUEUE c)"

lemma pw_push_inv:
  "pw_inv q \<Longrightarrow> pw_push bs q = Inr q' \<Longrightarrow> pw_inv q' \<and> pw_max_bytes q' = pw_max_bytes q"
  using pw_push_accepts [of q bs] pw_push_refuses [of q bs]
  by (cases "length (pw_content q) + length bs \<le> pw_max_bytes q") (auto simp: is_ok_def)

lemma queue_replies_inv:
  "pw_inv q \<Longrightarrow> pw_inv (snd (queue_replies rs q)) \<and> pw_max_bytes (snd (queue_replies rs q)) = pw_max_bytes q"
  by (induction rs q rule: queue_replies.induct) (auto dest: pw_push_inv split: sum.split)

lemma broadcast_ok: "\<forall>c\<in>set cs. queue_ok n c \<Longrightarrow> \<forall>c\<in>set (broadcast bs cs). queue_ok n c"
  by (auto simp: broadcast_def intro: queue_ok_sent split: prod.splits SendOutcome.splits dest!: set_map_filter)

lemma subscriber_ops_ok:
  assumes "queue_ok n (gs_live s)"
  shows "send_event e s = Some s' \<Longrightarrow> queue_ok n (gs_live s')" "resync_to reason q s = Some s' \<Longrightarrow> queue_ok n (gs_live s')"
    "live_to out s = Some s' \<Longrightarrow> queue_ok n (gs_live s')"
  using assms by (auto simp: send_event_def resync_to_def live_to_def intro: queue_ok_sent split: if_splits prod.splits SendOutcome.splits)

lemma broadcast_v2_ok:
  assumes "\<forall>s\<in>set ss. queue_ok n (gs_live s)"
  shows "\<forall>s\<in>set (broadcast_v2 out ss). queue_ok n (gs_live s)" "\<forall>s\<in>set (broadcast_v2_resync reason q ss). queue_ok n (gs_live s)"
    "\<forall>s\<in>set (broadcast_v2_event e ss). queue_ok n (gs_live s)"
  using assms unfolding broadcast_v2_def broadcast_v2_resync_def broadcast_v2_event_def
  by (blast dest: set_map_filter intro: subscriber_ops_ok)+

lemma append_bounded_length: "length (fst (append_bounded history bs)) \<le> MAX_HISTORY_BYTES"
  by (simp add: append_bounded_def Let_def)

lemma process_output_fields':
  "hp_pending_input (process_output X bs h) =
     snd (queue_replies (hp_pty_replies h @ snd (tx_vt_write X bs (hp_terminal h))) (hp_pending_input h))"
  "hp_subscribers (process_output X bs h) \<in>
     (let v = (if snd (strip_feed (hp_query_stripper h) bs) = [] then hp_subscribers h
               else broadcast (snd (strip_feed (hp_query_stripper h) bs)) (hp_subscribers h))
      in {v, broadcast [] v})"
  by (simp_all add: process_output_def drain_terminal_pty_replies_def Let_def split_def)

lemma process_output_bounded:
  assumes "bounded h"
  shows "bounded (process_output X bs h)"
proof -
  let ?h = "process_output X bs h" and ?new = "snd (strip_feed (hp_query_stripper h) bs)"
  define v where "v = (if ?new = [] then hp_subscribers h else broadcast ?new (hp_subscribers h))"
  have v: "\<forall>c\<in>set v. queue_ok GHOSTTY_SUBSCRIBER_BUFFER c"
    using assms broadcast_ok [of "hp_subscribers h" GHOSTTY_SUBSCRIBER_BUFFER ?new] by (simp add: v_def bounded_def)
  have "hp_subscribers ?h = v \<or> hp_subscribers ?h = broadcast [] v"
    using process_output_fields'(2) [of X bs h] by (simp add: v_def Let_def)
  then have subs: "\<forall>c\<in>set (hp_subscribers ?h). queue_ok GHOSTTY_SUBSCRIBER_BUFFER c" using v broadcast_ok [OF v] by fastforce
  define w where "w = (if ?new = [] then hp_v2_subscribers h
    else broadcast_v2 \<lparr>lo_start_seq = hp_live_seq h, lo_end_seq = hp_live_seq ?h, lo_bytes = ?new\<rparr> (hp_v2_subscribers h))"
  have w: "\<forall>s\<in>set w. queue_ok GHOSTTY_ATTACH_V2_QUEUE (gs_live s)"
    using assms broadcast_v2_ok(1) [of "hp_v2_subscribers h" GHOSTTY_ATTACH_V2_QUEUE] by (simp add: w_def bounded_def)
  have "hp_v2_subscribers ?h = w \<or> hp_v2_subscribers ?h = broadcast_v2_resync ''input queue full'' (hp_live_seq ?h) w"
    using process_output_fields(8) [of X bs h] by (simp add: w_def Let_def)
  then have subs2: "\<forall>s\<in>set (hp_v2_subscribers ?h). queue_ok GHOSTTY_ATTACH_V2_QUEUE (gs_live s)"
    using w broadcast_v2_ok(2) [OF w] by fastforce
  have "pw_inv (hp_pending_input ?h) \<and> pw_max_bytes (hp_pending_input ?h) = pw_max_bytes (hp_pending_input h)"
    using assms queue_replies_inv unfolding process_output_fields'(1) bounded_def by blast
  then show ?thesis
    using assms subs subs2 append_bounded_length [of "hp_history h" ?new]
    by (simp add: bounded_def process_output_fields(3,5,6))
qed

lemma consume_inv:
  assumes "pw_inv q"
  shows "pw_inv (consume n q) \<and> pw_max_bytes (consume n q) = pw_max_bytes q"
proof -
  have "min n (pw_pending_bytes q) \<le> length (pw_content q)" using assms by (simp add: pw_inv_def)
  from consume_loop_law [OF assms this] show ?thesis by (simp add: consume_def)
qed

lemma bounded_same:
  assumes "bounded h" and "hp_history h' = hp_history h" and "hp_pending_input h' = hp_pending_input h"
    and "hp_subscribers h' = hp_subscribers h" and "hp_v2_subscribers h' = hp_v2_subscribers h"
    and "hp_reload_jobs h' = hp_reload_jobs h" and "hp_replies h' = hp_replies h"
  shows "bounded h'"
  using assms by (simp add: bounded_def)

lemma resize_helper_fields':
  "hp_pending_input (snd (resize_helper X now ok rows cols h)) = hp_pending_input h"
  "hp_subscribers (snd (resize_helper X now ok rows cols h)) = hp_subscribers h"
  by (simp_all add: resize_helper_def split: option.split)

lemma subscribe_v2_bounded: "bounded h \<Longrightarrow> bounded (fst (subscribe_v2 X now cols rows n ok h))"
  by (simp add: bounded_def subscribe_v2_def Let_def seen_at_def resize_helper_fields resize_helper_fields')

lemma start_reload_bounded:
  assumes "bounded h"
  shows "bounded (fst (start_reload X r h))"
proof -
  define cs where "cs = hp_replies h @ [new_channel GHOSTTY_ATTACH_V2_QUEUE]"
  define jobs where "jobs = filter (\<lambda>job. rj_reload_id job \<noteq> r) (hp_reload_jobs h)"
  have cs: "\<forall>c\<in>set cs. queue_ok GHOSTTY_ATTACH_V2_QUEUE c" using assms by (simp add: cs_def bounded_def)
  have len: "length jobs \<le> GHOSTTY_ATTACH_V2_MAX_RELOAD_JOBS"
    using assms by (auto simp: jobs_def bounded_def intro: order_trans [OF length_filter_le])
  show ?thesis
  proof (cases "tx_allows_raw_history X (hp_terminal h) = Some True")
    case True
    obtain jobs' cs' where c: "cancel_oldest jobs cs = (jobs', cs')" by fastforce
    have "(\<forall>c\<in>set cs'. queue_ok GHOSTTY_ATTACH_V2_QUEUE c) \<and> length jobs' < 2" using cancel_oldest_ok [OF cs, of jobs] c by simp
    then show ?thesis using assms True c
      by (simp add: start_reload_def Let_def split_def bounded_def GHOSTTY_ATTACH_V2_MAX_RELOAD_JOBS_def flip: cs_def jobs_def)
  next
    case False
    have "\<forall>c\<in>set (cs[i := snd (try_send m (cs ! i))]). queue_ok GHOSTTY_ATTACH_V2_QUEUE c" for i m
      by (rule list_update_all) (use cs queue_ok_try_send in auto)
    then show ?thesis using assms False len
      by (simp add: start_reload_def Let_def bounded_def flip: cs_def jobs_def)
  qed
qed

lemma helper_command_bounded:
  assumes "bounded h"
  shows "bounded (fst (helper_command X now cmd h))"
proof (cases cmd)
  case (Input bs)
  have "bounded (h\<lparr>hp_pending_input := q\<rparr>)" if "pw_push bs (hp_pending_input h) = Inr q" for q
    using assms that pw_push_inv [of "hp_pending_input h" bs q] by (simp add: bounded_def)
  moreover have "bounded (h\<lparr>hp_subscribers := broadcast [] (hp_subscribers h),
      hp_v2_subscribers := broadcast_v2_resync reason q (hp_v2_subscribers h)\<rparr>)" for reason q
    using assms broadcast_ok [of "hp_subscribers h"] broadcast_v2_ok(2) [of "hp_v2_subscribers h"] by (simp add: bounded_def)
  ultimately show ?thesis using Input by (cases "pw_push bs (hp_pending_input h)") simp_all
next
  case (Run argv result)
  have "bounded (seen_at t g) = bounded g" for t and g :: "'a Helper" by (simp add: bounded_def seen_at_def)
  then show ?thesis using assms Run process_output_bounded [OF assms] by (cases result) simp_all
next
  case (SubscribeV2 cols rows n ok)
  then show ?thesis using subscribe_v2_bounded [OF assms] by simp
next
  case (ReloadV2 r)
  then show ?thesis using start_reload_bounded [OF assms] by simp
next
  case (HelperResize cols rows ok)
  then show ?thesis using assms by (simp add: split_def Let_def bounded_def resize_helper_fields resize_helper_fields')
next
  case (CancelReloadV2 r)
  then show ?thesis using assms by (auto simp: bounded_def intro: order_trans [OF length_filter_le])
qed (use assms in \<open>simp_all add: bounded_def seen_at_def Let_def resize_helper_fields resize_helper_fields'\<close>)

lemma session_ended_bounded: "bounded h \<Longrightarrow> bounded (session_ended code h)"
  using broadcast_ok [of "hp_subscribers h"] broadcast_v2_ok(3) [of "hp_v2_subscribers h"]
  by (simp add: session_ended_def bounded_def)

lemma write_pending_bounded:
  assumes "bounded h"
  shows "bounded (write_pending answer h)"
proof -
  have "bounded (h\<lparr>hp_pending_input := consume n (hp_pending_input h)\<rparr>)" for n
    using assms consume_inv [of "hp_pending_input h" n] by (simp add: bounded_def)
  moreover have "bounded (h\<lparr>hp_result := r\<rparr>)" for r using assms by (simp add: bounded_def)
  ultimately show ?thesis using assms by (simp add: write_pending_def split: option.split WriteAnswer.split)
qed

lemma helper_event_bounded:
  assumes "bounded h"
  shows "bounded (fst (helper_event X now ev h))"
proof (cases ev)
  case (PtyRead answer)
  consider e where "answer = Inl e" | "answer = Inr None" | bs where "answer = Inr (Some bs)" by (metis option.exhaust sum.exhaust)
  then show ?thesis
    using PtyRead assms session_ended_bounded [OF assms] process_output_bounded [OF assms] by cases (simp_all add: bounded_def)
next
  case (ChildExited status)
  then show ?thesis using assms session_ended_bounded [OF assms] by (cases status) (simp_all add: bounded_def)
qed (use assms write_pending_bounded helper_command_bounded in auto)

lemma helper_step_bounded:
  assumes "bounded h"
  shows "bounded (helper_step X ev h)"
proof (cases ev)
  case (Inl turn)
  obtain now e where t: "turn = (now, e)" by fastforce
  obtain jobs cs where p: "poll_jobs (hp_history h) (hp_history_start_abs h) (hp_reload_jobs h) (hp_replies h) = (jobs, cs)" by fastforce
  have "bounded (h\<lparr>hp_reload_jobs := jobs, hp_replies := cs\<rparr>)"
    using assms poll_jobs_ok [of "hp_replies h" GHOSTTY_ATTACH_V2_QUEUE "hp_history h" "hp_history_start_abs h" "hp_reload_jobs h"] p
    by (auto simp: bounded_def)
  then show ?thesis using assms by (simp add: Inl t helper_turn_def p helper_event_bounded)
next
  case (Inr v)
  then show ?thesis using assms by (cases v) (auto simp: bounded_def dest!: update_nth_set)
qed

lemma helper_run_bounded: "bounded h \<Longrightarrow> bounded (helper_run X evs h)"
  unfolding helper_run_def by (induction evs arbitrary: h) (auto simp: helper_step_bounded)


end
