(* ===== verification/Ghostty_Reload.thy ===== *)
theory Ghostty_Reload
  imports Ghostty_Helper
begin

text \<open>
  What a viewer gets that asks for the history of a native session: the messages of a reload job,
  from the turn in which it is started to its end, and what becomes of it when another viewer uses
  the same reload id.  Nothing of the program is defined here; the job and the loop that polls it are
  those of \<open>Ghostty_Helper\<close>.
\<close>

section \<open>Cutting at characters\<close>

lemma last_start_drop: "n + k < length bs \<Longrightarrow> last_start (drop k bs) n = last_start bs (n + k) - k"
proof (induction n)
  case 0
  then show ?case using last_start_props(1) [of bs k] by simp
qed (auto simp: add.commute)

text \<open>The length of a character by its first byte, and the cut in terms of it.\<close>

definition utf8_width :: "byte \<Rightarrow> nat option" where
  "utf8_width lead =
     (if lead \<le> 0x7f then Some 1
      else if 0xc2 \<le> lead \<and> lead \<le> 0xdf then Some 2
      else if 0xe0 \<le> lead \<and> lead \<le> 0xef then Some 3
      else if 0xf0 \<le> lead \<and> lead \<le> 0xf4 then Some 4 else None)"

lemma snap_eq:
  "bs \<noteq> [] \<Longrightarrow> utf8_boundary_snap_len bs =
     (case utf8_width (bs ! last_start bs (length bs - 1)) of
        None \<Rightarrow> length bs
      | Some n \<Rightarrow> if last_start bs (length bs - 1) + n \<le> length bs then length bs else last_start bs (length bs - 1))"
  by (simp add: utf8_boundary_snap_len_def utf8_width_def Let_def)

lemma utf8_width_le: "utf8_width b = Some n \<Longrightarrow> n \<le> 4"
  by (auto simp: utf8_width_def split: if_splits)

lemma utf8_width_continuation: "utf8_continuation b \<Longrightarrow> utf8_width b = None"
proof -
  assume "utf8_continuation b"
  then have "\<not> b \<le> 0x7f" "\<not> 0xc2 \<le> b" "\<not> 0xe0 \<le> b" "\<not> 0xf0 \<le> b"
    by (auto simp: utf8_continuation_def word_le_nat_alt)
  then show ?thesis by (simp add: utf8_width_def)
qed

lemma snap_bounds: "utf8_boundary_snap_len bs \<le> length bs" "length bs \<le> utf8_boundary_snap_len bs + 3"
proof -
  have "utf8_boundary_snap_len bs \<le> length bs \<and> length bs \<le> utf8_boundary_snap_len bs + 3"
  proof (cases "bs = []")
    case False
    then have "last_start bs (length bs - 1) < length bs"
      using last_start_props(1) [of bs "length bs - 1"] by (cases bs) auto
    then show ?thesis using snap_eq [OF False] utf8_width_le
      by (cases "utf8_width (bs ! last_start bs (length bs - 1))") fastforce+
  qed (simp add: utf8_boundary_snap_len_def)
  then show "utf8_boundary_snap_len bs \<le> length bs" "length bs \<le> utf8_boundary_snap_len bs + 3" by blast+
qed

lemma snap_suffix:
  assumes "utf8_boundary_snap_len bs = length bs"
  shows "utf8_boundary_snap_len (drop k bs) = length (drop k bs)"
proof (cases "k < length bs")
  case True
  define s where "s = last_start bs (length bs - 1)"
  have s: "s < length bs" using True last_start_props(1) [of bs "length bs - 1"] by (simp add: s_def)
  have start: "last_start (drop k bs) (length (drop k bs) - 1) = s - k"
    using True last_start_drop [of "length (drop k bs) - 1" k bs] by (simp add: s_def)
  have ne: "bs \<noteq> []" "drop k bs \<noteq> []" using True by auto
  note eq = snap_eq [OF ne(1), folded s_def] and eq' = snap_eq [OF ne(2), unfolded start]
  show ?thesis
  proof (cases "k \<le> s")
    case le: True
    then have "drop k bs ! (s - k) = bs ! s" using s by simp
    then show ?thesis using assms le s eq eq' by (cases "utf8_width (bs ! s)") (simp_all split: if_splits)
  next
    case False
    then have "utf8_continuation (bs ! k)" using last_start_props(2) [of bs "length bs - 1" k] True by (simp add: s_def)
    then have "utf8_width (drop k bs ! (s - k)) = None" using False True utf8_width_continuation by simp
    then show ?thesis using eq' by simp
  qed
qed (simp add: utf8_boundary_snap_len_def)

section \<open>The turns of a job\<close>

text \<open>
  The history at a turn, and the position of its first byte, still have the window that the job
  replays at its place.
\<close>

definition covers :: "u64 \<Rightarrow> bytes \<Rightarrow> bytes \<times> u64 \<Rightarrow> bool" where
  "covers start w = (\<lambda>(history, history_start_abs).
     unat history_start_abs \<le> unat start \<and>
     unat start - unat history_start_abs + length w \<le> length history \<and>
     take (length w) (drop (unat start - unat history_start_abs) history) = w \<and>
     unat history_start_abs + length history < 2 ^ 64)"

definition job_at :: "u64 \<Rightarrow> bytes \<Rightarrow> nat \<Rightarrow> nat \<Rightarrow> GhosttyReloadJob \<Rightarrow> bool" where
  "job_at start w i q job \<longleftrightarrow>
     rj_start_abs job = start \<and> unat (rj_end_abs job) = unat start + length w \<and> unat start + length w < 2 ^ 64 \<and>
     unat (rj_offset job) = i \<and> i \<le> length w \<and> rj_seq job = of_nat q \<and> q < 2 ^ 32 \<and> rj_pending_response job = None"

definition start_message :: "bytes \<Rightarrow> GhosttyReloadJob \<Rightarrow> GhosttyResponse list" where
  "start_message w job = (if rj_started job then [] else [ReloadStartedV2 (rj_reload_id job) (Some (of_nat (length w)))])"

fun chunk_messages :: "u64 \<Rightarrow> bool \<Rightarrow> nat \<Rightarrow> nat \<Rightarrow> nat \<Rightarrow> bytes \<Rightarrow> bytes list \<Rightarrow> GhosttyResponse list" where
  "chunk_messages reload_id truncated whole seq loaded pending [] = []"
| "chunk_messages reload_id truncated whole seq loaded pending (piece # pieces) =
     (let loaded = loaded + length piece; (bs, pending') = replay_feed pending piece (pieces = [])
      in ReloadChunkV2 reload_id (of_nat seq)
           \<lparr>pg_loaded_bytes = of_nat loaded, pg_total_bytes = Some (of_nat whole), pg_retained_history_truncated = truncated,
            pg_complete = (pieces = [])\<rparr> bs #
         chunk_messages reload_id truncated whole (Suc seq) loaded pending' pieces)"

lemma try_send_room: "\<not> ch_closed c \<Longrightarrow> 0 < ch_room c \<Longrightarrow> try_send x c = (SendOk, c\<lparr>ch_sent := ch_sent c @ [x]\<rparr>)"
  by (simp add: try_send_def)

lemma job_at_words:
  assumes "job_at start w i q job"
  shows "saturating_sub (rj_end_abs job) start = of_nat (length w)" "unat (saturating_add start (rj_offset job)) = unat start + i"
proof -
  show "saturating_sub (rj_end_abs job) start = of_nat (length w)"
    using assms by (simp add: job_at_def word_unat_eq_iff unat_saturating_sub unat_of_nat)
  show "unat (saturating_add start (rj_offset job)) = unat start + i"
    using assms by (simp add: job_at_def unat_saturating_add)
qed

lemma start_turn:
  assumes "job_at start w i q job" and "covers start w (history, h0)" and "\<not> ch_closed c" and "1 < ch_room c"
    and "ch_taken c \<le> length (ch_sent c)"
  shows "poll_send_next history h0 job c =
    send_next history h0 (job\<lparr>rj_started := True\<rparr>) (c\<lparr>ch_sent := ch_sent c @ start_message w job\<rparr>)"
proof -
  have "\<not> saturating_add (rj_start_abs job) (rj_offset job) < h0"
    using assms(1,2) job_at_words(2) [OF assms(1)] by (simp add: covers_def job_at_def word_less_nat_alt)
  then have turn: "poll_send_next history h0 job c = (if rj_started job then send_next history h0 job c
      else send_next history h0 (job\<lparr>rj_started := True\<rparr>) (c\<lparr>ch_sent := ch_sent c @ start_message w job\<rparr>))"
    using assms job_at_words(1) [OF assms(1)] try_send_room [OF assms(3)]
    by (auto simp: poll_send_next_def start_and_send_def job_at_def start_message_def)
  show ?thesis
  proof (cases "rj_started job")
    case True
    then have "job\<lparr>rj_started := True\<rparr> = job" "c\<lparr>ch_sent := ch_sent c @ start_message w job\<rparr> = c"
      by (simp_all add: start_message_def)
    then show ?thesis using turn True by metis
  qed (use turn in simp)
qed

lemma end_turn:
  assumes "job_at start w (length w) q job" and "\<not> ch_closed c" and "0 < ch_room c"
  shows "send_next history h0 job c =
    (True, job, c\<lparr>ch_sent := ch_sent c @ [ReloadDoneV2 (rj_reload_id job) (rj_final_generation job)]\<rparr>)"
  using assms job_at_words(2) [OF assms(1)] try_send_room [OF assms(2,3)]
  by (simp add: send_next_def job_at_def word_le_nat_alt)


definition next_piece :: "bytes \<Rightarrow> bytes" where
  "next_piece w = (let r = take GHOSTTY_ATTACH_V2_HISTORY_CHUNK w in take (utf8_boundary_snap_len r) r)"

lemma covered_chunk:
  assumes "covers start w (history, h0)" and "i < length w"
  shows "vec_deque_chunk history (min (unat start + i - unat h0) (length history))
      (min (min (length w - i) (unat h0 + length history - (unat start + i))) GHOSTTY_ATTACH_V2_HISTORY_CHUNK) = next_piece (drop i w)"
proof -
  define p where "p = unat start - unat h0"
  have cov: "unat h0 \<le> unat start" "p + length w \<le> length history" "take (length w) (drop p history) = w"
    using assms(1) by (auto simp: covers_def p_def)
  have rel: "min (unat start + i - unat h0) (length history) = p + i" using cov(1,2) assms(2) by (simp add: p_def)
  have len: "min (min (length w - i) (unat h0 + length history - (unat start + i))) GHOSTTY_ATTACH_V2_HISTORY_CHUNK =
      min (length w - i) GHOSTTY_ATTACH_V2_HISTORY_CHUNK"
    using cov(1,2) by (simp add: p_def)
  have "drop i w = take (length w - i) (drop (p + i) history)"
    by (subst cov(3) [symmetric]) (simp add: drop_take add.commute)
  then have "take (min (length w - i) GHOSTTY_ATTACH_V2_HISTORY_CHUNK) (drop (p + i) history) = take GHOSTTY_ATTACH_V2_HISTORY_CHUNK (drop i w)"
    by (simp add: min.commute)
  then show ?thesis unfolding rel len by (simp add: vec_deque_chunk_def next_piece_def Let_def)
qed

lemma chunk_turn:
  assumes "job_at start w i q job" and "i < length w" and "covers start w (history, h0)" and "\<not> ch_closed c" and "0 < ch_room c"
    and "next_piece (drop i w) \<noteq> []" and "j = i + length (next_piece (drop i w))" and "Suc q < 2 ^ 32"
    and "replay_feed (rj_replay_sanitizer job) (next_piece (drop i w)) (j = length w) = (bs, pending)"
  shows "send_next history h0 job c =
    (False, job\<lparr>rj_replay_sanitizer := pending, rj_offset := of_nat j, rj_seq := of_nat (Suc q)\<rparr>,
     c\<lparr>ch_sent := ch_sent c @ [ReloadChunkV2 (rj_reload_id job) (of_nat q)
       \<lparr>pg_loaded_bytes = of_nat j, pg_total_bytes = Some (of_nat (length w)),
        pg_retained_history_truncated = rj_retained_history_truncated job, pg_complete = (j = length w)\<rparr> bs]\<rparr>)"
proof -
  let ?cur = "saturating_add start (rj_offset job)" and ?stop = "saturating_add h0 (of_nat (length history))"
  have job: "rj_start_abs job = start" "unat (rj_end_abs job) = unat start + length w" "unat start + length w < 2 ^ 64"
      "unat (rj_offset job) = i" "rj_seq job = of_nat q"
    using assms(1) by (simp_all add: job_at_def)
  have cov: "unat h0 \<le> unat start" "unat start - unat h0 + length w \<le> length history" "unat h0 + length history < 2 ^ 64"
    using assms(3) by (auto simp: covers_def)
  have cur: "unat ?cur = unat start + i" by (rule job_at_words(2) [OF assms(1)])
  have fin: "unat ?stop = unat h0 + length history" by (rule unat_saturating_fits [OF cov(3)])
  have len: "length (next_piece (drop i w)) \<le> length w - i" by (simp add: next_piece_def Let_def)
  then have j: "i < j" "j \<le> length w" using assms(2,6,7) by auto
  have "unat (saturating_add (rj_offset job) (of_nat (length (next_piece (drop i w))))) = j"
    using assms(7) job(3,4) j unat_saturating_fits [of "rj_offset job" "length (next_piece (drop i w))"] by simp
  moreover have "unat (of_nat j :: u64) = j" using j(2) job(3) by (simp add: unat_of_nat)
  ultimately have loaded: "saturating_add (rj_offset job) (of_nat (length (next_piece (drop i w)))) = of_nat j"
    by (simp only: word_unat_eq_iff)
  have finished: "rj_end_abs job \<le> saturating_add start (of_nat j) \<longleftrightarrow> j = length w"
    using job(2,3) j(2) unat_saturating_fits [of start j] by (auto simp: word_le_nat_alt)
  have "unat (of_nat n :: u64) = n" if "n < 2 ^ 32" for n using that by (simp add: unat_of_nat)
  from this [of q] this [OF assms(8)] have seq: "saturating_add (of_nat q) 1 = (of_nat (Suc q) :: u64)"
    using assms(8) by (simp only: word_unat_eq_iff unat_saturating_add) simp
  have chunk: "vec_deque_chunk history (min (unat (saturating_sub ?cur h0)) (length history))
      (min (min (unat (saturating_sub (rj_end_abs job) ?cur)) (unat (saturating_sub ?stop ?cur))) GHOSTTY_ATTACH_V2_HISTORY_CHUNK) =
      next_piece (drop i w)"
    using covered_chunk [OF assms(3,2)] by (simp add: unat_saturating_sub cur fin job(2))
  have before: "\<not> rj_end_abs job \<le> ?cur" "\<not> ?stop \<le> ?cur"
    using assms(2) cov(1,2) cur fin job(2) by (auto simp: word_le_nat_alt)
  have some: "min (min (unat (saturating_sub (rj_end_abs job) ?cur)) (unat (saturating_sub ?stop ?cur))) GHOSTTY_ATTACH_V2_HISTORY_CHUNK \<noteq> 0"
    using assms(2) cov(1,2) cur fin job(2) by (simp add: unat_saturating_sub GHOSTTY_ATTACH_V2_HISTORY_CHUNK_def)
  show ?thesis
    unfolding send_next_def send_chunk_def job(1,5) Let_def if_not_P [OF before(1)] if_not_P [OF before(2)] if_not_P [OF some]
      chunk if_not_P [OF assms(6)] loaded finished assms(9) seq
    using job_at_words(1) [OF assms(1)] try_send_room [OF assms(4,5)] by simp
qed

lemma next_piece_take: "next_piece w = take (length (next_piece w)) w"
  using snap_bounds(1) [of "take GHOSTTY_ATTACH_V2_HISTORY_CHUNK w"] by (simp add: next_piece_def Let_def min_def)

lemma next_piece_long:
  assumes "utf8_boundary_snap_len w = length w"
  shows "next_piece w = w \<or> GHOSTTY_ATTACH_V2_HISTORY_CHUNK - 3 \<le> length (next_piece w)"
proof (cases "length w \<le> GHOSTTY_ATTACH_V2_HISTORY_CHUNK")
  case False
  then show ?thesis using snap_bounds [of "take GHOSTTY_ATTACH_V2_HISTORY_CHUNK w"] by (simp add: next_piece_def Let_def)
qed (use assms in \<open>simp add: next_piece_def\<close>)

text \<open>How many chunks a window of some length takes at most, and the turns of a job until it is done.\<close>

definition chunks_at_most :: "nat \<Rightarrow> nat" where
  "chunks_at_most n = (if n = 0 then 0 else n div (GHOSTTY_ATTACH_V2_HISTORY_CHUNK - 3) + 1)"

lemma chunks_at_most_step:
  assumes "w \<noteq> []" and "utf8_boundary_snap_len w = length w"
  shows "next_piece w \<noteq> []" "Suc (chunks_at_most (length w - length (next_piece w))) \<le> chunks_at_most (length w)"
proof -
  let ?k = "GHOSTTY_ATTACH_V2_HISTORY_CHUNK - 3" and ?p = "length (next_piece w)"
  have k: "0 < ?k" by (simp add: GHOSTTY_ATTACH_V2_HISTORY_CHUNK_def)
  then show "next_piece w \<noteq> []" using next_piece_long [OF assms(2)] assms(1) by auto
  show "Suc (chunks_at_most (length w - ?p)) \<le> chunks_at_most (length w)"
  proof (cases "length w \<le> ?p")
    case False
    then have "?k \<le> ?p" using next_piece_long [OF assms(2)] by auto
    then have "Suc ((length w - ?p) div ?k) \<le> Suc ((length w - ?k) div ?k)" by (simp add: div_le_mono)
    also have "\<dots> = length w div ?k" using k False \<open>?k \<le> ?p\<close> by (simp add: le_div_geq)
    finally show ?thesis using False assms(1) by (simp add: chunks_at_most_def)
  qed (use assms(1) in \<open>simp add: chunks_at_most_def\<close>)
qed

fun poll_until_done ::
  "(bytes \<times> u64) list \<Rightarrow> GhosttyReloadJob \<Rightarrow> GhosttyResponse channel \<Rightarrow> bool \<times> GhosttyReloadJob \<times> GhosttyResponse channel" where
  "poll_until_done [] job c = (False, job, c)"
| "poll_until_done ((history, history_start_abs) # hs) job c =
     (let (finished, job', c') = poll_send_next history history_start_abs job c
      in if finished then (True, job', c') else poll_until_done hs job' c')"

lemma chunk_step:
  assumes "job_at start w i q job" and "i < length w" and "covers start w (history, h0)" and "\<not> ch_closed c" and "1 < ch_room c"
    and "ch_taken c \<le> length (ch_sent c)" and "next_piece (drop i w) \<noteq> []" and "j = i + length (next_piece (drop i w))"
    and "Suc q < 2 ^ 32" and "replay_feed (rj_replay_sanitizer job) (next_piece (drop i w)) (j = length w) = (bs, pending)"
  obtains job' c' where "poll_send_next history h0 job c = (False, job', c')" and "job_at start w j (Suc q) job'"
    and "rj_started job'" and "rj_reload_id job' = rj_reload_id job" and "rj_final_generation job' = rj_final_generation job"
    and "rj_retained_history_truncated job' = rj_retained_history_truncated job" and "rj_replay_sanitizer job' = pending"
    and "\<not> ch_closed c'" and "ch_taken c' = ch_taken c" and "ch_capacity c' = ch_capacity c"
    and "ch_sent c' = ch_sent c @ start_message w job @ [ReloadChunkV2 (rj_reload_id job) (of_nat q)
       \<lparr>pg_loaded_bytes = of_nat j, pg_total_bytes = Some (of_nat (length w)),
        pg_retained_history_truncated = rj_retained_history_truncated job, pg_complete = (j = length w)\<rparr> bs]"
proof -
  let ?job = "job\<lparr>rj_started := True\<rparr>" and ?c = "c\<lparr>ch_sent := ch_sent c @ start_message w job\<rparr>"
  have at: "job_at start w i q ?job" using assms(1) by (simp add: job_at_def)
  have "length (start_message w job) \<le> 1" by (simp add: start_message_def)
  then have room: "0 < ch_room ?c" using assms(5,6) by (simp add: ch_room_def)
  have chunk: "send_next history h0 ?job ?c =
    (False, ?job\<lparr>rj_replay_sanitizer := pending, rj_offset := of_nat j, rj_seq := of_nat (Suc q)\<rparr>,
     ?c\<lparr>ch_sent := ch_sent ?c @ [ReloadChunkV2 (rj_reload_id ?job) (of_nat q)
       \<lparr>pg_loaded_bytes = of_nat j, pg_total_bytes = Some (of_nat (length w)),
        pg_retained_history_truncated = rj_retained_history_truncated ?job, pg_complete = (j = length w)\<rparr> bs]\<rparr>)"
    by (rule chunk_turn [OF at assms(2,3) _ room assms(7-9)]) (use assms(4,10) in simp_all)
  have "j \<le> length w" using assms(2,8) by (simp add: next_piece_def Let_def)
  then have "unat (of_nat j :: u64) = j" using assms(1) by (simp add: job_at_def unat_of_nat)
  then have "job_at start w j (Suc q) (?job\<lparr>rj_replay_sanitizer := pending, rj_offset := of_nat j, rj_seq := of_nat (Suc q)\<rparr>)"
    using assms(1,9) \<open>j \<le> length w\<close> by (simp add: job_at_def)
  from that [OF trans [OF start_turn [OF assms(1,3-6)] chunk] this] show thesis using assms(4) by simp
qed

lemma reload_turns:
  assumes "job_at start w i q job" and "list_all (covers start w) hs" and "chunks_at_most (length w - i) < length hs"
    and "\<not> ch_closed c" and "chunks_at_most (length w - i) + length (start_message w job) + 1 < ch_room c" and "ch_taken c \<le> length (ch_sent c)"
    and "utf8_boundary_snap_len (drop i w) = length (drop i w)" and "q + chunks_at_most (length w - i) < 2 ^ 32"
  shows "\<exists>pieces job' c'. poll_until_done hs job c = (True, job', c') \<and> concat pieces = drop i w \<and> [] \<notin> set pieces \<and>
    length pieces \<le> chunks_at_most (length w - i) \<and>
    ch_sent c' = ch_sent c @ start_message w job @
      chunk_messages (rj_reload_id job) (rj_retained_history_truncated job) (length w) q i (rj_replay_sanitizer job) pieces @
      [ReloadDoneV2 (rj_reload_id job) (rj_final_generation job)]"
  using assms
proof (induction hs arbitrary: i q job c)
  case (Cons h hs)
  obtain history h0 where h: "h = (history, h0)" by fastforce
  have cov: "covers start w (history, h0)" using Cons.prems(2) h by simp
  show ?case
  proof (cases "i = length w")
    case True
    let ?job = "job\<lparr>rj_started := True\<rparr>" and ?c = "c\<lparr>ch_sent := ch_sent c @ start_message w job\<rparr>"
    have "job_at start w (length w) q ?job" using Cons.prems(1) True by (simp add: job_at_def)
    moreover have "0 < ch_room ?c" using Cons.prems(5,6) by (simp add: ch_room_def start_message_def)
    ultimately show ?thesis
      using True end_turn [of start w q ?job ?c history h0] start_turn [OF Cons.prems(1) cov Cons.prems(4) _ Cons.prems(6)] Cons.prems(4,5)
      by (intro exI [of _ "[]"]) (simp add: h)
  next
    case False
    then have i: "i < length w" using Cons.prems(1) by (simp add: job_at_def)
    define p where "p = next_piece (drop i w)"
    have ne: "drop i w \<noteq> []" using i by simp
    have p: "p \<noteq> []" "Suc (chunks_at_most (length w - (i + length p))) \<le> chunks_at_most (length w - i)"
      using chunks_at_most_step [OF ne Cons.prems(7)] by (simp_all add: p_def)
    have cut: "drop i w = p @ drop (i + length p) w"
      using next_piece_take [of "drop i w"] append_take_drop_id [of "length p" "drop i w"] by (simp add: p_def add.commute)
    obtain bs pending where f: "replay_feed (rj_replay_sanitizer job) p (i + length p = length w) = (bs, pending)" by fastforce
    have "1 < ch_room c" "Suc q < 2 ^ 32" using Cons.prems(5,8) p(2) by simp_all
    from chunk_step [OF Cons.prems(1) i cov Cons.prems(4) this(1) Cons.prems(6), of "i + length p" bs pending, folded p_def, OF p(1) refl this(2) f]
    obtain job' c' where s: "poll_send_next history h0 job c = (False, job', c')" "job_at start w (i + length p) (Suc q) job'"
        "rj_started job'" "rj_reload_id job' = rj_reload_id job" "rj_final_generation job' = rj_final_generation job"
        "rj_retained_history_truncated job' = rj_retained_history_truncated job" "rj_replay_sanitizer job' = pending"
      and c': "\<not> ch_closed c'" "ch_taken c' = ch_taken c" "ch_capacity c' = ch_capacity c"
        "ch_sent c' = ch_sent c @ start_message w job @ [ReloadChunkV2 (rj_reload_id job) (of_nat q)
          \<lparr>pg_loaded_bytes = of_nat (i + length p), pg_total_bytes = Some (of_nat (length w)),
           pg_retained_history_truncated = rj_retained_history_truncated job, pg_complete = (i + length p = length w)\<rparr> bs]" by blast
    have room: "chunks_at_most (length w - (i + length p)) + length (start_message w job') + 1 < ch_room c'"
      using Cons.prems(5,6) p(2) c' s(3) by (simp add: ch_room_def start_message_def)
    have snap: "utf8_boundary_snap_len (drop (i + length p) w) = length (drop (i + length p) w)"
      using snap_suffix [OF Cons.prems(7), of "length p"] by (simp add: add.commute)
    from Cons.IH [OF s(2) _ _ c'(1) room _ snap] obtain pieces job'' c'' where IH: "poll_until_done hs job' c' = (True, job'', c'')"
        "concat pieces = drop (i + length p) w" "[] \<notin> set pieces" "length pieces \<le> chunks_at_most (length w - (i + length p))"
        "ch_sent c'' = ch_sent c' @ start_message w job' @
          chunk_messages (rj_reload_id job') (rj_retained_history_truncated job') (length w) (Suc q) (i + length p) (rj_replay_sanitizer job') pieces @
          [ReloadDoneV2 (rj_reload_id job') (rj_final_generation job')]"
      using Cons.prems p(2) c' by (auto simp: start_message_def)
    have "i + length p = length w \<longleftrightarrow> pieces = []" using IH(2,3) arg_cong [OF cut, of length] i by (cases pieces) auto
    then have sent: "ch_sent c'' = ch_sent c @ start_message w job @
        chunk_messages (rj_reload_id job) (rj_retained_history_truncated job) (length w) q i (rj_replay_sanitizer job) (p # pieces) @
        [ReloadDoneV2 (rj_reload_id job) (rj_final_generation job)]"
      using IH(5) f s c'(4) by (simp add: start_message_def)
    have "poll_until_done (h # hs) job c = (True, job'', c'')" by (simp add: h s(1) IH(1))
    moreover have "concat (p # pieces) = drop i w" using cut IH(2) by simp
    moreover have "[] \<notin> set (p # pieces)" "length (p # pieces) \<le> chunks_at_most (length w - i)" using p IH(3,4) by simp_all
    ultimately show ?thesis using sent by blast
  qed
qed simp

lemma reply_kept: "rj_reply (fst (snd (poll_send_next history h0 job c))) = rj_reply job"
proof -
  have chunk: "rj_reply (fst (snd (send_chunk history h0 job c))) = rj_reply job" for job c
    by (simp add: send_chunk_def Let_def split_def split: SendOutcome.split)
  have "rj_reply (fst (snd (send_next history h0 job c))) = rj_reply job" for job c
    by (simp add: send_next_def chunk split: prod.split SendOutcome.split)
  then have "rj_reply (fst (snd (start_and_send history h0 job c))) = rj_reply job" for job c
    by (simp add: start_and_send_def Let_def split: prod.split SendOutcome.split)
  then show ?thesis by (simp add: poll_send_next_def split: option.split prod.split SendOutcome.split)
qed

fun shown_bytes :: "GhosttyResponse \<Rightarrow> bytes" where
  "shown_bytes (ReloadChunkV2 _ _ _ bs) = bs"
| "shown_bytes _ = []"

lemma chunk_messages_bytes:
  "concat (map shown_bytes (chunk_messages reload_id truncated whole seq loaded pending pieces)) = replay_feeds pending pieces"
proof (induction pending pieces arbitrary: seq loaded rule: replay_feeds.induct)
  case (3 pending p q ps)
  obtain bs pending' where f: "replay_feed pending p False = (bs, pending')" by fastforce
  show ?case using 3 [OF f [symmetric] refl] by (simp add: f Let_def split_def)
qed (simp_all add: Let_def split_def)

section \<open>A reload delivers its window\<close>




text \<open>The turns of a job are the turns of the loop: with nothing else to do, the loop polls it until it is done.\<close>

lemma reload_ticks:
  assumes "hp_result h = None" and "hp_reload_jobs h = [job]" and "rj_reply job < length (hp_replies h)"
    and "poll_until_done (replicate n (hp_history h, hp_history_start_abs h)) job (hp_replies h ! rj_reply job) = (True, job', c')"
  shows "hp_replies (helper_run X (replicate n (Inl (now, ReloadTick))) h) = (hp_replies h)[rj_reply job := c'] \<and>
    hp_reload_jobs (helper_run X (replicate n (Inl (now, ReloadTick))) h) = []"
  using assms
proof (induction n arbitrary: h job)
  case (Suc n)
  obtain fin job1 c1 where p: "poll_send_next (hp_history h) (hp_history_start_abs h) job (hp_replies h ! rj_reply job) = (fin, job1, c1)"
    by (metis prod_cases3)
  let ?h = "h\<lparr>hp_reload_jobs := if fin then [] else [job1], hp_replies := (hp_replies h)[rj_reply job := c1]\<rparr>"
  have step: "helper_run X (replicate (Suc n) (Inl (now, ReloadTick))) h = helper_run X (replicate n (Inl (now, ReloadTick))) ?h"
    using Suc.prems by (simp add: helper_run_def helper_turn_def p)
  show ?case
  proof (cases fin)
    case True
    have "helper_run X (replicate n (Inl (now, ReloadTick))) g = g" if "hp_result g = None" "hp_reload_jobs g = []" for n and g :: "'a Helper"
    proof -
      have "helper_step X (Inl (now, ReloadTick)) g = g" using that by (cases g) (simp add: helper_turn_def)
      then show ?thesis by (induction n) (simp_all add: helper_run_def)
    qed
    then show ?thesis using step Suc.prems True p by simp
  next
    case False
    have "rj_reply job1 = rj_reply job" using p reply_kept [of "hp_history h" "hp_history_start_abs h" job "hp_replies h ! rj_reply job"] by simp
    then show ?thesis using Suc.IH [of ?h job1] Suc.prems False p step by simp
  qed
qed simp

section \<open>Two viewers with one reload id\<close>

text \<open>A channel that no job answers on gets nothing more, whatever happens to the helper.\<close>

definition abandoned :: "nat \<Rightarrow> GhosttyResponse list \<Rightarrow> 'term Helper \<Rightarrow> bool" where
  "abandoned r sent h \<longleftrightarrow> r < length (hp_replies h) \<and> ch_sent (hp_replies h ! r) = sent \<and>
     (\<forall>job\<in>set (hp_reload_jobs h). rj_reply job \<noteq> r)"

lemma poll_jobs_abandoned:
  "(\<forall>job\<in>set jobs. rj_reply job \<noteq> r) \<Longrightarrow>
     length (snd (poll_jobs history h0 jobs cs)) = length cs \<and> snd (poll_jobs history h0 jobs cs) ! r = cs ! r \<and>
     (\<forall>job\<in>set (fst (poll_jobs history h0 jobs cs)). rj_reply job \<noteq> r)"
proof (induction history h0 jobs cs rule: poll_jobs.induct)
  case (2 history h0 job jobs cs)
  obtain fin job' c where p: "poll_send_next history h0 job (cs ! rj_reply job) = (fin, job', c)" by (metis prod_cases3)
  moreover have "rj_reply job' = rj_reply job" using p reply_kept [of history h0 job "cs ! rj_reply job"] by simp
  ultimately show ?case using 2 by (auto simp: split_def Let_def)
qed simp

lemma cancel_oldest_abandoned:
  "(\<forall>job\<in>set jobs. rj_reply job \<noteq> r) \<Longrightarrow>
     length (snd (cancel_oldest jobs cs)) = length cs \<and> snd (cancel_oldest jobs cs) ! r = cs ! r \<and>
     set (fst (cancel_oldest jobs cs)) \<subseteq> set jobs"
proof (induction jobs cs rule: cancel_oldest.induct)
  case (1 jobs cs)
  show ?case
  proof (cases "GHOSTTY_ATTACH_V2_MAX_RELOAD_JOBS \<le> length jobs")
    case True
    then obtain job rest where j: "jobs = job # rest" by (cases jobs) (auto simp: GHOSTTY_ATTACH_V2_MAX_RELOAD_JOBS_def)
    then show ?thesis using 1 True by (subst (1 2 3) cancel_oldest.simps) auto
  qed (subst (1 2 3) cancel_oldest.simps, simp)
qed

lemma start_reload_abandons:
  assumes "r < length (hp_replies h)" and "\<And>job. job \<in> set (hp_reload_jobs h) \<Longrightarrow> rj_reply job = r \<Longrightarrow> rj_reload_id job = reload_id"
  shows "abandoned r (ch_sent (hp_replies h ! r)) (fst (start_reload X reload_id h))"
proof -
  define jobs cs where "jobs = filter (\<lambda>job. rj_reload_id job \<noteq> reload_id) (hp_reload_jobs h)"
    and "cs = hp_replies h @ [new_channel GHOSTTY_ATTACH_V2_QUEUE]"
  have jobs: "\<forall>job\<in>set jobs. rj_reply job \<noteq> r" using assms(2) by (auto simp: jobs_def)
  note cancel_oldest_abandoned [OF jobs, of cs]
  then show ?thesis
    using assms(1) jobs
    by (auto simp: start_reload_def abandoned_def Let_def split_def nth_append new_reload_job_def nth_list_update cs_def jobs_def)
qed

lemma abandoned_same:
  "abandoned r sent h \<Longrightarrow> hp_replies g = hp_replies h \<Longrightarrow> set (hp_reload_jobs g) \<subseteq> set (hp_reload_jobs h) \<Longrightarrow> abandoned r sent g"
  by (auto simp: abandoned_def)

lemma helper_command_abandoned:
  assumes "abandoned r sent h"
  shows "abandoned r sent (fst (helper_command X now cmd h))"
proof (cases cmd)
  case (ReloadV2 reload_id)
  have "abandoned r (ch_sent (hp_replies h ! r)) (fst (start_reload X reload_id h))"
    by (rule start_reload_abandons) (use assms in \<open>auto simp: abandoned_def\<close>)
  then show ?thesis using assms ReloadV2 by (simp add: abandoned_def)
next
  case (Input bs)
  then show ?thesis by (intro abandoned_same [OF assms]) (auto split: sum.split)
next
  case (Run argv result)
  then show ?thesis
    by (intro abandoned_same [OF assms]) (auto simp: seen_at_def process_output_fields(5,6) split: sum.split)
qed (intro abandoned_same [OF assms]; simp add: seen_at_def Let_def split_def resize_helper_fields subscribe_v2_fields; fastforce)+

lemma helper_event_abandoned:
  assumes "abandoned r sent h"
  shows "abandoned r sent (fst (helper_event X now ev h))"
proof (cases ev)
  case (ChildExited status)
  then show ?thesis by (intro abandoned_same [OF assms]) (auto simp: session_ended_def split: sum.split)
next
  case (PtyRead answer)
  then show ?thesis
    by (intro abandoned_same [OF assms]) (auto simp: session_ended_def process_output_fields(5,6) split: sum.split option.split)
next
  case (PtyWrite answer)
  then show ?thesis
    by (intro abandoned_same [OF assms]) (auto simp: write_pending_def split: option.split WriteAnswer.split)
qed (use assms helper_command_abandoned in auto)

lemma update_nth_nth: "(update_nth f n xs ! r) = (if r = n \<and> r < length xs then f (xs ! r) else xs ! r)" "length (update_nth f n xs) = length xs"
  by (induction f n xs arbitrary: r rule: update_nth.induct) (auto simp: nth_Cons split: nat.split)

lemma abandoned_step:
  assumes "abandoned r sent h"
  shows "abandoned r sent (helper_step X ev h)"
proof (cases ev)
  case (Inl turn)
  obtain now e where t: "turn = (now, e)" by fastforce
  obtain jobs cs where p: "poll_jobs (hp_history h) (hp_history_start_abs h) (hp_reload_jobs h) (hp_replies h) = (jobs, cs)" by fastforce
  have "abandoned r sent (h\<lparr>hp_reload_jobs := jobs, hp_replies := cs\<rparr>)"
    using assms poll_jobs_abandoned [of "hp_reload_jobs h" r "hp_history h" "hp_history_start_abs h" "hp_replies h"] p
    by (auto simp: abandoned_def)
  then show ?thesis using assms by (simp add: Inl t helper_turn_def p helper_event_abandoned)
next
  case (Inr v)
  then show ?thesis using assms by (cases v) (auto simp: abandoned_def update_nth_nth ch_take_def)
qed

lemma abandoned_run: "abandoned r sent h \<Longrightarrow> abandoned r sent (helper_run X evs h)"
  unfolding helper_run_def by (induction evs arbitrary: h) (simp_all add: abandoned_step)

text \<open>
  Reload ids are counted by each viewer on its own, and jobs are told apart by them alone.  When a
  second viewer asks for a reload with the id of a job that is under way, the first viewer gets
  nothing more on its channel, neither the end of its reload nor word that it was cancelled, whatever
  happens to the helper from then on.
\<close>

lemma reload_id_collision:
  assumes "r < length (hp_replies h)" and "\<And>job. job \<in> set (hp_reload_jobs h) \<Longrightarrow> rj_reply job = r \<Longrightarrow> rj_reload_id job = reload_id"
  shows "ch_sent (hp_replies (helper_run X evs (fst (helper_command X now (ReloadV2 reload_id) h))) ! r) = ch_sent (hp_replies h ! r)"
  using abandoned_run [OF start_reload_abandons [OF assms]] by (simp add: abandoned_def)

end
