(* ===== verification/Spec2Isabelle.thy ===== *)
theory Spec2Isabelle
  imports Prelude Ticket_Schema Ticket_Canonical Caps_Narrowing Wire Caps_Enforce Ticket_Crypto Ticket_Mint Ticket_Verify
    Revocations Pipeline Meta_Handler Gateway Udp_Registry Query_Stripper Query_Response_Filter Terminal_Mode
    Pty_Queue Pty_Task Attach_Control Tmux_Control Frames Herdr_Wire Watchdog
    Peer_Store Pairing Target_Resolve Stream_Io Tcp_Handler Unix_Handler Ticket_Handler Agent Connect Alias_Store Session_Share Rendezvous Share_Connect
    Utf8_Lossy Ghostty_Replay Ghostty_Helper Ghostty_Reload
begin

text \<open>
  \<^bold>\<open>A verification development for portl.\<close>

  portl connects machines that trust each other.  An \<^emph>\<open>agent\<close> runs on every machine and accepts
  connections that bring a \<^emph>\<open>ticket\<close>, a signed list of capabilities that may be delegated along a
  chain; an accepted connection opens streams for shells, sessions and forwarded TCP, UDP and Unix
  sockets.  Trust comes from pairing with an invite code, from a ticket that was saved, or from a
  session somebody shared over a rendezvous server.  A session runs in a helper process and is seen
  through a terminal; the bytes in both directions pass through filters.  The theories follow these
  parts.  Paths below are relative to \<^verbatim>\<open>src/crates\<close>.

  \<^bold>\<open>How the code is modelled.\<close>  A struct is a record, an enum a datatype, a fixed width integer a
  word, a string the list of its UTF-8 bytes, a hash map an association list or a function, a
  \<^verbatim>\<open>Result\<close> a sum with the error on the left.  What a function reads besides its arguments is an
  argument: the clock, the random draws, the contents of files and whether writing them succeeds.
  An asynchronous loop is a machine whose events are the turns of the loop with what the operating
  system answered.  A bounded channel is the list of all that was sent into it and the number of
  messages taken.  Code of other crates is a record of functions that the definitions take as an
  argument, and a predicate states the laws a theorem relies on: postcard, serde_json and bincode as
  encodings, SHA-256, Ed25519, SPAKE2, HKDF and secretbox, hex and base32, the terminal emulator.

  \<^bold>\<open>Tickets\<close> (\<^verbatim>\<open>portl-core/src/ticket\<close>, \<^verbatim>\<open>portl-core/src/caps.rs\<close>).  \<open>Ticket_Schema\<close>,
  \<open>Ticket_Canonical\<close>, \<open>Ticket_Crypto\<close>, \<open>Ticket_Mint\<close> and \<open>Ticket_Verify\<close> have the operations of the
  files of the same name, \<open>Caps_Narrowing\<close> the comparison of capabilities.  The lemmas show that
  narrowing is a preorder and attenuates every permission (locale \<open>attenuation\<close>), that an accepted
  chain is signed and narrowing throughout, and that a minted child is accepted; the locale
  \<open>chain_verifier\<close> holds what the client's and the agent's verifier have in common.

  \<^bold>\<open>Acceptance\<close> (\<^verbatim>\<open>portl-agent/src\<close>: \<^verbatim>\<open>caps_enforce.rs\<close>, \<^verbatim>\<open>revocations.rs\<close>, \<^verbatim>\<open>pipeline.rs\<close>,
  \<^verbatim>\<open>ticket_handler.rs\<close>, \<^verbatim>\<open>conn_registry.rs\<close>, \<^verbatim>\<open>meta_handler.rs\<close>, \<^verbatim>\<open>lib.rs\<close>).  \<open>Caps_Enforce\<close>,
  \<open>Revocations\<close>, \<open>Pipeline\<close>, \<open>Ticket_Handler\<close>, \<open>Meta_Handler\<close> and \<open>Agent\<close>.  The lemmas say exactly
  when an offer is accepted, that a revoked chain is refused and its live sessions are cancelled,
  that revocations survive a restart, that every live session of the running agent was granted by
  an accepted chain, and what a reload of the peer file does to trust.

  \<^bold>\<open>Streams\<close> (\<^verbatim>\<open>portl-core/src/io.rs\<close>, \<^verbatim>\<open>portl-core/src/wire\<close>, \<^verbatim>\<open>portl-agent/src\<close>:
  \<^verbatim>\<open>tcp_handler.rs\<close>, \<^verbatim>\<open>unix_handler.rs\<close>, \<^verbatim>\<open>udp_registry.rs\<close>, \<^verbatim>\<open>udp_handler.rs\<close>, \<^verbatim>\<open>gateway.rs\<close>,
  \<^verbatim>\<open>network_watchdog.rs\<close>).  \<open>Stream_Io\<close>, \<open>Wire\<close>, \<open>Tcp_Handler\<close>, \<open>Unix_Handler\<close>, \<open>Udp_Registry\<close>,
  \<open>Gateway\<close> and \<open>Watchdog\<close>.  The lemmas show that only permitted sockets are opened and permitted
  datagrams sent, that forwarding copies exactly, that files made for a socket are contained, that
  quotas hold, that the gateway sends one authorization header, and when the watchdog asks for a
  new endpoint.

  \<^bold>\<open>Trust between installations\<close> (\<^verbatim>\<open>portl-core/src\<close>: \<^verbatim>\<open>peer_store.rs\<close>, \<^verbatim>\<open>ticket_store.rs\<close>,
  \<^verbatim>\<open>ticket_save.rs\<close>, \<^verbatim>\<open>labels.rs\<close>, \<^verbatim>\<open>pair_code.rs\<close>, \<^verbatim>\<open>pair_store.rs\<close>, \<^verbatim>\<open>pair_accept.rs\<close>,
  \<^verbatim>\<open>target_resolve.rs\<close>, \<^verbatim>\<open>session_share.rs\<close>, \<^verbatim>\<open>rendezvous\<close>; \<^verbatim>\<open>portl-agent/src/pair_handler.rs\<close>;
  \<^verbatim>\<open>portl-cli/src\<close>: \<^verbatim>\<open>alias_store.rs\<close>, \<^verbatim>\<open>eid.rs\<close>, \<^verbatim>\<open>commands/accept.rs\<close>,
  \<^verbatim>\<open>commands/session_share.rs\<close>, \<^verbatim>\<open>commands/peer/unlink.rs\<close>).  \<open>Peer_Store\<close>, \<open>Pairing\<close>,
  \<open>Target_Resolve\<close>, \<open>Alias_Store\<close>, \<open>Session_Share\<close> and \<open>Rendezvous\<close>.  \<open>Connect\<close> and
  \<open>Share_Connect\<close> define nothing of the program: they compose the parts and show that two machines
  that paired, or a sender and a recipient of a share, end with a session the agent accepts.  The
  race between two requests with one invite is proved as the error it is.

  \<^bold>\<open>Terminals\<close> (\<^verbatim>\<open>portl-core/src\<close>: \<^verbatim>\<open>query_stripper.rs\<close>, \<^verbatim>\<open>query_response_filter.rs\<close>,
  \<^verbatim>\<open>terminal_mode_tracker.rs\<close>, \<^verbatim>\<open>attach_control.rs\<close>, \<^verbatim>\<open>terminal\<close>, \<^verbatim>\<open>herdr_wire.rs\<close>;
  \<^verbatim>\<open>portl-agent/src\<close>: \<^verbatim>\<open>shell_handler/pty_master.rs\<close>, \<^verbatim>\<open>session_handler/tmux_control.rs\<close>,
  \<^verbatim>\<open>session_handler/ghostty.rs\<close>).  \<open>Query_Stripper\<close>, \<open>Query_Response_Filter\<close>, \<open>Terminal_Mode\<close> and
  \<open>Attach_Control\<close> are byte machines (locales \<open>byte_machine\<close> and \<open>redacting_machine\<close> of \<open>Prelude\<close>):
  chunks do not matter, and exactly the queries and answers are taken out.  \<open>Pty_Queue\<close> refines the
  bounded queue of the locale \<open>byte_queue\<close>, \<open>Pty_Task\<close> writes input in order.  \<open>Frames\<close> has the
  locale \<open>framing\<close>, provided by the zmx protocol there and by \<open>Herdr_Wire\<close>; \<open>Tmux_Control\<close> decodes
  tmux's control mode, \<open>Utf8_Lossy\<close> the text of the standard library.  \<open>Ghostty_Replay\<close> is the
  sanitizer through which history is shown, \<open>Ghostty_Helper\<close> the process of a native session
  (\<^verbatim>\<open>run_helper\<close>): its live frames are exact and no gap is silent, and all its buffers are
  bounded.  \<open>Ghostty_Reload\<close> shows that a reload delivers its window in a bounded number of turns,
  and what two viewers with the same reload id do to each other.

  \<^bold>\<open>Termination and bounds.\<close>  Every definition is total; there is no fuel.  Loops over data
  are structural or have a measure; a loop that waits for the outside world is a fold over a
  finite list of events, and a liveness theorem names the events that are enough.  Lengths in
  memory are natural numbers, with the saturation of \<^verbatim>\<open>usize\<close> written out where the code adds them;
  counters, times and sequence numbers are words that wrap or saturate as in the code, and a theorem
  for which they must not states the bound.

  \<^bold>\<open>Not modelled.\<close>  The start of processes, signals and users (\<^verbatim>\<open>shell_handler\<close> apart from the
  terminal task), the session providers and the socket server of the helper, the drawing of
  viewports, QUIC endpoints, relays, metrics, audit records and logging, the client side of the
  streams (\<^verbatim>\<open>portl-core/src/net\<close>), the foreign function interface, the adapters for containers, and
  of the command line everything but the parts named above.  Most of this calls the operating
  system, the network or another program and decides little between the calls; the attach loop of
  \<^verbatim>\<open>portl-cli/src/commands/session.rs\<close>, which also coordinates viewports and reloads, is left out
  for its size.  Scheduling is modelled where a theorem depends on it, as the order of events or
  steps, and nowhere is a bound on time claimed.
\<close>

end
